(* ===== verification/Prelude.thy ===== *)
theory Prelude
  imports Complex_Main "HOL-Library.AList" "HOL-Library.Char_ord" "HOL-Library.List_Lexorder"
    "HOL-Library.Product_Lexorder" "HOL-Library.Sublist" "HOL-Library.Multiset"
begin

section \<open>Shared vocabulary: errors, strings, dictionaries\<close>

text \<open>
  What every component of the model uses: the exceptions of the Python code as a datatype
  and computations that may raise as sums, the operations of Python's \<^verbatim>\<open>str\<close> that the
  sources call, insertion-ordered dictionaries as association lists, and the generic
  lemmas about them. Strings are lists of bytes (the UTF-8 encoding of the text): their
  lexicographic order is the code point order Python sorts by. Case folding, white space
  and alphanumeric tests are modelled on the ASCII range.
\<close>

named_theorems res_simps \<open>equations of computations that may raise\<close>
named_theorems dict_simps \<open>lookups in and updates of dictionaries\<close>
named_theorems text_simps \<open>strings and their rendering\<close>

subsection \<open>Exceptions\<close>

datatype pyerr =
    TypeError
  | ValueError
  | KeyError
  | AttributeError
  | OverflowError
  | IndexError
  | Raised string
  | MissedFileError nat nat
  | DispatchLoopExitedEarlyError "(string \<times> int) list" nat

type_synonym 'a res = "pyerr + 'a"

fun bindE :: "'a res \<Rightarrow> ('a \<Rightarrow> 'b res) \<Rightarrow> 'b res" where
  "bindE (Inl e) f = Inl e"
| "bindE (Inr x) f = f x"

fun mapE :: "('a \<Rightarrow> 'b res) \<Rightarrow> 'a list \<Rightarrow> 'b list res" where
  "mapE f [] = Inr []"
| "mapE f (x # xs) = bindE (f x) (\<lambda>y. bindE (mapE f xs) (\<lambda>ys. Inr (y # ys)))"

fun foldE :: "('s \<Rightarrow> 'a \<Rightarrow> 's res) \<Rightarrow> 's \<Rightarrow> 'a list \<Rightarrow> 's res" where
  "foldE f s [] = Inr s"
| "foldE f s (x # xs) = bindE (f s x) (\<lambda>s'. foldE f s' xs)"

lemma bindE_Inr_iff [res_simps]: "bindE m f = Inr y \<longleftrightarrow> (\<exists>x. m = Inr x \<and> f x = Inr y)"
  by (cases m) auto

lemma bindE_Inl_iff [res_simps]:
  "bindE m f = Inl e \<longleftrightarrow> m = Inl e \<or> (\<exists>x. m = Inr x \<and> f x = Inl e)"
  by (cases m) auto

lemma bindE_cong [fundef_cong]:
  "m = m' \<Longrightarrow> (\<And>x. m' = Inr x \<Longrightarrow> f x = f' x) \<Longrightarrow> bindE m f = bindE m' f'"
  by (cases m') auto

lemma mapE_length: "mapE f xs = Inr ys \<Longrightarrow> length ys = length xs"
  by (induction xs arbitrary: ys) (auto simp: res_simps)

lemma mapE_nth: "mapE f xs = Inr ys \<Longrightarrow> i < length xs \<Longrightarrow> f (xs ! i) = Inr (ys ! i)"
  by (induction xs arbitrary: ys i) (auto simp: res_simps nth_Cons split: nat.splits)

lemma mapE_total: "(\<And>x. x \<in> set xs \<Longrightarrow> f x = Inr (g x)) \<Longrightarrow> mapE f xs = Inr (map g xs)"
  by (induction xs) auto

lemma foldE_total:
  "(\<And>s x. x \<in> set xs \<Longrightarrow> f s x = Inr (g s x)) \<Longrightarrow> foldE f s xs = Inr (foldl g s xs)"
  by (induction xs arbitrary: s) auto

text \<open>Computations that do not raise.\<close>

definition succeeds :: "'a res \<Rightarrow> bool" where
  "succeeds r \<longleftrightarrow> (\<exists>x. r = Inr x)"

lemma succeeds_Inr [simp]: "succeeds (Inr x)"
  by (simp add: succeeds_def)

lemma succeeds_bindE: "succeeds m \<Longrightarrow> (\<And>x. m = Inr x \<Longrightarrow> succeeds (f x)) \<Longrightarrow> succeeds (bindE m f)"
  by (auto simp: succeeds_def)

lemma succeeds_mapE: "(\<And>x. x \<in> set xs \<Longrightarrow> succeeds (f x)) \<Longrightarrow> succeeds (mapE f xs)"
  by (induction xs) (auto intro!: succeeds_bindE)

lemma succeedsE: "succeeds r \<Longrightarrow> (\<And>x. r = Inr x \<Longrightarrow> thesis) \<Longrightarrow> thesis"
  by (auto simp: succeeds_def)

lemma mapE_map: "mapE f (map g xs) = mapE (f \<circ> g) xs"
  by (induction xs) simp_all

lemma mapE_Inl: "mapE f xs = Inl e \<Longrightarrow> \<exists>x\<in>set xs. f x = Inl e"
  by (induction xs) (auto simp: res_simps)

lemma foldE_Inl: "foldE f s xs = Inl e \<Longrightarrow> \<exists>t. \<exists>x\<in>set xs. f t x = Inl e"
proof (induction xs arbitrary: s)
  case Nil
  then show ?case by simp
next
  case (Cons x xs)
  show ?case
  proof (cases "f s x")
    case (Inl e')
    with Cons.prems show ?thesis by auto
  next
    case (Inr t)
    with Cons.prems have "foldE f t xs = Inl e" by simp
    from Cons.IH [OF this] show ?thesis by auto
  qed
qed

lemma foldE_append:
  "foldE f s (xs @ ys) = bindE (foldE f s xs) (\<lambda>s'. foldE f s' ys)"
proof (induction xs arbitrary: s)
  case Nil
  then show ?case by simp
next
  case (Cons x xs)
  then show ?case by (cases "f s x") auto
qed

lemma foldE_invariant:
  assumes "foldE f s xs = Inr s'" and "P s"
    and step: "\<And>s x t. P s \<Longrightarrow> x \<in> set xs \<Longrightarrow> f s x = Inr t \<Longrightarrow> P t"
  shows "P s'"
  using assms
proof (induction xs arbitrary: s)
  case Nil
  then show ?case by simp
next
  case (Cons x xs)
  from Cons.prems(1) obtain t where t: "f s x = Inr t" and rest: "foldE f t xs = Inr s'"
    by (auto simp: res_simps)
  from Cons.prems(2,3) t have "P t" by (meson list.set_intros(1))
  with rest show ?case by (rule Cons.IH) (meson Cons.prems(3) list.set_intros(2))
qed

subsection \<open>Characters and strings\<close>

definition lower_char :: "char \<Rightarrow> char" where
  "lower_char c = (if CHR ''A'' \<le> c \<and> c \<le> CHR ''Z'' then char_of (of_char c + 32 :: nat) else c)"

definition upper_char :: "char \<Rightarrow> char" where
  "upper_char c = (if CHR ''a'' \<le> c \<and> c \<le> CHR ''z'' then char_of (of_char c - 32 :: nat) else c)"

definition lower :: "string \<Rightarrow> string" where
  "lower s = map lower_char s"

definition upper :: "string \<Rightarrow> string" where
  "upper s = map upper_char s"

definition is_space :: "char \<Rightarrow> bool" where
  "is_space c \<longleftrightarrow> (let n = (of_char c :: nat) in n = 32 \<or> (9 \<le> n \<and> n \<le> 13) \<or> (28 \<le> n \<and> n \<le> 31))"

definition is_digit :: "char \<Rightarrow> bool" where
  "is_digit c \<longleftrightarrow> CHR ''0'' \<le> c \<and> c \<le> CHR ''9''"

definition is_alnum :: "char \<Rightarrow> bool" where
  "is_alnum c \<longleftrightarrow> is_digit c \<or> (CHR ''a'' \<le> c \<and> c \<le> CHR ''z'') \<or> (CHR ''A'' \<le> c \<and> c \<le> CHR ''Z'')"

definition lstrip :: "string \<Rightarrow> string" where
  "lstrip s = dropWhile is_space s"

definition rstrip :: "string \<Rightarrow> string" where
  "rstrip s = rev (dropWhile is_space (rev s))"

definition strip :: "string \<Rightarrow> string" where
  "strip s = rstrip (lstrip s)"

text \<open>\<^verbatim>\<open>s.split(c)\<close> for a one-character separator, and \<^verbatim>\<open>sep.join(parts)\<close>.\<close>

fun split_on :: "char \<Rightarrow> string \<Rightarrow> string list" where
  "split_on c [] = [[]]"
| "split_on c (x # xs) =
     (if x = c then [] # split_on c xs
      else (case split_on c xs of [] \<Rightarrow> [[x]] | w # ws \<Rightarrow> (x # w) # ws))"

fun join :: "string \<Rightarrow> string list \<Rightarrow> string" where
  "join sep [] = []"
| "join sep [w] = w"
| "join sep (w # v # ws) = w @ sep @ join sep (v # ws)"

fun contains :: "string \<Rightarrow> string \<Rightarrow> bool" where
  "contains p [] = (p = [])"
| "contains p (x # xs) = (prefix p (x # xs) \<or> contains p xs)"

text \<open>\<^verbatim>\<open>s.replace(c, by)\<close> for a one-character pattern.\<close>

definition replace_char :: "char \<Rightarrow> string \<Rightarrow> string \<Rightarrow> string" where
  "replace_char c by s = concat (map (\<lambda>x. if x = c then by else [x]) s)"

text \<open>Characters written by their code: quotes, line ends and the glyphs of the report.\<close>

abbreviation newline :: char where "newline \<equiv> CHR 0x0A"
abbreviation em_dash :: string where "em_dash \<equiv> [CHR 0xE2, CHR 0x80, CHR 0x94]"
abbreviation less_equal_sign :: string where "less_equal_sign \<equiv> [CHR 0xE2, CHR 0x89, CHR 0xA4]"

lemma split_on_nonempty [simp]: "split_on c s \<noteq> []"
  by (induction s) (auto split: list.splits)

lemma join_split_on [text_simps]: "join [c] (split_on c s) = s"
proof (induction s)
  case Nil
  then show ?case by simp
next
  case (Cons x s)
  then show ?case
    by (cases "split_on c s"; cases "tl (split_on c s)") auto
qed

lemma split_on_no_sep: "w \<in> set (split_on c s) \<Longrightarrow> c \<notin> set w"
proof (induction s arbitrary: w)
  case Nil
  then show ?case by simp
next
  case (Cons x s)
  then show ?case by (auto split: list.splits if_splits)
qed

lemma contains_iff: "contains p s \<longleftrightarrow> (\<exists>u v. s = u @ p @ v)"
proof (induction s)
  case Nil
  then show ?case by auto
next
  case (Cons x s)
  show ?case
  proof
    assume "contains p (x # s)"
    then consider "prefix p (x # s)" | "contains p s" by auto
    then show "\<exists>u v. x # s = u @ p @ v"
    proof cases
      case 1
      then obtain v where "x # s = [] @ p @ v" by (auto simp: prefix_def)
      then show ?thesis by blast
    next
      case 2
      then obtain u v where "s = u @ p @ v" using Cons.IH by blast
      then have "x # s = (x # u) @ p @ v" by simp
      then show ?thesis by blast
    qed
  next
    assume "\<exists>u v. x # s = u @ p @ v"
    then obtain u v where eq: "x # s = u @ p @ v" by blast
    show "contains p (x # s)"
    proof (cases u)
      case Nil
      with eq have "prefix p (x # s)" by (auto simp: prefix_def)
      then show ?thesis by simp
    next
      case (Cons y u')
      with eq have "s = u' @ p @ v" by simp
      with Cons.IH show ?thesis by auto
    qed
  qed
qed

lemma set_replace_char: "c \<notin> set by \<Longrightarrow> c \<notin> set (replace_char c by s)"
  by (auto simp: replace_char_def)

lemma set_replace_char_subset: "set (replace_char c by s) \<subseteq> (set s - {c}) \<union> set by"
  by (auto simp: replace_char_def)

lemma replace_char_append [text_simps]:
  "replace_char c by (s @ t) = replace_char c by s @ replace_char c by t"
  by (simp add: replace_char_def)

subsection \<open>Decimal numbers\<close>

definition digit_char :: "nat \<Rightarrow> char" where
  "digit_char d = char_of (48 + d)"

fun show_nat :: "nat \<Rightarrow> string" where
  "show_nat n = (if n < 10 then [digit_char n] else show_nat (n div 10) @ [digit_char (n mod 10)])"

declare show_nat.simps [simp del]

definition show_int :: "int \<Rightarrow> string" where
  "show_int i = (if i < 0 then ''-'' @ show_nat (nat (- i)) else show_nat (nat i))"

definition digit_val :: "char \<Rightarrow> nat" where
  "digit_val c = of_char c - 48"

definition read_nat :: "string \<Rightarrow> nat" where
  "read_nat s = foldl (\<lambda>n c. 10 * n + digit_val c) 0 s"

lemma digit_val_digit_char: "d < 10 \<Longrightarrow> digit_val (digit_char d) = d"
  by (simp add: digit_val_def digit_char_def)

lemma is_digit_digit_char: "d < 10 \<Longrightarrow> is_digit (digit_char d)"
  by (simp add: is_digit_def digit_char_def less_eq_char_def)

lemma read_nat_snoc: "read_nat (s @ [c]) = 10 * read_nat s + digit_val c"
  by (simp add: read_nat_def)

lemma read_show_nat [text_simps]: "read_nat (show_nat n) = n"
proof (induction n rule: show_nat.induct)
  case (1 n)
  show ?case
  proof (cases "n < 10")
    case True
    then show ?thesis
      by (simp add: show_nat.simps [of n] read_nat_def digit_val_digit_char)
  next
    case False
    then have "read_nat (show_nat n) = 10 * read_nat (show_nat (n div 10)) + n mod 10"
      by (simp add: show_nat.simps [of n] read_nat_snoc digit_val_digit_char)
    with False "1.IH" show ?thesis by simp
  qed
qed

lemma show_nat_digits: "c \<in> set (show_nat n) \<Longrightarrow> is_digit c"
proof (induction n rule: show_nat.induct)
  case (1 n)
  then show ?case
    by (cases "n < 10") (auto simp: show_nat.simps [of n] is_digit_digit_char)
qed

lemma show_nat_inj: "show_nat m = show_nat n \<longleftrightarrow> m = n"
  by (metis read_show_nat)

subsection \<open>Insertion-ordered dictionaries\<close>

text \<open>
  A Python dictionary is an association list in insertion order: \<open>AList.update\<close> changes
  the value in place where the key exists and appends the pair where it does not, which is
  what \<^verbatim>\<open>d[k] = v\<close> does. The interface below states the laws the components rely on.
\<close>

abbreviation dset :: "'k \<Rightarrow> 'v \<Rightarrow> ('k \<times> 'v) list \<Rightarrow> ('k \<times> 'v) list" where
  "dset \<equiv> AList.update"

abbreviation dkeys :: "('k \<times> 'v) list \<Rightarrow> 'k list" where
  "dkeys d \<equiv> map fst d"

definition dmerge :: "('k \<times> 'v) list \<Rightarrow> ('k \<times> 'v) list \<Rightarrow> ('k \<times> 'v) list" where
  "dmerge a b = foldl (\<lambda>d (k, v). dset k v d) a b"

definition dsetdefault :: "'k \<Rightarrow> 'v \<Rightarrow> ('k \<times> 'v) list \<Rightarrow> ('k \<times> 'v) list" where
  "dsetdefault k v d = (if map_of d k = None then dset k v d else d)"

locale py_dict =
  fixes empty_d :: "'d"
    and put :: "'k \<Rightarrow> 'v \<Rightarrow> 'd \<Rightarrow> 'd"
    and look :: "'d \<Rightarrow> 'k \<Rightarrow> 'v option"
    and keys_of :: "'d \<Rightarrow> 'k list"
    and invar :: "'d \<Rightarrow> bool"
  assumes look_empty: "look empty_d k = None"
    and look_put: "invar d \<Longrightarrow> look (put k v d) k' = (if k' = k then Some v else look d k')"
    and keys_put: "invar d \<Longrightarrow>
      keys_of (put k v d) = (if k \<in> set (keys_of d) then keys_of d else keys_of d @ [k])"
    and keys_look: "invar d \<Longrightarrow> (k \<in> set (keys_of d)) = (look d k \<noteq> None)"
    and keys_distinct: "invar d \<Longrightarrow> distinct (keys_of d)"
    and invar_empty: "invar empty_d"
    and invar_put: "invar d \<Longrightarrow> invar (put k v d)"
begin

lemma put_all_invar: "invar d \<Longrightarrow> invar (foldl (\<lambda>d (k, v). put k v d) d kvs)"
  by (induction kvs arbitrary: d) (auto simp: invar_put)

lemma put_all_keys:
  "invar d \<Longrightarrow> set (keys_of (foldl (\<lambda>d (k, v). put k v d) d kvs)) = set (keys_of d) \<union> fst ` set kvs"
proof (induction kvs arbitrary: d)
  case Nil
  then show ?case by simp
next
  case (Cons kv kvs)
  obtain k v where kv: "kv = (k, v)" by (cases kv)
  have "invar (put k v d)" using Cons.prems by (rule invar_put)
  then have "set (keys_of (foldl (\<lambda>d (k, v). put k v d) (put k v d) kvs))
      = set (keys_of (put k v d)) \<union> fst ` set kvs"
    by (rule Cons.IH)
  with Cons.prems kv show ?case by (auto simp: keys_put)
qed

lemma put_all_look_other:
  "invar d \<Longrightarrow> k \<notin> fst ` set kvs \<Longrightarrow> look (foldl (\<lambda>d (k, v). put k v d) d kvs) k = look d k"
  by (induction kvs arbitrary: d) (auto simp: invar_put look_put)

lemma distinct_put_all:
  "invar d \<Longrightarrow> distinct (keys_of (foldl (\<lambda>d (k, v). put k v d) d kvs))"
  by (rule keys_distinct [OF put_all_invar])

end

lemma dkeys_dset:
  "dkeys (dset k v d) = (if k \<in> set (dkeys d) then dkeys d else dkeys d @ [k])"
  by (induction d) auto

lemma map_of_dset [dict_simps, simp]: "map_of (dset k v d) k' = (if k' = k then Some v else map_of d k')"
  by (simp add: AList.update_conv)

lemma set_dset_subset: "set (dset k v d) \<subseteq> insert (k, v) (set d)"
  by (induction d) auto

lemma map_of_None_iff: "k \<in> fst ` set d \<longleftrightarrow> map_of d k \<noteq> None"
  by (simp add: map_of_eq_None_iff)

interpretation alist: py_dict "[]" dset map_of "map fst" "\<lambda>d. distinct (map fst d)"
  by unfold_locales
    (auto simp: dkeys_dset map_of_None_iff AList.distinct_update intro: AList.distinct_update)

lemma dkeys_dmerge:
  assumes "distinct (dkeys a)"
  shows "distinct (dkeys (dmerge a b))" and "set (dkeys (dmerge a b)) = set (dkeys a) \<union> fst ` set b"
  unfolding dmerge_def
  by (rule alist.distinct_put_all [OF assms], rule alist.put_all_keys [OF assms])

lemma map_of_dmerge [dict_simps]:
  "distinct (dkeys b) \<Longrightarrow> map_of (dmerge a b) k = (case map_of b k of None \<Rightarrow> map_of a k | Some v \<Rightarrow> Some v)"
proof (induction b arbitrary: a)
  case Nil
  then show ?case by (simp add: dmerge_def)
next
  case (Cons kv b)
  obtain k' v where kv: "kv = (k', v)" by (cases kv)
  have step: "dmerge a (kv # b) = dmerge (dset k' v a) b"
    by (simp add: dmerge_def kv)
  have none: "map_of b k' = None" using Cons.prems kv by (simp add: map_of_eq_None_iff)
  have "map_of (dmerge a (kv # b)) k = (case map_of b k of None \<Rightarrow> map_of (dset k' v a) k | Some v \<Rightarrow> Some v)"
    unfolding step using Cons.prems by (intro Cons.IH) simp
  with none show ?case by (cases "k = k'") (simp_all add: kv split: option.splits)
qed

lemma map_of_filter_key:
  "map_of (filter (\<lambda>(k, v). P k) d) k = (if P k then map_of d k else None)"
  by (induction d) auto

lemma distinct_dkeys_filter: "distinct (dkeys d) \<Longrightarrow> distinct (dkeys (filter P d))"
  by (rule distinct_map_filter)

subsection \<open>Lists\<close>

text \<open>Counting the elements that satisfy a predicate, as the code's \<^verbatim>\<open>sum(1 for ...)\<close> does.\<close>

definition count_if :: "('a \<Rightarrow> bool) \<Rightarrow> 'a list \<Rightarrow> nat" where
  "count_if P xs = length (filter P xs)"

lemma count_if_simps [simp]:
  "count_if P [] = 0" "count_if P (x # xs) = (if P x then Suc (count_if P xs) else count_if P xs)"
  by (simp_all add: count_if_def)

lemma count_if_append [simp]: "count_if P (xs @ ys) = count_if P xs + count_if P ys"
  by (simp add: count_if_def)

lemma count_if_zero: "count_if P xs = 0 \<longleftrightarrow> (\<forall>x\<in>set xs. \<not> P x)"
  by (auto simp: count_if_def filter_empty_conv)

lemma sorted_list_of_set_strings:
  fixes S :: "'a :: linorder set"
  shows "finite S \<Longrightarrow> set (sorted_list_of_set S) = S \<and> sorted (sorted_list_of_set S)
    \<and> distinct (sorted_list_of_set S)"
  by simp

lemma in_concat_map: "x \<in> set (concat (map g us)) \<Longrightarrow> \<exists>u\<in>set us. x \<in> set (g u)"
  by auto

lemma map_fst_sort_key:
  fixes xs :: "('a :: linorder \<times> 'b) list"
  shows "map fst (sort_key fst xs) = sort (map fst xs)"
  by (rule properties_for_sort [symmetric]) simp_all

lemma insort_key_map_pair:
  fixes x :: "'a :: linorder"
  shows "insort_key fst (x, g x) (map (\<lambda>y. (y, g y)) ys) = map (\<lambda>y. (y, g y)) (insort x ys)"
  by (induction ys) auto

lemma sort_key_map_pair:
  fixes xs :: "'a :: linorder list"
  shows "sort_key fst (map (\<lambda>y. (y, g y)) xs) = map (\<lambda>y. (y, g y)) (sort xs)"
  by (induction xs) (simp_all add: insort_key_map_pair)

lemma sort_distinct_set:
  fixes xs :: "'a :: linorder list"
  shows "distinct xs \<Longrightarrow> sort xs = sorted_list_of_set (set xs)"
  by (simp add: sorted_list_of_set_sort_remdups distinct_remdups_id)

text \<open>Cutting a list into pieces of \<open>n\<close>: \<^verbatim>\<open>xs[i : i + n]\<close> for \<^verbatim>\<open>i\<close> in steps of \<open>n\<close>.\<close>

function chunks :: "nat \<Rightarrow> 'a list \<Rightarrow> 'a list list" where
  "chunks n xs = (if n = 0 \<or> xs = [] then [] else take n xs # chunks n (drop n xs))"
  by pat_completeness auto
termination by (relation "measure (\<lambda>(n, xs). length xs)") auto

declare chunks.simps [simp del]

lemma chunks_concat: "0 < n \<Longrightarrow> concat (chunks n xs) = xs"
  by (induction n xs rule: chunks.induct) (subst chunks.simps, auto)

lemma chunks_bounds: "ys \<in> set (chunks n xs) \<Longrightarrow> ys \<noteq> [] \<and> length ys \<le> n"
proof (induction n xs rule: chunks.induct)
  case (1 n xs)
  show ?case
  proof (cases "n = 0 \<or> xs = []")
    case True
    with "1.prems" show ?thesis by (simp add: chunks.simps)
  next
    case False
    with "1.prems" have "ys = take n xs \<or> ys \<in> set (chunks n (drop n xs))"
      by (simp add: chunks.simps [of n xs])
    with "1.IH" [OF False] False show ?thesis by auto
  qed
qed

lemma chunks_Nil [simp]: "chunks n [] = []"
  by (simp add: chunks.simps)

lemma chunks_short: "xs \<noteq> [] \<Longrightarrow> length xs \<le> n \<Longrightarrow> chunks n xs = [xs]"
  by (cases xs) (auto simp: chunks.simps [of n])

subsection \<open>Code points\<close>

text \<open>
  \<^verbatim>\<open>len\<close> and slices of a string count code points: a byte that continues one belongs to its
  predecessor.
\<close>

definition continues :: "char \<Rightarrow> bool" where
  "continues c \<longleftrightarrow> 128 \<le> (of_char c :: nat) \<and> (of_char c :: nat) < 192"

definition str_len :: "string \<Rightarrow> nat" where
  "str_len s = count_if (\<lambda>c. \<not> continues c) s"

fun str_take :: "nat \<Rightarrow> string \<Rightarrow> string" where
  "str_take n [] = []"
| "str_take n (c # cs) =
     (if continues c then c # str_take n cs
      else (case n of 0 \<Rightarrow> [] | Suc k \<Rightarrow> c # str_take k cs))"

definition str_drop :: "nat \<Rightarrow> string \<Rightarrow> string" where
  "str_drop n s = drop (length (str_take n s)) s"

text \<open>The characters of a string, each with the bytes of its code point.\<close>

fun str_chars :: "string \<Rightarrow> string list" where
  "str_chars [] = []"
| "str_chars (c # cs) =
     (case str_chars cs of [] \<Rightarrow> [[c]]
      | w # ws \<Rightarrow> if continues (hd w) then (c # w) # ws else [c] # w # ws)"

lemma concat_str_chars: "concat (str_chars s) = s"
  by (induction s) (auto split: list.splits)

lemma str_take_drop: "str_take n s @ str_drop n s = s"
proof -
  have "prefix (str_take n s) s"
    by (induction n s rule: str_take.induct) (auto split: nat.splits)
  then obtain zs where "s = str_take n s @ zs" by (auto simp: prefix_def)
  then show ?thesis unfolding str_drop_def by (metis append_eq_conv_conj)
qed

lemma str_len_take: "str_len (str_take n s) = min n (str_len s)"
  by (induction n s rule: str_take.induct) (auto simp: str_len_def split: nat.splits)

lemma str_len_append: "str_len (s @ t) = str_len s + str_len t"
  by (simp add: str_len_def)

lemma str_len_drop: "str_len (str_drop n s) = str_len s - min n (str_len s)"
  using str_len_append [of "str_take n s" "str_drop n s"] by (simp add: str_take_drop str_len_take)

subsection \<open>Systems that come to an end\<close>

text \<open>
  The contract of a state machine that must finish: an invariant every step keeps, a measure
  every step lowers, and a step to take wherever the machine has not finished. The pipeline
  and the dispatch pool are instances.
\<close>

locale terminating_system =
  fixes step :: "'s \<Rightarrow> 's \<Rightarrow> bool" and inv :: "'s \<Rightarrow> bool" and final :: "'s \<Rightarrow> bool" and measure :: "'s \<Rightarrow> nat"
  assumes keeps: "inv s \<Longrightarrow> step s t \<Longrightarrow> inv t"
    and descends: "inv s \<Longrightarrow> step s t \<Longrightarrow> measure t < measure s"
    and progress: "inv s \<Longrightarrow> \<not> final s \<Longrightarrow> \<exists>t. step s t"
begin

lemma run_inv: "(step ^^ n) s t \<Longrightarrow> inv s \<Longrightarrow> inv t"
  by (induction n arbitrary: t) (auto intro: keeps)

lemma run_length: "(step ^^ n) s t \<Longrightarrow> inv s \<Longrightarrow> measure t + n \<le> measure s"
proof (induction n arbitrary: t)
  case 0
  then show ?case by simp
next
  case (Suc n)
  then obtain u where u: "(step ^^ n) s u" "step u t" by auto
  from descends [OF run_inv [OF u(1) Suc.prems(2)] u(2)] Suc.IH [OF u(1) Suc.prems(2)] show ?case by simp
qed

lemma run_bounded: "(step ^^ n) s t \<Longrightarrow> inv s \<Longrightarrow> n \<le> measure s"
  using run_length by fastforce

lemma run_not_stuck: "(step ^^ n) s t \<Longrightarrow> inv s \<Longrightarrow> final t \<or> (\<exists>u. step t u)"
  using run_inv progress by blast

lemma run_finishes: "inv s \<Longrightarrow> \<exists>n t. (step ^^ n) s t \<and> final t"
proof (induction "measure s" arbitrary: s rule: less_induct)
  case less
  show ?case
  proof (cases "final s")
    case True
    then show ?thesis by (intro exI [of _ 0]) auto
  next
    case False
    from progress [OF less.prems False] obtain u where u: "step s u" by blast
    from less.hyps [OF descends keeps] u less.prems obtain n t where t: "(step ^^ n) u t" "final t" by blast
    have "(step ^^ Suc n) s t" using u t(1) by (rule relpowp_Suc_I2)
    with t(2) show ?thesis by blast
  qed
qed

end

end
