(* ===== verification/PyValue.thy ===== *)
theory PyValue
  imports Prelude
begin

section \<open>Dynamic values\<close>

text \<open>
  The handlers exchange JSON-shaped Python values: dictionaries with string keys, lists,
  strings, numbers, booleans and \<^verbatim>\<open>None\<close>. They are the datatype \<open>pyval\<close> below. Floats are
  the two infinities, \<^verbatim>\<open>nan\<close> and exact rationals (the rounding of binary floats is not
  modelled; overflow to infinity is). The theory holds the language operations the
  sources apply to such values: truth, equality across the numeric types, \<^verbatim>\<open>isinstance\<close>,
  \<^verbatim>\<open>float()\<close>, \<^verbatim>\<open>int()\<close>, \<^verbatim>\<open>str()\<close>, iteration and sorting, each with its exceptions, and the
  small coercion helpers at the top of \<^verbatim>\<open>code_review/handlers.py\<close>.
\<close>

datatype pyfloat = FNaN | FPosInf | FNegInf | Fin rat

datatype pyval =
    VNone
  | VBool bool
  | VInt int
  | VFloat pyfloat
  | VStr string
  | VList "pyval list"
  | VDict "(string \<times> pyval) list"

type_synonym dict = "(string \<times> pyval) list"

subsection \<open>Types and truth\<close>

definition is_str :: "pyval \<Rightarrow> bool" where
  "is_str v = (case v of VStr _ \<Rightarrow> True | _ \<Rightarrow> False)"

definition is_dict :: "pyval \<Rightarrow> bool" where
  "is_dict v = (case v of VDict _ \<Rightarrow> True | _ \<Rightarrow> False)"

definition is_list :: "pyval \<Rightarrow> bool" where
  "is_list v = (case v of VList _ \<Rightarrow> True | _ \<Rightarrow> False)"

text \<open>\<^verbatim>\<open>isinstance(v, int)\<close> holds of booleans too; \<open>int_of\<close> is the integer it then is.\<close>

definition int_of :: "pyval \<Rightarrow> int option" where
  "int_of v = (case v of VInt i \<Rightarrow> Some i | VBool b \<Rightarrow> Some (if b then 1 else 0) | _ \<Rightarrow> None)"

definition str_of :: "pyval \<Rightarrow> string option" where
  "str_of v = (case v of VStr s \<Rightarrow> Some s | _ \<Rightarrow> None)"

definition dict_of :: "pyval \<Rightarrow> dict option" where
  "dict_of v = (case v of VDict d \<Rightarrow> Some d | _ \<Rightarrow> None)"

fun truthy :: "pyval \<Rightarrow> bool" where
  "truthy VNone = False"
| "truthy (VBool b) = b"
| "truthy (VInt i) = (i \<noteq> 0)"
| "truthy (VFloat f) = (f \<noteq> Fin 0)"
| "truthy (VStr s) = (s \<noteq> [])"
| "truthy (VList xs) = (xs \<noteq> [])"
| "truthy (VDict d) = (d \<noteq> [])"

text \<open>\<^verbatim>\<open>a or b\<close>.\<close>

definition py_or :: "pyval \<Rightarrow> pyval \<Rightarrow> pyval" where
  "py_or a b = (if truthy a then a else b)"

text \<open>\<^verbatim>\<open>d.get(k)\<close> and \<^verbatim>\<open>d.get(k, default)\<close>.\<close>

definition dget_or :: "dict \<Rightarrow> string \<Rightarrow> pyval \<Rightarrow> pyval" where
  "dget_or d k v = (case map_of d k of None \<Rightarrow> v | Some w \<Rightarrow> w)"

definition dget :: "dict \<Rightarrow> string \<Rightarrow> pyval" where
  "dget d k = dget_or d k VNone"

text \<open>The helpers \<^verbatim>\<open>_ensure_list\<close>, \<^verbatim>\<open>_ensure_dict\<close> and \<^verbatim>\<open>_ensure_str\<close>.\<close>

definition ensure_list :: "pyval \<Rightarrow> pyval list" where
  "ensure_list v = (case v of VList xs \<Rightarrow> xs | _ \<Rightarrow> [])"

definition ensure_dict :: "pyval \<Rightarrow> dict" where
  "ensure_dict v = (case v of VDict d \<Rightarrow> d | _ \<Rightarrow> [])"

definition ensure_str :: "pyval \<Rightarrow> string \<Rightarrow> string" where
  "ensure_str v dflt = (case v of VStr s \<Rightarrow> if s \<noteq> [] then s else dflt | _ \<Rightarrow> dflt)"

text \<open>
  \<^verbatim>\<open>_env_from_ctx\<close>: the resolved inputs of the state, with the startup arguments added
  under \<^verbatim>\<open>args\<close> where the inputs do not carry them.
\<close>

definition env_from_ctx :: "dict \<Rightarrow> dict \<Rightarrow> dict" where
  "env_from_ctx ctx_inputs ctx_args = dsetdefault ''args'' (VDict ctx_args) ctx_inputs"

definition strs_of :: "pyval list \<Rightarrow> string list" where
  "strs_of xs = List.map_filter str_of xs"

definition dicts_of :: "pyval list \<Rightarrow> dict list" where
  "dicts_of xs = List.map_filter dict_of xs"

lemma dget_dset [simp, dict_simps]: "dget (dset k v d) k' = (if k' = k then v else dget d k')"
  by (simp add: dget_def dget_or_def)

lemma dget_or_dset [simp]: "dget_or (dset k v d) k' w = (if k' = k then v else dget_or d k' w)"
  by (simp add: dget_or_def)

lemma dget_dmerge_other: "k \<notin> fst ` set b \<Longrightarrow> dget (dmerge a b) k = dget a k"
proof (induction b arbitrary: a)
  case Nil
  then show ?case by (simp add: dmerge_def)
next
  case (Cons kv b)
  have "dmerge a (kv # b) = dmerge (dset (fst kv) (snd kv) a) b" by (simp add: dmerge_def split_beta)
  with Cons show ?case by auto
qed

lemma dget_Nil [simp]: "dget [] k = VNone"
  by (simp add: dget_def dget_or_def)

lemma dget_Cons [simp]: "dget ((k, v) # d) k' = (if k' = k then v else dget d k')"
  by (simp add: dget_def dget_or_def)

lemma dget_or_Cons [simp]: "dget_or ((k, v) # d) k' w = (if k' = k then v else dget_or d k' w)"
  by (simp add: dget_or_def)

lemma dget_or_Nil [simp]: "dget_or [] k w = w"
  by (simp add: dget_or_def)

lemma strs_of_simps [simp]:
  "strs_of [] = []"
  "strs_of (v # vs) = (case v of VStr s \<Rightarrow> s # strs_of vs | _ \<Rightarrow> strs_of vs)"
  by (simp_all add: strs_of_def List.map_filter_def str_of_def split: pyval.splits)

lemma strs_of_VStr [simp]: "strs_of (map VStr xs) = xs"
  by (induction xs) auto

lemma strs_of_append [simp]: "strs_of (xs @ ys) = strs_of xs @ strs_of ys"
  by (simp add: strs_of_def List.map_filter_def)

lemma set_strs_of: "s \<in> set (strs_of xs) \<longleftrightarrow> VStr s \<in> set xs"
  by (induction xs) (auto split: pyval.splits)

lemma dicts_of_simps [simp]:
  "dicts_of [] = []"
  "dicts_of (v # vs) = (case v of VDict d \<Rightarrow> d # dicts_of vs | _ \<Rightarrow> dicts_of vs)"
  by (simp_all add: dicts_of_def List.map_filter_def dict_of_def split: pyval.splits)

lemma dicts_of_VDict [simp]: "dicts_of (map VDict xs) = xs"
  by (induction xs) auto

lemma set_dicts_of: "d \<in> set (dicts_of xs) \<longleftrightarrow> VDict d \<in> set xs"
  by (induction xs) (auto split: pyval.splits)

subsection \<open>Equality\<close>

definition num_of :: "pyval \<Rightarrow> pyfloat option" where
  "num_of v = (case v of VInt i \<Rightarrow> Some (Fin (of_int i)) | VBool b \<Rightarrow> Some (Fin (if b then 1 else 0))
     | VFloat f \<Rightarrow> Some f | _ \<Rightarrow> None)"

definition num_eq :: "pyfloat \<Rightarrow> pyfloat \<Rightarrow> bool" where
  "num_eq a b \<longleftrightarrow> a \<noteq> FNaN \<and> a = b"

text \<open>\<^verbatim>\<open>a == b\<close>: numbers compare by value across types, dictionaries regardless of order.\<close>

fun py_eq :: "pyval \<Rightarrow> pyval \<Rightarrow> bool"
  and py_eq_list :: "pyval list \<Rightarrow> pyval list \<Rightarrow> bool"
  and py_eq_dict :: "dict \<Rightarrow> dict \<Rightarrow> bool" where
  "py_eq VNone w = (w = VNone)"
| "py_eq (VStr s) w = (w = VStr s)"
| "py_eq (VList xs) w = (case w of VList ys \<Rightarrow> py_eq_list xs ys | _ \<Rightarrow> False)"
| "py_eq (VDict d) w = (case w of VDict e \<Rightarrow> length d = length e \<and> py_eq_dict d e | _ \<Rightarrow> False)"
| "py_eq (VBool b) w = (case num_of w of Some y \<Rightarrow> num_eq (Fin (if b then 1 else 0)) y | None \<Rightarrow> False)"
| "py_eq (VInt i) w = (case num_of w of Some y \<Rightarrow> num_eq (Fin (of_int i)) y | None \<Rightarrow> False)"
| "py_eq (VFloat f) w = (case num_of w of Some y \<Rightarrow> num_eq f y | None \<Rightarrow> False)"
| "py_eq_list [] ys = (ys = [])"
| "py_eq_list (x # xs) ys = (case ys of [] \<Rightarrow> False | y # ys' \<Rightarrow> py_eq x y \<and> py_eq_list xs ys')"
| "py_eq_dict [] e = True"
| "py_eq_dict ((k, v) # d) e =
     ((case map_of e k of None \<Rightarrow> False | Some w \<Rightarrow> py_eq v w) \<and> py_eq_dict d e)"

lemma py_eq_VStr [simp]: "py_eq v (VStr s) \<longleftrightarrow> v = VStr s"
  by (cases v) (auto simp: num_of_def)

lemma py_eq_VInt [simp]: "py_eq (VInt i) (VInt j) \<longleftrightarrow> i = j"
  by (auto simp: num_of_def num_eq_def)

text \<open>\<^verbatim>\<open>x in xs\<close> for a list.\<close>

definition py_in :: "pyval \<Rightarrow> pyval list \<Rightarrow> bool" where
  "py_in x xs \<longleftrightarrow> list_ex (\<lambda>y. py_eq x y) xs"

lemma py_in_VStr: "py_in (VStr s) xs \<longleftrightarrow> VStr s \<in> set xs"
  by (auto simp: py_in_def list_ex_iff)

subsection \<open>Conversions to numbers\<close>

text \<open>The magnitude from which a value no longer rounds to a finite double.\<close>

definition float_limit :: rat where
  "float_limit = of_int (2 ^ 1024 - 2 ^ 970)"

definition float_of_rat :: "rat \<Rightarrow> pyfloat" where
  "float_of_rat q = (if float_limit \<le> q then FPosInf else if q \<le> - float_limit then FNegInf else Fin q)"

text \<open>A digit string of a number literal, in which single underscores may separate digits.\<close>

fun more_digits :: "string \<Rightarrow> string \<times> string" where
  "more_digits (CHR ''_'' # d # cs) =
     (if is_digit d then (let (ds, r) = more_digits cs in (d # ds, r)) else ([], CHR ''_'' # d # cs))"
| "more_digits (c # cs) =
     (if is_digit c then (let (ds, r) = more_digits cs in (c # ds, r)) else ([], c # cs))"
| "more_digits [] = ([], [])"

definition take_digits :: "string \<Rightarrow> string \<times> string" where
  "take_digits s = (case s of [] \<Rightarrow> ([], [])
     | c # cs \<Rightarrow> if is_digit c then (let (ds, r) = more_digits cs in (c # ds, r)) else ([], s))"

definition take_sign :: "string \<Rightarrow> bool \<times> string" where
  "take_sign s = (case s of [] \<Rightarrow> (False, [])
     | c # cs \<Rightarrow> if c = CHR ''-'' then (True, cs) else if c = CHR ''+'' then (False, cs) else (False, s))"

definition parse_exponent :: "string \<Rightarrow> int option" where
  "parse_exponent s = (case s of [] \<Rightarrow> Some 0
     | c # cs \<Rightarrow>
        if c = CHR ''e'' \<or> c = CHR ''E''
        then (let (neg, r) = take_sign cs; (ds, r') = take_digits r in
                if ds \<noteq> [] \<and> r' = [] then Some (if neg then - int (read_nat ds) else int (read_nat ds))
                else None)
        else None)"

definition scale10 :: "nat \<Rightarrow> int \<Rightarrow> rat" where
  "scale10 m e = (if 0 \<le> e then of_nat m * 10 ^ nat e else of_nat m / 10 ^ nat (- e))"

definition parse_number :: "string \<Rightarrow> rat option" where
  "parse_number s =
     (let (ip, r) = take_digits s;
          (fp, r') = (case r of [] \<Rightarrow> ([], []) | c # cs \<Rightarrow> if c = CHR ''.'' then take_digits cs else ([], r))
      in if ip = [] \<and> fp = [] then None
         else (case parse_exponent r' of None \<Rightarrow> None
               | Some e \<Rightarrow> Some (scale10 (read_nat (ip @ fp)) (e - int (length fp)))))"

definition parse_float :: "string \<Rightarrow> pyfloat option" where
  "parse_float s =
     (let (neg, t) = take_sign (strip s); w = lower t in
      if w = ''inf'' \<or> w = ''infinity'' then Some (if neg then FNegInf else FPosInf)
      else if w = ''nan'' then Some FNaN
      else (case parse_number t of None \<Rightarrow> None
            | Some q \<Rightarrow> Some (float_of_rat (if neg then - q else q))))"

definition parse_int :: "string \<Rightarrow> int option" where
  "parse_int s = (let (neg, t) = take_sign (strip s); (ds, r) = take_digits t in
     if ds \<noteq> [] \<and> r = [] then Some (if neg then - int (read_nat ds) else int (read_nat ds)) else None)"

text \<open>\<^verbatim>\<open>float(v)\<close> and \<^verbatim>\<open>int(v)\<close>.\<close>

definition py_float :: "pyval \<Rightarrow> pyfloat res" where
  "py_float v = (case v of
       VFloat f \<Rightarrow> Inr f
     | VBool b \<Rightarrow> Inr (Fin (if b then 1 else 0))
     | VInt i \<Rightarrow> (if float_limit \<le> \<bar>of_int i\<bar> then Inl OverflowError else Inr (Fin (of_int i)))
     | VStr s \<Rightarrow> (case parse_float s of None \<Rightarrow> Inl ValueError | Some f \<Rightarrow> Inr f)
     | _ \<Rightarrow> Inl TypeError)"

definition truncate :: "rat \<Rightarrow> int" where
  "truncate q = (if 0 \<le> q then \<lfloor>q\<rfloor> else - \<lfloor>- q\<rfloor>)"

definition int_of_float :: "pyfloat \<Rightarrow> int res" where
  "int_of_float f = (case f of FNaN \<Rightarrow> Inl ValueError | FPosInf \<Rightarrow> Inl OverflowError
     | FNegInf \<Rightarrow> Inl OverflowError | Fin q \<Rightarrow> Inr (truncate q))"

definition py_int :: "pyval \<Rightarrow> int res" where
  "py_int v = (case v of
       VInt i \<Rightarrow> Inr i
     | VBool b \<Rightarrow> Inr (if b then 1 else 0)
     | VFloat f \<Rightarrow> int_of_float f
     | VStr s \<Rightarrow> (case parse_int s of None \<Rightarrow> Inl ValueError | Some i \<Rightarrow> Inr i)
     | _ \<Rightarrow> Inl TypeError)"

text \<open>\<^verbatim>\<open>a >= b\<close> and \<^verbatim>\<open>a > b\<close> on floats; every comparison with \<^verbatim>\<open>nan\<close> is false.\<close>

fun float_le :: "pyfloat \<Rightarrow> pyfloat \<Rightarrow> bool" where
  "float_le FNaN b = False"
| "float_le a FNaN = False"
| "float_le FNegInf b = True"
| "float_le a FPosInf = True"
| "float_le (Fin p) (Fin q) = (p \<le> q)"
| "float_le a b = False"

definition float_lt :: "pyfloat \<Rightarrow> pyfloat \<Rightarrow> bool" where
  "float_lt a b \<longleftrightarrow> float_le a b \<and> a \<noteq> b"

subsection \<open>Text\<close>

definition pad_left :: "nat \<Rightarrow> string \<Rightarrow> string" where
  "pad_left n s = replicate (n - length s) (CHR ''0'') @ s"

text \<open>The fewest decimal places that write the number exactly (17 where none do).\<close>

definition decimal_places :: "rat \<Rightarrow> nat" where
  "decimal_places q = (case List.find (\<lambda>k. of_int \<lfloor>q * 10 ^ k\<rfloor> = q * 10 ^ k) [0..<341] of
     None \<Rightarrow> 17 | Some k \<Rightarrow> k)"

definition show_float :: "pyfloat \<Rightarrow> string" where
  "show_float f = (case f of FNaN \<Rightarrow> ''nan'' | FPosInf \<Rightarrow> ''inf'' | FNegInf \<Rightarrow> ''-inf''
     | Fin q \<Rightarrow>
        let a = \<bar>q\<bar>; k = decimal_places a; ds = show_nat (nat \<lfloor>a * 10 ^ k\<rfloor>);
            sgn = (if q < 0 then ''-'' else []); e = int (length ds) - 1 - int k
        in if a = 0 \<or> (- 4 \<le> e \<and> e < 16)
           then (let t = pad_left (Suc k) ds; n = length t - k in
                 sgn @ take n t @ ''.'' @ (if k = 0 then ''0'' else drop n t))
           else (let m = rev (dropWhile (\<lambda>c. c = CHR ''0'') (rev ds)) in
                 sgn @ take 1 m @ (if length m = 1 then [] else ''.'' @ drop 1 m) @ ''e'' @
                 (if e < 0 then ''-'' else ''+'') @ pad_left 2 (show_nat (nat \<bar>e\<bar>))))"

definition hex_digit :: "nat \<Rightarrow> char" where
  "hex_digit n = (if n < 10 then char_of (48 + n) else char_of (87 + n))"

definition repr_char :: "char \<Rightarrow> char \<Rightarrow> string" where
  "repr_char q c = (let n = (of_char c :: nat) in
     if c = q \<or> n = 92 then [CHR 0x5C, c]
     else if n = 10 then [CHR 0x5C, CHR ''n''] else if n = 13 then [CHR 0x5C, CHR ''r'']
     else if n = 9 then [CHR 0x5C, CHR ''t'']
     else if n < 32 \<or> n = 127 then [CHR 0x5C, CHR ''x'', hex_digit (n div 16), hex_digit (n mod 16)]
     else [c])"

definition repr_str :: "string \<Rightarrow> string" where
  "repr_str s =
     (let q = (if CHR 0x27 \<in> set s \<and> CHR 0x22 \<notin> set s then CHR 0x22 else CHR 0x27)
      in [q] @ concat (map (repr_char q) s) @ [q])"

fun py_repr :: "pyval \<Rightarrow> string"
  and py_repr_list :: "pyval list \<Rightarrow> string list"
  and py_repr_dict :: "dict \<Rightarrow> string list" where
  "py_repr VNone = ''None''"
| "py_repr (VBool b) = (if b then ''True'' else ''False'')"
| "py_repr (VInt i) = show_int i"
| "py_repr (VFloat f) = show_float f"
| "py_repr (VStr s) = repr_str s"
| "py_repr (VList xs) = ''['' @ join '', '' (py_repr_list xs) @ '']''"
| "py_repr (VDict d) = ''{'' @ join '', '' (py_repr_dict d) @ ''}''"
| "py_repr_list [] = []"
| "py_repr_list (x # xs) = py_repr x # py_repr_list xs"
| "py_repr_dict [] = []"
| "py_repr_dict ((k, v) # d) = (repr_str k @ '': '' @ py_repr v) # py_repr_dict d"

definition py_str :: "pyval \<Rightarrow> string" where
  "py_str v = (case v of VStr s \<Rightarrow> s | _ \<Rightarrow> py_repr v)"

lemma py_str_simps [simp, text_simps]:
  "py_str (VStr s) = s" "py_str (VInt i) = show_int i" "py_str VNone = ''None''"
  by (simp_all add: py_str_def)

subsection \<open>Iteration, sets and sorting\<close>

text \<open>\<^verbatim>\<open>for x in v\<close>.\<close>

definition py_iter :: "pyval \<Rightarrow> pyval list res" where
  "py_iter v = (case v of VList xs \<Rightarrow> Inr xs | VDict d \<Rightarrow> Inr (map (\<lambda>(k, _). VStr k) d)
     | VStr s \<Rightarrow> Inr (map VStr (str_chars s)) | _ \<Rightarrow> Inl TypeError)"

text \<open>
  Set elements must be hashable, which lists and dictionaries are not. A set is kept as a
  list without two equal members.
\<close>

definition hashable :: "pyval \<Rightarrow> bool" where
  "hashable v \<longleftrightarrow> \<not> is_list v \<and> \<not> is_dict v"

definition set_add :: "pyval \<Rightarrow> pyval list \<Rightarrow> pyval list res" where
  "set_add v s = (if \<not> hashable v then Inl TypeError else Inr (if py_in v s then s else s @ [v]))"

text \<open>
  \<^verbatim>\<open>sorted(s)\<close> of a set of scalars: strings by their text, numbers by value; values of
  different kinds do not compare.
\<close>

definition num_key :: "pyval \<Rightarrow> rat" where
  "num_key v = (case num_of v of Some (Fin q) \<Rightarrow> q | _ \<Rightarrow> 0)"

definition py_sorted :: "pyval list \<Rightarrow> pyval list res" where
  "py_sorted xs =
     (if length xs \<le> 1 then Inr xs
      else if list_all is_str xs then Inr (map VStr (sort (strs_of xs)))
      else if list_all (\<lambda>v. num_of v \<noteq> None) xs then Inr (sort_key num_key xs)
      else Inl TypeError)"

lemma py_sorted_strs: "py_sorted (map VStr xs) = Inr (map VStr (sort xs))"
  by (cases xs; cases "tl xs") (auto simp: py_sorted_def is_str_def list_all_iff)

lemma set_add_strs:
  "set_add (VStr s) (map VStr xs) = Inr (map VStr (if s \<in> set xs then xs else xs @ [s]))"
  by (auto simp: set_add_def hashable_def is_list_def is_dict_def py_in_VStr)

lemma py_iter_VList [simp, res_simps]: "py_iter (VList xs) = Inr xs"
  by (simp add: py_iter_def)

end
