(* ===== verification/Regex.thy ===== *)
theory Regex
  imports Prelude
begin

section \<open>The regular expressions the sources use\<close>

text \<open>
  A matcher for the part of Python's \<^verbatim>\<open>re\<close> that the sources use: literals, character
  classes, \<^verbatim>\<open>.\<close>, starred classes, sequences, alternatives, optional groups, the anchors
  \<^verbatim>\<open>^\<close> and \<^verbatim>\<open>$\<close> (which also matches before a final line end) and negative look-around of
  one character. \<open>ends r s i\<close> lists the positions at which a match of \<open>r\<close> that starts at
  position \<open>i\<close> of \<open>s\<close> can end.
\<close>

datatype rx =
    RClass "char \<Rightarrow> bool"
  | RStr string
  | RStar "char \<Rightarrow> bool"
  | RSeq rx rx
  | RAlt rx rx
  | ROpt rx
  | RBos
  | REos
  | RNotBehind "char \<Rightarrow> bool"
  | RNotAhead "char \<Rightarrow> bool"

fun ends :: "rx \<Rightarrow> string \<Rightarrow> nat \<Rightarrow> nat list" where
  "ends (RClass P) s i = (if i < length s \<and> P (s ! i) then [Suc i] else [])"
| "ends (RStr p) s i = (if prefix p (drop i s) then [i + length p] else [])"
| "ends (RStar P) s i = [i..<Suc (i + length (takeWhile P (drop i s)))]"
| "ends (RSeq a b) s i = concat (map (ends b s) (ends a s i))"
| "ends (RAlt a b) s i = ends a s i @ ends b s i"
| "ends (ROpt a) s i = ends a s i @ [i]"
| "ends RBos s i = (if i = 0 then [i] else [])"
| "ends REos s i = (if i = length s \<or> (Suc i = length s \<and> s ! i = newline) then [i] else [])"
| "ends (RNotBehind P) s i = (if 0 < i \<and> P (s ! (i - 1)) then [] else [i])"
| "ends (RNotAhead P) s i = (if i < length s \<and> P (s ! i) then [] else [i])"

text \<open>\<^verbatim>\<open>pattern.match(s)\<close> and \<^verbatim>\<open>pattern.search(s)\<close>, as booleans.\<close>

definition rx_match :: "rx \<Rightarrow> string \<Rightarrow> bool" where
  "rx_match r s \<longleftrightarrow> ends r s 0 \<noteq> []"

definition rx_search :: "rx \<Rightarrow> string \<Rightarrow> bool" where
  "rx_search r s \<longleftrightarrow> list_ex (\<lambda>i. ends r s i \<noteq> []) [0..<Suc (length s)]"

fun rseq :: "rx list \<Rightarrow> rx" where
  "rseq [] = RStr []"
| "rseq [r] = r"
| "rseq (r # rs) = RSeq r (rseq rs)"

fun ralts :: "rx list \<Rightarrow> rx" where
  "ralts [] = RStr []"
| "ralts [r] = r"
| "ralts (r # rs) = RAlt r (ralts rs)"

abbreviation any_char :: "char \<Rightarrow> bool" where
  "any_char \<equiv> (\<lambda>c. c \<noteq> newline)"

abbreviation not_slash :: "char \<Rightarrow> bool" where
  "not_slash \<equiv> (\<lambda>c. c \<noteq> CHR ''/'')"

lemma ends_bounds: "i \<le> length s \<Longrightarrow> j \<in> set (ends r s i) \<Longrightarrow> i \<le> j \<and> j \<le> length s"
proof (induction r arbitrary: i j)
  case (RStr p)
  then show ?case by (auto split: if_splits dest: prefix_length_le)
next
  case (RStar P)
  have "length (takeWhile P (drop i s)) \<le> length s - i"
    by (metis length_drop length_takeWhile_le)
  with RStar show ?case by auto
next
  case (RSeq a b)
  from RSeq.prems(2) obtain k where k: "k \<in> set (ends a s i)" and j: "j \<in> set (ends b s k)" by auto
  from RSeq.IH(1) [OF RSeq.prems(1) k] have "i \<le> k" "k \<le> length s" by auto
  with RSeq.IH(2) [OF _ j] show ?case by simp
next
  case (RAlt a b)
  from RAlt.prems(2) have "j \<in> set (ends a s i) \<or> j \<in> set (ends b s i)" by simp
  with RAlt.IH [OF RAlt.prems(1)] show ?case by blast
next
  case (ROpt a)
  from ROpt.prems(2) have "j \<in> set (ends a s i) \<or> j = i" by auto
  with ROpt.IH [OF ROpt.prems(1)] ROpt.prems(1) show ?case by blast
qed (simp_all split: if_split_asm)

lemma rx_search_iff: "rx_search r s \<longleftrightarrow> (\<exists>i\<le>length s. ends r s i \<noteq> [])"
proof -
  have "(i \<in> set [0..<Suc (length s)]) = (i \<le> length s)" for i
    by (simp only: set_upt atLeastLessThan_iff less_Suc_eq_le) simp
  then show ?thesis unfolding rx_search_def list_ex_iff by blast
qed

lemma set_ends_seq: "set (ends (RSeq a b) s i) = (\<Union>k\<in>set (ends a s i). set (ends b s k))"
  by auto

lemma ends_rseq_Cons:
  "set (ends (rseq (r # rs)) s i) = (\<Union>k\<in>set (ends r s i). set (ends (rseq rs) s k))"
  by (cases rs) auto

lemma ends_rseq_append:
  "set (ends (rseq (rs @ ts)) s i) = (\<Union>k\<in>set (ends (rseq rs) s i). set (ends (rseq ts) s k))"
proof (induction rs arbitrary: i)
  case Nil
  then show ?case by simp
next
  case (Cons r rs)
  then show ?case by (simp add: ends_rseq_Cons del: rseq.simps)
qed

lemma ends_ralts: "rs \<noteq> [] \<Longrightarrow> set (ends (ralts rs) s i) = (\<Union>r\<in>set rs. set (ends r s i))"
  by (induction rs rule: ralts.induct) auto

end
