(* ===== verification/RiskTier.thy ===== *)
theory RiskTier
  imports PyValue Regex
begin

section \<open>Risk-tier triage\<close>

text \<open>
  Handler 1 of \<^verbatim>\<open>code_review/handlers.py\<close>: the risk signals of the changed paths, the scope
  overrides, the tier of the diff and the cap on specialists, with the
  \<^verbatim>\<open>--max-reviewers\<close> override and the exceptions its conversions raise.
\<close>

subsection \<open>Risk signals\<close>

definition risk_keywords :: "string list" where
  "risk_keywords = [''auth'', ''crypto'', ''secret'', ''password'', ''token'', ''infra'', ''deploy'',
     ''migration'', ''migrate'', ''iam'', ''rbac'', ''oauth'', ''jwt'', ''session'', ''key'', ''tls'',
     ''ssl'', ''cert'', ''kms'', ''vault'']"

abbreviation backslash :: char where "backslash \<equiv> CHR 0x5C"

text \<open>
  The patterns, each with its source text (which the signal carries). \<open>at_segment p\<close> is
  \<^verbatim>\<open>(^|/)p\<close>; \<^verbatim>\<open>ya?ml\<close> has an optional \<^verbatim>\<open>a\<close>.
\<close>

definition at_segment :: "rx list \<Rightarrow> rx" where
  "at_segment rs = rseq (RAlt RBos (RStr ''/'') # rs)"

definition yaml_end :: "rx list" where
  "yaml_end = [RStr ''.y'', ROpt (RStr ''a''), RStr ''ml'', REos]"

definition yaml_src :: string where
  "yaml_src = [backslash] @ ''.ya?ml$''"

definition high_risk_patterns :: "(rx \<times> string) list" where
  "high_risk_patterns =
    [(at_segment [RStr ''Dockerfile'', RAlt REos (RAlt (RStr ''.'') (RStr ''/''))],
        ''(^|/)Dockerfile($|'' @ [backslash] @ ''.|/)''),
     (rseq [RStr ''.tf'', REos], [backslash] @ ''.tf$''),
     (at_segment [RStr ''k8s/''], ''(^|/)k8s/''),
     (at_segment [RStr ''kubernetes/''], ''(^|/)kubernetes/''),
     (at_segment [RStr ''helm/''], ''(^|/)helm/''),
     (rseq [RStr ''.cdk.ts'', REos], [backslash] @ ''.cdk'' @ [backslash] @ ''.ts$''),
     (at_segment (RStr ''serverless'' # yaml_end), ''(^|/)serverless'' @ yaml_src),
     (at_segment (RStr ''Pulumi'' # yaml_end), ''(^|/)Pulumi'' @ yaml_src),
     (at_segment [RStr ''.github/workflows/''], ''(^|/)'' @ [backslash] @ ''.github/workflows/''),
     (at_segment (RStr ''.gitlab-ci'' # yaml_end), ''(^|/)'' @ [backslash] @ ''.gitlab-ci'' @ yaml_src),
     (at_segment [RStr ''migrations/''], ''(^|/)migrations/''),
     (at_segment [RStr ''prisma/migrations/''], ''(^|/)prisma/migrations/''),
     (at_segment [RStr ''alembic/''], ''(^|/)alembic/''),
     (at_segment [RStr ''flyway/''], ''(^|/)flyway/''),
     (at_segment [RStr ''atlas/''], ''(^|/)atlas/'')]"

text \<open>The signals of one path: every keyword in its lower-cased text, and its first pattern.\<close>

definition keyword_signals :: "string \<Rightarrow> string list" where
  "keyword_signals path = map (\<lambda>kw. ''keyword:'' @ kw) (filter (\<lambda>kw. contains kw (lower path)) risk_keywords)"

definition pattern_signals :: "string \<Rightarrow> string list" where
  "pattern_signals path = (case List.find (\<lambda>(r, src). rx_search r path) high_risk_patterns of
     None \<Rightarrow> [] | Some (r, src) \<Rightarrow> [''path:'' @ src])"

definition iac_signals :: "dict \<Rightarrow> string list" where
  "iac_signals profile = (case dget profile ''iac'' of
     VList xs \<Rightarrow> if xs \<noteq> [] then [''profile:iac-present''] else [] | _ \<Rightarrow> [])"

definition detect_risk_signals :: "pyval list \<Rightarrow> dict \<Rightarrow> string list" where
  "detect_risk_signals changed_paths project_profile =
     sorted_list_of_set (set
       (concat (map (\<lambda>p. keyword_signals p @ pattern_signals p) (strs_of changed_paths))
        @ iac_signals project_profile))"

subsection \<open>Overrides, tier and cap\<close>

definition scope_override_keys :: "string list" where
  "scope_override_keys = [''scope-dir'', ''scope-lang'', ''scope-framework'', ''scope-reviewer'',
     ''scope-severity'', ''scope-gate'']"

definition detect_scope_overrides :: "dict \<Rightarrow> bool" where
  "detect_scope_overrides args = list_ex (\<lambda>k. dget args k \<noteq> VNone) scope_override_keys"

datatype tier = Trivial | Lite | Full | Sensitive

fun tier_value :: "tier \<Rightarrow> string" where
  "tier_value Trivial = ''trivial''"
| "tier_value Lite = ''lite''"
| "tier_value Full = ''full''"
| "tier_value Sensitive = ''sensitive''"

fun tier_cap :: "tier \<Rightarrow> int" where
  "tier_cap Trivial = 3"
| "tier_cap Lite = 8"
| "tier_cap Full = 20"
| "tier_cap Sensitive = 30"

definition clamp_cap :: "pyfloat \<Rightarrow> int res" where
  "clamp_cap f = bindE (int_of_float f) (\<lambda>i. Inr (max 3 (min 50 i)))"

definition triage_tier :: "string list \<Rightarrow> int \<Rightarrow> int \<Rightarrow> tier" where
  "triage_tier risk_signals lines_changed files_changed =
     (if risk_signals \<noteq> [] then Sensitive
      else if 100 < lines_changed \<or> 5 < files_changed then Full
      else if lines_changed \<le> 10 \<and> files_changed = 1 then Trivial
      else Lite)"

definition diff_size_text :: "int \<Rightarrow> int \<Rightarrow> string" where
  "diff_size_text lines_changed files_changed =
     ''diff ('' @ show_int lines_changed @ '' lines across '' @ show_int files_changed @ '' files)''"

definition triage_rationale :: "string list \<Rightarrow> int \<Rightarrow> int \<Rightarrow> string" where
  "triage_rationale risk_signals lines_changed files_changed =
     (case triage_tier risk_signals lines_changed files_changed of
        Sensitive \<Rightarrow> ''Risk signals fired: '' @ join '', '' (take 3 risk_signals) @ ''.''
      | Full \<Rightarrow> ''Large '' @ diff_size_text lines_changed files_changed @ ''.''
      | Trivial \<Rightarrow> ''Single-file change '' @ less_equal_sign @ '' 10 lines, no risk path.''
      | Lite \<Rightarrow> ''Small '' @ diff_size_text lines_changed files_changed @ '', no risk path.'')"

text \<open>
  The override: \<^verbatim>\<open>float(...)\<close> under \<^verbatim>\<open>except (TypeError, ValueError)\<close>, so any other exception
  propagates; \<open>None\<close> is "no override".
\<close>

definition cap_override :: "dict \<Rightarrow> int option res" where
  "cap_override args =
     (let v = dget args ''max-reviewers'' in
      if v = VNone then Inr None
      else (case py_float v of
              Inl e \<Rightarrow> if e = TypeError \<or> e = ValueError then Inr None else Inl e
            | Inr f \<Rightarrow> if f = FNaN then Inr None else bindE (clamp_cap f) (\<lambda>c. Inr (Some c))))"

definition handle_risk_tier_triage :: "dict \<Rightarrow> dict res" where
  "handle_risk_tier_triage env =
     (let changed_paths = ensure_list (dget env ''changed_paths'');
          ds = ensure_dict (dget env ''diff_stats'');
          diff_stats = (if ds \<noteq> [] then ds
                        else [(''lines_changed'', VInt 0), (''files_changed'', VInt 0)]);
          project_profile = ensure_dict (dget env ''project_profile'');
          args_bag = ensure_dict (dget env ''args'');
          risk_signals = detect_risk_signals changed_paths project_profile;
          scope_overrides_present = detect_scope_overrides args_bag
      in
      bindE (py_int (py_or (dget_or diff_stats ''lines_changed'' (VInt 0)) (VInt 0))) (\<lambda>lines_changed.
      bindE (py_int (py_or (dget_or diff_stats ''files_changed'' (VInt 0)) (VInt 0))) (\<lambda>files_changed.
      bindE (cap_override args_bag) (\<lambda>override.
      (let tier = triage_tier risk_signals lines_changed files_changed;
           rationale = triage_rationale risk_signals lines_changed files_changed;
           cap = (case override of None \<Rightarrow> tier_cap tier | Some c \<Rightarrow> c);
           rationale' = (case override of None \<Rightarrow> rationale
             | Some c \<Rightarrow> rationale @ '' Cap overridden to '' @ show_int c @ '' via --max-reviewers.'')
       in Inr [(''tier'', VStr (tier_value tier)),
               (''cap'', VInt cap),
               (''tier_rationale'', VStr rationale'),
               (''risk_signals'', VList (map VStr risk_signals)),
               (''scope_overrides_present'', VBool scope_overrides_present)])))))"

subsection \<open>Lemmas\<close>

lemma set_risk_signals:
  "set (detect_risk_signals ps prof) =
     (\<Union>p\<in>set (strs_of ps). set (keyword_signals p) \<union> set (pattern_signals p)) \<union> set (iac_signals prof)"
  by (auto simp: detect_risk_signals_def)

lemma risk_signals_sorted: "sorted (detect_risk_signals ps prof)" "distinct (detect_risk_signals ps prof)"
  by (simp_all add: detect_risk_signals_def)

lemma clamp_cap_bounds: "clamp_cap f = Inr c \<Longrightarrow> 3 \<le> c \<and> c \<le> 50"
  by (auto simp: clamp_cap_def res_simps)

lemma cap_override_bounds: "cap_override args = Inr (Some c) \<Longrightarrow> 3 \<le> c \<and> c \<le> 50"
  by (auto simp: cap_override_def Let_def res_simps clamp_cap_bounds split: if_splits sum.splits)

lemma tier_cap_bounds: "3 \<le> tier_cap t \<and> tier_cap t \<le> 50"
  by (cases t) auto

lemma triage_result:
  assumes "handle_risk_tier_triage env = Inr out"
  obtains lc fc ov where
    "dget out ''tier'' = VStr (tier_value (triage_tier
        (detect_risk_signals (ensure_list (dget env ''changed_paths''))
                             (ensure_dict (dget env ''project_profile''))) lc fc))"
    "dget out ''cap'' = VInt (case ov of None \<Rightarrow> tier_cap (triage_tier
        (detect_risk_signals (ensure_list (dget env ''changed_paths''))
                             (ensure_dict (dget env ''project_profile''))) lc fc) | Some c \<Rightarrow> c)"
    "dget out ''risk_signals'' = VList (map VStr
        (detect_risk_signals (ensure_list (dget env ''changed_paths''))
                             (ensure_dict (dget env ''project_profile''))))"
    "cap_override (ensure_dict (dget env ''args'')) = Inr ov"
  using assms by (auto simp: handle_risk_tier_triage_def Let_def res_simps)

lemma sensitive_iff: "triage_tier sigs lc fc = Sensitive \<longleftrightarrow> sigs \<noteq> []"
  by (simp add: triage_tier_def)

lemma keyword_signals_empty: "keyword_signals p = [] \<longleftrightarrow> (\<forall>kw\<in>set risk_keywords. \<not> contains kw (lower p))"
  by (simp add: keyword_signals_def filter_empty_conv)

lemma pattern_signals_empty:
  "pattern_signals p = [] \<longleftrightarrow> (\<forall>(r, src)\<in>set high_risk_patterns. \<not> rx_search r p)"
proof (cases "List.find (\<lambda>(r, src). rx_search r p) high_risk_patterns")
  case None
  then have "\<forall>(r, src)\<in>set high_risk_patterns. \<not> rx_search r p"
    unfolding find_None_iff by fast
  with None show ?thesis by (simp add: pattern_signals_def)
next
  case (Some a)
  then obtain r src where "a = (r, src)" "(r, src) \<in> set high_risk_patterns" "rx_search r p"
    by (cases a) (auto simp: find_Some_iff dest!: nth_mem)
  with Some show ?thesis by (auto simp: pattern_signals_def)
qed

lemma tier_value_inj: "tier_value a = tier_value b \<longleftrightarrow> a = b"
  by (cases a; cases b) auto

text \<open>A path that the triage counts as risky.\<close>

definition risky_path :: "string \<Rightarrow> bool" where
  "risky_path p \<longleftrightarrow> (\<exists>kw\<in>set risk_keywords. contains kw (lower p))
     \<or> (\<exists>(r, src)\<in>set high_risk_patterns. rx_search r p)"

lemma signals_empty_iff:
  "detect_risk_signals ps prof = [] \<longleftrightarrow> (\<forall>p. VStr p \<in> set ps \<longrightarrow> \<not> risky_path p) \<and> iac_signals prof = []"
proof -
  have "keyword_signals p = [] \<and> pattern_signals p = [] \<longleftrightarrow> \<not> risky_path p" for p
    unfolding keyword_signals_empty pattern_signals_empty risky_path_def by auto
  moreover have "detect_risk_signals ps prof = [] \<longleftrightarrow> set (detect_risk_signals ps prof) = {}"
    by simp
  ultimately show ?thesis
    unfolding set_risk_signals by (auto simp: set_strs_of)
qed

subsection \<open>Properties\<close>

text \<open>
  C40: however the triage inputs look, when the handler returns, its cap on specialists lies
  between 3 and 50, and without a \<^verbatim>\<open>--max-reviewers\<close> override it is the cap of the tier
  reported.
\<close>

theorem triage_cap_bounds:
  assumes "handle_risk_tier_triage env = Inr out"
  shows "\<exists>c t. dget out ''cap'' = VInt c \<and> 3 \<le> c \<and> c \<le> 50 \<and> dget out ''tier'' = VStr (tier_value t)
    \<and> (dget (ensure_dict (dget env ''args'')) ''max-reviewers'' = VNone \<longrightarrow> c = tier_cap t)"
  using assms
proof (rule triage_result, goal_cases)
  case (1 lc fc ov)
  show ?case
  proof (cases ov)
    case None
    with 1 tier_cap_bounds show ?thesis by auto
  next
    case (Some c)
    then have "dget (ensure_dict (dget env ''args'')) ''max-reviewers'' \<noteq> VNone"
      using 1(4) by (auto simp: cap_override_def)
    with 1 Some cap_override_bounds show ?thesis by auto
  qed
qed

definition small_env :: dict where
  "small_env = [(''changed_paths'', VList [VStr ''src/a.py'']),
     (''diff_stats'', VDict [(''lines_changed'', VInt 7), (''files_changed'', VInt 1)]),
     (''args'', VDict [])]"

lemma small_env_result:
  "handle_risk_tier_triage small_env = Inr
     [(''tier'', VStr ''trivial''), (''cap'', VInt 3),
      (''tier_rationale'', VStr (''Single-file change '' @ less_equal_sign @ '' 10 lines, no risk path.'')),
      (''risk_signals'', VList []), (''scope_overrides_present'', VBool False)]"
  by code_simp

theorem triage_cap_bounds_witness:
  "\<exists>out c t. handle_risk_tier_triage small_env = Inr out \<and> dget out ''cap'' = VInt c \<and> 3 \<le> c \<and> c \<le> 50
     \<and> dget out ''tier'' = VStr (tier_value t)"
  using triage_cap_bounds [OF small_env_result] small_env_result by blast

text \<open>
  The handler reports the tier \<^verbatim>\<open>sensitive\<close> exactly when some changed path contains a
  risk keyword (in any case) or matches a high-risk pattern, or the project profile lists
  infrastructure code.
\<close>

theorem triage_sensitive_iff:
  assumes "handle_risk_tier_triage env = Inr out"
  shows "dget out ''tier'' = VStr ''sensitive'' \<longleftrightarrow>
    (\<exists>p. VStr p \<in> set (ensure_list (dget env ''changed_paths'')) \<and> risky_path p)
    \<or> ensure_list (dget (ensure_dict (dget env ''project_profile'')) ''iac'') \<noteq> []"
proof -
  have iac: "iac_signals prof = [] \<longleftrightarrow> ensure_list (dget prof ''iac'') = []" for prof
    by (auto simp: iac_signals_def ensure_list_def split: pyval.splits)
  have sens: "VStr (tier_value t) = VStr ''sensitive'' \<longleftrightarrow> t = Sensitive" for t
    by (cases t) auto
  from assms show ?thesis
    by (rule triage_result) (simp only: sens sensitive_iff signals_empty_iff iac, blast)
qed

definition risky_env :: dict where
  "risky_env = [(''changed_paths'', VList [VStr ''infra/main.tf''])]"

lemma risky_env_result:
  "handle_risk_tier_triage risky_env = Inr
     [(''tier'', VStr ''sensitive''), (''cap'', VInt 30),
      (''tier_rationale'', VStr (''Risk signals fired: keyword:infra, path:'' @ [backslash] @ ''.tf$.'')),
      (''risk_signals'', VList [VStr ''keyword:infra'', VStr (''path:'' @ [backslash] @ ''.tf$'')]),
      (''scope_overrides_present'', VBool False)]"
  by code_simp

theorem triage_sensitive_iff_witness:
  "\<exists>p. VStr p \<in> set (ensure_list (dget risky_env ''changed_paths'')) \<and> risky_path p"
  using triage_sensitive_iff [OF risky_env_result] by (simp add: risky_env_def ensure_dict_def ensure_list_def)

text \<open>
  An infinite \<^verbatim>\<open>--max-reviewers\<close> is not caught: \<^verbatim>\<open>float("inf")\<close> succeeds and
  \<^verbatim>\<open>int(...)\<close> of it raises OverflowError out of the handler, whatever the diff.
\<close>

theorem triage_infinite_override:
  assumes "dget (ensure_dict (dget env ''args'')) ''max-reviewers'' = VStr ''inf''"
    and "dget (ensure_dict (dget env ''diff_stats'')) ''lines_changed'' = VInt l"
    and "dget (ensure_dict (dget env ''diff_stats'')) ''files_changed'' = VInt f"
  shows "handle_risk_tier_triage env = Inl OverflowError"
proof -
  have inf: "py_float (VStr ''inf'') = Inr FPosInf" by code_simp
  have "cap_override (ensure_dict (dget env ''args'')) = Inl OverflowError"
    by (simp add: cap_override_def assms(1) inf clamp_cap_def int_of_float_def)
  moreover have "ensure_dict (dget env ''diff_stats'') \<noteq> []" using assms(2) by auto
  moreover have "dget d k = VInt i \<Longrightarrow> dget_or d k (VInt 0) = VInt i" for d k i
    by (auto simp: dget_def dget_or_def split: option.splits)
  ultimately show ?thesis using assms(2,3)
    by (simp add: handle_risk_tier_triage_def Let_def py_or_def py_int_def)
qed

theorem triage_infinite_override_witness:
  "handle_risk_tier_triage
     [(''args'', VDict [(''max-reviewers'', VStr ''inf'')]),
      (''diff_stats'', VDict [(''lines_changed'', VInt 7), (''files_changed'', VInt 1)])] = Inl OverflowError"
  by (rule triage_infinite_override) (simp_all add: ensure_dict_def)

end
