(* ===== verification/Glob.thy ===== *)
theory Glob
  imports PyValue Regex
begin

section \<open>Path globs\<close>

text \<open>
  The glob shim of \<^verbatim>\<open>code_review/handlers.py\<close> (\<^verbatim>\<open>_compile_glob\<close>, \<^verbatim>\<open>_minimatch\<close>,
  \<^verbatim>\<open>_file_globs_match\<close>): the translation of a glob to a regular expression, its cache, and a
  declarative meaning of globs as sets of paths, against which the translation is proved.
\<close>

subsection \<open>Translation\<close>

text \<open>One piece of the expression per step of the loop over the glob.\<close>

datatype gtok =
    GAnyDirs
  | GAnything
  | GSegment
  | GOne
  | GChoice "string list"
  | GChar char

fun find_close :: "string \<Rightarrow> (string \<times> string) option" where
  "find_close [] = None"
| "find_close (c # cs) =
     (if c = CHR ''}'' then Some ([], cs)
      else (case find_close cs of None \<Rightarrow> None | Some (a, r) \<Rightarrow> Some (c # a, r)))"

lemma find_close_length: "find_close cs = Some (a, r) \<Longrightarrow> length r < length cs"
  by (induction cs arbitrary: a r) (auto split: if_splits option.splits)

lemma find_close_eq: "find_close cs = Some (a, r) \<longleftrightarrow> cs = a @ CHR ''}'' # r \<and> CHR ''}'' \<notin> set a"
proof (induction cs arbitrary: a r)
  case Nil
  then show ?case by simp
next
  case (Cons c cs)
  show ?case
  proof (cases "c = CHR ''}''")
    case True
    then show ?thesis by (cases a) auto
  next
    case False
    have "find_close (c # cs) = Some (a, r) \<longleftrightarrow> (\<exists>a'. a = c # a' \<and> find_close cs = Some (a', r))"
      using False by (auto split: option.splits)
    also have "\<dots> \<longleftrightarrow> (\<exists>a'. a = c # a' \<and> cs = a' @ CHR ''}'' # r \<and> CHR ''}'' \<notin> set a')"
      by (simp add: Cons.IH)
    also have "\<dots> \<longleftrightarrow> c # cs = a @ CHR ''}'' # r \<and> CHR ''}'' \<notin> set a"
      using False by (cases a) auto
    finally show ?thesis .
  qed
qed

function glob_tokens :: "string \<Rightarrow> gtok list" where
  "glob_tokens [] = []"
| "glob_tokens (ch # cs) =
     (if ch = CHR ''*'' \<and> take 1 cs = ''*'' \<and> take 1 (drop 1 cs) = ''/''
      then GAnyDirs # glob_tokens (drop 2 cs)
      else if ch = CHR ''*'' \<and> take 1 cs = ''*'' then GAnything # glob_tokens (drop 1 cs)
      else if ch = CHR ''*'' then GSegment # glob_tokens cs
      else if ch = CHR ''?'' then GOne # glob_tokens cs
      else if ch = CHR ''{'' then
        (case find_close cs of
           None \<Rightarrow> GChar ch # glob_tokens cs
         | Some (inner, rest) \<Rightarrow> GChoice (split_on (CHR '','') inner) # glob_tokens rest)
      else GChar ch # glob_tokens cs)"
  by pat_completeness auto
termination
  by (relation "measure length") (auto dest: find_close_length)

fun tok_rx :: "gtok \<Rightarrow> rx" where
  "tok_rx GAnyDirs = ROpt (RSeq (RStar any_char) (RStr ''/''))"
| "tok_rx GAnything = RStar any_char"
| "tok_rx GSegment = RStar not_slash"
| "tok_rx GOne = RClass not_slash"
| "tok_rx (GChoice ws) = ralts (map RStr ws)"
| "tok_rx (GChar c) = RStr [c]"

definition compile_glob :: "string \<Rightarrow> rx" where
  "compile_glob glob = rseq (RBos # map tok_rx (glob_tokens glob) @ [REos])"

text \<open>The cache of compiled globs, passed along and returned with the pattern.\<close>

type_synonym glob_cache = "(string \<times> rx) list"

definition compile_glob_cached :: "string \<Rightarrow> glob_cache \<Rightarrow> rx \<times> glob_cache" where
  "compile_glob_cached glob cache = (case map_of cache glob of
     Some pattern \<Rightarrow> (pattern, cache)
   | None \<Rightarrow> (let pattern = compile_glob glob in (pattern, dset glob pattern cache)))"

definition minimatch :: "string \<Rightarrow> string \<Rightarrow> bool" where
  "minimatch path glob = rx_match (compile_glob glob) path"

definition file_globs_match :: "pyval \<Rightarrow> pyval list \<Rightarrow> bool" where
  "file_globs_match globs changed_paths =
     list_ex (\<lambda>glob. glob \<noteq> [] \<and> list_ex (\<lambda>path. minimatch path glob) (strs_of changed_paths))
       (strs_of (ensure_list globs))"

subsection \<open>The meaning of a glob\<close>

text \<open>
  A glob denotes a set of paths: every piece denotes a set of strings and the glob their
  concatenations.
\<close>

fun tok_lang :: "gtok \<Rightarrow> string set" where
  "tok_lang GAnyDirs = {[]} \<union> {u @ ''/'' |u. newline \<notin> set u}"
| "tok_lang GAnything = {u. newline \<notin> set u}"
| "tok_lang GSegment = {u. CHR ''/'' \<notin> set u}"
| "tok_lang GOne = {[c] |c. c \<noteq> CHR ''/''}"
| "tok_lang (GChoice ws) = (if ws = [] then {[]} else set ws)"
| "tok_lang (GChar c) = {[c]}"

fun glob_lang :: "gtok list \<Rightarrow> string set" where
  "glob_lang [] = {[]}"
| "glob_lang (t # ts) = {u @ v |u v. u \<in> tok_lang t \<and> v \<in> glob_lang ts}"

text \<open>The positions the matcher reaches are the ends of the members of the set.\<close>

definition lang_ends :: "string set \<Rightarrow> string \<Rightarrow> nat \<Rightarrow> nat set" where
  "lang_ends L s i = {i + length u |u. u \<in> L \<and> prefix u (drop i s)}"

lemma takeWhile_prefix_iff:
  "(\<exists>u. (\<forall>c\<in>set u. P c) \<and> prefix u t \<and> length u = n) \<longleftrightarrow> n \<le> length (takeWhile P t)"
proof
  assume "\<exists>u. (\<forall>c\<in>set u. P c) \<and> prefix u t \<and> length u = n"
  then obtain u w where "\<forall>c\<in>set u. P c" "t = u @ w" "length u = n" by (auto simp: prefix_def)
  then show "n \<le> length (takeWhile P t)" by simp
next
  assume n: "n \<le> length (takeWhile P t)"
  let ?u = "take n (takeWhile P t)"
  have "\<forall>c\<in>set ?u. P c" by (meson in_set_takeD set_takeWhileD)
  moreover have "prefix ?u t"
    by (meson prefix_order.trans take_is_prefix takeWhile_is_prefix)
  ultimately show "\<exists>u. (\<forall>c\<in>set u. P c) \<and> prefix u t \<and> length u = n" using n by (intro exI [of _ ?u]) simp
qed

lemma in_lang_ends: "j \<in> lang_ends L s i \<longleftrightarrow> i \<le> j \<and> (\<exists>u. u \<in> L \<and> prefix u (drop i s) \<and> length u = j - i)"
proof
  assume "j \<in> lang_ends L s i"
  then obtain u where "u \<in> L" "prefix u (drop i s)" "j = i + length u"
    unfolding lang_ends_def by blast
  moreover from this have "i \<le> j" "length u = j - i" by simp_all
  ultimately show "i \<le> j \<and> (\<exists>u. u \<in> L \<and> prefix u (drop i s) \<and> length u = j - i)" by blast
next
  assume "i \<le> j \<and> (\<exists>u. u \<in> L \<and> prefix u (drop i s) \<and> length u = j - i)"
  then obtain u where "u \<in> L" "prefix u (drop i s)" "length u = j - i" "i \<le> j" by blast
  moreover from this have "j = i + length u" by simp
  ultimately show "j \<in> lang_ends L s i" unfolding lang_ends_def by blast
qed

lemma lang_ends_star: "set (ends (RStar P) s i) = lang_ends {u. \<forall>c\<in>set u. P c} s i"
proof (rule set_eqI)
  fix j
  have "j \<in> set (ends (RStar P) s i) \<longleftrightarrow> i \<le> j \<and> j - i \<le> length (takeWhile P (drop i s))"
    by (simp del: upt_Suc) arith
  then show "j \<in> set (ends (RStar P) s i) \<longleftrightarrow> j \<in> lang_ends {u. \<forall>c\<in>set u. P c} s i"
    by (simp only: in_lang_ends mem_Collect_eq takeWhile_prefix_iff)
qed

lemma lang_ends_str: "set (ends (RStr p) s i) = lang_ends {p} s i"
  by (auto simp: lang_ends_def)

lemma lang_ends_concat:
  "(\<Union>k\<in>lang_ends A s i. lang_ends B s k) = lang_ends {u @ v |u v. u \<in> A \<and> v \<in> B} s i"
proof (intro equalityI subsetI)
  fix j
  assume "j \<in> (\<Union>k\<in>lang_ends A s i. lang_ends B s k)"
  then obtain u v where u: "u \<in> A" "prefix u (drop i s)" and v: "v \<in> B" "prefix v (drop (i + length u) s)"
    and j: "j = i + length u + length v"
    by (auto simp: lang_ends_def)
  from u(2) obtain w where w: "drop i s = u @ w" by (auto simp: prefix_def)
  then have "drop (i + length u) s = w" by (metis add.commute append_eq_conv_conj drop_drop)
  with v(2) w have "prefix (u @ v) (drop i s)" by simp
  moreover have "u @ v \<in> {u @ v |u v. u \<in> A \<and> v \<in> B}" using u(1) v(1) by blast
  moreover have "j = i + length (u @ v)" using j by simp
  ultimately show "j \<in> lang_ends {u @ v |u v. u \<in> A \<and> v \<in> B} s i"
    unfolding lang_ends_def by blast
next
  fix j
  assume "j \<in> lang_ends {u @ v |u v. u \<in> A \<and> v \<in> B} s i"
  then obtain u v where u: "u \<in> A" and v: "v \<in> B" and p: "prefix (u @ v) (drop i s)"
    and j: "j = i + length u + length v"
    by (auto simp: lang_ends_def)
  from p obtain w where w: "drop i s = u @ v @ w" by (auto simp: prefix_def)
  then have "drop (i + length u) s = v @ w" by (metis add.commute append_eq_conv_conj drop_drop)
  with w have "prefix u (drop i s)" "prefix v (drop (i + length u) s)" by (simp_all add: prefix_def)
  with u v j have "i + length u \<in> lang_ends A s i" "j \<in> lang_ends B s (i + length u)"
    unfolding lang_ends_def by blast+
  then show "j \<in> (\<Union>k\<in>lang_ends A s i. lang_ends B s k)" by blast
qed

lemma lang_ends_Un: "lang_ends (A \<union> B) s i = lang_ends A s i \<union> lang_ends B s i"
  by (auto simp: lang_ends_def)

lemma tok_rx_lang:
  assumes "i \<le> length s"
  shows "set (ends (tok_rx t) s i) = lang_ends (tok_lang t) s i"
proof (cases t)
  case GAnyDirs
  have "set (ends (RSeq (RStar any_char) (RStr ''/'')) s i)
      = lang_ends {u @ v |u v. u \<in> {u. \<forall>c\<in>set u. any_char c} \<and> v \<in> {''/''}} s i"
    by (simp only: set_ends_seq lang_ends_star lang_ends_str lang_ends_concat)
  also have "{u @ v |u v. u \<in> {u. \<forall>c\<in>set u. any_char c} \<and> v \<in> {''/''}} = {u @ ''/'' |u. newline \<notin> set u}"
    by auto
  finally have "set (ends (RSeq (RStar any_char) (RStr ''/'')) s i) = lang_ends {u @ ''/'' |u. newline \<notin> set u} s i" .
  moreover have "lang_ends {[]} s i = {i}" by (auto simp: lang_ends_def)
  ultimately show ?thesis
    unfolding GAnyDirs tok_rx.simps tok_lang.simps lang_ends_Un by auto
next
  case GAnything
  have "{u. newline \<notin> set u} = {u. \<forall>c\<in>set u. any_char c}" by auto
  with GAnything show ?thesis by (simp only: tok_rx.simps tok_lang.simps lang_ends_star)
next
  case GSegment
  have "{u. CHR ''/'' \<notin> set u} = {u. \<forall>c\<in>set u. not_slash c}" by auto
  with GSegment show ?thesis by (simp only: tok_rx.simps tok_lang.simps lang_ends_star)
next
  case GOne
  have p: "prefix [c] (drop i s) \<longleftrightarrow> i < length s \<and> s ! i = c" for c
    by (cases "i < length s") (auto simp: Cons_nth_drop_Suc [symmetric])
  show ?thesis unfolding GOne tok_rx.simps tok_lang.simps
  proof (rule set_eqI)
    fix j
    have "j \<in> lang_ends {[c] |c. not_slash c} s i
        \<longleftrightarrow> i \<le> j \<and> (\<exists>c. not_slash c \<and> prefix [c] (drop i s) \<and> 1 = j - i)"
      unfolding in_lang_ends by force
    also have "\<dots> \<longleftrightarrow> j = Suc i \<and> i < length s \<and> not_slash (s ! i)" unfolding p by auto
    also have "\<dots> \<longleftrightarrow> j \<in> set (ends (RClass not_slash) s i)" by auto
    finally show "j \<in> set (ends (RClass not_slash) s i) \<longleftrightarrow> j \<in> lang_ends {[c] |c. not_slash c} s i" by simp
  qed
next
  case (GChoice ws)
  show ?thesis
  proof (cases "ws = []")
    case True
    with GChoice show ?thesis by (simp add: lang_ends_def)
  next
    case False
    then have "set (ends (ralts (map RStr ws)) s i) = (\<Union>w\<in>set ws. set (ends (RStr w) s i))"
      by (subst ends_ralts) auto
    also have "\<dots> = lang_ends (set ws) s i" by (auto simp: lang_ends_def)
    finally show ?thesis using False by (simp add: GChoice)
  qed
next
  case (GChar c)
  then show ?thesis by (simp only: tok_rx.simps tok_lang.simps lang_ends_str)
qed

lemma toks_rx_lang:
  assumes "i \<le> length s"
  shows "set (ends (rseq (map tok_rx ts)) s i) = lang_ends (glob_lang ts) s i"
  using assms
proof (induction ts arbitrary: i)
  case Nil
  then show ?case by (auto simp: lang_ends_def)
next
  case (Cons t ts)
  have step: "set (ends (rseq (map tok_rx ts)) s k) = lang_ends (glob_lang ts) s k"
    if "k \<in> lang_ends (tok_lang t) s i" for k
    using that ends_bounds [of i s k "tok_rx t"] Cons.IH [of k] tok_rx_lang [of i s t] Cons.prems by blast
  have "set (ends (rseq (map tok_rx (t # ts))) s i)
      = (\<Union>k\<in>lang_ends (tok_lang t) s i. lang_ends (glob_lang ts) s k)"
    using step by (simp add: ends_rseq_Cons tok_rx_lang [OF Cons.prems] del: rseq.simps)
  then show ?case by (simp only: lang_ends_concat glob_lang.simps)
qed

lemma rx_match_iff: "rx_match r s \<longleftrightarrow> set (ends r s 0) \<noteq> {}"
  by (simp add: rx_match_def)

lemma minimatch_lang:
  "minimatch path glob \<longleftrightarrow> (\<exists>q. q \<in> glob_lang (glob_tokens glob) \<and> (path = q \<or> path = q @ [newline]))"
proof -
  let ?ts = "glob_tokens glob"
  have "set (ends (compile_glob glob) path 0)
      = (\<Union>j\<in>lang_ends (glob_lang ?ts) path 0. set (ends REos path j))"
  proof -
    have "set (ends (rseq [REos]) path j) = set (ends REos path j)" for j by (simp del: ends.simps)
    moreover have "set (ends RBos path 0) = {0}" by simp
    ultimately show ?thesis
      unfolding compile_glob_def ends_rseq_Cons ends_rseq_append
      by (simp only: toks_rx_lang [OF le0] UN_insert UN_empty Un_empty_right)
  qed
  then have "minimatch path glob \<longleftrightarrow> (\<exists>j\<in>lang_ends (glob_lang ?ts) path 0. ends REos path j \<noteq> [])"
    unfolding minimatch_def rx_match_iff by (simp del: ends.simps)
  also have "\<dots> \<longleftrightarrow> (\<exists>q\<in>glob_lang ?ts. prefix q path \<and> ends REos path (length q) \<noteq> [])"
    unfolding lang_ends_def by (auto simp del: ends.simps)
  also have "\<dots> \<longleftrightarrow> (\<exists>q. q \<in> glob_lang ?ts \<and> (path = q \<or> path = q @ [newline]))"
  proof -
    have "prefix q path \<and> ends REos path (length q) \<noteq> [] \<longleftrightarrow> path = q \<or> path = q @ [newline]" for q
    proof
      assume a: "prefix q path \<and> ends REos path (length q) \<noteq> []"
      then obtain w where w: "path = q @ w" by (auto simp: prefix_def)
      with a show "path = q \<or> path = q @ [newline]"
        by (cases w) (auto split: if_splits)
    qed auto
    then show ?thesis by blast
  qed
  finally show ?thesis .
qed

subsection \<open>The cache\<close>

definition cache_ok :: "glob_cache \<Rightarrow> bool" where
  "cache_ok cache \<longleftrightarrow> (\<forall>g r. map_of cache g = Some r \<longrightarrow> r = compile_glob g)"

lemma compile_glob_cached_correct:
  assumes "cache_ok cache"
  shows "fst (compile_glob_cached glob cache) = compile_glob glob"
    and "cache_ok (snd (compile_glob_cached glob cache))"
  using assms by (auto simp: compile_glob_cached_def cache_ok_def Let_def split: option.splits if_splits)

subsection \<open>Properties\<close>

text \<open>
  The regular expression built from a glob accepts exactly the paths the glob denotes
  (\<^verbatim>\<open>**/\<close> any directories, \<^verbatim>\<open>**\<close> anything, \<^verbatim>\<open>*\<close> within a segment, \<^verbatim>\<open>?\<close> one character,
  \<^verbatim>\<open>{a,b}\<close> the alternatives), and also such a path followed by one line end.
\<close>

theorem minimatch_denotes:
  "minimatch path glob \<longleftrightarrow>
     path \<in> glob_lang (glob_tokens glob)
     \<or> path \<noteq> [] \<and> last path = newline \<and> butlast path \<in> glob_lang (glob_tokens glob)"
  unfolding minimatch_lang by (metis append_butlast_last_id snoc_eq_iff_butlast)

end
