(* ===== verification/Activation.thy ===== *)
theory Activation
  imports Glob
begin

section \<open>Leaf activation\<close>

text \<open>
  Handler 2 of \<^verbatim>\<open>code_review/handlers.py\<close>: the frontmatter fields a leaf carries along, the
  keyword and structural matchers, the activation pass with its escalation loop, and the
  handler. The walk over the wiki directory and the call to git are arguments: a list of the
  files visited with their parsed frontmatter, and a function from a revision range to the
  outcome of the command.
\<close>

subsection \<open>Frontmatter fields\<close>

definition v2_fields :: "string list" where
  "v2_fields = [''focus'', ''dimensions'', ''audit_surface'', ''languages'', ''tools'', ''tags'',
     ''covers'', ''type'']"

definition is_string_array :: "pyval \<Rightarrow> bool" where
  "is_string_array v = (case v of VList xs \<Rightarrow> list_all is_str xs | _ \<Rightarrow> False)"

definition nonempty_str :: "pyval \<Rightarrow> bool" where
  "nonempty_str v = (case v of VStr s \<Rightarrow> s \<noteq> [] | _ \<Rightarrow> False)"

definition is_tool_entry :: "pyval \<Rightarrow> bool" where
  "is_tool_entry entry = (case entry of
     VDict d \<Rightarrow> nonempty_str (dget d ''name'') \<and> nonempty_str (dget d ''purpose'')
       \<and> (let command = dget_or d ''command'' (VStr []) in command = VNone \<or> is_str command)
   | _ \<Rightarrow> False)"

definition is_tool_array :: "pyval \<Rightarrow> bool" where
  "is_tool_array v = (case v of VList xs \<Rightarrow> list_all is_tool_entry xs | _ \<Rightarrow> False)"

definition validate_v2_field :: "string \<Rightarrow> pyval \<Rightarrow> pyval" where
  "validate_v2_field field value =
     (if field \<in> {''focus'', ''type''} then (if is_str value then value else VNone)
      else if field \<in> {''dimensions'', ''audit_surface'', ''tags'', ''covers''}
        then (if is_string_array value then value else VNone)
      else if field = ''tools'' then (if is_tool_array value then value else VNone)
      else if field = ''languages'' then
        (if value = VStr ''all'' then value
         else if is_string_array value \<and> ensure_list value \<noteq> [] then value else VNone)
      else VNone)"

definition project_v2_fields :: "dict \<Rightarrow> dict" where
  "project_v2_fields data =
     foldl (\<lambda>out field.
       let value = dget data field in
       if value = VNone then out
       else (let validated = validate_v2_field field value in
             if validated = VNone then out else dset field validated out)) [] v2_fields"

subsection \<open>Keyword and structural matchers\<close>

definition keyword_rx :: "string \<Rightarrow> rx" where
  "keyword_rx word =
     rseq ((if word \<noteq> [] \<and> is_alnum (hd word) then [RNotBehind is_alnum] else [])
       @ [RStr (lower word)]
       @ (if word \<noteq> [] \<and> is_alnum (last word) then [RNotAhead is_alnum] else []))"

definition keyword_found :: "string \<Rightarrow> string \<Rightarrow> bool" where
  "keyword_found word diff_text = rx_search (keyword_rx word) (lower diff_text)"

definition keyword_matches :: "pyval \<Rightarrow> string \<Rightarrow> bool" where
  "keyword_matches keywords diff_text =
     (diff_text \<noteq> [] \<and>
      list_ex (\<lambda>kw. let word = strip kw in word \<noteq> [] \<and> keyword_found word diff_text)
        (strs_of (ensure_list keywords)))"

definition profile_keys :: "string list" where
  "profile_keys = [''languages'', ''frameworks'', ''ci'', ''container'', ''iac'', ''build'', ''lint'']"

definition profile_haystack :: "dict \<Rightarrow> string list" where
  "profile_haystack project_profile =
     concat (map (\<lambda>key. map lower (strs_of (ensure_list (dget project_profile key)))) profile_keys)
     @ (if dget project_profile ''monorepo'' = VBool True then [''monorepo''] else [])"

definition structural_signals_match :: "pyval \<Rightarrow> dict \<Rightarrow> bool" where
  "structural_signals_match signals project_profile =
     list_ex (\<lambda>s. lower s \<in> set (profile_haystack project_profile)) (strs_of (ensure_list signals))"

subsection \<open>The activation pass\<close>

text \<open>\<^verbatim>\<open>leaf.get("activation") or {}\<close>; only a dictionary has the \<^verbatim>\<open>.get\<close> used next.\<close>

definition activation_of :: "dict \<Rightarrow> dict res" where
  "activation_of leaf = (case py_or (dget leaf ''activation'') (VDict []) of
     VDict d \<Rightarrow> Inr d | _ \<Rightarrow> Inl AttributeError)"

definition leaf_id :: "dict \<Rightarrow> string option" where
  "leaf_id leaf = (case dget leaf ''id'' of VStr s \<Rightarrow> (if s \<noteq> [] then Some s else None) | _ \<Rightarrow> None)"

definition fired_signals :: "dict \<Rightarrow> pyval list \<Rightarrow> dict \<Rightarrow> string \<Rightarrow> string list" where
  "fired_signals activation changed_paths project_profile diff_text =
     (if file_globs_match (dget activation ''file_globs'') changed_paths then [''file_globs''] else [])
     @ (if keyword_matches (dget activation ''keyword_matches'') diff_text then [''keyword_matches''] else [])
     @ (if structural_signals_match (dget activation ''structural_signals'') project_profile
        then [''structural_signals''] else [])"

record act_state =
  activated :: "(string \<times> dict) list"
  descent_signals :: "(string \<times> string list) list"

definition activate :: "string \<Rightarrow> dict \<Rightarrow> string list \<Rightarrow> act_state \<Rightarrow> act_state" where
  "activate i leaf fired st =
     \<lparr>activated = dset i leaf (activated st), descent_signals = dset i fired (descent_signals st)\<rparr>"

definition first_pass_step ::
  "pyval list \<Rightarrow> dict \<Rightarrow> string \<Rightarrow> act_state \<Rightarrow> dict \<Rightarrow> act_state res" where
  "first_pass_step changed_paths project_profile diff_text st leaf =
     (case leaf_id leaf of
        None \<Rightarrow> Inr st
      | Some i \<Rightarrow> bindE (activation_of leaf) (\<lambda>activation.
          let fired = fired_signals activation changed_paths project_profile diff_text in
          Inr (if fired \<noteq> [] then activate i leaf fired st else st)))"

text \<open>One sweep of the escalation loop; the flag is \<^verbatim>\<open>changed\<close>.\<close>

definition triggered :: "act_state \<Rightarrow> dict \<Rightarrow> bool" where
  "triggered st activation =
     list_ex (\<lambda>parent_id. parent_id \<in> set (dkeys (activated st)))
       (strs_of (ensure_list (dget activation ''escalation_from'')))"

definition escalate_step :: "bool \<times> act_state \<Rightarrow> dict \<Rightarrow> (bool \<times> act_state) res" where
  "escalate_step = (\<lambda>(changed, st) leaf.
     (case leaf_id leaf of
        None \<Rightarrow> Inr (changed, st)
      | Some i \<Rightarrow>
          if i \<in> set (dkeys (activated st)) then Inr (changed, st)
          else bindE (activation_of leaf) (\<lambda>activation.
            if triggered st activation then Inr (True, activate i leaf [''escalation_from''] st)
            else Inr (changed, st))))"

definition escalate_sweep :: "dict list \<Rightarrow> act_state \<Rightarrow> (bool \<times> act_state) res" where
  "escalate_sweep leaves st = foldE escalate_step (False, st) leaves"

text \<open>\<^verbatim>\<open>while changed and iterations < cap\<close>, with the iterations left as the first argument.\<close>

fun escalate :: "nat \<Rightarrow> dict list \<Rightarrow> act_state \<Rightarrow> act_state res" where
  "escalate 0 leaves st = Inr st"
| "escalate (Suc k) leaves st =
     bindE (escalate_sweep leaves st) (\<lambda>(changed, st'). if changed then escalate k leaves st' else Inr st')"

definition evaluate_activation ::
  "dict list \<Rightarrow> pyval list \<Rightarrow> dict \<Rightarrow> string \<Rightarrow> (dict list \<times> (string \<times> string list) list) res" where
  "evaluate_activation leaves changed_paths project_profile diff_text =
     bindE (foldE (first_pass_step changed_paths project_profile diff_text)
              \<lparr>activated = [], descent_signals = []\<rparr> leaves) (\<lambda>st0.
     bindE (escalate (length leaves + 1) leaves st0) (\<lambda>st.
     Inr (map snd (sort_key fst (activated st)),
          map (\<lambda>(i, fired). (i, sort fired)) (sort_key fst (descent_signals st)))))"

subsection \<open>The handler\<close>

text \<open>
  A file of the walk: its path below the wiki root, its name and, where the frontmatter
  parses, its metadata.
\<close>

record wiki_file =
  rel_path :: string
  file_name :: string
  metadata :: "dict option"

definition wiki_leaf :: "wiki_file \<Rightarrow> dict option" where
  "wiki_leaf f =
     (if prefix ''.'' (file_name f) \<or> \<not> suffix ''.md'' (file_name f) \<or> file_name f = ''index.md'' then None
      else (case metadata f of
          None \<Rightarrow> None
        | Some data \<Rightarrow>
            (case leaf_id data of
               None \<Rightarrow> None
             | Some i \<Rightarrow>
                 let base = [(''id'', VStr i), (''path'', VStr (replace_char (CHR 0x5C) ''/'' (rel_path f))),
                             (''activation'', dget data ''activation'')];
                     globs = dget (ensure_dict (dget data ''activation'')) ''file_globs'';
                     with_globs = (if is_string_array globs then dset ''file_globs'' globs base else base)
                 in Some (dmerge with_globs (project_v2_fields data)))))"

definition wiki_leaves :: "wiki_file list \<Rightarrow> dict list" where
  "wiki_leaves fs = sort_key (\<lambda>leaf. ensure_str (dget leaf ''id'') []) (List.map_filter wiki_leaf fs)"

text \<open>\<^verbatim>\<open>_fetch_diff_text\<close>: \<open>git\<close> is \<open>None\<close> where the command cannot run or times out.\<close>

type_synonym git_cmd = "string \<Rightarrow> string \<Rightarrow> string \<Rightarrow> (int \<times> string) option"

definition fetch_diff_text :: "git_cmd \<Rightarrow> pyval \<Rightarrow> pyval \<Rightarrow> string \<Rightarrow> string" where
  "fetch_diff_text git base head project_root =
     (case (base, head) of
        (VStr b, VStr h) \<Rightarrow>
          if b = [] \<or> h = [] then []
          else (case git b h project_root of
                  None \<Rightarrow> [] | Some (returncode, out) \<Rightarrow> if returncode \<noteq> 0 then [] else out)
      | _ \<Rightarrow> [])"

definition coerce_absolute_project_root :: "pyval \<Rightarrow> string \<Rightarrow> string" where
  "coerce_absolute_project_root value fallback =
     (case value of VStr s \<Rightarrow> if prefix ''/'' s then s else fallback | _ \<Rightarrow> fallback)"

definition activated_entry :: "(string \<times> string list) list \<Rightarrow> dict \<Rightarrow> dict" where
  "activated_entry signals leaf =
     (let base = [(''id'', dget leaf ''id''), (''path'', dget leaf ''path''),
                  (''activation_match'', VList (map VStr (case dget leaf ''id'' of
                      VStr i \<Rightarrow> (case map_of signals i of None \<Rightarrow> [] | Some fired \<Rightarrow> fired) | _ \<Rightarrow> [])))];
          globs = dget leaf ''file_globs'';
          with_globs = (if is_list globs then dset ''file_globs'' globs base else base);
          v2 = map (\<lambda>field. (field, dget leaf field))
                 (filter (\<lambda>field. dget leaf field \<noteq> VNone) v2_fields)
      in dmerge with_globs v2)"

definition handle_activate_leaves ::
  "wiki_file list \<Rightarrow> git_cmd \<Rightarrow> string \<Rightarrow> dict \<Rightarrow> dict res" where
  "handle_activate_leaves files git skill_root env =
     (let project_profile = ensure_dict (dget env ''project_profile'');
          changed_paths = ensure_list (dget env ''changed_paths'');
          args = ensure_dict (dget env ''args'');
          base = py_or (dget env ''base_sha'') (py_or (dget args ''base'') VNone);
          head = py_or (dget env ''head_sha'') (py_or (dget args ''head'') VNone);
          root = coerce_absolute_project_root (dget args ''project_root'') skill_root;
          diff_text = fetch_diff_text git base head root
      in bindE (evaluate_activation (wiki_leaves files) changed_paths project_profile diff_text)
           (\<lambda>(leaves, signals).
              Inr [(''activated_leaves'', VList (map (VDict \<circ> activated_entry signals) leaves))]))"

subsection \<open>Whole-word search\<close>

definition whole_word_at :: "string \<Rightarrow> string \<Rightarrow> string \<Rightarrow> bool" where
  "whole_word_at u word v \<longleftrightarrow>
     (is_alnum (hd word) \<longrightarrow> u = [] \<or> \<not> is_alnum (last u))
     \<and> (is_alnum (last word) \<longrightarrow> v = [] \<or> \<not> is_alnum (hd v))"

lemma ends_left_guard:
  "set (ends (rseq (if b then [RNotBehind P] else [])) s i) = (if b \<and> 0 < i \<and> P (s ! (i - 1)) then {} else {i})"
  by simp

lemma ends_right_guard:
  "set (ends (rseq (if b then [RNotAhead P] else [])) s i) = (if b \<and> i < length s \<and> P (s ! i) then {} else {i})"
  by simp

lemma keyword_rx_ends:
  assumes "word \<noteq> []"
  shows "ends (keyword_rx word) s i \<noteq> [] \<longleftrightarrow>
    \<not> (is_alnum (hd word) \<and> 0 < i \<and> is_alnum (s ! (i - 1)))
    \<and> prefix (lower word) (drop i s)
    \<and> \<not> (is_alnum (last word) \<and> i + length word < length s \<and> is_alnum (s ! (i + length word)))"
proof -
  have len: "length (lower word) = length word" by (simp add: lower_def)
  have "set (ends (rseq [RStr (lower word)]) s k) = (if prefix (lower word) (drop k s) then {k + length word} else {})" for k
    by (simp add: len)
  then have "set (ends (keyword_rx word) s i) \<noteq> {} \<longleftrightarrow>
      \<not> (is_alnum (hd word) \<and> 0 < i \<and> is_alnum (s ! (i - 1)))
      \<and> prefix (lower word) (drop i s)
      \<and> \<not> (is_alnum (last word) \<and> i + length word < length s \<and> is_alnum (s ! (i + length word)))"
    unfolding keyword_rx_def ends_rseq_append ends_left_guard ends_right_guard
    using assms by auto
  then show ?thesis by (simp only: set_empty)
qed

lemma keyword_found_iff:
  assumes "word \<noteq> []"
  shows "keyword_found word text \<longleftrightarrow> (\<exists>u v. lower text = u @ lower word @ v \<and> whole_word_at u word v)"
proof
  assume "keyword_found word text"
  then obtain i where i: "i \<le> length (lower text)" and e: "ends (keyword_rx word) (lower text) i \<noteq> []"
    unfolding keyword_found_def rx_search_iff by blast
  from e obtain v where v: "drop i (lower text) = lower word @ v"
    unfolding keyword_rx_ends [OF assms] by (auto simp: prefix_def)
  let ?u = "take i (lower text)"
  have s: "lower text = ?u @ lower word @ v" by (metis append_take_drop_id v)
  have "length ?u = i" using i by simp
  have l: "?u \<noteq> [] \<Longrightarrow> last ?u = lower text ! (i - 1)"
    using i by (simp add: last_conv_nth)
  have r: "i + length word < length (lower text) \<and> lower text ! (i + length word) = hd v" if "v \<noteq> []"
  proof -
    from that obtain c w where v: "v = c # w" by (cases v) auto
    have "length (?u @ lower word) = i + length word"
      using \<open>length ?u = i\<close> by (simp add: lower_def)
    moreover have "lower text = (?u @ lower word) @ c # w" using s v by simp
    ultimately show ?thesis using v nth_append_length length_append
      by (metis length_Cons less_add_same_cancel1 list.sel(1) zero_less_Suc)
  qed
  have "whole_word_at ?u word v"
    using e l r unfolding keyword_rx_ends [OF assms] whole_word_at_def by auto
  with s show "\<exists>u v. lower text = u @ lower word @ v \<and> whole_word_at u word v" by blast
next
  assume "\<exists>u v. lower text = u @ lower word @ v \<and> whole_word_at u word v"
  then obtain u v where s: "lower text = u @ lower word @ v" and w: "whole_word_at u word v" by blast
  have len: "length (lower word) = length word" by (simp add: lower_def)
  have "ends (keyword_rx word) (lower text) (length u) \<noteq> []"
    unfolding keyword_rx_ends [OF assms]
    using w by (auto simp: s whole_word_at_def nth_append len last_conv_nth hd_conv_nth)
  moreover have "length u \<le> length (lower text)" by (simp add: s)
  ultimately show "keyword_found word text"
    unfolding keyword_found_def rx_search_iff by blast
qed

subsection \<open>The escalation loop computes the least closed set\<close>

abbreviation act_ids :: "act_state \<Rightarrow> string set" where
  "act_ids st \<equiv> set (dkeys (activated st))"

definition act_block :: "dict \<Rightarrow> dict" where
  "act_block leaf = ensure_dict (dget leaf ''activation'')"

definition fires :: "pyval list \<Rightarrow> dict \<Rightarrow> string \<Rightarrow> dict \<Rightarrow> bool" where
  "fires changed_paths project_profile diff_text leaf \<longleftrightarrow>
     fired_signals (act_block leaf) changed_paths project_profile diff_text \<noteq> []"

definition parents_of :: "dict \<Rightarrow> string list" where
  "parents_of leaf = strs_of (ensure_list (dget (act_block leaf) ''escalation_from''))"

inductive active :: "dict list \<Rightarrow> (dict \<Rightarrow> bool) \<Rightarrow> string \<Rightarrow> bool"
  for leaves :: "dict list" and F :: "dict \<Rightarrow> bool" where
  direct: "leaf \<in> set leaves \<Longrightarrow> leaf_id leaf = Some i \<Longrightarrow> F leaf \<Longrightarrow> active leaves F i"
| escalated: "leaf \<in> set leaves \<Longrightarrow> leaf_id leaf = Some i \<Longrightarrow> p \<in> set (parents_of leaf) \<Longrightarrow>
    active leaves F p \<Longrightarrow> active leaves F i"

definition closed_under :: "dict list \<Rightarrow> string set \<Rightarrow> bool" where
  "closed_under leaves S \<longleftrightarrow> (\<forall>leaf\<in>set leaves. \<forall>i. leaf_id leaf = Some i \<longrightarrow>
     set (parents_of leaf) \<inter> S \<noteq> {} \<longrightarrow> i \<in> S)"

definition all_ids :: "dict list \<Rightarrow> string set" where
  "all_ids leaves = {i. \<exists>leaf\<in>set leaves. leaf_id leaf = Some i}"

text \<open>The shape every state of the pass has.\<close>

definition act_inv :: "dict list \<Rightarrow> act_state \<Rightarrow> bool" where
  "act_inv leaves st \<longleftrightarrow>
     distinct (dkeys (activated st)) \<and> dkeys (descent_signals st) = dkeys (activated st)
     \<and> (\<forall>(i, leaf)\<in>set (activated st). leaf \<in> set leaves \<and> leaf_id leaf = Some i)
     \<and> (\<forall>(i, fired)\<in>set (descent_signals st). fired \<noteq> [])"

lemma activation_of_Inr: "activation_of leaf = Inr a \<Longrightarrow> a = act_block leaf"
  by (auto simp: activation_of_def act_block_def ensure_dict_def py_or_def split: pyval.splits if_splits)

lemma activate_inv:
  assumes "act_inv leaves st" "leaf \<in> set leaves" "leaf_id leaf = Some i" "fired \<noteq> []"
  shows "act_inv leaves (activate i leaf fired st)"
  using assms set_dset_subset [of i leaf "activated st"] set_dset_subset [of i fired "descent_signals st"]
  unfolding act_inv_def activate_def
  by (fastforce simp: dkeys_dset)

lemma activate_ids [simp]: "act_ids (activate i leaf fired st) = insert i (act_ids st)"
  by (auto simp: activate_def dkeys_dset simp del: set_map)

lemma first_pass_step_Inr:
  assumes "first_pass_step ps prof txt st leaf = Inr st'"
  shows "st' = (case leaf_id leaf of None \<Rightarrow> st
    | Some i \<Rightarrow> if fires ps prof txt leaf
        then activate i leaf (fired_signals (act_block leaf) ps prof txt) st else st)"
  using assms
  by (auto simp: first_pass_step_def res_simps Let_def fires_def dest!: activation_of_Inr split: option.splits)

lemma first_pass_ids:
  assumes "first_pass_step ps prof txt st leaf = Inr st'"
  shows "act_ids st' = act_ids st \<union> {i. leaf_id leaf = Some i \<and> fires ps prof txt leaf}"
    and "act_inv leaves st \<Longrightarrow> leaf \<in> set leaves \<Longrightarrow> act_inv leaves st'"
  unfolding first_pass_step_Inr [OF assms]
  by (auto simp: fires_def intro: activate_inv simp del: set_map split: option.splits)

lemma first_pass_all:
  assumes "foldE (first_pass_step ps prof txt) st ls = Inr st'" "act_inv leaves st" "set ls \<subseteq> set leaves"
  shows "act_ids st' = act_ids st \<union> {i. \<exists>leaf\<in>set ls. leaf_id leaf = Some i \<and> fires ps prof txt leaf}
    \<and> act_inv leaves st'"
  using assms
proof (induction ls arbitrary: st)
  case Nil
  then show ?case by simp
next
  case (Cons l ls)
  from Cons.prems(1) obtain t where t: "first_pass_step ps prof txt st l = Inr t"
    and rest: "foldE (first_pass_step ps prof txt) t ls = Inr st'" by (auto simp: res_simps)
  have "act_inv leaves t" using first_pass_ids(2) [OF t] Cons.prems(2,3) by simp
  with Cons.IH [OF rest] Cons.prems(3) show ?case
    unfolding first_pass_ids(1) [OF t] by auto
qed

lemma escalate_step_cases:
  assumes "escalate_step (c, st) leaf = Inr (c', st')"
  obtains (same) "c' = c" "st' = st"
      "\<And>i. leaf_id leaf = Some i \<Longrightarrow> set (parents_of leaf) \<inter> act_ids st \<noteq> {} \<Longrightarrow> i \<in> act_ids st"
    | (new) i where "c'" "leaf_id leaf = Some i" "i \<notin> act_ids st"
      "set (parents_of leaf) \<inter> act_ids st \<noteq> {}" "st' = activate i leaf [''escalation_from''] st"
proof (cases "leaf_id leaf")
  case None
  with assms same show ?thesis by (simp add: escalate_step_def)
next
  case (Some i)
  show ?thesis
  proof (cases "i \<in> act_ids st")
    case True
    with Some assms same show ?thesis by (simp add: escalate_step_def del: set_map)
  next
    case False
    have trig: "triggered st (act_block leaf) \<longleftrightarrow> set (parents_of leaf) \<inter> act_ids st \<noteq> {}"
      by (auto simp: triggered_def parents_of_def list_ex_iff)
    from assms False Some have "if triggered st (act_block leaf)
        then c' \<and> st' = activate i leaf [''escalation_from''] st else c' = c \<and> st' = st"
      by (auto simp: escalate_step_def res_simps dest!: activation_of_Inr simp del: set_map split: if_splits)
    with False Some trig same new show ?thesis by (metis option.inject)
  qed
qed

lemma insert_between:
  "insert i A \<subseteq> B \<Longrightarrow> B \<subseteq> insert i A \<union> C \<Longrightarrow> i \<in> D \<Longrightarrow> C \<subseteq> D \<Longrightarrow> i \<notin> A \<Longrightarrow>
    A \<subseteq> B \<and> B \<subseteq> A \<union> D \<and> A \<noteq> B"
  by blast

lemma sweep_facts:
  assumes "foldE escalate_step (c, st) ls = Inr (c', st')" "act_inv leaves st" "set ls \<subseteq> set leaves"
  shows "act_inv leaves st' \<and> act_ids st \<subseteq> act_ids st' \<and> act_ids st' \<subseteq> act_ids st \<union> all_ids ls
    \<and> (\<not> c' \<longrightarrow> \<not> c \<and> st' = st \<and> closed_under ls (act_ids st))
    \<and> (c' \<longrightarrow> c \<or> act_ids st \<noteq> act_ids st')
    \<and> (act_ids st \<subseteq> {i. active leaves F i} \<longrightarrow> act_ids st' \<subseteq> {i. active leaves F i})"
  using assms
proof (induction ls arbitrary: c st)
  case Nil
  then show ?case by (simp add: closed_under_def)
next
  case (Cons l ls)
  from Cons.prems(1) obtain d t where t: "escalate_step (c, st) l = Inr (d, t)"
    and rest: "foldE escalate_step (d, t) ls = Inr (c', st')" by (auto simp: res_simps)
  from t show ?case
  proof (cases rule: escalate_step_cases)
    case same
    have ls: "set ls \<subseteq> set leaves" using Cons.prems(3) by simp
    have "act_inv leaves t" using Cons.prems(2) same(2) by simp
    note IH = Cons.IH [OF rest this ls, unfolded same(1,2)]
    note IH1 = IH [THEN conjunct1] and IH2 = IH [THEN conjunct2, THEN conjunct1]
      and IH3 = IH [THEN conjunct2, THEN conjunct2, THEN conjunct1]
      and IH4 = IH [THEN conjunct2, THEN conjunct2, THEN conjunct2, THEN conjunct1]
      and IH5 = IH [THEN conjunct2, THEN conjunct2, THEN conjunct2, THEN conjunct2]
    have "all_ids ls \<subseteq> all_ids (l # ls)" by (auto simp: all_ids_def)
    then have i3: "act_ids st' \<subseteq> act_ids st \<union> all_ids (l # ls)" using IH3 by (meson Un_mono order_refl order_trans)
    have "closed_under ls (act_ids st) \<Longrightarrow> closed_under (l # ls) (act_ids st)"
      using same(3) by (simp add: closed_under_def del: set_map)
    then have i4: "\<not> c' \<longrightarrow> \<not> c \<and> st' = st \<and> closed_under (l # ls) (act_ids st)" using IH4 by meson
    show ?thesis by (rule conjI [OF IH1 conjI [OF IH2 conjI [OF i3 conjI [OF i4 IH5]]]])
  next
    case (new i)
    have l: "l \<in> set leaves" using Cons.prems(3) by simp
    then have inv_t: "act_inv leaves t" unfolding new(5) using Cons.prems(2) new(2)
      by (intro activate_inv) simp_all
    have ls: "set ls \<subseteq> set leaves" using Cons.prems(3) by simp
    note IH = Cons.IH [OF rest inv_t ls]
    note IH1 = IH [THEN conjunct1] and IH2 = IH [THEN conjunct2, THEN conjunct1]
      and IH3 = IH [THEN conjunct2, THEN conjunct2, THEN conjunct1]
      and IH4 = IH [THEN conjunct2, THEN conjunct2, THEN conjunct2, THEN conjunct1]
      and IH6 = IH [THEN conjunct2, THEN conjunct2, THEN conjunct2, THEN conjunct2, THEN conjunct2]
    have ids: "act_ids t = insert i (act_ids st)" by (simp add: new(5) del: set_map)
    have i: "i \<in> all_ids (l # ls)" "all_ids ls \<subseteq> all_ids (l # ls)" using new(2) by (auto simp: all_ids_def)
    note i235 = insert_between [OF IH2 [unfolded ids] IH3 [unfolded ids] i new(3)]
    have i6: "act_ids st \<subseteq> {i. active leaves F i} \<longrightarrow> act_ids st' \<subseteq> {i. active leaves F i}"
    proof
      assume sub: "act_ids st \<subseteq> {i. active leaves F i}"
      from new(4) obtain q where "q \<in> set (parents_of l)" "q \<in> act_ids st" by blast
      then have "active leaves F i" using active.escalated [OF l new(2)] sub by blast
      with sub have "act_ids t \<subseteq> {i. active leaves F i}" unfolding ids by simp
      then show "act_ids st' \<subseteq> {i. active leaves F i}" by (rule IH6 [THEN mp])
    qed
    have "c'" using IH4 new(1) by meson
    with IH1 i235 i6 show ?thesis by simp
  qed
qed

lemma finite_all_ids: "finite (all_ids leaves)" "card (all_ids leaves) \<le> length leaves"
proof -
  have "all_ids leaves \<subseteq> (the \<circ> leaf_id) ` set leaves"
    by (force simp: all_ids_def)
  then show "finite (all_ids leaves)" "card (all_ids leaves) \<le> length leaves"
    by (auto intro: finite_subset order_trans [OF card_mono [OF _ _] order_trans [OF card_image_le card_length]])
qed

lemma escalate_fixpoint:
  assumes "escalate k leaves st = Inr st'" "act_inv leaves st" "act_ids st \<subseteq> all_ids leaves"
    and "card (all_ids leaves) < k + card (act_ids st)"
    and "act_ids st \<subseteq> {i. active leaves F i}"
  shows "act_inv leaves st' \<and> act_ids st \<subseteq> act_ids st' \<and> closed_under leaves (act_ids st')
    \<and> act_ids st' \<subseteq> {i. active leaves F i}"
  using assms
proof (induction k arbitrary: st)
  case 0
  have "card (act_ids st) \<le> card (all_ids leaves)" by (rule card_mono [OF finite_all_ids(1) 0(3)])
  with 0(4) show ?case by simp
next
  case (Suc k)
  from Suc.prems(1) obtain c t where sweep: "foldE escalate_step (False, st) leaves = Inr (c, t)"
    and rest: "(if c then escalate k leaves t else Inr t) = Inr st'"
    by (auto simp: res_simps escalate_sweep_def)
  note facts = sweep_facts [OF sweep Suc.prems(2) order_refl, of F]
  show ?case
  proof (cases c)
    case False
    with rest have "st' = t" by simp
    moreover from False facts have "t = st" "closed_under leaves (act_ids st)" by blast+
    ultimately show ?thesis using Suc.prems(2,5) by (simp del: set_map)
  next
    case True
    have sub: "act_ids t \<subseteq> all_ids leaves" using facts Suc.prems(3) by blast
    have "act_ids st \<subset> act_ids t" using facts True by blast
    then have "card (act_ids st) < card (act_ids t)"
      by (intro psubset_card_mono) simp_all
    then have "card (all_ids leaves) < k + card (act_ids t)" using Suc.prems(4) by simp
    from Suc.IH [OF _ _ sub this] rest True facts Suc.prems(5) show ?thesis
      by (metis (no_types, lifting) order_trans)
  qed
qed

lemma active_closed:
  assumes "closed_under leaves S" "{i. \<exists>leaf\<in>set leaves. leaf_id leaf = Some i \<and> F leaf} \<subseteq> S"
  shows "active leaves F i \<Longrightarrow> i \<in> S"
proof (induction rule: active.induct)
  case (direct leaf i)
  with assms(2) show ?case by blast
next
  case (escalated leaf i p)
  with assms(1) show ?case unfolding closed_under_def by blast
qed

lemma evaluate_activation_state:
  assumes "evaluate_activation leaves ps prof txt = Inr (ls, sigs)"
  obtains st where "act_inv leaves st" "act_ids st = {i. active leaves (fires ps prof txt) i}"
    "ls = map snd (sort_key fst (activated st))"
    "sigs = map (\<lambda>(i, fired). (i, sort fired)) (sort_key fst (descent_signals st))"
proof -
  let ?F = "fires ps prof txt"
  from assms obtain st0 st where
      first: "foldE (first_pass_step ps prof txt) \<lparr>activated = [], descent_signals = []\<rparr> leaves = Inr st0"
    and esc: "escalate (length leaves + 1) leaves st0 = Inr st"
    and out: "ls = map snd (sort_key fst (activated st))"
      "sigs = map (\<lambda>(i, fired). (i, sort fired)) (sort_key fst (descent_signals st))"
    by (auto simp: evaluate_activation_def res_simps simp del: escalate.simps)
  have "act_inv leaves \<lparr>activated = [], descent_signals = []\<rparr>" by (simp add: act_inv_def)
  from first_pass_all [OF first this order_refl]
  have ids0: "act_ids st0 = {i. \<exists>leaf\<in>set leaves. leaf_id leaf = Some i \<and> ?F leaf}"
    and inv0: "act_inv leaves st0" by (simp_all del: set_map)
  have "act_ids st0 \<subseteq> all_ids leaves" unfolding ids0 by (auto simp: all_ids_def)
  moreover have "card (all_ids leaves) < length leaves + 1 + card (act_ids st0)"
    using finite_all_ids(2) [of leaves] by (simp del: set_map)
  moreover have "act_ids st0 \<subseteq> {i. active leaves ?F i}"
    unfolding ids0 by (auto intro: active.direct)
  ultimately have final: "act_inv leaves st" "act_ids st0 \<subseteq> act_ids st" "closed_under leaves (act_ids st)"
      "act_ids st \<subseteq> {i. active leaves ?F i}"
    using escalate_fixpoint [OF esc inv0] by blast+
  have "{i. active leaves ?F i} \<subseteq> act_ids st"
    using active_closed [OF final(3)] final(2) unfolding ids0 by blast
  with final(4) have ids: "act_ids st = {i. active leaves ?F i}" by blast
  show thesis by (rule that [OF final(1) ids out])
qed

subsection \<open>Properties\<close>

text \<open>
  A keyword list matches a diff exactly when the diff, in any case, contains one of the
  stripped keywords as a whole word: no letter or digit touches an end of the keyword that
  is itself a letter or digit, while an end that is a symbol is unconstrained.
\<close>

theorem keyword_matches_iff:
  "keyword_matches keywords diff_text \<longleftrightarrow>
     (\<exists>kw u v. VStr kw \<in> set (ensure_list keywords) \<and> strip kw \<noteq> []
        \<and> lower diff_text = u @ lower (strip kw) @ v \<and> whole_word_at u (strip kw) v)"
proof -
  have "keyword_matches keywords diff_text \<longleftrightarrow> diff_text \<noteq> [] \<and>
      (\<exists>kw. VStr kw \<in> set (ensure_list keywords) \<and> strip kw \<noteq> [] \<and> keyword_found (strip kw) diff_text)"
    by (auto simp: keyword_matches_def list_ex_iff Let_def set_strs_of)
  moreover have "diff_text \<noteq> []" if "lower diff_text = u @ lower (strip kw) @ v" "strip kw \<noteq> []" for kw u v
    using that by (auto simp: lower_def)
  ultimately show ?thesis using keyword_found_iff by blast
qed

text \<open>
  C11: activation computes the least set of leaves closed under escalation: the leaves
  returned, and the keys of the signal map, are in order the ids of the leaves with a
  signal of their own or with an activated leaf among their \<^verbatim>\<open>escalation_from\<close>; the bound on
  the iterations of the loop never cuts the closure short.
\<close>

theorem activation_least_fixpoint:
  assumes "evaluate_activation leaves changed_paths project_profile diff_text = Inr (ls, sigs)"
  defines "ids \<equiv> sorted_list_of_set {i. active leaves (fires changed_paths project_profile diff_text) i}"
  shows "map leaf_id ls = map Some ids \<and> dkeys sigs = ids \<and> set ls \<subseteq> set leaves"
proof -
  from assms(1) obtain st where inv: "act_inv leaves st"
    and ids: "act_ids st = {i. active leaves (fires changed_paths project_profile diff_text) i}"
    and ls: "ls = map snd (sort_key fst (activated st))"
    and sigs: "sigs = map (\<lambda>(i, fired). (i, sort fired)) (sort_key fst (descent_signals st))"
    by (rule evaluate_activation_state)
  have dist: "distinct (dkeys (activated st))" and same: "dkeys (descent_signals st) = dkeys (activated st)"
    using inv by (simp_all add: act_inv_def)
  have keys: "map fst (sort_key fst (activated st)) = ids" "map fst (sort_key fst (descent_signals st)) = ids"
    unfolding map_fst_sort_key same sort_distinct_set [OF dist] ids_def ids by simp_all
  have "\<forall>x\<in>set (activated st). leaf_id (snd x) = Some (fst x) \<and> snd x \<in> set leaves"
    using inv by (auto simp: act_inv_def)
  then have "map leaf_id ls = map (Some \<circ> fst) (sort_key fst (activated st))" "set ls \<subseteq> set leaves"
    unfolding ls by auto
  then have "map leaf_id ls = map Some ids" "set ls \<subseteq> set leaves"
    unfolding keys(1) [symmetric] by simp_all
  moreover have "dkeys sigs = map fst (sort_key fst (descent_signals st))"
    unfolding sigs by (simp add: case_prod_unfold comp_def)
  ultimately show ?thesis unfolding keys(2) by blast
qed

definition demo_leaves :: "dict list" where
  "demo_leaves =
    [[(''id'', VStr ''c''), (''activation'', VDict [(''escalation_from'', VList [VStr ''b''])])],
     [(''id'', VStr ''b''), (''activation'', VDict [(''escalation_from'', VList [VStr ''a''])])],
     [(''id'', VStr ''a''), (''activation'', VDict [(''file_globs'', VList [VStr ''**/*.py''])])],
     [(''id'', VStr ''d''), (''activation'', VDict [(''keyword_matches'', VList [VStr ''io''])])]]"

lemma demo_activation:
  "evaluate_activation demo_leaves [VStr ''src/x.py''] [] ''integrations'' =
     Inr ([demo_leaves ! 2, demo_leaves ! 1, demo_leaves ! 0],
          [(''a'', [''file_globs'']), (''b'', [''escalation_from'']), (''c'', [''escalation_from''])])"
  by code_simp

theorem activation_least_fixpoint_witness:
  "sorted_list_of_set {i. active demo_leaves (fires [VStr ''src/x.py''] [] ''integrations'') i}
     = [''a'', ''b'', ''c'']"
  using activation_least_fixpoint [OF demo_activation] by simp

end
