(* ===== verification/Planner.thy ===== *)
theory Planner
  imports Activation
begin

section \<open>Planning the specialist batches\<close>

text \<open>
  Handler 10 of \<^verbatim>\<open>code_review/handlers.py\<close>: each picked leaf is given the changed files its globs
  select, the files are cut into units under the token budget of a leaf, and the units are
  packed into batches. The lemmas show that the cut and the packing lose and duplicate
  nothing.
\<close>

subsection \<open>Model\<close>

record work_unit =
  u_leaf :: string
  u_sub :: nat
  u_total :: nat
  u_files :: "string list"

definition unit_dict :: "work_unit \<Rightarrow> dict" where
  "unit_dict u = [(''leaf_id'', VStr (u_leaf u)), (''sub_index'', VInt (int (u_sub u))),
     (''total_subs'', VInt (int (u_total u))), (''files'', VList (map VStr (u_files u)))]"

abbreviation unit_val :: "work_unit \<Rightarrow> pyval" where
  "unit_val u \<equiv> VDict (unit_dict u)"

fun tier_batch_size :: "string \<Rightarrow> nat" where
  "tier_batch_size t =
     (if t = ''trivial'' then 3 else if t = ''lite'' then 4 else if t = ''full'' then 5
      else if t = ''sensitive'' then 3 else 4)"

definition default_max_leaf_tokens :: nat where "default_max_leaf_tokens = 80000"

definition tokens_per_file :: nat where "tokens_per_file = 500"

definition math_ceil :: "int \<Rightarrow> int \<Rightarrow> int" where
  "math_ceil num den = (if den \<le> 0 then 0 else - ((- num) div den))"

definition leaf_globs :: "dict \<Rightarrow> pyval" where
  "leaf_globs leaf =
     (let globs = (case dget leaf ''activation'' of VDict a \<Rightarrow> dget a ''file_globs'' | _ \<Rightarrow> VNone)
      in if globs = VNone then dget leaf ''file_globs'' else globs)"

definition glob_hit :: "pyval list \<Rightarrow> string \<Rightarrow> bool" where
  "glob_hit globs path = list_ex (\<lambda>glob. glob \<noteq> [] \<and> minimatch path glob) (strs_of globs)"

definition leaf_file_set :: "dict \<Rightarrow> string list \<Rightarrow> string list" where
  "leaf_file_set leaf changed_paths =
     (let globs = ensure_list (leaf_globs leaf) in
      if globs = [] then changed_paths
      else foldl (\<lambda>matched path.
             if glob_hit globs path \<and> path \<notin> set matched then matched @ [path] else matched)
             [] changed_paths)"

text \<open>The loop over the sub-batches of one leaf; \<open>takeWhile\<close> is its \<^verbatim>\<open>break\<close>.\<close>

definition sub_units :: "string \<Rightarrow> nat \<Rightarrow> nat \<Rightarrow> string list \<Rightarrow> work_unit list" where
  "sub_units leaf sub_count chunk_size files =
     map (\<lambda>k. \<lparr>u_leaf = leaf, u_sub = k + 1, u_total = sub_count,
                u_files = take chunk_size (drop (k * chunk_size) files)\<rparr>)
       (takeWhile (\<lambda>k. k * chunk_size < length files) [0..<sub_count])"

definition leaf_units :: "nat \<Rightarrow> string \<Rightarrow> string list \<Rightarrow> work_unit list" where
  "leaf_units max_leaf_tokens leaf files =
     (if files = [] then [\<lparr>u_leaf = leaf, u_sub = 1, u_total = 1, u_files = []\<rparr>]
      else (let estimated_tokens = length files * tokens_per_file in
            if max_leaf_tokens < estimated_tokens
            then (let sub_count = nat (math_ceil (int estimated_tokens) (int max_leaf_tokens));
                      chunk_size = nat (math_ceil (int (length files)) (int sub_count))
                  in sub_units leaf sub_count chunk_size files)
            else [\<lparr>u_leaf = leaf, u_sub = 1, u_total = 1, u_files = files\<rparr>]))"

definition plan_units :: "nat \<Rightarrow> string list \<Rightarrow> pyval list \<Rightarrow> work_unit list" where
  "plan_units max_leaf_tokens changed_paths picked_leaves =
     concat (map (\<lambda>leaf. case leaf_id leaf of
         None \<Rightarrow> []
       | Some i \<Rightarrow> leaf_units max_leaf_tokens i (leaf_file_set leaf changed_paths)) (dicts_of picked_leaves))"

definition plan_batch_size :: "dict \<Rightarrow> pyval \<Rightarrow> nat" where
  "plan_batch_size args_bag tier = (case int_of (dget args_bag ''batch_size'') of
     Some n \<Rightarrow> if 0 < n then nat n else tier_batch_size (case tier of VStr t \<Rightarrow> t | _ \<Rightarrow> [])
   | None \<Rightarrow> tier_batch_size (case tier of VStr t \<Rightarrow> t | _ \<Rightarrow> []))"

definition plan_max_leaf_tokens :: "dict \<Rightarrow> nat" where
  "plan_max_leaf_tokens args_bag = (case int_of (dget args_bag ''max_leaf_tokens'') of
     Some n \<Rightarrow> if 0 < n then nat n else default_max_leaf_tokens
   | None \<Rightarrow> default_max_leaf_tokens)"

definition batch_val :: "nat \<times> work_unit list \<Rightarrow> pyval" where
  "batch_val = (\<lambda>(i, us). VDict [(''batch_index'', VInt (int i)), (''units'', VList (map unit_val us))])"

definition env_units :: "dict \<Rightarrow> work_unit list" where
  "env_units env = plan_units (plan_max_leaf_tokens (ensure_dict (dget env ''args'')))
     (strs_of (ensure_list (dget env ''changed_paths''))) (ensure_list (dget env ''picked_leaves''))"

definition env_batches :: "dict \<Rightarrow> work_unit list list" where
  "env_batches env = chunks (plan_batch_size (ensure_dict (dget env ''args'')) (dget env ''tier'')) (env_units env)"

definition handle_plan_specialist_batches :: "dict \<Rightarrow> dict res" where
  "handle_plan_specialist_batches env =
     (let batches = env_batches env;
          union_files = remdups (concat (map u_files (env_units env)))
      in Inr [(''specialist_batches'', VList (map batch_val (zip [1..<Suc (length batches)] batches))),
              (''total_batches'', VInt (int (length batches))),
              (''total_files_planned'', VInt (int (length union_files)))])"

subsection \<open>Lemmas\<close>

lemma slices_chunks:
  "0 < c \<Longrightarrow> length xs \<le> m * c \<Longrightarrow>
     map (\<lambda>k. take c (drop (k * c) xs)) (takeWhile (\<lambda>k. k * c < length xs) [0..<m]) = chunks c xs"
proof (induction m arbitrary: xs)
  case 0
  then show ?case by simp
next
  case (Suc m)
  show ?case
  proof (cases "xs = []")
    case True
    then show ?thesis by (cases "[0..<Suc m]") auto
  next
    case False
    have upt: "[0..<Suc m] = 0 # map Suc [0..<m]" by (simp add: upt_conv_Cons map_Suc_upt del: upt_Suc)
    have cond: "(Suc k * c < length xs) = (k * c < length (drop c xs))" for k by auto
    have "takeWhile (\<lambda>k. k * c < length xs) (map Suc [0..<m])
        = map Suc (takeWhile (\<lambda>k. k * c < length (drop c xs)) [0..<m])"
      by (simp only: takeWhile_map comp_def cond)
    then have "map (\<lambda>k. take c (drop (k * c) xs)) (takeWhile (\<lambda>k. k * c < length xs) [0..<Suc m])
        = take c xs # map (\<lambda>k. take c (drop (k * c) (drop c xs)))
            (takeWhile (\<lambda>k. k * c < length (drop c xs)) [0..<m])"
      using False by (simp add: upt comp_def add.commute del: upt_Suc)
    also have "\<dots> = take c xs # chunks c (drop c xs)"
      using Suc.prems by (subst Suc.IH) auto
    also have "\<dots> = chunks c xs" using False Suc.prems(1) by (simp add: chunks.simps [of c xs])
    finally show ?thesis .
  qed
qed

lemma math_ceil_bounds:
  assumes "0 < d"
  shows "n \<le> math_ceil n d * d" and "math_ceil n d * d < n + d"
proof -
  have "(- n) div d * d + (- n) mod d = - n" by (rule div_mult_mod_eq)
  moreover have "0 \<le> (- n) mod d" "(- n) mod d < d" using assms by simp_all
  moreover have "math_ceil n d * d = - ((- n) div d * d)" using assms by (simp add: math_ceil_def)
  ultimately show "n \<le> math_ceil n d * d" "math_ceil n d * d < n + d" by linarith+
qed

lemma math_ceil_pos: "0 < n \<Longrightarrow> 0 < d \<Longrightarrow> 0 < math_ceil n d"
  using math_ceil_bounds(1) [of d n] by (meson less_le_trans zero_less_mult_pos2)

text \<open>The chunk size of a leaf that is cut, and what the two divisions guarantee of it.\<close>

definition leaf_chunk :: "nat \<Rightarrow> nat \<Rightarrow> nat" where
  "leaf_chunk max_leaf_tokens n =
     nat (math_ceil (int n) (math_ceil (int (n * tokens_per_file)) (int max_leaf_tokens)))"

lemma leaf_chunk_bounds:
  assumes "0 < n" "0 < t"
  defines "m \<equiv> nat (math_ceil (int (n * tokens_per_file)) (int t))"
  shows "0 < leaf_chunk t n" and "n \<le> m * leaf_chunk t n" and "leaf_chunk t n * tokens_per_file < t + tokens_per_file"
proof -
  let ?m = "math_ceil (int (n * tokens_per_file)) (int t)"
  let ?c = "math_ceil (int n) ?m"
  have m: "0 < ?m" using assms(1,2) by (intro math_ceil_pos) (simp_all add: tokens_per_file_def)
  have c: "0 < ?c" by (rule math_ceil_pos [OF _ m]) (simp add: assms(1))
  show "0 < leaf_chunk t n" using c by (simp add: leaf_chunk_def)
  have "int n \<le> ?c * ?m" by (rule math_ceil_bounds(1) [OF m])
  also have "\<dots> = int (m * leaf_chunk t n)" using m c by (simp add: m_def leaf_chunk_def mult.commute)
  finally show "n \<le> m * leaf_chunk t n" by linarith
  have "int n * 500 \<le> ?m * int t" using math_ceil_bounds(1) [of "int t" "int (n * tokens_per_file)"] assms(2)
    by (simp add: tokens_per_file_def)
  moreover have "?c * ?m < int n + ?m" by (rule math_ceil_bounds(2) [OF m])
  ultimately have "?c * ?m * 500 < ?m * int t + ?m * 500" by linarith
  then have "?m * (?c * 500) < ?m * (int t + 500)" by (simp add: algebra_simps)
  then have "?c * 500 < int t + 500" using m by (simp add: mult_less_cancel_left_pos)
  then show "leaf_chunk t n * tokens_per_file < t + tokens_per_file"
    using c by (simp add: leaf_chunk_def tokens_per_file_def)
qed

lemma leaf_units_cut:
  assumes "files \<noteq> []" "t < length files * tokens_per_file" "0 < t"
  shows "map u_files (leaf_units t leaf files) = chunks (leaf_chunk t (length files)) files"
proof -
  let ?m = "nat (math_ceil (int (length files * tokens_per_file)) (int t))"
  have "0 < math_ceil (int (length files * tokens_per_file)) (int t)"
    using assms by (intro math_ceil_pos) (simp_all add: tokens_per_file_def)
  then have c: "nat (math_ceil (int (length files)) (int ?m)) = leaf_chunk t (length files)"
    by (simp add: leaf_chunk_def)
  have units: "leaf_units t leaf files = sub_units leaf ?m (leaf_chunk t (length files)) files"
    unfolding leaf_units_def Let_def c using assms by (simp only: if_True if_False)
  have "map u_files (leaf_units t leaf files)
      = map (\<lambda>k. take (leaf_chunk t (length files)) (drop (k * leaf_chunk t (length files)) files))
          (takeWhile (\<lambda>k. k * leaf_chunk t (length files) < length files) [0..<?m])"
    unfolding units sub_units_def by (simp only: map_map comp_def work_unit.simps)
  also have "\<dots> = chunks (leaf_chunk t (length files)) files"
    using leaf_chunk_bounds [of "length files" t] assms by (intro slices_chunks) auto
  finally show ?thesis .
qed

lemma leaf_units_files:
  assumes "0 < t"
  shows "concat (map u_files (leaf_units t leaf files)) = files"
proof (cases "files \<noteq> [] \<and> t < length files * tokens_per_file")
  case True
  then show ?thesis
    using leaf_chunk_bounds(1) [of "length files" t] assms by (simp add: leaf_units_cut chunks_concat)
next
  case False
  then show ?thesis by (auto simp: leaf_units_def)
qed

lemma leaf_units_small:
  assumes "0 < t" "u \<in> set (leaf_units t leaf files)"
  shows "length (u_files u) * tokens_per_file < t + tokens_per_file"
proof (cases "files \<noteq> [] \<and> t < length files * tokens_per_file")
  case True
  with assms(2) have "u_files u \<in> set (chunks (leaf_chunk t (length files)) files)"
    using leaf_units_cut [of files t leaf] assms(1) by (metis image_eqI list.set_map)
  then have "length (u_files u) * tokens_per_file \<le> leaf_chunk t (length files) * tokens_per_file"
    by (intro mult_le_mono1) (use chunks_bounds in blast)
  also have "\<dots> < t + tokens_per_file" using leaf_chunk_bounds(3) [of "length files" t] True assms(1) by simp
  finally show ?thesis .
next
  case False
  with assms show ?thesis by (auto simp: leaf_units_def tokens_per_file_def split: if_splits)
qed

lemma takeWhile_upt_prefix: "\<exists>n. takeWhile P [0..<m] = [0..<n] \<and> n \<le> m"
proof -
  have "takeWhile P [0..<m] = take (length (takeWhile P [0..<m])) [0..<m]" by (rule takeWhile_eq_take)
  moreover have "length (takeWhile P [0..<m]) \<le> m" by (metis diff_zero length_takeWhile_le length_upt)
  ultimately show ?thesis by (metis add_0 take_upt)
qed

lemma leaf_units_index:
  "map u_sub (leaf_units t leaf files) = [1..<Suc (length (leaf_units t leaf files))]"
  "list_all (\<lambda>u. u_leaf u = leaf) (leaf_units t leaf files)"
proof -
  have sub: "map u_sub (sub_units leaf m c fs) = [1..<Suc (length (sub_units leaf m c fs))]" for m c fs
  proof -
    obtain n where n: "takeWhile (\<lambda>k. k * c < length fs) [0..<m] = [0..<n]"
      using takeWhile_upt_prefix by blast
    have "map u_sub (sub_units leaf m c fs) = map Suc [0..<n]"
      unfolding sub_units_def n by (simp add: comp_def del: upt_Suc)
    then show ?thesis unfolding sub_units_def n by (simp add: map_Suc_upt del: upt_Suc)
  qed
  have one: "[1..<Suc (Suc 0)] = [1]" by simp
  show "map u_sub (leaf_units t leaf files) = [1..<Suc (length (leaf_units t leaf files))]"
    unfolding leaf_units_def Let_def by (simp only: sub split: if_split) (simp add: one)
  show "list_all (\<lambda>u. u_leaf u = leaf) (leaf_units t leaf files)"
    by (auto simp: leaf_units_def Let_def sub_units_def list_all_iff)
qed

lemma leaf_units_leaf: "u \<in> set (leaf_units t leaf files) \<Longrightarrow> u_leaf u = leaf"
  using leaf_units_index(2) [of leaf t files] unfolding list_all_iff by blast

lemma plan_max_leaf_tokens_pos: "0 < plan_max_leaf_tokens args"
  by (simp add: plan_max_leaf_tokens_def default_max_leaf_tokens_def split: option.split)

lemma plan_batch_size_pos: "0 < plan_batch_size args tier"
  by (simp add: plan_batch_size_def split: option.split)

lemma foldl_distinct_filter:
  "foldl (\<lambda>m x. if P x \<and> x \<notin> set m then m @ [x] else m) acc xs
     = acc @ rev (remdups (rev (filter (\<lambda>x. P x \<and> x \<notin> set acc) xs)))"
proof (induction xs arbitrary: acc)
  case Nil
  then show ?case by simp
next
  case (Cons x xs)
  have snoc: "rev (remdups (rev ys @ [x])) = x # rev (remdups (rev (filter (\<lambda>y. y \<noteq> x) ys)))" for ys :: "'a list"
  proof -
    have "remdups (zs @ [x]) = remdups (filter (\<lambda>y. y \<noteq> x) zs) @ [x]" for zs :: "'a list"
      by (induction zs) auto
    then show ?thesis by (simp add: rev_filter [symmetric])
  qed
  show ?case
    by (auto simp: Cons.IH snoc conj_ac)
qed

lemma leaf_file_set_globs:
  "ensure_list (leaf_globs leaf) \<noteq> [] \<Longrightarrow>
     leaf_file_set leaf ps = rev (remdups (rev (filter (glob_hit (ensure_list (leaf_globs leaf))) ps)))"
  by (simp add: leaf_file_set_def foldl_distinct_filter)

lemma plan_out_total:
  "handle_plan_specialist_batches env = Inr out \<Longrightarrow>
     dget out ''total_files_planned'' = VInt (int (card (\<Union>u\<in>set (env_units env). set (u_files u))))"
  by (auto simp: handle_plan_specialist_batches_def Let_def length_remdups_card_conv simp del: upt_Suc)

subsection \<open>Properties\<close>

text \<open>
  Cutting a leaf into units loses, duplicates and reorders nothing: whatever the token
  budget in the arguments, the files of the units, in order, are the files of the leaf, the
  sub-indices count from 1, every unit carries the leaf's id, and a unit exceeds the budget
  by less than one file.
\<close>

theorem leaf_units_partition:
  fixes args :: dict and i :: string and files :: "string list"
  defines "us \<equiv> leaf_units (plan_max_leaf_tokens args) i files"
  shows "concat (map u_files us) = files \<and> map u_sub us = [1..<Suc (length us)] \<and>
    list_all (\<lambda>u. u_leaf u = i \<and> length (u_files u) * tokens_per_file
      < plan_max_leaf_tokens args + tokens_per_file) us"
  using leaf_units_files [OF plan_max_leaf_tokens_pos] leaf_units_index
    leaf_units_small [OF plan_max_leaf_tokens_pos]
  unfolding us_def by (auto simp: list_all_iff)

text \<open>
  C12: the plan dispatches every unit exactly once: the batches in order are the units, no
  batch is empty or larger than the batch size, the two totals are the number of batches
  and the number of distinct files, and every file a leaf selects is in a unit of it.
\<close>

theorem plan_batches_partition:
  assumes "handle_plan_specialist_batches env = Inr out"
  shows "concat (env_batches env) = env_units env
    \<and> (\<forall>b\<in>set (env_batches env). b \<noteq> [] \<and>
          length b \<le> plan_batch_size (ensure_dict (dget env ''args'')) (dget env ''tier''))
    \<and> dget out ''specialist_batches'' = VList (map batch_val (zip [1..<Suc (length (env_batches env))] (env_batches env)))
    \<and> dget out ''total_batches'' = VInt (int (length (env_batches env)))
    \<and> dget out ''total_files_planned'' = VInt (int (card (\<Union>u\<in>set (env_units env). set (u_files u))))
    \<and> (\<forall>leaf i f. VDict leaf \<in> set (ensure_list (dget env ''picked_leaves'')) \<and> leaf_id leaf = Some i
          \<and> f \<in> set (leaf_file_set leaf (strs_of (ensure_list (dget env ''changed_paths''))))
        \<longrightarrow> (\<exists>u\<in>set (env_units env). u_leaf u = i \<and> f \<in> set (u_files u)))"
proof (intro conjI allI impI)
  show "concat (env_batches env) = env_units env"
    unfolding env_batches_def by (rule chunks_concat [OF plan_batch_size_pos])
  show "\<forall>b\<in>set (env_batches env). b \<noteq> [] \<and>
      length b \<le> plan_batch_size (ensure_dict (dget env ''args'')) (dget env ''tier'')"
    using chunks_bounds unfolding env_batches_def by blast
  show "dget out ''specialist_batches''
        = VList (map batch_val (zip [1..<Suc (length (env_batches env))] (env_batches env)))"
      "dget out ''total_batches'' = VInt (int (length (env_batches env)))"
      "dget out ''total_files_planned'' = VInt (int (card (\<Union>u\<in>set (env_units env). set (u_files u))))"
    using assms by (auto simp: handle_plan_specialist_batches_def Let_def length_remdups_card_conv simp del: upt_Suc)
next
  let ?t = "plan_max_leaf_tokens (ensure_dict (dget env ''args''))"
  let ?fs = "\<lambda>leaf. leaf_file_set leaf (strs_of (ensure_list (dget env ''changed_paths'')))"
  fix leaf i f
  assume that: "VDict leaf \<in> set (ensure_list (dget env ''picked_leaves'')) \<and> leaf_id leaf = Some i
      \<and> f \<in> set (?fs leaf)"
  then have "f \<in> set (concat (map u_files (leaf_units ?t i (?fs leaf))))"
    unfolding leaf_units_files [OF plan_max_leaf_tokens_pos] by (elim conjE)
  from in_concat_map [OF this] obtain u
    where u: "u \<in> set (leaf_units ?t i (?fs leaf))" "f \<in> set (u_files u)" by blast
  moreover have "u_leaf u = i" by (rule leaf_units_leaf [OF u(1)])
  moreover have "u \<in> set (env_units env)"
  proof -
    have "leaf \<in> set (dicts_of (ensure_list (dget env ''picked_leaves'')))"
      using that by (simp add: set_dicts_of)
    moreover have "Some i = leaf_id leaf" using that by simp
    ultimately show ?thesis using u(1)
      unfolding env_units_def plan_units_def set_concat set_map by (intro UN_I [OF imageI]) (assumption, metis option.simps(5))
  qed
  ultimately show "\<exists>u\<in>set (env_units env). u_leaf u = i \<and> f \<in> set (u_files u)" by blast
qed

definition plan_env :: dict where
  "plan_env =
    [(''args'', VDict [(''max_leaf_tokens'', VInt 700), (''batch_size'', VInt 2)]),
     (''tier'', VStr ''full''),
     (''changed_paths'', VList (map VStr [''a.py'', ''b.py'', ''c.py'', ''d.py'', ''e.py'', ''x.md''])),
     (''picked_leaves'', VList [VDict [(''id'', VStr ''sec''), (''file_globs'', VList [VStr ''*.py''])]])]"

lemma plan_env_units:
  "env_units plan_env =
     [\<lparr>u_leaf = ''sec'', u_sub = 1, u_total = 4, u_files = [''a.py'', ''b.py'']\<rparr>,
      \<lparr>u_leaf = ''sec'', u_sub = 2, u_total = 4, u_files = [''c.py'', ''d.py'']\<rparr>,
      \<lparr>u_leaf = ''sec'', u_sub = 3, u_total = 4, u_files = [''e.py'']\<rparr>]"
  by code_simp

theorem plan_batches_partition_witness:
  "\<exists>out. handle_plan_specialist_batches plan_env = Inr out \<and> dget out ''total_batches'' = VInt 2
     \<and> concat (env_batches plan_env) = env_units plan_env"
proof -
  obtain out where out: "handle_plan_specialist_batches plan_env = Inr out"
    by (simp add: handle_plan_specialist_batches_def Let_def)
  have "length (env_batches plan_env) = 2" by code_simp
  then show ?thesis using plan_batches_partition [OF out] out by simp
qed

text \<open>
  The \<^verbatim>\<open>total_subs\<close> written into a unit can exceed the number of units of its leaf, and
  a unit can exceed the token budget: with five files and a budget of 700 the planner emits
  three units, each marked as one of four, the first of 1000 estimated tokens.
\<close>

theorem total_subs_overstated:
  "length (env_units plan_env) = 3 \<and> map u_total (env_units plan_env) = [4, 4, 4]
   \<and> plan_max_leaf_tokens (ensure_dict (dget plan_env ''args''))
       < length (u_files (hd (env_units plan_env))) * tokens_per_file"
  unfolding plan_env_units by code_simp

end
