(* ===== verification/Json.thy ===== *)
theory Json
  imports PyValue
begin

section \<open>JSON text\<close>

text \<open>
  \<^verbatim>\<open>json.dumps\<close> as the sources call it: on one line or with two blanks per level, keys in order of
  insertion or sorted, everything outside printable ASCII escaped. Strings are UTF-8, so the
  escapes need their code points.
\<close>

definition utf8_rest :: "nat \<Rightarrow> nat list \<Rightarrow> nat \<Rightarrow> nat" where
  "utf8_rest k bs lead = foldl (\<lambda>n b. n * 64 + b mod 64) lead (take k bs)"

function utf8_points :: "nat list \<Rightarrow> nat list" where
  "utf8_points bs = (case bs of
     [] \<Rightarrow> []
   | b # r \<Rightarrow>
       if b < 192 then b # utf8_points r
       else if b < 224 then utf8_rest 1 r (b mod 32) # utf8_points (drop 1 r)
       else if b < 240 then utf8_rest 2 r (b mod 16) # utf8_points (drop 2 r)
       else utf8_rest 3 r (b mod 8) # utf8_points (drop 3 r))"
  by pat_completeness auto
termination by (relation "measure length") auto

declare utf8_points.simps [simp del]

definition hex4 :: "nat \<Rightarrow> string" where
  "hex4 n = [hex_digit (n div 4096 mod 16), hex_digit (n div 256 mod 16), hex_digit (n div 16 mod 16),
     hex_digit (n mod 16)]"

definition json_point :: "nat \<Rightarrow> string" where
  "json_point n =
     (if n = 34 \<or> n = 92 then [CHR 0x5C, char_of n]
      else if n = 10 then [CHR 0x5C, CHR ''n''] else if n = 13 then [CHR 0x5C, CHR ''r'']
      else if n = 9 then [CHR 0x5C, CHR ''t''] else if n = 12 then [CHR 0x5C, CHR ''f'']
      else if n = 8 then [CHR 0x5C, CHR ''b'']
      else if 32 \<le> n \<and> n \<le> 126 then [char_of n]
      else if n < 65536 then [CHR 0x5C, CHR ''u''] @ hex4 n
      else [CHR 0x5C, CHR ''u''] @ hex4 (55296 + (n - 65536) div 1024)
         @ [CHR 0x5C, CHR ''u''] @ hex4 (56320 + (n - 65536) mod 1024))"

definition json_string :: "string \<Rightarrow> string" where
  "json_string s = [CHR 0x22] @ concat (map json_point (utf8_points (map of_char s))) @ [CHR 0x22]"

definition json_float :: "pyfloat \<Rightarrow> string" where
  "json_float f = (case f of FNaN \<Rightarrow> ''NaN'' | FPosInf \<Rightarrow> ''Infinity'' | FNegInf \<Rightarrow> ''-Infinity''
     | Fin q \<Rightarrow> show_float f)"

definition json_break :: "nat \<Rightarrow> string" where
  "json_break level = newline # replicate (2 * level) (CHR '' '')"

definition json_block :: "bool \<Rightarrow> nat \<Rightarrow> char \<Rightarrow> char \<Rightarrow> string list \<Rightarrow> string" where
  "json_block pretty level l r items =
     (if items = [] then [l, r]
      else if pretty
      then [l] @ json_break (Suc level) @ join ('','' @ json_break (Suc level)) items @ json_break level @ [r]
      else [l] @ join '', '' items @ [r])"

fun json_at :: "bool \<Rightarrow> bool \<Rightarrow> nat \<Rightarrow> pyval \<Rightarrow> string"
  and json_items :: "bool \<Rightarrow> bool \<Rightarrow> nat \<Rightarrow> pyval list \<Rightarrow> string list"
  and json_fields :: "bool \<Rightarrow> bool \<Rightarrow> nat \<Rightarrow> dict \<Rightarrow> (string \<times> string) list" where
  "json_at pretty srt level VNone = ''null''"
| "json_at pretty srt level (VBool b) = (if b then ''true'' else ''false'')"
| "json_at pretty srt level (VInt i) = show_int i"
| "json_at pretty srt level (VFloat f) = json_float f"
| "json_at pretty srt level (VStr s) = json_string s"
| "json_at pretty srt level (VList xs) =
     json_block pretty level (CHR ''['') (CHR '']'') (json_items pretty srt (Suc level) xs)"
| "json_at pretty srt level (VDict d) = (let fs = json_fields pretty srt (Suc level) d in
     json_block pretty level (CHR ''{'') (CHR ''}'') (map snd (if srt then sort_key fst fs else fs)))"
| "json_items pretty srt level [] = []"
| "json_items pretty srt level (x # xs) = json_at pretty srt level x # json_items pretty srt level xs"
| "json_fields pretty srt level [] = []"
| "json_fields pretty srt level ((k, v) # d) =
     (k, json_string k @ '': '' @ json_at pretty srt level v) # json_fields pretty srt level d"

text \<open>
  The three styles of the sources: \<^verbatim>\<open>indent=2, sort_keys=True\<close>, \<^verbatim>\<open>indent=2\<close> and the defaults.
\<close>

definition json_dumps :: "pyval \<Rightarrow> string" where
  "json_dumps v = json_at True True 0 v"

definition json_indented :: "pyval \<Rightarrow> string" where
  "json_indented v = json_at True False 0 v"

definition json_compact :: "pyval \<Rightarrow> string" where
  "json_compact v = json_at False False 0 v"

end
