(* ===== verification/Sharding.thy ===== *)
theory Sharding
  imports Prelude "HOL-Library.Word"
begin

unbundle bit_operations_syntax

section \<open>Content-addressed paths\<close>

text \<open>
  The module \<^verbatim>\<open>code_review/sharding.py\<close> and the run directories built on it
  (\<^verbatim>\<open>_legacy_run_id_for\<close>, \<^verbatim>\<open>_run_dir_path\<close> and \<^verbatim>\<open>_resolve_storage_root\<close> of
  \<^verbatim>\<open>code_review/handlers.py\<close>), over the SHA-256 digest the standard library provides, which is
  written out on 32-bit words. Paths are texts; the clock is an argument.
\<close>

subsection \<open>SHA-256\<close>

type_synonym w32 = "32 word"

definition sha_k :: "w32 list" where
  "sha_k =
    [1116352408, 1899447441, 3049323471, 3921009573,
     961987163, 1508970993, 2453635748, 2870763221,
     3624381080, 310598401, 607225278, 1426881987,
     1925078388, 2162078206, 2614888103, 3248222580,
     3835390401, 4022224774, 264347078, 604807628,
     770255983, 1249150122, 1555081692, 1996064986,
     2554220882, 2821834349, 2952996808, 3210313671,
     3336571891, 3584528711, 113926993, 338241895,
     666307205, 773529912, 1294757372, 1396182291,
     1695183700, 1986661051, 2177026350, 2456956037,
     2730485921, 2820302411, 3259730800, 3345764771,
     3516065817, 3600352804, 4094571909, 275423344,
     430227734, 506948616, 659060556, 883997877,
     958139571, 1322822218, 1537002063, 1747873779,
     1955562222, 2024104815, 2227730452, 2361852424,
     2428436474, 2756734187, 3204031479, 3329325298]"

type_synonym sha_state = "w32 list"

definition sha_init :: sha_state where
  "sha_init = [1779033703, 3144134277, 1013904242, 2773480762,
     1359893119, 2600822924, 528734635, 1541459225]"

definition rotr :: "nat \<Rightarrow> w32 \<Rightarrow> w32" where
  "rotr n x = drop_bit n x OR push_bit (32 - n) x"

definition big_endian :: "int list \<Rightarrow> w32" where
  "big_endian bs = word_of_int (foldl (\<lambda>n b. n * 256 + b) 0 bs)"

definition sha_pad :: "int list \<Rightarrow> int list" where
  "sha_pad bs =
     bs @ [0x80] @ replicate ((119 - length bs mod 64) mod 64) 0
        @ map (\<lambda>k. drop_bit k (int (length bs) * 8) mod 256) [56, 48, 40, 32, 24, 16, 8, 0]"

definition sha_schedule_step :: "w32 list \<Rightarrow> w32 list" where
  "sha_schedule_step w =
     (let n = length w; a = w ! (n - 15); b = w ! (n - 2);
          s0 = rotr 7 a XOR rotr 18 a XOR drop_bit 3 a;
          s1 = rotr 17 b XOR rotr 19 b XOR drop_bit 10 b
      in w @ [w ! (n - 16) + s0 + w ! (n - 7) + s1])"

definition sha_schedule :: "int list \<Rightarrow> w32 list" where
  "sha_schedule block = (sha_schedule_step ^^ 48) (map big_endian (chunks 4 block))"

definition sha_round :: "sha_state \<Rightarrow> w32 \<times> w32 \<Rightarrow> sha_state" where
  "sha_round st kw = (case (st, kw) of
     ([a, b, c, d, e, f, g, h], (k, w)) \<Rightarrow>
       (let s1 = rotr 6 e XOR rotr 11 e XOR rotr 25 e;
            ch = (e AND f) XOR (NOT e AND g);
            t1 = h + s1 + ch + k + w;
            s0 = rotr 2 a XOR rotr 13 a XOR rotr 22 a;
            maj = (a AND b) XOR (a AND c) XOR (b AND c)
        in [t1 + s0 + maj, a, b, c, d + t1, e, f, g])
   | _ \<Rightarrow> st)"

definition sha_block :: "sha_state \<Rightarrow> int list \<Rightarrow> sha_state" where
  "sha_block st block = map2 (+) st (foldl sha_round st (zip sha_k (sha_schedule block)))"

definition hex_char :: "nat \<Rightarrow> char" where
  "hex_char n = (if n < 10 then char_of (48 + n) else char_of (87 + n))"

definition hex_word :: "w32 \<Rightarrow> string" where
  "hex_word w = map (\<lambda>k. hex_char (nat (uint (drop_bit k w) mod 16))) [28, 24, 20, 16, 12, 8, 4, 0]"

definition sha256_hexdigest :: "string \<Rightarrow> string" where
  "sha256_hexdigest s =
     concat (map hex_word (foldl sha_block sha_init (chunks 64 (sha_pad (map of_char s)))))"

subsection \<open>Shards\<close>

definition hex_digest_len :: nat where "hex_digest_len = 64"

fun segments_from :: "string \<Rightarrow> nat list \<Rightarrow> string list" where
  "segments_from digest [] = []"
| "segments_from digest (n # ns) = take n digest # segments_from (drop n digest) ns"

definition shard_segments :: "string \<Rightarrow> nat list \<Rightarrow> string list res" where
  "shard_segments key levels =
     (if hex_digest_len < sum_list levels then Inl ValueError
      else Inr (segments_from (sha256_hexdigest key) levels))"

text \<open>\<^verbatim>\<open>base_dir / part\<close>: an absolute part replaces what comes before it.\<close>

definition path_join :: "string \<Rightarrow> string \<Rightarrow> string" where
  "path_join base_dir part =
     (if prefix ''/'' part \<or> base_dir = [] \<or> base_dir = ''.'' then part
      else if part = [] then base_dir
      else if base_dir = ''/'' then ''/'' @ part
      else base_dir @ ''/'' @ part)"

definition shard_path :: "string \<Rightarrow> string \<Rightarrow> string \<Rightarrow> nat list \<Rightarrow> string res" where
  "shard_path base_dir key leaf_name levels =
     bindE (shard_segments key levels) (\<lambda>segments. Inr (foldl path_join base_dir (segments @ [leaf_name])))"

subsection \<open>Run directories\<close>

definition legacy_run_id_for :: "string \<Rightarrow> string \<Rightarrow> string" where
  "legacy_run_id_for now run_uuid = now @ ''-'' @ take 7 (sha256_hexdigest run_uuid)"

definition is_hex :: "char \<Rightarrow> bool" where
  "is_hex c \<longleftrightarrow> is_digit c \<or> (CHR ''a'' \<le> c \<and> c \<le> CHR ''f'')"

definition run_id_ok :: "string \<Rightarrow> bool" where
  "run_id_ok r \<longleftrightarrow> length r = 23 \<and> list_all is_digit (take 8 r) \<and> r ! 8 = CHR ''-''
     \<and> list_all is_digit (take 6 (drop 9 r)) \<and> r ! 15 = CHR ''-'' \<and> list_all is_hex (drop 16 r)"

definition run_dir_path :: "string \<Rightarrow> string \<Rightarrow> string option \<Rightarrow> string res" where
  "run_dir_path run_id storage_root shard_key =
     (if \<not> run_id_ok run_id then Inl ValueError
      else (let yyyy = take 4 run_id; mm = take 2 (drop 4 run_id); dd = take 2 (drop 6 run_id);
                hash7 = drop 16 run_id in
            bindE (case shard_key of
                     Some key \<Rightarrow> shard_segments key [2, 5]
                   | None \<Rightarrow> Inr [take 2 hash7, drop 2 hash7])
              (\<lambda>segments. Inr (foldl path_join storage_root ([yyyy, mm, dd] @ segments)))))"

definition resolve_storage_root :: "string \<Rightarrow> string option \<Rightarrow> string" where
  "resolve_storage_root project_root storage_override =
     (case storage_override of
        Some s \<Rightarrow> if prefix ''/'' s then s else path_join project_root ''.skill-code-review''
      | None \<Rightarrow> path_join project_root ''.skill-code-review'')"

subsection \<open>Lemmas\<close>

lemma length_sha_round: "length (sha_round st kw) = length st"
  by (auto simp: sha_round_def Let_def split: list.splits prod.splits)

lemma length_sha_rounds: "length (foldl sha_round st kws) = length st"
  by (induction kws arbitrary: st) (simp_all add: length_sha_round)

lemma length_sha_blocks: "length (foldl sha_block st blocks) = length st"
  by (induction blocks arbitrary: st) (simp_all add: sha_block_def length_sha_rounds)

lemma length_concat_hex: "length (concat (map hex_word ws)) = 8 * length ws"
  by (induction ws) (simp_all add: hex_word_def)

lemma digest_length: "length (sha256_hexdigest s) = 64"
  by (simp add: sha256_hexdigest_def length_concat_hex length_sha_blocks sha_init_def)

lemma hex_char_is_hex: "n < 16 \<Longrightarrow> is_hex (hex_char n)"
  by (auto simp: hex_char_def is_hex_def is_digit_def less_eq_char_def)

lemma digest_hex: "c \<in> set (sha256_hexdigest s) \<Longrightarrow> is_hex c"
proof -
  have "is_hex c" if "c \<in> set (hex_word w)" for w
  proof -
    from that obtain k where "c = hex_char (nat (uint (drop_bit k w) mod 16))"
      unfolding hex_word_def set_map by blast
    moreover have "nat (uint (drop_bit k w) mod 16) < 16"
      by (simp add: nat_less_iff)
    ultimately show ?thesis using hex_char_is_hex by simp
  qed
  then show "c \<in> set (sha256_hexdigest s) \<Longrightarrow> is_hex c"
    unfolding sha256_hexdigest_def set_concat set_map by blast
qed

lemma segments_from_concat:
  "concat (segments_from digest ns) = take (sum_list ns) digest"
  by (induction ns arbitrary: digest) (simp_all add: take_add)

lemma segments_from_lengths:
  "sum_list ns \<le> length digest \<Longrightarrow> map length (segments_from digest ns) = ns"
  by (induction ns arbitrary: digest) auto

lemma run_id_ok_legacy:
  assumes "length now = 15" "list_all is_digit (take 8 now)" "now ! 8 = CHR ''-''" "list_all is_digit (drop 9 now)"
  shows "run_id_ok (legacy_run_id_for now uuid)"
proof -
  let ?h = "take 7 (sha256_hexdigest uuid)"
  have "length ?h = 7" by (simp add: digest_length)
  moreover have "list_all is_hex ?h"
    using digest_hex [of _ uuid] unfolding list_all_iff by (meson in_set_takeD)
  ultimately show ?thesis
    using assms by (simp add: run_id_ok_def legacy_run_id_for_def nth_append)
qed

subsection \<open>Properties\<close>

text \<open>
  Sharding a key fails exactly when the levels ask for more than the 64 digits of the
  digest; otherwise the segments have the lengths asked for and, joined, are the leading
  digits of the key's SHA-256 digest, all hexadecimal.
\<close>

theorem shard_segments_spec:
  "(shard_segments key levels = Inl ValueError \<longleftrightarrow> 64 < sum_list levels)
   \<and> (\<forall>segs. shard_segments key levels = Inr segs \<longrightarrow>
        map length segs = levels \<and> concat segs = take (sum_list levels) (sha256_hexdigest key)
        \<and> list_all is_hex (concat segs))"
proof -
  have "list_all is_hex (take n (sha256_hexdigest key))" for n
    using digest_hex [of _ key] unfolding list_all_iff by (meson in_set_takeD)
  then show ?thesis
    by (simp add: shard_segments_def hex_digest_len_def segments_from_concat segments_from_lengths
        digest_length)
qed

theorem shard_segments_spec_witness:
  "\<exists>segs. shard_segments ''hello'' [2, 5] = Inr segs \<and> map length segs = [2, 5]
     \<and> concat segs = take 7 (sha256_hexdigest ''hello'')"
proof -
  obtain segs where "shard_segments ''hello'' [2, 5] = Inr segs"
    by (simp add: shard_segments_def hex_digest_len_def)
  with shard_segments_spec [of "''hello''" "[2, 5]"] show ?thesis by simp
qed

text \<open>
  The run id derived from a run's uuid always parses, and the directory it names is the
  same whether the shard key is the uuid or is left to the seven digits of the run id.
\<close>

theorem run_dir_of_legacy_id:
  assumes "length now = 15" "list_all is_digit (take 8 now)" "now ! 8 = CHR ''-''" "list_all is_digit (drop 9 now)"
  shows "run_dir_path (legacy_run_id_for now uuid) storage (Some uuid)
      = run_dir_path (legacy_run_id_for now uuid) storage None
    \<and> (\<exists>dir. run_dir_path (legacy_run_id_for now uuid) storage (Some uuid) = Inr dir)"
proof -
  have hash: "drop 16 (legacy_run_id_for now uuid) = take 7 (sha256_hexdigest uuid)"
    using assms(1) by (simp add: legacy_run_id_for_def)
  have "shard_segments uuid [2, 5]
      = Inr [take 2 (take 7 (sha256_hexdigest uuid)), drop 2 (take 7 (sha256_hexdigest uuid))]"
    by (simp add: shard_segments_def hex_digest_len_def drop_take)
  with run_id_ok_legacy [OF assms] show ?thesis
    by (simp add: run_dir_path_def hash Let_def)
qed

theorem run_dir_of_legacy_id_witness:
  "\<exists>dir. run_dir_path (legacy_run_id_for ''20250131-120000'' ''run'') ''/repo'' (Some ''run'') = Inr dir"
proof -
  have "list_all is_digit (take 8 ''20250131-120000'')" "list_all is_digit (drop 9 ''20250131-120000'')"
    by code_simp+
  moreover have "''20250131-120000'' ! 8 = CHR ''-''" "length ''20250131-120000'' = 15" by simp_all
  ultimately show ?thesis
    using run_dir_of_legacy_id [of "''20250131-120000''" "''run''" "''/repo''"]
    by blast
qed

end
