(* ===== verification/Merger.thy ===== *)
theory Merger
  imports Planner Json Sharding
begin

section \<open>Merging the specialists' outputs\<close>

text \<open>
  Handler 11 of \<^verbatim>\<open>code_review/handlers.py\<close>: the outputs of the loop's iterations are folded into one
  output per planned unit, the guard on the aggregate size trims findings, one shard per
  unit is written, and the two invariants against the plan are enforced. A shard written is
  a path and a text; writes happen before the second invariant is checked, so the handler
  returns them beside its result. Outputs of different units are distinct objects, and a
  sub-index that is a boolean is named by its number in the path of its shard. Strings are
  well-formed text, which every write can encode.
\<close>

subsection \<open>Model\<close>

type_synonym unit_key = "string \<times> int"

definition unit_key_of :: "dict \<Rightarrow> unit_key option" where
  "unit_key_of u = (case (dget u ''leaf_id'', int_of (dget u ''sub_index'')) of
     (VStr l, Some s) \<Rightarrow> Some (l, s) | _ \<Rightarrow> None)"

definition resolve_iteration_payloads :: "dict \<Rightarrow> dict list" where
  "resolve_iteration_payloads env =
     (case List.find (\<lambda>key. is_list (dget env key))
             [''specialist_outputs_by_iter'', ''loop_iters'', ''iteration_outputs''] of
        Some key \<Rightarrow> dicts_of (ensure_list (dget env key))
      | None \<Rightarrow>
          if is_list (dget env ''iter_outputs'')
          then [[(''batch_index'', dget_or env ''batch_index'' (VInt 1)),
                 (''iter_outputs'', dget env ''iter_outputs''),
                 (''loop_done'', VBool (truthy (dget_or env ''loop_done'' (VBool True))))]]
          else [])"

text \<open>The units of the plan as the merger reads them: \<^verbatim>\<open>batch.get("units") or []\<close>.\<close>

definition batch_units :: "dict \<Rightarrow> dict list res" where
  "batch_units batch = bindE (py_iter (py_or (dget batch ''units'') (VList []))) (\<lambda>us. Inr (dicts_of us))"

definition all_units :: "pyval list \<Rightarrow> dict list res" where
  "all_units specialist_batches = bindE (mapE batch_units (dicts_of specialist_batches)) (\<lambda>uss. Inr (concat uss))"

definition add_output :: "nat \<Rightarrow> (unit_key \<times> dict) list \<Rightarrow> dict \<Rightarrow> (unit_key \<times> dict) list" where
  "add_output iter_n deduped unit_out = (case unit_key_of unit_out of
     None \<Rightarrow> deduped
   | Some key \<Rightarrow> dset key (dset ''__iter_n'' (VInt (int iter_n)) unit_out) deduped)"

definition payload_outputs :: "dict \<Rightarrow> dict list" where
  "payload_outputs payload = dicts_of (ensure_list (dget payload ''iter_outputs''))"

definition dedupe_outputs :: "dict list \<Rightarrow> (unit_key \<times> dict) list" where
  "dedupe_outputs payloads =
     foldl (\<lambda>deduped (n, payload). foldl (add_output n) deduped (payload_outputs payload)) []
       (zip [1..<Suc (length payloads)] payloads)"

definition unit_id :: "unit_key \<Rightarrow> string" where
  "unit_id = (\<lambda>(l, s). l @ ''#'' @ show_int s)"

definition early_exit_message :: "unit_key list \<Rightarrow> nat \<Rightarrow> string" where
  "early_exit_message missing planned =
     ''merge_specialist_outputs: '' @ show_nat (length missing) @ '' of '' @ show_nat planned
     @ '' planned (leaf_id, sub_index) units missing from loop_iters; the dispatch_specialists Loop ''
     @ ''exited before draining all batches. The orchestrator must keep polling fsm.get_brief(run_id) ''
     @ ''after each iteration's commit until the brief's state_id moves off dispatch_specialists. Missing: ''
     @ join '', '' (map unit_id (take 10 missing))
     @ (if 10 < length missing then '' (+'' @ show_nat (length missing - 10) @ '' more)'' else []) @ ''.''"

text \<open>The files the plan gives the units with a key; \<^verbatim>\<open>==\<close> compares the sub-index by value.\<close>

definition planned_files :: "dict list \<Rightarrow> unit_key \<Rightarrow> string list res" where
  "planned_files units key =
     bindE (mapE (\<lambda>u. bindE (py_iter (py_or (dget u ''files'') (VList []))) (\<lambda>fs. Inr (strs_of fs)))
        (filter (\<lambda>u. dget u ''leaf_id'' = VStr (fst key) \<and> py_eq (dget u ''sub_index'') (VInt (snd key))) units))
       (\<lambda>fss. Inr (concat fss))"

definition stamp_id :: "string \<Rightarrow> dict \<Rightarrow> dict" where
  "stamp_id leaf out = (if is_str (dget out ''id'') then out else dset ''id'' (VStr leaf) out)"

definition unit_shard :: "string \<Rightarrow> unit_key \<Rightarrow> pyval \<Rightarrow> string res" where
  "unit_shard specialists_root key iter_n =
     shard_path specialists_root (fst key @ ''/'' @ show_int (snd key))
       (fst key @ ''__sub'' @ show_int (snd key) @ ''__iter'' @ py_str iter_n @ ''.json'') [2, 5]"

record merge_state =
  union_files :: "string list"
  pending_writes :: "(string \<times> dict) list"

definition merge_unit :: "string \<Rightarrow> dict list \<Rightarrow> merge_state \<Rightarrow> unit_key \<times> dict \<Rightarrow> merge_state res" where
  "merge_unit specialists_root units st = (\<lambda>(key, unit_out).
     (case dget unit_out ''specialist_output'' of
        VDict out \<Rightarrow>
          bindE (planned_files units key) (\<lambda>files.
          bindE (unit_shard specialists_root key (dget_or unit_out ''__iter_n'' (VInt 0))) (\<lambda>shard.
          Inr \<lparr>union_files = union_files st @ files,
               pending_writes = pending_writes st @ [(shard, stamp_id (fst key) out)]\<rparr>))
      | _ \<Rightarrow> Inr st))"

subsection \<open>The aggregate-size guard\<close>

definition aggregate_output_budget_bytes :: nat where
  "aggregate_output_budget_bytes = 100 * 1024 * 1024"

definition serialised_size :: "dict \<Rightarrow> nat" where
  "serialised_size payload = length (json_dumps (VDict payload)) + 1"

definition severity_value :: "string \<Rightarrow> nat" where
  "severity_value s = (if s = ''critical'' then 3 else if s = ''important'' then 2
     else if s = ''minor'' then 1 else 0)"

definition severity_rank :: "pyval \<Rightarrow> nat" where
  "severity_rank finding = (case finding of
     VDict f \<Rightarrow> (case dget f ''severity'' of VStr s \<Rightarrow> severity_value (lower s) | _ \<Rightarrow> 0)
   | _ \<Rightarrow> 0)"

text \<open>\<^verbatim>\<open>max(xs, key=f)\<close> is the first element with the greatest key; here its position.\<close>

fun argmax_from :: "nat \<Rightarrow> nat \<Rightarrow> nat \<Rightarrow> nat list \<Rightarrow> nat" where
  "argmax_from i best bestval [] = best"
| "argmax_from i best bestval (x # xs) =
     (if bestval < x then argmax_from (Suc i) i x xs else argmax_from (Suc i) best bestval xs)"

definition argmax :: "nat list \<Rightarrow> nat" where
  "argmax xs = (case xs of [] \<Rightarrow> 0 | x # ys \<Rightarrow> argmax_from 1 0 x ys)"

definition trim_lowest_priority_unit :: "dict list \<Rightarrow> (dict list \<times> nat) option" where
  "trim_lowest_priority_unit outs =
     (if outs = [] then None
      else (let i = argmax (map serialised_size outs); target = outs ! i in
        (case dget target ''findings'' of
           VList findings \<Rightarrow>
             if findings = [] then None
             else (let before_size = serialised_size target;
                       target' = dset ''findings'' (VList (tl (sort_key severity_rank findings))) target;
                       after_size = serialised_size target'
                   in if before_size \<le> after_size then None
                      else Some (outs[i := target'], before_size - after_size))
         | _ \<Rightarrow> None)))"

text \<open>The loop; the first argument is the number of passes left.\<close>

fun trim_loop :: "nat \<Rightarrow> nat \<Rightarrow> dict list \<Rightarrow> dict list" where
  "trim_loop 0 aggregate_bytes outs = outs"
| "trim_loop (Suc k) aggregate_bytes outs =
     (if aggregate_bytes \<le> aggregate_output_budget_bytes then outs
      else (case trim_lowest_priority_unit outs of
              None \<Rightarrow> outs
            | Some (outs', freed) \<Rightarrow>
                if freed = 0 then outs else trim_loop k (aggregate_bytes - freed) outs'))"

definition py_len :: "pyval \<Rightarrow> nat res" where
  "py_len v = (case v of VList xs \<Rightarrow> Inr (length xs) | VDict d \<Rightarrow> Inr (length d) | VStr s \<Rightarrow> Inr (str_len s)
     | _ \<Rightarrow> Inl TypeError)"

definition size_guard :: "dict list \<Rightarrow> dict list res" where
  "size_guard outs =
     (let aggregate_bytes = sum_list (map serialised_size outs) in
      if aggregate_bytes \<le> aggregate_output_budget_bytes then Inr outs
      else bindE (mapE (\<lambda>out. py_len (py_or (dget out ''findings'') (VList []))) outs)
             (\<lambda>lens. Inr (trim_loop (sum_list lens) aggregate_bytes outs)))"

subsection \<open>The handler\<close>

definition specialists_root :: "string \<Rightarrow> dict \<Rightarrow> string" where
  "specialists_root skill_root args_bag =
     path_join (resolve_storage_root
         (coerce_absolute_project_root (dget args_bag ''project_root'') skill_root)
         (str_of (dget args_bag ''storage_root''))) ''specialists''"

definition merge_outputs :: "string \<Rightarrow> dict \<Rightarrow> merge_state res" where
  "merge_outputs skill_root env =
     bindE (all_units (ensure_list (dget env ''specialist_batches''))) (\<lambda>units.
       let planned = set (List.map_filter unit_key_of units);
           deduped = dedupe_outputs (resolve_iteration_payloads env);
           missing = sorted_list_of_set (planned - set (dkeys deduped))
       in if missing \<noteq> [] then Inl (DispatchLoopExitedEarlyError missing (card planned))
          else bindE (foldE (merge_unit (specialists_root skill_root (ensure_dict (dget env ''args''))) units)
                        \<lparr>union_files = [], pending_writes = []\<rparr> deduped) (\<lambda>st.
               bindE (size_guard (map snd (pending_writes st))) (\<lambda>outs.
               Inr (st\<lparr>pending_writes := zip (map fst (pending_writes st)) outs\<rparr>))))"

definition shard_write :: "string \<times> dict \<Rightarrow> string \<times> string" where
  "shard_write = (\<lambda>(path, out). (path, json_dumps (VDict out) @ [newline]))"

definition handle_merge_specialist_outputs :: "string \<Rightarrow> dict \<Rightarrow> (string \<times> string) list \<times> dict res" where
  "handle_merge_specialist_outputs skill_root env =
     (case merge_outputs skill_root env of
        Inl e \<Rightarrow> ([], Inl e)
      | Inr st \<Rightarrow>
          (map shard_write (pending_writes st),
           let found = length (remdups (union_files st));
               total_files_planned = (case int_of (dget env ''total_files_planned'') of Some n \<Rightarrow> n | None \<Rightarrow> 0)
           in if int found < total_files_planned then Inl (MissedFileError found (nat total_files_planned))
              else Inr [(''specialist_outputs'', VList (map (VDict \<circ> snd) (pending_writes st)))]))"

subsection \<open>Folding the iterations\<close>

definition reported_keys :: "dict list \<Rightarrow> unit_key set" where
  "reported_keys payloads = {k. \<exists>p\<in>set payloads. \<exists>u\<in>set (payload_outputs p). unit_key_of u = Some k}"

lemma add_outputs_keys:
  "set (dkeys (foldl (add_output n) d us)) = set (dkeys d) \<union> {k. \<exists>u\<in>set us. unit_key_of u = Some k}"
proof (induction us arbitrary: d)
  case Nil
  then show ?case by simp
next
  case (Cons u us)
  have "set (dkeys (add_output n d u)) = set (dkeys d) \<union> {k. unit_key_of u = Some k}"
    by (auto simp: add_output_def dkeys_dset simp del: set_map split: option.splits)
  then show ?case by (auto simp: Cons.IH simp del: set_map)
qed

lemma add_outputs_values:
  "(k, v) \<in> set (foldl (add_output n) d us) \<Longrightarrow>
     (k, v) \<in> set d \<or> (\<exists>u\<in>set us. unit_key_of u = Some k \<and> v = dset ''__iter_n'' (VInt (int n)) u)"
proof (induction us arbitrary: d)
  case Nil
  then show ?case by simp
next
  case (Cons u us)
  then have "(k, v) \<in> set (add_output n d u)
      \<or> (\<exists>u\<in>set us. unit_key_of u = Some k \<and> v = dset ''__iter_n'' (VInt (int n)) u)" by simp
  moreover have "(k, v) \<in> set (add_output n d u) \<Longrightarrow>
      (k, v) \<in> set d \<or> (unit_key_of u = Some k \<and> v = dset ''__iter_n'' (VInt (int n)) u)"
    using set_dset_subset by (fastforce simp: add_output_def split: option.splits)
  ultimately show ?case by auto
qed

lemma dedupe_fold:
  defines "step \<equiv> \<lambda>deduped (n, payload). foldl (add_output n) deduped (payload_outputs payload)"
  shows "set (dkeys (foldl step d (zip ns ps)))
      = set (dkeys d) \<union> reported_keys (map snd (zip ns ps))"
    and "(k, v) \<in> set (foldl step d (zip ns ps)) \<Longrightarrow> (k, v) \<in> set d \<or>
      (\<exists>n. \<exists>p\<in>set ps. \<exists>u\<in>set (payload_outputs p). unit_key_of u = Some k \<and> v = dset ''__iter_n'' (VInt (int n)) u)"
proof (induction ns ps arbitrary: d rule: list_induct2')
  case (4 n ns p ps)
  case 1
  show ?case unfolding zip_Cons_Cons foldl_Cons "4.IH"(1)
    by (auto simp: step_def add_outputs_keys reported_keys_def simp del: set_map)
next
  case (4 n ns p ps)
  case 2
  then have "(k, v) \<in> set (foldl step (step d (n, p)) (zip ns ps))" by simp
  from "4.IH"(2) [OF this] show ?case
    using add_outputs_values [of k v n d "payload_outputs p"] by (auto simp: step_def)
qed (auto simp: reported_keys_def)

lemma dedupe_keys: "set (dkeys (dedupe_outputs payloads)) = reported_keys payloads"
proof -
  have "map snd (zip [1..<Suc (length payloads)] payloads) = payloads"
    by (rule map_snd_zip) (simp del: upt_Suc)
  then show ?thesis unfolding dedupe_outputs_def dedupe_fold(1) by simp
qed

lemma dedupe_values:
  "(k, v) \<in> set (dedupe_outputs payloads) \<Longrightarrow>
     \<exists>n. \<exists>p\<in>set payloads. \<exists>u\<in>set (payload_outputs p). unit_key_of u = Some k \<and> v = dset ''__iter_n'' (VInt (int n)) u"
  unfolding dedupe_outputs_def using dedupe_fold(2) by fastforce

subsection \<open>Errors\<close>

lemma py_iter_Inl: "py_iter v = Inl e \<Longrightarrow> e = TypeError"
  by (auto simp: py_iter_def split: pyval.splits)

lemma planned_files_Inl: "planned_files units k = Inl e \<Longrightarrow> e = TypeError"
  by (auto simp: planned_files_def res_simps dest!: mapE_Inl py_iter_Inl)

lemma merge_unit_Inl: "merge_unit r units st x = Inl e \<Longrightarrow> e = TypeError \<or> e = ValueError"
  by (auto simp: merge_unit_def res_simps unit_shard_def shard_path_def shard_segments_def
      dest: planned_files_Inl split: prod.splits pyval.splits if_splits)

lemma py_len_Inl: "py_len v = Inl e \<Longrightarrow> e = TypeError"
  by (auto simp: py_len_def split: pyval.splits)

lemma size_guard_Inl: "size_guard outs = Inl e \<Longrightarrow> e = TypeError"
  by (auto simp: size_guard_def Let_def res_simps dest!: mapE_Inl py_len_Inl split: if_splits)

subsection \<open>Trimming\<close>

text \<open>
  What a trimmed output keeps of the output it came from: everything but the findings, and of
  those all but the first few in order of severity, the lowest first.
\<close>

definition trimmed_from :: "dict \<Rightarrow> dict \<Rightarrow> bool" where
  "trimmed_from out out' \<longleftrightarrow> (\<forall>k. k \<noteq> ''findings'' \<longrightarrow> dget out' k = dget out k)
     \<and> (dget out' ''findings'' = dget out ''findings''
        \<or> (\<exists>fs n. dget out ''findings'' = VList fs
             \<and> dget out' ''findings'' = VList (drop n (sort_key severity_rank fs))))"

lemma trimmed_from_refl: "trimmed_from out out"
  by (simp add: trimmed_from_def)

lemma sort_drop_sorted: "sort_key f (drop n (sort_key f xs)) = drop n (sort_key f xs)"
  by (rule sort_key_id_if_sorted) (simp add: drop_map [symmetric] sorted_wrt_drop)

lemma trimmed_from_trans:
  assumes "trimmed_from a b" "trimmed_from b c"
  shows "trimmed_from a c"
proof -
  have "dget c k = dget a k" if "k \<noteq> ''findings''" for k
    using assms that by (simp add: trimmed_from_def)
  moreover have "dget c ''findings'' = dget a ''findings'' \<or> (\<exists>fs n. dget a ''findings'' = VList fs
      \<and> dget c ''findings'' = VList (drop n (sort_key severity_rank fs)))"
  proof (cases "dget b ''findings'' = dget a ''findings''")
    case True
    then show ?thesis using assms(2) by (auto simp: trimmed_from_def)
  next
    case False
    then obtain fs n where fs: "dget a ''findings'' = VList fs" "dget b ''findings'' = VList (drop n (sort_key severity_rank fs))"
      using assms(1) by (auto simp: trimmed_from_def)
    with assms(2) consider "dget c ''findings'' = VList (drop n (sort_key severity_rank fs))"
      | m where "dget c ''findings'' = VList (drop m (drop n (sort_key severity_rank fs)))"
      by (auto simp: trimmed_from_def sort_drop_sorted)
    then show ?thesis using fs(1) by cases (auto simp: drop_drop)
  qed
  ultimately show ?thesis by (simp add: trimmed_from_def)
qed

text \<open>The sizes and the findings of all outputs together.\<close>

definition total_size :: "dict list \<Rightarrow> nat" where
  "total_size outs = sum_list (map serialised_size outs)"

definition total_findings :: "dict list \<Rightarrow> nat" where
  "total_findings outs = sum_list (map (\<lambda>out. length (ensure_list (dget out ''findings''))) outs)"

lemma sum_list_replace:
  fixes f :: "'a \<Rightarrow> nat"
  assumes "i < length xs"
  shows "sum_list (map f (xs[i := y])) + f (xs ! i) = sum_list (map f xs) + f y"
proof -
  have "f (xs ! i) \<le> sum_list (map f xs)" by (rule member_le_sum_list) (use assms in simp_all)
  then show ?thesis using assms by (simp add: map_update sum_list_update)
qed

lemma argmax_from_less: "best < i \<Longrightarrow> argmax_from i best v xs < i + length xs"
proof (induction xs arbitrary: i best v)
  case Nil
  then show ?case by simp
next
  case (Cons x xs)
  from Cons.IH [of i "Suc i" x] Cons.IH [of best "Suc i" v] Cons.prems show ?case by simp
qed

lemma argmax_less: "xs \<noteq> [] \<Longrightarrow> argmax xs < length xs"
  using argmax_from_less [of 0 1] by (cases xs) (simp_all add: argmax_def)

lemma trim_unit_facts:
  assumes "trim_lowest_priority_unit outs = Some (outs', freed)"
  shows "list_all2 trimmed_from outs outs'" and "0 < freed"
    and "total_size outs' + freed = total_size outs" and "Suc (total_findings outs') = total_findings outs"
proof -
  define i where "i = argmax (map serialised_size outs)"
  define fs where "fs = ensure_list (dget (outs ! i) ''findings'')"
  define t where "t = dset ''findings'' (VList (tl (sort_key severity_rank fs))) (outs ! i)"
  have ne: "outs \<noteq> []" using assms by (auto simp: trim_lowest_priority_unit_def)
  have fsv: "dget (outs ! i) ''findings'' = VList fs" "fs \<noteq> []" and less: "serialised_size t < serialised_size (outs ! i)"
    and outs': "outs' = outs[i := t]" and freed: "freed = serialised_size (outs ! i) - serialised_size t"
    using assms ne
    by (auto simp: trim_lowest_priority_unit_def Let_def i_def fs_def t_def ensure_list_def
        split: pyval.splits if_splits)
  have i: "i < length outs" using argmax_less [of "map serialised_size outs"] ne by (simp add: i_def)
  have "trimmed_from (outs ! i) t"
    unfolding trimmed_from_def by (auto simp: t_def fsv drop_Suc intro: exI [of _ 1])
  then have "trimmed_from (outs ! j) (outs[i := t] ! j)" if "j < length outs" for j
    using i that by (cases "j = i") (simp_all add: trimmed_from_refl)
  then show "list_all2 trimmed_from outs outs'"
    unfolding outs' by (intro list_all2_all_nthI) simp_all
  show "0 < freed" using less freed by simp
  show "total_size outs' + freed = total_size outs"
    using sum_list_replace [OF i, of serialised_size t] less freed by (simp add: total_size_def outs')
  have "Suc (length (ensure_list (dget t ''findings''))) = length (ensure_list (dget (outs ! i) ''findings''))"
    using fsv by (cases fs) (simp_all add: t_def ensure_list_def)
  then show "Suc (total_findings outs') = total_findings outs"
    using sum_list_replace [OF i, of "\<lambda>out. length (ensure_list (dget out ''findings''))" t]
    by (simp add: total_findings_def outs')
qed

text \<open>
  What the guard makes of the outputs: nothing while they fit the budget; otherwise it trims, the
  last time from outputs over the budget, and stops when they fit or nothing can be trimmed.
\<close>

definition guarded :: "dict list \<Rightarrow> dict list \<Rightarrow> bool" where
  "guarded outs outs' \<longleftrightarrow> list_all2 trimmed_from outs outs'
     \<and> (outs' = outs \<or> (\<exists>prev freed. list_all2 trimmed_from outs prev
          \<and> aggregate_output_budget_bytes < total_size prev \<and> trim_lowest_priority_unit prev = Some (outs', freed)))
     \<and> (total_size outs' \<le> aggregate_output_budget_bytes \<or> trim_lowest_priority_unit outs' = None)"

lemma trim_loop_guards:
  "agg = total_size outs \<Longrightarrow> total_findings outs \<le> k \<Longrightarrow> guarded outs (trim_loop k agg outs)"
proof (induction k agg outs rule: trim_loop.induct)
  case (1 agg outs)
  have "trim_lowest_priority_unit outs = None"
    using trim_unit_facts(4) [of outs] 1 by (cases "trim_lowest_priority_unit outs") fastforce+
  then show ?case by (simp add: guarded_def list_all2_same trimmed_from_refl)
next
  case (2 k agg outs)
  show ?case
  proof (cases "agg \<le> aggregate_output_budget_bytes \<or> trim_lowest_priority_unit outs = None")
    case True
    then have "trim_loop (Suc k) agg outs = outs" by auto
    with "2.prems" True show ?thesis by (auto simp: guarded_def list_all2_same trimmed_from_refl)
  next
    case False
    then obtain outs' freed where t: "trim_lowest_priority_unit outs = Some (outs', freed)" by auto
    note f = trim_unit_facts [OF t]
    have agg: "agg - freed = total_size outs'" "total_findings outs' \<le> k" "freed \<noteq> 0"
      and over: "\<not> agg \<le> aggregate_output_budget_bytes" using f(2-4) "2.prems" False by auto
    have IH: "guarded outs' (trim_loop k (agg - freed) outs')"
      using "2.IH" [OF over t refl agg(3,1,2)] by simp
    have trans: "list_all2 trimmed_from outs' xs \<Longrightarrow> list_all2 trimmed_from outs xs" for xs
      by (rule list_all2_trans [OF trimmed_from_trans f(1)])
    have "trim_loop (Suc k) agg outs = trim_loop k (agg - freed) outs'" using t f(2) over by simp
    moreover have "list_all2 trimmed_from outs outs" by (simp add: list_all2_same trimmed_from_refl)
    ultimately show ?thesis
      using IH trans t over "2.prems"(1) unfolding guarded_def by (metis linorder_not_le)
  qed
qed

lemma findings_le_len:
  "py_len (py_or (dget out ''findings'') (VList [])) = Inr n \<Longrightarrow> length (ensure_list (dget out ''findings'')) \<le> n"
  by (auto simp: py_len_def py_or_def ensure_list_def split: pyval.splits if_splits)

lemma findings_le_lens:
  "mapE (\<lambda>out. py_len (py_or (dget out ''findings'') (VList []))) outs = Inr lens \<Longrightarrow> total_findings outs \<le> sum_list lens"
proof (induction outs arbitrary: lens)
  case (Cons out outs)
  then obtain n ns where "lens = n # ns" and n: "py_len (py_or (dget out ''findings'') (VList [])) = Inr n"
    and ns: "mapE (\<lambda>out. py_len (py_or (dget out ''findings'') (VList []))) outs = Inr ns" by (auto simp: res_simps)
  with Cons.IH [OF ns] findings_le_len [OF n] show ?case by (simp add: total_findings_def)
qed (simp add: total_findings_def)

lemma size_guard_facts:
  assumes "size_guard outs = Inr outs'"
  shows "guarded outs outs'" and "total_size outs \<le> aggregate_output_budget_bytes \<Longrightarrow> outs' = outs"
    and "length outs' = length outs"
proof -
  show fits: "outs' = outs" if "total_size outs \<le> aggregate_output_budget_bytes"
    using assms that by (simp add: size_guard_def Let_def total_size_def)
  show g: "guarded outs outs'"
  proof (cases "total_size outs \<le> aggregate_output_budget_bytes")
    case True
    with fits show ?thesis by (simp add: guarded_def list_all2_same trimmed_from_refl)
  next
    case False
    then show ?thesis
      using assms trim_loop_guards [OF refl findings_le_lens]
      by (auto simp: size_guard_def Let_def total_size_def res_simps simp del: trim_loop.simps split: if_splits)
  qed
  then show "length outs' = length outs" by (auto simp: guarded_def dest: list_all2_lengthD)
qed

lemma size_guard_total:
  assumes "\<And>out. out \<in> set outs \<Longrightarrow> py_len (py_or (dget out ''findings'') (VList [])) = Inr (g out)"
  shows "\<exists>outs'. size_guard outs = Inr outs'"
proof -
  have "mapE (\<lambda>out. py_len (py_or (dget out ''findings'') (VList []))) outs = Inr (map g outs)"
    using assms by (rule mapE_total)
  then show ?thesis by (simp add: size_guard_def Let_def)
qed

subsection \<open>The merger's state\<close>

definition has_output :: "unit_key \<times> dict \<Rightarrow> bool" where
  "has_output = (\<lambda>(k, u). is_dict (dget u ''specialist_output''))"

text \<open>The output recorded for a unit, before any trimming.\<close>

definition unit_output :: "unit_key \<times> dict \<Rightarrow> dict" where
  "unit_output = (\<lambda>(k, u). stamp_id (fst k) (ensure_dict (dget u ''specialist_output'')))"

lemma merge_units_outputs:
  "foldE (merge_unit r units) st deduped = Inr st' \<Longrightarrow>
     map snd (pending_writes st') = map snd (pending_writes st) @ map unit_output (filter has_output deduped)"
proof (induction deduped arbitrary: st)
  case Nil
  then show ?case by simp
next
  case (Cons x xs)
  obtain k u where x: "x = (k, u)" by (cases x)
  from Cons.prems obtain t where t: "merge_unit r units st x = Inr t"
    and rest: "foldE (merge_unit r units) t xs = Inr st'" by (auto simp: res_simps)
  from t have "map snd (pending_writes t) = map snd (pending_writes st) @ map unit_output (filter has_output [x])"
    by (auto simp: merge_unit_def x unit_output_def has_output_def is_dict_def ensure_dict_def res_simps
        split: pyval.splits)
  with Cons.IH [OF rest] show ?case by simp
qed

lemma merge_outputs_Inr:
  assumes "merge_outputs skill env = Inr st"
  defines "reported \<equiv> map unit_output (filter has_output (dedupe_outputs (resolve_iteration_payloads env)))"
  shows "guarded reported (map snd (pending_writes st))"
    and "total_size reported \<le> aggregate_output_budget_bytes \<Longrightarrow> map snd (pending_writes st) = reported"
proof -
  from assms(1) obtain st0 outs units where
      f: "foldE (merge_unit (specialists_root skill (ensure_dict (dget env ''args''))) units)
        \<lparr>union_files = [], pending_writes = []\<rparr> (dedupe_outputs (resolve_iteration_payloads env)) = Inr st0"
    and g: "size_guard (map snd (pending_writes st0)) = Inr outs"
    and st: "st = st0\<lparr>pending_writes := zip (map fst (pending_writes st0)) outs\<rparr>"
    by (auto simp: merge_outputs_def Let_def res_simps split: if_splits)
  have "map snd (pending_writes st) = outs" using size_guard_facts(3) [OF g] by (simp add: st)
  moreover have "map snd (pending_writes st0) = reported"
    using merge_units_outputs [OF f] by (simp add: reported_def)
  ultimately show "guarded reported (map snd (pending_writes st))"
    and "total_size reported \<le> aggregate_output_budget_bytes \<Longrightarrow> map snd (pending_writes st) = reported"
    using size_guard_facts [OF g] by simp_all
qed

subsection \<open>Merging what was planned\<close>

lemma dicts_of_units: "dicts_of (map unit_val us) = map unit_dict us"
  by (induction us) simp_all

lemma all_units_of_plan:
  "all_units (map batch_val ibs) = Inr (map unit_dict (concat (map snd ibs)))"
proof -
  have one: "batch_units (ensure_dict (batch_val b)) = Inr (map unit_dict (snd b))" for b
    by (cases b) (auto simp: batch_units_def batch_val_def ensure_dict_def py_or_def dicts_of_units)
  have "dicts_of (map batch_val ibs) = map (ensure_dict \<circ> batch_val) ibs"
    by (induction ibs) (auto simp: batch_val_def ensure_dict_def)
  then have "mapE batch_units (dicts_of (map batch_val ibs)) = Inr (map (\<lambda>b. map unit_dict (snd b)) ibs)"
    by (simp only: mapE_map) (intro mapE_total, simp add: one)
  then show ?thesis by (simp add: all_units_def map_concat comp_def)
qed

lemma unit_key_of_unit: "unit_key_of (unit_dict u) = Some (u_leaf u, int (u_sub u))"
  by (simp add: unit_key_of_def unit_dict_def int_of_def)

lemma planned_files_of_plan:
  "planned_files (map unit_dict us) key
     = Inr (concat (map u_files (filter (\<lambda>u. (u_leaf u, int (u_sub u)) = key) us)))"
proof -
  have cond: "(dget (unit_dict u) ''leaf_id'' = VStr (fst key)
      \<and> py_eq (dget (unit_dict u) ''sub_index'') (VInt (snd key))) \<longleftrightarrow> (u_leaf u, int (u_sub u)) = key" for u
    by (cases key) (simp add: unit_dict_def del: py_eq.simps)
  have files: "bindE (py_iter (py_or (dget (unit_dict u) ''files'') (VList []))) (\<lambda>fs. Inr (strs_of fs))
      = Inr (u_files u)" for u
    by (cases "u_files u = []") (simp_all add: unit_dict_def py_or_def)
  show ?thesis
    unfolding planned_files_def filter_map comp_def cond
    by (subst mapE_map, subst mapE_total [where g = u_files]) (simp_all add: files)
qed

lemma merge_units_union:
  assumes "\<And>k v. (k, v) \<in> set deduped \<Longrightarrow> is_dict (dget v ''specialist_output'')"
  shows "\<exists>st'. foldE (merge_unit r (map unit_dict us)) st deduped = Inr st'
    \<and> set (union_files st') = set (union_files st)
        \<union> (\<Union>u\<in>{u \<in> set us. (u_leaf u, int (u_sub u)) \<in> set (dkeys deduped)}. set (u_files u))"
  using assms
proof (induction deduped arbitrary: st)
  case Nil
  then show ?case by simp
next
  case (Cons x xs)
  obtain k v where x: "x = (k, v)" by (cases x)
  obtain out where out: "dget v ''specialist_output'' = VDict out"
    using Cons.prems [of k v] x by (auto simp: is_dict_def split: pyval.splits)
  obtain shard where shard: "unit_shard r k (dget_or v ''__iter_n'' (VInt 0)) = Inr shard"
    by (simp add: unit_shard_def shard_path_def shard_segments_def hex_digest_len_def)
  define fs where "fs = concat (map u_files (filter (\<lambda>u. (u_leaf u, int (u_sub u)) = k) us))"
  define t where "t = \<lparr>union_files = union_files st @ fs,
      pending_writes = pending_writes st @ [(shard, stamp_id (fst k) out)]\<rparr>"
  have step: "merge_unit r (map unit_dict us) st x = Inr t"
    by (simp add: merge_unit_def x out shard planned_files_of_plan t_def fs_def)
  have prem: "is_dict (dget w ''specialist_output'')" if "(j, w) \<in> set xs" for j w
    using Cons.prems [of j w] that by simp
  have "\<exists>st'. foldE (merge_unit r (map unit_dict us)) t xs = Inr st'
      \<and> set (union_files st') = set (union_files t)
        \<union> (\<Union>u\<in>{u \<in> set us. (u_leaf u, int (u_sub u)) \<in> set (dkeys xs)}. set (u_files u))"
    by (rule Cons.IH) (erule prem)
  then obtain st' where st':
      "foldE (merge_unit r (map unit_dict us)) t xs = Inr st'"
      "set (union_files st') = set (union_files t)
        \<union> (\<Union>u\<in>{u \<in> set us. (u_leaf u, int (u_sub u)) \<in> set (dkeys xs)}. set (u_files u))"
    by (elim exE conjE)
  have t_files: "set (union_files t) = set (union_files st)
      \<union> (\<Union>u\<in>{u \<in> set us. (u_leaf u, int (u_sub u)) = k}. set (u_files u))"
    by (simp add: t_def fs_def)
  have keys: "set (dkeys (x # xs)) = insert k (set (dkeys xs))" by (simp add: x)
  have "(\<Union>u\<in>{u \<in> set us. (u_leaf u, int (u_sub u)) = k}. set (u_files u))
      \<union> (\<Union>u\<in>{u \<in> set us. (u_leaf u, int (u_sub u)) \<in> K}. set (u_files u))
    = (\<Union>u\<in>{u \<in> set us. (u_leaf u, int (u_sub u)) \<in> insert k K}. set (u_files u))" for K
    by blast
  then have "set (union_files st') = set (union_files st)
      \<union> (\<Union>u\<in>{u \<in> set us. (u_leaf u, int (u_sub u)) \<in> set (dkeys (x # xs))}. set (u_files u))"
    unfolding st'(2) t_files keys Un_assoc by simp
  with st'(1) step show ?case by (intro exI [of _ st']) (simp del: set_map)
qed

subsection \<open>Properties\<close>

text \<open>
  C2: the merger refuses a loop that exited early: it raises
  \<^verbatim>\<open>DispatchLoopExitedEarlyError\<close> exactly when some unit of the plan has no entry in any
  iteration's outputs, naming precisely the missing units, in order, and the number
  planned, before any shard is written.
\<close>

theorem merge_detects_early_exit:
  assumes "all_units (ensure_list (dget env ''specialist_batches'')) = Inr units"
  defines "planned \<equiv> set (List.map_filter unit_key_of units)"
    and "reported \<equiv> reported_keys (resolve_iteration_payloads env)"
  shows "handle_merge_specialist_outputs skill env
        = ([], Inl (DispatchLoopExitedEarlyError (sorted_list_of_set (planned - reported)) (card planned)))
      \<and> \<not> planned \<subseteq> reported
    \<or> planned \<subseteq> reported
      \<and> (\<nexists>missing n. snd (handle_merge_specialist_outputs skill env) = Inl (DispatchLoopExitedEarlyError missing n))"
proof (cases "planned \<subseteq> reported")
  case False
  have "finite (planned - reported)" by (simp add: planned_def)
  with False have "sorted_list_of_set (planned - reported) \<noteq> []" by auto
  with False show ?thesis
    unfolding handle_merge_specialist_outputs_def merge_outputs_def assms(1) bindE.simps Let_def
      dedupe_keys planned_def reported_def by simp
next
  case True
  then have none: "sorted_list_of_set (planned - reported) = []" by (simp add: Diff_eq_empty_iff [THEN iffD2])
  have "merge_outputs skill env \<noteq> Inl (DispatchLoopExitedEarlyError missing n)" for missing n
  proof
    assume "merge_outputs skill env = Inl (DispatchLoopExitedEarlyError missing n)"
    then show False
      using none unfolding merge_outputs_def assms(1) bindE.simps Let_def dedupe_keys planned_def reported_def
      by (auto simp: res_simps dest!: foldE_Inl merge_unit_Inl size_guard_Inl)
  qed
  then have "snd (handle_merge_specialist_outputs skill env) \<noteq> Inl (DispatchLoopExitedEarlyError missing n)"
    for missing n
    by (auto simp: handle_merge_specialist_outputs_def Let_def split: sum.splits)
  with True show ?thesis by blast
qed

definition early_env :: dict where
  "early_env =
    [(''specialist_batches'', VList [VDict [(''units'', VList
        [VDict [(''leaf_id'', VStr ''sec''), (''sub_index'', VInt 1)],
         VDict [(''leaf_id'', VStr ''perf''), (''sub_index'', VInt 1)]])]]),
     (''loop_iters'', VList [VDict [(''iter_outputs'', VList
        [VDict [(''leaf_id'', VStr ''sec''), (''sub_index'', VInt 1)]])]])]"

theorem merge_detects_early_exit_witness:
  "handle_merge_specialist_outputs ''/skill'' early_env
     = ([], Inl (DispatchLoopExitedEarlyError [(''perf'', 1)] 2))"
proof -
  let ?units = "[[(''leaf_id'', VStr ''sec''), (''sub_index'', VInt 1)],
      [(''leaf_id'', VStr ''perf''), (''sub_index'', VInt 1)]]"
  have units: "all_units (ensure_list (dget early_env ''specialist_batches'')) = Inr ?units" by code_simp
  have planned: "set (List.map_filter unit_key_of ?units) = {(''sec'', 1), (''perf'', 1)}"
    by (simp add: List.map_filter_def unit_key_of_def int_of_def)
  have reported: "reported_keys (resolve_iteration_payloads early_env) = {(''sec'', 1)}"
    by (auto simp: reported_keys_def resolve_iteration_payloads_def early_env_def is_list_def ensure_list_def
        payload_outputs_def unit_key_of_def int_of_def)
  have "{(''sec'', 1::int), (''perf'', 1)} - {(''sec'', 1)} = {(''perf'', 1)}" by auto
  then show ?thesis
    using merge_detects_early_exit [OF units, of "''/skill''"] unfolding planned reported by auto
qed

text \<open>
  C19: what the planner planned, the merger accepts: when every unit of the plan has an entry
  in the iterations' outputs and every entry carries an output whose findings are a list, the
  merger raises nothing, neither for an early exit nor for missed files, and returns and
  writes one output per unit reported.
\<close>

theorem merge_accepts_complete_loop:
  assumes plan: "handle_plan_specialist_batches penv = Inr plan"
    and batches: "dget env ''specialist_batches'' = dget plan ''specialist_batches''"
    and total: "dget env ''total_files_planned'' = dget plan ''total_files_planned''"
    and complete: "\<forall>u\<in>set (env_units penv).
      (u_leaf u, int (u_sub u)) \<in> reported_keys (resolve_iteration_payloads env)"
    and outputs: "\<forall>p\<in>set (resolve_iteration_payloads env). \<forall>w\<in>set (payload_outputs p).
      \<exists>out fs. dget w ''specialist_output'' = VDict out \<and> dget out ''findings'' = VList fs"
  shows "\<exists>writes outs. handle_merge_specialist_outputs skill env
      = (writes, Inr [(''specialist_outputs'', VList (map VDict outs))])
    \<and> length writes = length outs
    \<and> length outs = length (dedupe_outputs (resolve_iteration_payloads env))"
proof -
  let ?deduped = "dedupe_outputs (resolve_iteration_payloads env)"
  let ?units = "map unit_dict (env_units penv)"
  let ?root = "specialists_root skill (ensure_dict (dget env ''args''))"
  let ?b = "env_batches penv"
  have cat: "concat ?b = env_units penv"
    by (simp add: env_batches_def chunks_concat plan_batch_size_pos)
  have units: "all_units (ensure_list (dget env ''specialist_batches'')) = Inr ?units"
    using plan unfolding batches
    by (auto simp: handle_plan_specialist_batches_def Let_def ensure_list_def all_units_of_plan cat
        simp del: upt_Suc)
  have "set (List.map_filter unit_key_of ?units) \<subseteq> reported_keys (resolve_iteration_payloads env)"
    using complete by (auto simp: List.map_filter_def unit_key_of_unit)
  then have none: "sorted_list_of_set (set (List.map_filter unit_key_of ?units) - set (dkeys ?deduped)) = []"
    unfolding dedupe_keys by (simp add: Diff_eq_empty_iff [THEN iffD2])
  have dict: "is_dict (dget v ''specialist_output'')
      \<and> (\<exists>fs. dget (ensure_dict (dget v ''specialist_output'')) ''findings'' = VList fs)" if "(k, v) \<in> set ?deduped" for k v
    using dedupe_values [OF that] outputs by (fastforce simp: is_dict_def ensure_dict_def)
  obtain st where st: "foldE (merge_unit ?root ?units) \<lparr>union_files = [], pending_writes = []\<rparr> ?deduped = Inr st"
    and files: "set (union_files st)
      = (\<Union>u\<in>{u \<in> set (env_units penv). (u_leaf u, int (u_sub u)) \<in> set (dkeys ?deduped)}. set (u_files u))"
    using merge_units_union [of ?deduped ?root "env_units penv" "\<lparr>union_files = [], pending_writes = []\<rparr>"] dict
    by auto
  have "{u \<in> set (env_units penv). (u_leaf u, int (u_sub u)) \<in> set (dkeys ?deduped)} = set (env_units penv)"
    unfolding dedupe_keys using complete by blast
  with files have card: "length (remdups (union_files st)) = card (\<Union>u\<in>set (env_units penv). set (u_files u))"
    by (simp add: length_remdups_card_conv)
  have filt: "filter has_output ?deduped = ?deduped"
    using dict by (auto simp: has_output_def filter_id_conv)
  have snds: "map snd (pending_writes st) = map unit_output ?deduped"
    using merge_units_outputs [OF st] filt by simp
  have found: "\<exists>fs. dget (unit_output x) ''findings'' = VList fs" if "x \<in> set ?deduped" for x
    using dict [of "fst x" "snd x"] that by (cases x) (auto simp: unit_output_def stamp_id_def)
  have lens: "py_len (py_or (dget out ''findings'') (VList [])) = Inr (length (ensure_list (dget out ''findings'')))"
    if "out \<in> set (map unit_output ?deduped)" for out
  proof -
    from that obtain x where x: "x \<in> set ?deduped" and out: "out = unit_output x" unfolding set_map by blast
    from found [OF x] obtain fs where "dget out ''findings'' = VList fs" unfolding out by blast
    then show ?thesis by (simp add: py_len_def py_or_def ensure_list_def)
  qed
  obtain outs where guard: "size_guard (map unit_output ?deduped) = Inr outs"
    using size_guard_total [OF lens] by blast
  have len: "length outs = length ?deduped" using size_guard_facts [OF guard] by simp
  have lst: "length (pending_writes st) = length ?deduped" using snds by (metis length_map)
  have "merge_outputs skill env = Inr (st\<lparr>pending_writes := zip (map fst (pending_writes st)) outs\<rparr>)"
    unfolding merge_outputs_def units bindE.simps Let_def none st snds guard by simp
  moreover have "dget env ''total_files_planned''
      = VInt (int (card (\<Union>u\<in>set (env_units penv). set (u_files u))))"
    unfolding total using plan_out_total [OF plan] .
  ultimately have "handle_merge_specialist_outputs skill env
      = (map shard_write (zip (map fst (pending_writes st)) outs),
         Inr [(''specialist_outputs'', VList (map VDict outs))])"
    using len lst by (simp add: handle_merge_specialist_outputs_def Let_def card int_of_def
        map_map [symmetric] del: map_map)
  with len lst show ?thesis by (intro exI [of _ outs] exI conjI) (assumption, simp_all)
qed

definition loop_env :: "dict \<Rightarrow> dict" where
  "loop_env plan =
    (let entry = (\<lambda>k. VDict [(''leaf_id'', VStr ''sec''), (''sub_index'', VInt k),
                             (''specialist_output'', VDict [(''findings'', VList [])])]) in
     [(''loop_iters'', VList [VDict [(''iter_outputs'', VList [entry 1, entry 2])],
                              VDict [(''iter_outputs'', VList [entry 3])]]),
      (''specialist_batches'', dget plan ''specialist_batches''),
      (''total_files_planned'', dget plan ''total_files_planned'')])"

lemma loop_env_outputs:
  "map payload_outputs (resolve_iteration_payloads (loop_env plan)) =
     (let entry = (\<lambda>k. [(''leaf_id'', VStr ''sec''), (''sub_index'', VInt k),
                        (''specialist_output'', VDict [(''findings'', VList [])])])
      in [[entry 1, entry 2], [entry 3]])"
  by (simp add: resolve_iteration_payloads_def loop_env_def is_list_def ensure_list_def Let_def payload_outputs_def)

theorem merge_accepts_complete_loop_witness:
  "\<exists>plan writes outs. handle_plan_specialist_batches plan_env = Inr plan
     \<and> handle_merge_specialist_outputs ''/skill'' (loop_env plan)
         = (writes, Inr [(''specialist_outputs'', VList (map VDict outs))])"
proof -
  obtain plan where plan: "handle_plan_specialist_batches plan_env = Inr plan"
    by (simp add: handle_plan_specialist_batches_def Let_def)
  have reported: "reported_keys ps = {k. \<exists>us\<in>set (map payload_outputs ps). \<exists>u\<in>set us. unit_key_of u = Some k}" for ps
    by (auto simp: reported_keys_def)
  have "(\<forall>us\<in>set (map payload_outputs (resolve_iteration_payloads (loop_env plan))). \<forall>w\<in>set us.
        \<exists>out fs. dget w ''specialist_output'' = VDict out \<and> dget out ''findings'' = VList fs)"
    unfolding loop_env_outputs by (simp add: Let_def)
  then have outputs: "\<forall>p\<in>set (resolve_iteration_payloads (loop_env plan)). \<forall>w\<in>set (payload_outputs p).
        \<exists>out fs. dget w ''specialist_output'' = VDict out \<and> dget out ''findings'' = VList fs"
    by simp
  have complete: "\<forall>u\<in>set (env_units plan_env). (u_leaf u, int (u_sub u))
        \<in> reported_keys (resolve_iteration_payloads (loop_env plan))"
    unfolding plan_env_units reported loop_env_outputs
    by (simp add: Let_def unit_key_of_def int_of_def)
  have same: "dget (loop_env plan) ''specialist_batches'' = dget plan ''specialist_batches''"
      "dget (loop_env plan) ''total_files_planned'' = dget plan ''total_files_planned''"
    by (simp_all add: loop_env_def Let_def)
  from merge_accepts_complete_loop [OF plan same complete outputs] plan show ?thesis by blast
qed


text \<open>One unit whose output has no id, a critical finding and a minor one of the size of the budget.\<close>

definition grave :: pyval where
  "grave = VDict [(''severity'', VStr ''critical'')]"

definition bulky :: pyval where
  "bulky = VDict [(''severity'', VStr ''minor''), (''title'', VStr (replicate aggregate_output_budget_bytes (CHR ''x'')))]"

definition bulky_env :: dict where
  "bulky_env = [(''loop_iters'', VList [VDict [(''iter_outputs'', VList
      [VDict [(''leaf_id'', VStr ''sec''), (''sub_index'', VInt 1),
              (''specialist_output'', VDict [(''findings'', VList [grave, bulky])])]])]])]"

definition sec_output :: "pyval list \<Rightarrow> dict" where
  "sec_output fs = [(''findings'', VList fs), (''id'', VStr ''sec'')]"

lemma length_join_ge: "x \<in> set xs \<Longrightarrow> length x \<le> length (join sep xs)"
  by (induction sep xs rule: join.induct) auto

lemma length_block_ge: "x \<in> set xs \<Longrightarrow> length x \<le> length (json_block pretty level l r xs)"
  using length_join_ge [of x xs "'','' @ json_break (Suc level)"] length_join_ge [of x xs "'', ''"]
  by (auto simp: json_block_def)

lemma json_string_xs: "length (json_string (replicate n (CHR ''x''))) = n + 2"
proof -
  have "utf8_points (replicate n 120) = replicate n 120" by (induction n) (simp_all add: utf8_points.simps)
  then show ?thesis by (simp add: json_string_def map_replicate_const json_point_def)
qed

lemma bulky_size: "aggregate_output_budget_bytes < serialised_size (sec_output [grave, bulky])"
proof -
  let ?n = aggregate_output_budget_bytes
  have "?n + 2 \<le> length (json_at True True (Suc (Suc 0)) bulky)"
    unfolding bulky_def json_string_xs [symmetric, of ?n] json_at.simps Let_def
    by (rule order_trans [OF _ length_block_ge [of "json_string ''title'' @ '': '' @ json_string (replicate ?n (CHR ''x''))"]])
      simp_all
  also have "\<dots> \<le> length (json_at True True (Suc 0) (VList [grave, bulky]))"
    unfolding json_at.simps by (rule length_block_ge) simp
  also have "\<dots> \<le> length (json_dumps (VDict (sec_output [grave, bulky])))"
    unfolding json_dumps_def sec_output_def json_at.simps Let_def
    by (rule order_trans [OF _ length_block_ge [of "json_string ''findings'' @ '': '' @ json_at True True (Suc 0) (VList [grave, bulky])"]])
      simp_all
  finally show ?thesis by (simp add: serialised_size_def)
qed

lemma bulky_trimmed:
  "trim_lowest_priority_unit [sec_output [grave, bulky]]
     = Some ([sec_output [grave]], serialised_size (sec_output [grave, bulky]) - serialised_size (sec_output [grave]))"
  and grave_size: "serialised_size (sec_output [grave]) \<le> aggregate_output_budget_bytes"
proof -
  have "length (json_dumps (VDict (sec_output [grave]))) < 200"
    by code_simp
  then show small: "serialised_size (sec_output [grave]) \<le> aggregate_output_budget_bytes"
    by (simp add: serialised_size_def aggregate_output_budget_bytes_def)
  have "lower ''critical'' = ''critical''" "lower ''minor'' = ''minor''" by code_simp+
  then have "sort_key severity_rank [grave, bulky] = [bulky, grave]"
    by (simp add: grave_def bulky_def severity_rank_def severity_value_def)
  then show "trim_lowest_priority_unit [sec_output [grave, bulky]]
     = Some ([sec_output [grave]], serialised_size (sec_output [grave, bulky]) - serialised_size (sec_output [grave]))"
    using small bulky_size by (simp add: trim_lowest_priority_unit_def argmax_def sec_output_def Let_def)
qed


end
