(* ===== verification/Coverage.thy ===== *)
theory Coverage
  imports Glob
begin

section \<open>Coverage of the changed files\<close>

text \<open>
  Handler 4 of \<^verbatim>\<open>code_review/handlers.py\<close>: who reviewed each changed file, credited by the
  findings, by the picked leaves through the globs of their frontmatter and by the rescues,
  and the files with fewer than two reviewers. Reading a leaf's file is an argument, \<open>load\<close>:
  the frontmatter of the leaf a path names, where it is readable and inside the wiki.
\<close>

subsection \<open>Model\<close>

type_synonym frontmatter_reader = "string \<Rightarrow> dict option"

definition read_leaf_globs :: "frontmatter_reader \<Rightarrow> pyval \<Rightarrow> string list option" where
  "read_leaf_globs load leaf_path =
     (case leaf_path of
        VStr p \<Rightarrow>
          if p = [] then None
          else (case load p of
                  None \<Rightarrow> None
                | Some data \<Rightarrow>
                    (case dget data ''activation'' of
                       VDict activation \<Rightarrow> Some (strs_of (ensure_list (dget activation ''file_globs'')))
                     | _ \<Rightarrow> None))
      | _ \<Rightarrow> None)"

type_synonym reviewers = "(string \<times> string list) list"

definition reviewers_of :: "reviewers \<Rightarrow> string \<Rightarrow> string list" where
  "reviewers_of m f = (case map_of m f of Some rs \<Rightarrow> rs | None \<Rightarrow> [])"

definition credit :: "string \<Rightarrow> string \<Rightarrow> reviewers \<Rightarrow> reviewers" where
  "credit f r m = dset f (List.insert r (reviewers_of m f)) m"

text \<open>Source (a): the leaves a finding in a changed file is flagged by.\<close>

definition credit_finding :: "string list \<Rightarrow> reviewers \<Rightarrow> dict \<Rightarrow> reviewers res" where
  "credit_finding changed m finding =
     (case dget finding ''file'' of
        VStr f \<Rightarrow>
          if f \<notin> set changed then Inr m
          else bindE (py_iter (py_or (dget finding ''flagged_by'') (VList [])))
                 (\<lambda>ids. Inr (foldl (\<lambda>m r. credit f r m) m (strs_of ids)))
      | _ \<Rightarrow> Inr m)"

text \<open>Source (b): a picked leaf, on every changed file its globs admit.\<close>

definition leaf_admits :: "frontmatter_reader \<Rightarrow> dict \<Rightarrow> string \<Rightarrow> bool" where
  "leaf_admits load leaf f = (case read_leaf_globs load (dget leaf ''path'') of
     None \<Rightarrow> True | Some globs \<Rightarrow> list_ex (minimatch f) globs)"

definition credit_leaf :: "frontmatter_reader \<Rightarrow> string list \<Rightarrow> reviewers \<Rightarrow> dict \<Rightarrow> reviewers" where
  "credit_leaf load changed m leaf =
     (case dget leaf ''id'' of
        VStr r \<Rightarrow>
          if r = [] then m
          else foldl (\<lambda>m f. credit f r m) m (filter (leaf_admits load leaf) changed)
      | _ \<Rightarrow> m)"

text \<open>Source (c): the rescues.\<close>

definition credit_rescue :: "string list \<Rightarrow> reviewers \<Rightarrow> dict \<Rightarrow> reviewers" where
  "credit_rescue changed m rescue =
     (case (dget rescue ''file'', dget rescue ''rescued_leaf'') of
        (VStr f, VStr r) \<Rightarrow> if f \<in> set changed then credit f r m else m
      | _ \<Rightarrow> m)"

definition coverage_row :: "string \<times> string list \<Rightarrow> pyval" where
  "coverage_row = (\<lambda>(f, rs). VDict [(''file'', VStr f), (''reviewers'', VList (map VStr rs))])"

definition coverage_credits :: "frontmatter_reader \<Rightarrow> dict \<Rightarrow> reviewers res" where
  "coverage_credits load env =
     (let changed = remdups (strs_of (ensure_list (dget env ''changed_paths'')));
          m0 = map (\<lambda>f. (f, [])) changed
      in bindE (foldE (credit_finding changed) m0 (dicts_of (ensure_list (dget env ''findings'')))) (\<lambda>m1.
         let m2 = foldl (credit_leaf load changed) m1 (dicts_of (ensure_list (dget env ''picked_leaves'')));
             m3 = foldl (credit_rescue changed) m2 (dicts_of (ensure_list (dget env ''coverage_rescues'')))
         in Inr m3))"

definition handle_verify_coverage :: "frontmatter_reader \<Rightarrow> dict \<Rightarrow> dict res" where
  "handle_verify_coverage load env =
     bindE (coverage_credits load env) (\<lambda>m.
       let matrix = sort_key fst (map (\<lambda>(f, rs). (f, sort rs)) m);
           gaps = map fst (filter (\<lambda>(f, rs). length rs < 2) matrix)
       in Inr [(''coverage_matrix'', VList (map coverage_row matrix)),
               (''coverage_gaps'', VList (map VStr gaps)),
               (''coverage_rule_violated'', VBool (gaps \<noteq> []))])"

subsection \<open>Who is credited\<close>

definition flags :: "dict \<Rightarrow> string \<Rightarrow> string \<Rightarrow> bool" where
  "flags finding f r \<longleftrightarrow> dget finding ''file'' = VStr f
     \<and> (\<exists>ids. py_iter (py_or (dget finding ''flagged_by'') (VList [])) = Inr ids \<and> VStr r \<in> set ids)"

definition reviewed_by :: "frontmatter_reader \<Rightarrow> dict \<Rightarrow> string \<Rightarrow> string \<Rightarrow> bool" where
  "reviewed_by load env f r \<longleftrightarrow>
     (\<exists>finding. VDict finding \<in> set (ensure_list (dget env ''findings'')) \<and> flags finding f r)
     \<or> (\<exists>leaf. VDict leaf \<in> set (ensure_list (dget env ''picked_leaves'')) \<and> dget leaf ''id'' = VStr r
          \<and> r \<noteq> [] \<and> leaf_admits load leaf f)
     \<or> (\<exists>rescue. VDict rescue \<in> set (ensure_list (dget env ''coverage_rescues''))
          \<and> dget rescue ''file'' = VStr f \<and> dget rescue ''rescued_leaf'' = VStr r)"

subsection \<open>Lemmas\<close>

text \<open>The map keeps its keys and its lists stay without duplicates.\<close>

definition cov_inv :: "string list \<Rightarrow> reviewers \<Rightarrow> bool" where
  "cov_inv changed m \<longleftrightarrow> dkeys m = changed \<and> (\<forall>f. distinct (reviewers_of m f))"

lemma reviewers_of_credit: "reviewers_of (credit f r m) g = (if g = f then List.insert r (reviewers_of m f) else reviewers_of m g)"
  by (simp add: reviewers_of_def credit_def)

lemma credit_inv: "cov_inv changed m \<Longrightarrow> f \<in> set changed \<Longrightarrow> cov_inv changed (credit f r m)"
proof -
  assume a: "cov_inv changed m" "f \<in> set changed"
  then have "dkeys (credit f r m) = dkeys m"
    unfolding cov_inv_def credit_def dkeys_dset by simp
  with a show ?thesis by (simp add: cov_inv_def reviewers_of_credit)
qed

definition cov_rel :: "reviewers \<Rightarrow> string \<Rightarrow> string set" where
  "cov_rel m f = set (reviewers_of m f)"

lemma cov_rel_credit: "cov_rel (credit f r m) g = (if g = f then insert r (cov_rel m g) else cov_rel m g)"
  by (simp add: cov_rel_def reviewers_of_credit)

lemma credit_ids:
  "cov_inv changed m \<Longrightarrow> f \<in> set changed \<Longrightarrow> cov_inv changed (foldl (\<lambda>m r. credit f r m) m rs)
    \<and> (\<forall>g. cov_rel (foldl (\<lambda>m r. credit f r m) m rs) g = cov_rel m g \<union> {r. r \<in> set rs \<and> g = f})"
proof (induction rs arbitrary: m)
  case Nil
  then show ?case by simp
next
  case (Cons r rs)
  from Cons.IH [OF credit_inv [OF Cons.prems] Cons.prems(2)] show ?case
    by (auto simp: cov_rel_credit)
qed

lemma credit_files:
  "cov_inv changed m \<Longrightarrow> set fs \<subseteq> set changed \<Longrightarrow> cov_inv changed (foldl (\<lambda>m f. credit f r m) m fs)
    \<and> (\<forall>g. cov_rel (foldl (\<lambda>m f. credit f r m) m fs) g = cov_rel m g \<union> {q. q = r \<and> g \<in> set fs})"
proof (induction fs arbitrary: m)
  case Nil
  then show ?case by simp
next
  case (Cons f fs)
  then have "cov_inv changed (credit f r m)" "set fs \<subseteq> set changed" by (simp_all add: credit_inv)
  from Cons.IH [OF this] show ?case by (auto simp: cov_rel_credit)
qed

text \<open>A stage of the handler adds the credits of each of its inputs.\<close>

lemma stage_foldl:
  assumes "\<And>m x. cov_inv changed m \<Longrightarrow> x \<in> set xs \<Longrightarrow> cov_inv changed (step m x)
      \<and> (\<forall>g\<in>set changed. cov_rel (step m x) g = cov_rel m g \<union> C x g)"
    and "cov_inv changed m"
  shows "cov_inv changed (foldl step m xs)
    \<and> (\<forall>g\<in>set changed. cov_rel (foldl step m xs) g = cov_rel m g \<union> (\<Union>x\<in>set xs. C x g))"
  using assms
proof (induction xs arbitrary: m)
  case Nil
  then show ?case by simp
next
  case (Cons x xs)
  from Cons.prems(1) [of m x] Cons.prems(2)
  have x: "cov_inv changed (step m x)" "\<forall>g\<in>set changed. cov_rel (step m x) g = cov_rel m g \<union> C x g" by simp_all
  have "cov_inv changed (foldl step (step m x) xs)
    \<and> (\<forall>g\<in>set changed. cov_rel (foldl step (step m x) xs) g = cov_rel (step m x) g \<union> (\<Union>x\<in>set xs. C x g))"
    by (rule Cons.IH) (use Cons.prems(1) x(1) in auto)
  with x(2) show ?case by (simp add: Un_assoc)
qed

lemma stage_foldE:
  assumes "foldE step m xs = Inr m'"
    and "\<And>m x t. cov_inv changed m \<Longrightarrow> x \<in> set xs \<Longrightarrow> step m x = Inr t \<Longrightarrow> cov_inv changed t
      \<and> (\<forall>g\<in>set changed. cov_rel t g = cov_rel m g \<union> C x g)"
    and "cov_inv changed m"
  shows "cov_inv changed m' \<and> (\<forall>g\<in>set changed. cov_rel m' g = cov_rel m g \<union> (\<Union>x\<in>set xs. C x g))"
  using assms
proof (induction xs arbitrary: m)
  case Nil
  then show ?case by simp
next
  case (Cons x xs)
  from Cons.prems(1) obtain t where t: "step m x = Inr t" and rest: "foldE step t xs = Inr m'"
    by (auto simp: res_simps)
  have x: "cov_inv changed t" "\<forall>g\<in>set changed. cov_rel t g = cov_rel m g \<union> C x g"
    using Cons.prems(2) [OF Cons.prems(3) _ t] by simp_all
  have "cov_inv changed m' \<and> (\<forall>g\<in>set changed. cov_rel m' g = cov_rel t g \<union> (\<Union>x\<in>set xs. C x g))"
    by (rule Cons.IH [OF rest _ x(1)]) (use Cons.prems(2) in auto)
  with x(2) show ?case by (simp add: Un_assoc)
qed

lemma finding_stage:
  assumes "cov_inv changed m" "credit_finding changed m finding = Inr t"
  shows "cov_inv changed t \<and> (\<forall>g\<in>set changed. cov_rel t g = cov_rel m g \<union> {r. flags finding g r})"
proof (cases "\<exists>f. dget finding ''file'' = VStr f \<and> f \<in> set changed")
  case True
  then obtain f where f: "dget finding ''file'' = VStr f" "f \<in> set changed" by blast
  with assms(2) obtain ids where ids: "py_iter (py_or (dget finding ''flagged_by'') (VList [])) = Inr ids"
    and t: "t = foldl (\<lambda>m r. credit f r m) m (strs_of ids)"
    by (auto simp: credit_finding_def res_simps)
  have "flags finding g r \<longleftrightarrow> r \<in> set (strs_of ids) \<and> g = f" for g r
    by (auto simp: flags_def f ids set_strs_of)
  with credit_ids [OF assms(1) f(2), of "strs_of ids"] show ?thesis by (simp add: t)
next
  case False
  then have "t = m" using assms(2) by (auto simp: credit_finding_def split: pyval.splits if_splits)
  with False assms(1) show ?thesis by (auto simp: flags_def)
qed

lemma leaf_stage:
  assumes "cov_inv changed m"
  shows "cov_inv changed (credit_leaf load changed m leaf)
    \<and> (\<forall>g\<in>set changed. cov_rel (credit_leaf load changed m leaf) g
        = cov_rel m g \<union> {r. dget leaf ''id'' = VStr r \<and> r \<noteq> [] \<and> leaf_admits load leaf g})"
proof (cases "\<exists>r. dget leaf ''id'' = VStr r \<and> r \<noteq> []")
  case True
  then obtain r where r: "dget leaf ''id'' = VStr r" "r \<noteq> []" by blast
  have "set (filter (leaf_admits load leaf) changed) \<subseteq> set changed" by auto
  from credit_files [OF assms this, of r] show ?thesis by (auto simp: credit_leaf_def r)
next
  case False
  then have "credit_leaf load changed m leaf = m"
    by (auto simp: credit_leaf_def split: pyval.splits)
  with False assms show ?thesis by auto
qed

lemma rescue_stage:
  assumes "cov_inv changed m"
  shows "cov_inv changed (credit_rescue changed m rescue)
    \<and> (\<forall>g\<in>set changed. cov_rel (credit_rescue changed m rescue) g
        = cov_rel m g \<union> {r. dget rescue ''file'' = VStr g \<and> dget rescue ''rescued_leaf'' = VStr r})"
  using assms
  by (auto simp: credit_rescue_def credit_inv cov_rel_credit split: pyval.splits)

lemma coverage_credits_spec:
  assumes "coverage_credits load env = Inr m"
  defines "changed \<equiv> remdups (strs_of (ensure_list (dget env ''changed_paths'')))"
  shows "cov_inv changed m \<and> (\<forall>g\<in>set changed. cov_rel m g = {r. reviewed_by load env g r})"
proof -
  let ?fs = "dicts_of (ensure_list (dget env ''findings''))"
  let ?ls = "dicts_of (ensure_list (dget env ''picked_leaves''))"
  let ?rs = "dicts_of (ensure_list (dget env ''coverage_rescues''))"
  from assms(1) obtain m1 where m1: "foldE (credit_finding changed) (map (\<lambda>f. (f, [])) changed) ?fs = Inr m1"
    and m: "m = foldl (credit_rescue changed) (foldl (credit_leaf load changed) m1 ?ls) ?rs"
    by (auto simp: coverage_credits_def Let_def changed_def res_simps)
  have empty: "reviewers_of (map (\<lambda>f. (f, [])) xs) f = []" for f and xs :: "string list"
    by (induction xs) (auto simp: reviewers_of_def)
  have inv0: "cov_inv changed (map (\<lambda>f. (f, [])) changed)" by (simp add: cov_inv_def empty comp_def)
  have rel0: "cov_rel (map (\<lambda>f. (f, [])) changed) g = {}" for g by (simp add: cov_rel_def empty)
  let ?C1 = "\<lambda>x g. {r. flags x g r}"
  let ?C2 = "\<lambda>x g. {r. dget x ''id'' = VStr r \<and> r \<noteq> [] \<and> leaf_admits load x g}"
  let ?C3 = "\<lambda>x g. {r. dget x ''file'' = VStr g \<and> dget x ''rescued_leaf'' = VStr r}"
  let ?m2 = "foldl (credit_leaf load changed) m1 ?ls"
  have s1: "cov_inv changed m1
      \<and> (\<forall>g\<in>set changed. cov_rel m1 g = cov_rel (map (\<lambda>f. (f, [])) changed) g \<union> (\<Union>x\<in>set ?fs. ?C1 x g))"
    by (rule stage_foldE [OF m1 _ inv0]) (erule finding_stage, assumption)
  have s2: "cov_inv changed ?m2 \<and> (\<forall>g\<in>set changed. cov_rel ?m2 g = cov_rel m1 g \<union> (\<Union>x\<in>set ?ls. ?C2 x g))"
    by (rule stage_foldl [OF _ conjunct1 [OF s1]]) (erule leaf_stage)
  have s3: "cov_inv changed m \<and> (\<forall>g\<in>set changed. cov_rel m g = cov_rel ?m2 g \<union> (\<Union>x\<in>set ?rs. ?C3 x g))"
    unfolding m by (rule stage_foldl [OF _ conjunct1 [OF s2]]) (erule rescue_stage)
  have "cov_rel m g = {r. reviewed_by load env g r}" if g: "g \<in> set changed" for g
  proof -
    have "cov_rel m g = (\<Union>x\<in>set ?fs. ?C1 x g) \<union> (\<Union>x\<in>set ?ls. ?C2 x g) \<union> (\<Union>x\<in>set ?rs. ?C3 x g)"
      using bspec [OF conjunct2 [OF s1] g] bspec [OF conjunct2 [OF s2] g] bspec [OF conjunct2 [OF s3] g]
      by (simp only: rel0 Un_empty_left)
    also have "\<dots> = {r. reviewed_by load env g r}"
      unfolding reviewed_by_def set_dicts_of [symmetric] by blast
    finally show ?thesis .
  qed
  with s3 show ?thesis by blast
qed

subsection \<open>Properties\<close>

text \<open>
  C4: the coverage matrix has exactly one row per changed file, in order, with the sorted
  set of the leaves that flagged a finding in it, admit it through their globs, or were
  added by a rescue; the gaps are the files with fewer than two such reviewers, and the rule
  is violated exactly when there is one.
\<close>

theorem coverage_matrix_spec:
  assumes "handle_verify_coverage load env = Inr out"
  defines "files \<equiv> sorted_list_of_set (set (strs_of (ensure_list (dget env ''changed_paths''))))"
    and "who \<equiv> \<lambda>f. sorted_list_of_set {r. reviewed_by load env f r}"
  shows "dget out ''coverage_matrix'' = VList (map (\<lambda>f. coverage_row (f, who f)) files)
    \<and> dget out ''coverage_gaps'' = VList (map VStr (filter (\<lambda>f. length (who f) < 2) files))
    \<and> dget out ''coverage_rule_violated'' = VBool (\<exists>f\<in>set files. length (who f) < 2)"
proof -
  let ?changed = "remdups (strs_of (ensure_list (dget env ''changed_paths'')))"
  from assms(1) obtain m where m: "coverage_credits load env = Inr m"
    and out: "out = (let matrix = sort_key fst (map (\<lambda>(f, rs). (f, sort rs)) m);
           gaps = map fst (filter (\<lambda>(f, rs). length rs < 2) matrix)
       in [(''coverage_matrix'', VList (map coverage_row matrix)),
               (''coverage_gaps'', VList (map VStr gaps)),
               (''coverage_rule_violated'', VBool (gaps \<noteq> []))])"
    by (auto simp: handle_verify_coverage_def res_simps Let_def)
  note spec = coverage_credits_spec [OF m]
  have keys: "dkeys m = ?changed" and dist: "distinct (reviewers_of m f)" for f
    using spec by (simp_all add: cov_inv_def)
  have row: "sort rs = who f" if "(f, rs) \<in> set m" for f rs
  proof -
    have "distinct (dkeys m)" by (simp only: keys distinct_remdups)
    then have rs: "rs = reviewers_of m f" using that by (simp add: reviewers_of_def)
    have "f \<in> set (dkeys m)" using that by force
    then have "set rs = {r. reviewed_by load env f r}"
      using spec rs unfolding keys cov_rel_def by blast
    then show ?thesis using dist [of f] unfolding rs who_def by (metis sort_distinct_set)
  qed
  then have rows: "map (\<lambda>(f, rs). (f, sort rs)) m = map (\<lambda>f. (f, who f)) (dkeys m)"
    by (auto simp: comp_def)
  have "sort_key fst (map (\<lambda>f. (f, who f)) xs) = map (\<lambda>f. (f, who f)) (sort xs)" for xs
    by (rule sort_key_map_pair)
  then have matrix: "sort_key fst (map (\<lambda>(f, rs). (f, sort rs)) m) = map (\<lambda>f. (f, who f)) files"
    unfolding rows keys files_def using sort_distinct_set [of ?changed] by simp
  show ?thesis unfolding out matrix Let_def
    by (auto simp: filter_map comp_def filter_empty_conv)
qed

definition cov_env :: dict where
  "cov_env =
    [(''changed_paths'', VList [VStr ''b.py'', VStr ''a.py'']),
     (''picked_leaves'', VList [VDict [(''id'', VStr ''sec''), (''path'', VStr ''sec.md'')]]),
     (''findings'', VList [VDict [(''file'', VStr ''a.py''), (''flagged_by'', VList [VStr ''dry''])]])]"

definition cov_load :: frontmatter_reader where
  "cov_load p = None"

lemma cov_env_result:
  "handle_verify_coverage cov_load cov_env = Inr
     [(''coverage_matrix'', VList [coverage_row (''a.py'', [''dry'', ''sec'']), coverage_row (''b.py'', [''sec''])]),
      (''coverage_gaps'', VList [VStr ''b.py'']),
      (''coverage_rule_violated'', VBool True)]"
  by code_simp

theorem coverage_matrix_spec_witness:
  "VList [coverage_row (''a.py'', [''dry'', ''sec'']), coverage_row (''b.py'', [''sec''])]
     = VList (map (\<lambda>f. coverage_row (f, sorted_list_of_set {r. reviewed_by cov_load cov_env f r}))
         (sorted_list_of_set (set (strs_of (ensure_list (dget cov_env ''changed_paths''))))))"
  using coverage_matrix_spec [OF cov_env_result] by simp

end
