(* ===== verification/Gates.thy ===== *)
theory Gates
  imports PyValue
begin

section \<open>Release gates and the verdict\<close>

text \<open>
  Handlers 5, 8, 9 and 12 of \<^verbatim>\<open>code_review/handlers.py\<close>: the eight gates with their predicates
  on the dimensions and the id of a leaf, the verdict, the two short exits that bypass the
  gates, and the record of a verifier impasse with the counters it resets. A predicate that
  raises is an \<open>Inl\<close>; the handler treats it as a leaf that does not contribute.
\<close>

subsection \<open>Gate predicates\<close>

definition gate_names :: "string list" where
  "gate_names = [''SOLID & Clean Code'', ''Error Handling & Resilience'', ''Code Quality & Type Safety'',
     ''Test Coverage'', ''Architecture & Design'', ''Security & Safety'', ''Documentation'',
     ''Domain-specific quality'']"

text \<open>The id, and every run of one to four of its segments.\<close>

definition tags_like_from_leaf :: "dict \<Rightarrow> string list" where
  "tags_like_from_leaf leaf = (case dget leaf ''id'' of
     VStr i \<Rightarrow>
       if i = [] then []
       else (let segments = split_on (CHR ''-'') i in
         sorted_list_of_set (set (i # concat (map (\<lambda>k.
             segments ! k # map (\<lambda>n. join ''-'' (take n (drop k segments)))
               (takeWhile (\<lambda>n. k + n \<le> length segments) [2, 3, 4]))
           [0..<length segments]))))
   | _ \<Rightarrow> [])"

text \<open>\<^verbatim>\<open>s in v\<close> for a string \<open>s\<close>.\<close>

definition str_in :: "string \<Rightarrow> pyval \<Rightarrow> bool res" where
  "str_in s v = (case v of VList xs \<Rightarrow> Inr (VStr s \<in> set xs) | VStr t \<Rightarrow> Inr (contains s t)
     | VDict d \<Rightarrow> Inr (s \<in> set (dkeys d)) | _ \<Rightarrow> Inl TypeError)"

text \<open>\<^verbatim>\<open>any(d in S for d in ds)\<close> for a set of strings: an unhashable element raises.\<close>

fun any_in_set :: "string list \<Rightarrow> pyval list \<Rightarrow> bool res" where
  "any_in_set S [] = Inr False"
| "any_in_set S (d # ds) =
     (if \<not> hashable d then Inl TypeError
      else if (\<exists>s\<in>set S. d = VStr s) then Inr True else any_in_set S ds)"

definition any_tag :: "string list \<Rightarrow> string list \<Rightarrow> bool" where
  "any_tag S tags = list_ex (\<lambda>t. t \<in> set S) tags"

text \<open>\<^verbatim>\<open>a or b\<close> and \<^verbatim>\<open>a and b\<close> of booleans that may raise.\<close>

definition or_else :: "bool res \<Rightarrow> bool res \<Rightarrow> bool res" where
  "or_else a b = bindE a (\<lambda>x. if x then Inr True else b)"

definition and_then :: "bool res \<Rightarrow> bool res \<Rightarrow> bool res" where
  "and_then a b = bindE a (\<lambda>x. if x then b else Inr False)"

definition starts_any :: "string list \<Rightarrow> pyval \<Rightarrow> bool res" where
  "starts_any ps v = (case v of VStr s \<Rightarrow> Inr (list_ex (\<lambda>p. prefix p s) ps) | _ \<Rightarrow> Inl AttributeError)"

definition gate_matches :: "nat \<Rightarrow> dict \<Rightarrow> string list \<Rightarrow> bool res" where
  "gate_matches number leaf tags_like =
     (let dims = py_or (dget leaf ''dimensions'') (VList []);
          leaf_id = dget_or leaf ''id'' (VStr [])
      in
      if number = 1 then or_else (str_in ''readability'' dims)
        (Inr (any_tag [''solid'', ''dry'', ''kiss'', ''yagni'', ''clean-code'', ''naming'', ''complexity''] tags_like))
      else if number = 2 then and_then (str_in ''correctness'' dims)
        (Inr (any_tag [''error-handling'', ''resilience'', ''fault-tolerance'', ''retry'', ''circuit-breaker'',
           ''concurrency'', ''async''] tags_like))
      else if number = 3 then or_else (str_in ''correctness'' dims)
        (Inr (any_tag [''type-safety'', ''idioms'', ''dead-code'', ''language-quality'', ''initialization'',
           ''startup'', ''shutdown''] tags_like))
      else if number = 4 then str_in ''tests'' dims
      else if number = 5 then or_else (bindE (py_iter dims) (any_in_set [''architecture'', ''performance'']))
        (Inr (any_tag [''api-design'', ''module-boundaries'', ''dependencies'', ''layering'', ''ddd'',
           ''microservices''] tags_like))
      else if number = 6 then or_else (str_in ''security'' dims)
        (Inr (any_tag [''hooks-safety'', ''supply-chain'', ''dependencies-security''] tags_like))
      else if number = 7 then str_in ''documentation'' dims
      else if number = 8 then
        or_else (Inr (any_tag [''cli'', ''api'', ''observability''] tags_like))
          (or_else (Inr (list_ex (\<lambda>t. prefix ''domain-'' t) tags_like))
             (starts_any [''domain-'', ''obs-'', ''cli-'', ''api-''] leaf_id))
      else Inr False)"

subsection \<open>Synthesis\<close>

text \<open>The leaves that flagged a finding of a blocking severity.\<close>

definition blocking_flags :: "dict \<Rightarrow> string list res" where
  "blocking_flags f =
     (let sev = dget f ''severity'' in
      if \<not> hashable sev then Inl TypeError
      else if sev = VStr ''critical'' \<or> sev = VStr ''important''
      then bindE (py_iter (py_or (dget f ''flagged_by'') (VList []))) (\<lambda>ids. Inr (strs_of ids))
      else Inr [])"

definition blocking_flagged_by :: "pyval list \<Rightarrow> string list res" where
  "blocking_flagged_by findings = bindE (mapE blocking_flags (dicts_of findings)) (\<lambda>idss. Inr (concat idss))"

definition contributes :: "nat \<Rightarrow> dict \<Rightarrow> bool" where
  "contributes number leaf = (gate_matches number leaf (tags_like_from_leaf leaf) = Inr True)"

definition leaf_name :: "dict \<Rightarrow> string option" where
  "leaf_name leaf = str_of (dget leaf ''id'')"

datatype gate_status = NotApplicable | Pass | Fail

fun status_text :: "gate_status \<Rightarrow> string" where
  "status_text NotApplicable = ''N/A''"
| "status_text Pass = ''PASS''"
| "status_text Fail = ''FAIL''"

record gate =
  g_number :: nat
  g_name :: string
  g_status :: gate_status
  g_leaves :: "string list"
  g_blockers :: nat

definition evaluate_gate :: "string list \<Rightarrow> dict list \<Rightarrow> nat \<times> string \<Rightarrow> gate" where
  "evaluate_gate blocking leaves = (\<lambda>(number, name).
     let contributing = filter (contributes number) leaves;
         names = List.map_filter leaf_name contributing;
         blockers = count_if (\<lambda>i. i \<in> set blocking) names
     in if contributing = [] then
          \<lparr>g_number = number, g_name = name, g_status = NotApplicable, g_leaves = [], g_blockers = 0\<rparr>
        else
          \<lparr>g_number = number, g_name = name, g_status = (if blockers = 0 then Pass else Fail),
           g_leaves = sort names, g_blockers = blockers\<rparr>)"

definition gate_val :: "gate \<Rightarrow> pyval" where
  "gate_val g = VDict [(''number'', VInt (int (g_number g))), (''name'', VStr (g_name g)),
     (''status'', VStr (status_text (g_status g))), (''contributing_leaves'', VList (map VStr (g_leaves g))),
     (''blocker_count'', VInt (int (g_blockers g)))]"

definition numbered_gates :: "(nat \<times> string) list" where
  "numbered_gates = zip [1..<Suc (length gate_names)] gate_names"

definition synthesize_gates :: "dict \<Rightarrow> gate list res" where
  "synthesize_gates env =
     bindE (blocking_flagged_by (ensure_list (dget env ''findings''))) (\<lambda>blocking.
     Inr (map (evaluate_gate blocking (dicts_of (ensure_list (dget env ''picked_leaves'')))) numbered_gates))"

definition handle_synthesize_release_readiness :: "dict \<Rightarrow> dict res" where
  "handle_synthesize_release_readiness env =
     bindE (synthesize_gates env) (\<lambda>gates.
       let any_fail = list_ex (\<lambda>g. g_status g = Fail) gates;
           coverage_rule_violated = truthy (dget env ''coverage_rule_violated'')
       in Inr [(''gates'', VList (map gate_val gates)),
               (''verdict'', VStr (if any_fail \<or> coverage_rule_violated then ''NO-GO'' else ''GO''))])"

subsection \<open>Short exits\<close>

definition idle_gate :: "nat \<times> string \<Rightarrow> gate" where
  "idle_gate = (\<lambda>(number, name).
     \<lparr>g_number = number, g_name = name, g_status = NotApplicable, g_leaves = [], g_blockers = 0\<rparr>)"

definition zero_counts :: pyval where
  "zero_counts = VDict [(''critical'', VInt 0), (''important'', VInt 0), (''minor'', VInt 0)]"

definition handle_short_circuit_exit :: "dict \<Rightarrow> dict res" where
  "handle_short_circuit_exit env = Inr
     [(''findings'', VList []), (''severity_counts'', zero_counts), (''coverage_matrix'', VList []),
      (''coverage_gaps'', VList []), (''gates'', VList (map (gate_val \<circ> idle_gate) numbered_gates)),
      (''verdict'', VStr ''GO''), (''short_circuited'', VBool True)]"

definition handle_stage_a_empty :: "dict \<Rightarrow> dict res" where
  "handle_stage_a_empty env =
     (let safe_paths = strs_of (ensure_list (dget env ''changed_paths'')) in
      Inr [(''findings'', VList []), (''severity_counts'', zero_counts),
           (''coverage_matrix'', VList (map (\<lambda>f. VDict [(''file'', VStr f), (''reviewers'', VList [])]) safe_paths)),
           (''coverage_gaps'', VList (map VStr safe_paths)),
           (''gates'', VList (map (gate_val \<circ> idle_gate) numbered_gates)),
           (''verdict'', VStr ''CONDITIONAL''), (''degraded_run'', VBool True)])"

subsection \<open>The verifier impasse\<close>

definition verifier_rejection_limit :: int where "verifier_rejection_limit = 3"

definition read_verifier_rejection_counts :: "dict \<Rightarrow> dict" where
  "read_verifier_rejection_counts env =
     filter (\<lambda>(k, v). case int_of v of Some n \<Rightarrow> 0 \<le> n | None \<Rightarrow> False)
       (ensure_dict (dget env ''verifier_rejection_counts''))"

definition count_of :: "dict \<Rightarrow> string \<Rightarrow> int" where
  "count_of counts state_id = (case int_of (dget counts state_id) of Some n \<Rightarrow> n | None \<Rightarrow> 0)"

definition bump_verifier_rejection_counts :: "dict \<Rightarrow> string option \<Rightarrow> dict" where
  "bump_verifier_rejection_counts counts state_id = (case state_id of
     Some s \<Rightarrow> if s = [] then counts else dset s (VInt (count_of counts s + 1)) counts
   | None \<Rightarrow> counts)"

definition is_verifier_stuck :: "dict \<Rightarrow> string option \<Rightarrow> bool" where
  "is_verifier_stuck counts state_id = (case state_id of
     Some s \<Rightarrow> s \<noteq> [] \<and> verifier_rejection_limit \<le> count_of counts s
   | None \<Rightarrow> False)"

definition at_limit :: "pyval \<Rightarrow> bool" where
  "at_limit v = (case int_of v of Some n \<Rightarrow> verifier_rejection_limit \<le> n | None \<Rightarrow> False)"

definition first_stuck :: "dict \<Rightarrow> string option" where
  "first_stuck counts = map_option fst (List.find (\<lambda>(k, v). at_limit v) counts)"

definition find_stuck :: "dict \<Rightarrow> dict \<Rightarrow> string option" where
  "find_stuck env counts = (case dget env ''stuck_state_id'' of
     VStr s \<Rightarrow> if s \<noteq> [] then Some s else first_stuck counts
   | _ \<Rightarrow> first_stuck counts)"

definition failed_units :: "dict \<Rightarrow> pyval list" where
  "failed_units env =
     (case dget env ''current_leaf_id'' of
        VStr l \<Rightarrow> if l \<noteq> [] then [VDict [(''leaf_id'', VStr l), (''reason'', VStr ''verifier_stuck'')]] else []
      | _ \<Rightarrow> [])
     @ (if int_of (dget env ''current_batch_index'') \<noteq> None
        then [VDict [(''batch_index'', dget env ''current_batch_index''), (''reason'', VStr ''verifier_stuck'')]]
        else [])"

definition handle_verifier_stuck :: "dict \<Rightarrow> dict res" where
  "handle_verifier_stuck env =
     (let counts = read_verifier_rejection_counts env;
          stuck = find_stuck env counts;
          stuck_text = (case stuck of None \<Rightarrow> [] | Some s \<Rightarrow> s)
      in Inr [(''verifier_stuck'', VDict [(''stuck_state_id'', VStr stuck_text),
                 (''rejection_count'', dget_or counts stuck_text (VInt 0)),
                 (''limit'', VInt verifier_rejection_limit)]),
              (''degraded_run'', VBool True),
              (''verifier_rejection_counts'', VDict (case stuck of None \<Rightarrow> counts | Some s \<Rightarrow> dset s (VInt 0) counts)),
              (''failed_units'', VList (failed_units env))])"

subsection \<open>Lemmas\<close>

text \<open>A leaf named \<open>i\<close> is to blame: a finding of blocking severity is flagged by it.\<close>

definition blamed :: "dict \<Rightarrow> string \<Rightarrow> bool" where
  "blamed env i \<longleftrightarrow> (\<exists>f ids. VDict f \<in> set (ensure_list (dget env ''findings''))
     \<and> (dget f ''severity'' = VStr ''critical'' \<or> dget f ''severity'' = VStr ''important'')
     \<and> py_iter (py_or (dget f ''flagged_by'') (VList [])) = Inr ids \<and> VStr i \<in> set ids)"

lemma mapE_concat_mem:
  "mapE f xs = Inr yss \<Longrightarrow> y \<in> set (concat yss) \<longleftrightarrow> (\<exists>x\<in>set xs. \<exists>ys. f x = Inr ys \<and> y \<in> set ys)"
  by (induction xs arbitrary: yss) (auto simp: res_simps)

lemma blocking_flags_mem:
  "(\<exists>is. blocking_flags f = Inr is \<and> i \<in> set is) \<longleftrightarrow>
     (dget f ''severity'' = VStr ''critical'' \<or> dget f ''severity'' = VStr ''important'')
     \<and> (\<exists>ids. py_iter (py_or (dget f ''flagged_by'') (VList [])) = Inr ids \<and> VStr i \<in> set ids)"
proof (cases "dget f ''severity'' = VStr ''critical'' \<or> dget f ''severity'' = VStr ''important''")
  case True
  then have "hashable (dget f ''severity'')" by (auto simp: hashable_def is_list_def is_dict_def)
  with True show ?thesis
    by (auto simp: blocking_flags_def Let_def res_simps set_strs_of)
next
  case False
  then show ?thesis by (auto simp: blocking_flags_def Let_def)
qed

lemma blocking_mem:
  assumes "blocking_flagged_by (ensure_list (dget env ''findings'')) = Inr blocking"
  shows "i \<in> set blocking \<longleftrightarrow> blamed env i"
proof -
  from assms obtain iss where iss: "mapE blocking_flags (dicts_of (ensure_list (dget env ''findings''))) = Inr iss"
    and b: "blocking = concat iss" by (auto simp: blocking_flagged_by_def res_simps)
  have "i \<in> set blocking \<longleftrightarrow>
      (\<exists>f\<in>set (dicts_of (ensure_list (dget env ''findings''))). \<exists>is. blocking_flags f = Inr is \<and> i \<in> set is)"
    unfolding b by (rule mapE_concat_mem [OF iss])
  then show ?thesis unfolding blocking_flags_mem blamed_def Bex_def set_dicts_of by blast
qed

lemma in_map_filter: "y \<in> set (List.map_filter f xs) \<longleftrightarrow> (\<exists>x\<in>set xs. f x = Some y)"
  by (force simp: List.map_filter_def)

lemma gate_fail_iff:
  "g_status (evaluate_gate blocking leaves (n, name)) = Fail \<longleftrightarrow>
     (\<exists>leaf\<in>set leaves. \<exists>i. contributes n leaf \<and> leaf_name leaf = Some i \<and> i \<in> set blocking)"
proof -
  let ?c = "filter (contributes n) leaves"
  have "count_if (\<lambda>i. i \<in> set blocking) (List.map_filter leaf_name ?c) \<noteq> 0
      \<longleftrightarrow> (\<exists>leaf\<in>set leaves. \<exists>i. contributes n leaf \<and> leaf_name leaf = Some i \<and> i \<in> set blocking)"
    unfolding count_if_zero Ball_def in_map_filter set_filter by blast
  moreover have "?c = [] \<Longrightarrow> count_if (\<lambda>i. i \<in> set blocking) (List.map_filter leaf_name ?c) = 0"
    by (simp add: List.map_filter_def)
  ultimately show ?thesis by (auto simp: evaluate_gate_def Let_def)
qed

lemma gate_na_iff:
  "g_status (evaluate_gate blocking leaves (n, name)) = NotApplicable \<longleftrightarrow> (\<forall>leaf\<in>set leaves. \<not> contributes n leaf)"
  by (auto simp: evaluate_gate_def Let_def filter_empty_conv)

lemma numbered_gates_eq: "numbered_gates = [(1, gate_names ! 0), (2, gate_names ! 1), (3, gate_names ! 2),
    (4, gate_names ! 3), (5, gate_names ! 4), (6, gate_names ! 5), (7, gate_names ! 6), (8, gate_names ! 7)]"
  by (simp add: numbered_gates_def gate_names_def upt_rec)

subsection \<open>Properties\<close>

text \<open>
  C3: when the synthesis of the release gates answers, the verdict is \<^verbatim>\<open>NO-GO\<close> exactly when coverage was
  violated upstream or a leaf that contributes to some gate flagged a critical or important finding, and
  \<^verbatim>\<open>GO\<close> otherwise; there are always the eight gates. This is the rule of \<^verbatim>\<open>docs/gate-predicates.md\<close>. It is not
  the decision tree of \<^verbatim>\<open>release-readiness.md\<close>, which says that any unresolved critical finding is a
  \<^verbatim>\<open>NO-GO\<close> and knows \<^verbatim>\<open>CONDITIONAL\<close>: a critical finding flagged only by leaves that contribute to no
  gate leaves the verdict at \<^verbatim>\<open>GO\<close> (lemma \<^verbatim>\<open>critical_outside_gates_goes\<close>), and this handler never answers
  \<^verbatim>\<open>CONDITIONAL\<close>. Nor is \<^verbatim>\<open>degraded_run\<close> read, although \<^verbatim>\<open>SKILL.md\<close> and the docstring of
  \<^verbatim>\<open>handle_verifier_stuck\<close> say that it lowers the verdict (theorem \<^verbatim>\<open>verdict_ignores_degraded_run\<close>).
\<close>

theorem verdict_spec:
  assumes "handle_synthesize_release_readiness env = Inr out"
  defines "stop \<equiv> truthy (dget env ''coverage_rule_violated'') \<or>
    (\<exists>n\<in>{1..8}. \<exists>leaf i. VDict leaf \<in> set (ensure_list (dget env ''picked_leaves''))
       \<and> contributes n leaf \<and> leaf_name leaf = Some i \<and> blamed env i)"
  shows "dget out ''verdict'' = VStr (if stop then ''NO-GO'' else ''GO'')
    \<and> length (ensure_list (dget out ''gates'')) = 8"
proof -
  let ?leaves = "dicts_of (ensure_list (dget env ''picked_leaves''))"
  from assms(1) obtain gates blocking where
      b: "blocking_flagged_by (ensure_list (dget env ''findings'')) = Inr blocking"
    and gates: "gates = map (evaluate_gate blocking ?leaves) numbered_gates"
    and out: "out = [(''gates'', VList (map gate_val gates)), (''verdict'',
        VStr (if list_ex (\<lambda>g. g_status g = Fail) gates \<or> truthy (dget env ''coverage_rule_violated'')
              then ''NO-GO'' else ''GO''))]"
    by (auto simp: handle_synthesize_release_readiness_def synthesize_gates_def res_simps Let_def)
  have nums: "fst ` set numbered_gates = {1..8}"
    unfolding numbered_gates_eq by auto
  have "list_ex (\<lambda>g. g_status g = Fail) gates \<longleftrightarrow>
      (\<exists>n\<in>fst ` set numbered_gates. \<exists>leaf\<in>set ?leaves. \<exists>i. contributes n leaf \<and> leaf_name leaf = Some i \<and> i \<in> set blocking)"
    unfolding gates list_ex_iff by (force simp: gate_fail_iff)
  then have "(list_ex (\<lambda>g. g_status g = Fail) gates \<or> truthy (dget env ''coverage_rule_violated'')) = stop"
    unfolding nums stop_def blocking_mem [OF b] Bex_def set_dicts_of by blast
  moreover have "length gates = 8" by (simp add: gates numbered_gates_eq)
  ultimately show ?thesis by (simp add: out ensure_list_def)
qed

definition blamed_env :: dict where
  "blamed_env =
    [(''picked_leaves'', VList [VDict [(''id'', VStr ''sec-web''), (''dimensions'', VList [VStr ''security''])]]),
     (''findings'', VList [VDict [(''severity'', VStr ''critical''), (''flagged_by'', VList [VStr ''sec-web''])]])]"

theorem verdict_spec_witness:
  "\<exists>out. handle_synthesize_release_readiness blamed_env = Inr out \<and> dget out ''verdict'' = VStr ''NO-GO''"
proof -
  obtain out where out: "handle_synthesize_release_readiness blamed_env = Inr out"
    by (simp add: handle_synthesize_release_readiness_def synthesize_gates_def blocking_flagged_by_def
        blocking_flags_def blamed_env_def ensure_list_def hashable_def is_list_def is_dict_def py_or_def Let_def)
  have "contributes 6 [(''id'', VStr ''sec-web''), (''dimensions'', VList [VStr ''security''])]"
    by code_simp
  moreover have "leaf_name [(''id'', VStr ''sec-web''), (''dimensions'', VList [VStr ''security''])] = Some ''sec-web''"
    by code_simp
  moreover have "blamed blamed_env ''sec-web''"
    by (auto simp: blamed_def blamed_env_def ensure_list_def py_or_def)
  moreover have "VDict [(''id'', VStr ''sec-web''), (''dimensions'', VList [VStr ''security''])]
      \<in> set (ensure_list (dget blamed_env ''picked_leaves''))"
    by (simp add: blamed_env_def ensure_list_def)
  moreover have "(6 :: nat) \<in> {1..8}" by simp
  ultimately have "\<exists>n\<in>{1..8 :: nat}. \<exists>leaf i. VDict leaf \<in> set (ensure_list (dget blamed_env ''picked_leaves''))
      \<and> contributes n leaf \<and> leaf_name leaf = Some i \<and> blamed blamed_env i" by blast
  with verdict_spec [OF out] have "dget out ''verdict'' = VStr ''NO-GO''" by simp
  with out show ?thesis by blast
qed

text \<open>
  A critical finding whose leaf contributes to no gate does not stop the release, whether the leaf
  was dispatched or nobody is named at all.
\<close>

definition ungated_env :: dict where
  "ungated_env =
    [(''picked_leaves'', VList [VDict [(''id'', VStr ''misc-notes''), (''dimensions'', VList [])]]),
     (''findings'', VList [VDict [(''severity'', VStr ''critical''), (''flagged_by'', VList [VStr ''misc-notes''])],
                           VDict [(''severity'', VStr ''critical''), (''flagged_by'', VList [])]])]"

lemma gate_range: "{1..8} = set [1, 2, 3, 4, 5, 6, 7, 8 :: nat]"
  by auto

lemma ungated_leaf_passes:
  assumes "\<forall>n\<in>{1..8}. \<not> contributes n leaf"
  shows "\<not> list_ex (\<lambda>g. g_status g = Fail) (map (evaluate_gate blocking [leaf]) numbered_gates)"
proof -
  have "fst ` set numbered_gates = {1..8}" unfolding numbered_gates_eq by auto
  then have "g_status (evaluate_gate blocking [leaf] x) \<noteq> Fail" if "x \<in> set numbered_gates" for x
    using that assms by (cases x) (force simp: gate_fail_iff)
  then show ?thesis by (auto simp: list_ex_iff)
qed

lemma critical_outside_gates_goes:
  "\<exists>out. handle_synthesize_release_readiness ungated_env = Inr out \<and> dget out ''verdict'' = VStr ''GO''
     \<and> blamed ungated_env ''misc-notes''"
proof -
  define leaf where "leaf = [(''id'', VStr ''misc-notes''), (''dimensions'', VList [])]"
  have "list_all (\<lambda>n. \<not> contributes n [(''id'', VStr ''misc-notes''), (''dimensions'', VList [])]) [1, 2, 3, 4, 5, 6, 7, 8]"
    by code_simp
  then have "\<forall>n\<in>{1..8}. \<not> contributes n leaf"
    unfolding leaf_def [symmetric] list_all_iff gate_range .
  note idle = ungated_leaf_passes [OF this]
  have leaves: "dicts_of (ensure_list (dget ungated_env ''picked_leaves'')) = [leaf]"
    and calm: "dget ungated_env ''coverage_rule_violated'' = VNone"
    by (simp_all add: ungated_env_def ensure_list_def leaf_def)
  obtain b where b: "blocking_flagged_by (ensure_list (dget ungated_env ''findings'')) = Inr b"
    by (simp add: blocking_flagged_by_def blocking_flags_def ungated_env_def ensure_list_def hashable_def is_list_def
        is_dict_def py_or_def Let_def)
  have "\<exists>out. handle_synthesize_release_readiness ungated_env = Inr out \<and> dget out ''verdict'' = VStr ''GO''"
    using idle [of b] by (simp add: handle_synthesize_release_readiness_def synthesize_gates_def leaves calm b Let_def)
  moreover have "blamed ungated_env ''misc-notes''"
    unfolding blamed_def
    by (rule exI [of _ "[(''severity'', VStr ''critical''), (''flagged_by'', VList [VStr ''misc-notes''])]"])
      (simp add: ungated_env_def ensure_list_def py_or_def)
  ultimately show ?thesis by blast
qed

text \<open>
  The tags of a leaf are its id and exactly the runs of one to four consecutive
  segments of it, sorted and without repetition.
\<close>

theorem tags_like_spec:
  assumes "dget leaf ''id'' = VStr i" "i \<noteq> []"
  shows "set (tags_like_from_leaf leaf) = insert i
      {join ''-'' (take n (drop k (split_on (CHR ''-'') i))) |k n.
        1 \<le> n \<and> n \<le> 4 \<and> k + n \<le> length (split_on (CHR ''-'') i)}
    \<and> sorted (tags_like_from_leaf leaf) \<and> distinct (tags_like_from_leaf leaf)"
proof -
  let ?s = "split_on (CHR ''-'') i"
  let ?runs = "\<lambda>k. ?s ! k # map (\<lambda>n. join ''-'' (take n (drop k ?s))) (takeWhile (\<lambda>n. k + n \<le> length ?s) [2, 3, 4])"
  have runs: "set (?runs k) = {join ''-'' (take n (drop k ?s)) |n. 1 \<le> n \<and> n \<le> 4 \<and> k + n \<le> length ?s}"
    if "k < length ?s" for k
  proof -
    have one: "join ''-'' (take 1 (drop k ?s)) = ?s ! k"
      using that by (simp add: take_Suc_conv_app_nth [of 0 "drop k ?s", simplified])
    have tw: "set (takeWhile (\<lambda>n. k + n \<le> length ?s) [2, 3, 4]) = {n. 2 \<le> n \<and> n \<le> 4 \<and> k + n \<le> length ?s}"
      by auto
    have "{n. 1 \<le> n \<and> n \<le> 4 \<and> k + n \<le> length ?s} = insert 1 {n. 2 \<le> n \<and> n \<le> 4 \<and> k + n \<le> length ?s}"
      using that by auto
    moreover have "{join ''-'' (take n (drop k ?s)) |n. 1 \<le> n \<and> n \<le> 4 \<and> k + n \<le> length ?s}
        = (\<lambda>n. join ''-'' (take n (drop k ?s))) ` {n. 1 \<le> n \<and> n \<le> 4 \<and> k + n \<le> length ?s}"
      by blast
    ultimately show ?thesis by (simp only: list.set(2) set_map tw image_insert one)
  qed
  have tags: "tags_like_from_leaf leaf = sorted_list_of_set (set (i # concat (map ?runs [0..<length ?s])))"
    unfolding tags_like_from_leaf_def assms(1) Let_def using assms(2) by simp
  have sorted: "set (tags_like_from_leaf leaf) = set (i # concat (map ?runs [0..<length ?s]))
      \<and> sorted (tags_like_from_leaf leaf) \<and> distinct (tags_like_from_leaf leaf)"
    unfolding tags by (rule sorted_list_of_set_strings [OF finite_set])
  have elems: "set (i # concat (map ?runs [0..<length ?s])) = insert i (\<Union>k\<in>{..<length ?s}. set (?runs k))"
    unfolding set_simps set_concat set_map set_upt atLeast0LessThan image_image ..
  have cover: "(\<Union>k\<in>{..<length ?s}. set (?runs k))
      = {join ''-'' (take n (drop k ?s)) |k n. 1 \<le> n \<and> n \<le> 4 \<and> k + n \<le> length ?s}"
  proof -
    have "(\<Union>k\<in>{..<length ?s}. set (?runs k))
        = (\<Union>k\<in>{..<length ?s}. {join ''-'' (take n (drop k ?s)) |n. 1 \<le> n \<and> n \<le> 4 \<and> k + n \<le> length ?s})"
      by (intro SUP_cong refl runs) simp
    also have "\<dots> = {join ''-'' (take n (drop k ?s)) |k n. 1 \<le> n \<and> n \<le> 4 \<and> k + n \<le> length ?s}"
      by fastforce
    finally show ?thesis .
  qed
  show ?thesis using sorted unfolding elems cover .
qed

theorem tags_like_spec_witness:
  "set (tags_like_from_leaf [(''id'', VStr ''a-b'')]) = insert ''a-b''
      {join ''-'' (take n (drop k (split_on (CHR ''-'') ''a-b''))) |k n.
        1 \<le> n \<and> n \<le> 4 \<and> k + n \<le> length (split_on (CHR ''-'') ''a-b'')}"
  using tags_like_spec [of "[(''id'', VStr ''a-b'')]" "''a-b''"] by simp

text \<open>
  The verdict does not look at \<^verbatim>\<open>degraded_run\<close>: whatever the flag, the synthesis answers
  the same, so a run degraded by a verifier impasse is released with \<^verbatim>\<open>GO\<close> when its gates
  and coverage pass.
\<close>

theorem verdict_ignores_degraded_run:
  "handle_synthesize_release_readiness (dset ''degraded_run'' v env) = handle_synthesize_release_readiness env
   \<and> (\<exists>stuck out. handle_verifier_stuck [(''stuck_state_id'', VStr ''llm_trim'')] = Inr stuck
        \<and> dget stuck ''degraded_run'' = VBool True
        \<and> handle_synthesize_release_readiness stuck = Inr out \<and> dget out ''verdict'' = VStr ''GO'')"
proof
  show "handle_synthesize_release_readiness (dset ''degraded_run'' v env) = handle_synthesize_release_readiness env"
    by (simp add: handle_synthesize_release_readiness_def synthesize_gates_def)
  show "\<exists>stuck out. handle_verifier_stuck [(''stuck_state_id'', VStr ''llm_trim'')] = Inr stuck
        \<and> dget stuck ''degraded_run'' = VBool True
        \<and> handle_synthesize_release_readiness stuck = Inr out \<and> dget out ''verdict'' = VStr ''GO''"
    by (simp add: handle_verifier_stuck_def Let_def handle_synthesize_release_readiness_def synthesize_gates_def
        blocking_flagged_by_def ensure_list_def numbered_gates_eq evaluate_gate_def)
qed

text \<open>
  The third rejection in a row makes a state stuck, not an earlier one, and recording
  the impasse resets its counter and no other, so that the state is not stuck any more.
\<close>

theorem verifier_counter_cycle:
  assumes "s \<noteq> []" "count_of counts s = 0"
  defines "bump \<equiv> \<lambda>c. bump_verifier_rejection_counts c (Some s)"
  shows "\<not> is_verifier_stuck (bump (bump counts)) (Some s) \<and> is_verifier_stuck (bump (bump (bump counts))) (Some s)
    \<and> (dget env ''stuck_state_id'' = VStr s \<longrightarrow>
        (\<exists>out reset. handle_verifier_stuck env = Inr out \<and> dget out ''verifier_rejection_counts'' = VDict reset
          \<and> \<not> is_verifier_stuck reset (Some s)
          \<and> (\<forall>t. t \<noteq> s \<longrightarrow> dget reset t = dget (read_verifier_rejection_counts env) t)))"
  using assms
  by (auto simp: bump_verifier_rejection_counts_def is_verifier_stuck_def count_of_def int_of_def
      verifier_rejection_limit_def handle_verifier_stuck_def Let_def find_stuck_def)

theorem verifier_counter_cycle_witness:
  "is_verifier_stuck (bump_verifier_rejection_counts (bump_verifier_rejection_counts
     (bump_verifier_rejection_counts [] (Some ''llm_trim'')) (Some ''llm_trim'')) (Some ''llm_trim'')) (Some ''llm_trim'')"
  using verifier_counter_cycle [of "''llm_trim''" "[]" "[]"] by (simp add: count_of_def int_of_def)

end
