(* ===== verification/UnionFind.thy ===== *)
theory UnionFind
  imports Main
begin

section \<open>Union-find with path halving\<close>

text \<open>
  The forest of \<^verbatim>\<open>_semantic_merge\<close> in \<^verbatim>\<open>code_review/handlers.py\<close>: a parent array, a find that
  halves paths as it walks and a union that links two roots. The first argument of
  \<open>find_loop\<close> bounds its iterations; the length of the array is enough, because a walk to
  a root never meets a node twice.
\<close>

subsection \<open>Model\<close>

fun find_loop :: "nat \<Rightarrow> nat list \<Rightarrow> nat \<Rightarrow> nat \<times> nat list" where
  "find_loop 0 parent x = (x, parent)"
| "find_loop (Suc k) parent x =
     (if parent ! x = x then (x, parent)
      else (let parent' = parent[x := parent ! (parent ! x)] in find_loop k parent' (parent' ! x)))"

definition uf_find :: "nat list \<Rightarrow> nat \<Rightarrow> nat \<times> nat list" where
  "uf_find parent x = find_loop (length parent) parent x"

text \<open>\<^verbatim>\<open>parent[find(i)] = find(j)\<close>: the right-hand side is evaluated first.\<close>

definition uf_union :: "nat list \<Rightarrow> nat \<times> nat \<Rightarrow> nat list" where
  "uf_union parent = (\<lambda>(i, j).
     let (rj, p1) = uf_find parent j; (ri, p2) = uf_find p1 i in p2[ri := rj])"

definition uf_init :: "nat \<Rightarrow> nat list" where
  "uf_init n = [0..<n]"

subsection \<open>Walks to a root\<close>

inductive leads :: "nat list \<Rightarrow> nat \<Rightarrow> nat \<Rightarrow> nat \<Rightarrow> bool" for p where
  stop: "p ! x = x \<Longrightarrow> leads p 0 x x"
| walk: "p ! x \<noteq> x \<Longrightarrow> leads p k (p ! x) r \<Longrightarrow> leads p (Suc k) x r"

inductive_cases leads_0E: "leads p 0 x r"
inductive_cases leads_SucE: "leads p (Suc k) x r"

definition forest :: "nat list \<Rightarrow> bool" where
  "forest p \<longleftrightarrow> (\<forall>x<length p. p ! x < length p \<and> (\<exists>k r. leads p k x r))"

lemma leads_det: "leads p k x r \<Longrightarrow> leads p k' x r' \<Longrightarrow> k' = k \<and> r' = r"
proof (induction arbitrary: k' r' rule: leads.induct)
  case (stop x)
  then show ?case by (auto elim: leads.cases)
next
  case (walk x k r)
  from walk.prems walk.hyps(1) obtain k'' where "k' = Suc k''" "leads p k'' (p ! x) r'"
    by (auto elim: leads.cases)
  with walk.IH show ?case by simp
qed

lemma leads_root: "leads p k x r \<Longrightarrow> p ! r = r"
  by (induction rule: leads.induct) auto

lemma leads_in_range: "leads p k x r \<Longrightarrow> forest p \<Longrightarrow> x < length p \<Longrightarrow> r < length p"
  by (induction rule: leads.induct) (auto simp: forest_def)

lemma leads_iterate: "leads p k x r \<Longrightarrow> i \<le> k \<Longrightarrow> leads p (k - i) (((!) p ^^ i) x) r"
proof (induction i)
  case 0
  then show ?case by simp
next
  case (Suc i)
  then have "leads p (Suc (k - Suc i)) (((!) p ^^ i) x) r" by (simp add: Suc_diff_Suc)
  then show ?case by (auto elim: leads_SucE)
qed

lemma iterate_in_range: "forest p \<Longrightarrow> x < length p \<Longrightarrow> ((!) p ^^ i) x < length p"
  by (induction i) (auto simp: forest_def)

lemma leads_bound:
  assumes "forest p" "x < length p" "leads p k x r"
  shows "k < length p"
proof -
  have "inj_on (\<lambda>i. ((!) p ^^ i) x) {..k}"
  proof (rule inj_onI)
    fix i j
    assume "i \<in> {..k}" "j \<in> {..k}" and eq: "((!) p ^^ i) x = ((!) p ^^ j) x"
    then have "leads p (k - i) (((!) p ^^ i) x) r" "leads p (k - j) (((!) p ^^ i) x) r"
      using leads_iterate [OF assms(3), of i] leads_iterate [OF assms(3), of j] by simp_all
    then have "k - i = k - j" using leads_det by blast
    with \<open>i \<in> {..k}\<close> \<open>j \<in> {..k}\<close> show "i = j" by simp
  qed
  moreover have "(\<lambda>i. ((!) p ^^ i) x) ` {..k} \<subseteq> {..<length p}"
    using iterate_in_range [OF assms(1,2)] by blast
  ultimately have "card {..k} \<le> card {..<length p}" by (rule card_inj_on_le) simp
  then show ?thesis by simp
qed

lemma no_two_cycle: "leads p k x r \<Longrightarrow> p ! (p ! x) = x \<Longrightarrow> p ! x = x"
  by (induction rule: leads.induct) auto

subsection \<open>Find\<close>

lemma halve_leads:
  assumes "leads p k y r" "x < length p" "p ! x \<noteq> x" "\<exists>j s. leads p j x s"
  shows "\<exists>k'\<le>k. leads (p[x := p ! (p ! x)]) k' y r"
  using assms(1)
proof (induction rule: leads.induct)
  case (stop y)
  with assms(3) have "y \<noteq> x" by auto
  with stop have "leads (p[x := p ! (p ! x)]) 0 y y" by (intro leads.stop) simp
  then show ?case by blast
next
  case (walk y k r)
  let ?p = "p[x := p ! (p ! x)]"
  from walk.IH obtain k' where k': "k' \<le> k" "leads ?p k' (p ! y) r" by blast
  show ?case
  proof (cases "y = x")
    case False
    with walk.hyps(1) k'(2) have "leads ?p (Suc k') y r" by (intro leads.walk) simp_all
    with k'(1) show ?thesis by (meson Suc_le_mono)
  next
    case True
    have acyclic: "p ! (p ! x) \<noteq> x" using no_two_cycle assms(3,4) by blast
    have at: "?p ! x = p ! (p ! x)" using assms(2) by simp
    show ?thesis
    proof (cases "p ! (p ! x) = p ! x")
      case True
      with k'(2) \<open>y = x\<close> have "leads ?p (Suc k') x r"
        using acyclic at by (intro leads.walk) simp_all
      with k'(1) \<open>y = x\<close> show ?thesis by (meson Suc_le_mono)
    next
      case False
      then have "?p ! (p ! x) \<noteq> p ! x" using assms(3) by simp
      with k'(2) \<open>y = x\<close> obtain k'' where "k' = Suc k''" "leads ?p k'' (?p ! (p ! x)) r"
        by (auto elim: leads.cases)
      moreover have "?p ! (p ! x) = ?p ! x" using assms(3) at by simp
      ultimately have "leads ?p (Suc k'') x r"
        using acyclic at by (intro leads.walk) simp_all
      with k'(1) \<open>k' = Suc k''\<close> \<open>y = x\<close> show ?thesis by (intro exI [of _ "Suc k''"]) simp
    qed
  qed
qed

text \<open>Two arrays with the same roots.\<close>

definition same_roots :: "nat list \<Rightarrow> nat list \<Rightarrow> bool" where
  "same_roots p q \<longleftrightarrow> length q = length p \<and> (\<forall>y r k. leads p k y r \<longrightarrow> (\<exists>k'. leads q k' y r))"

lemma same_roots_refl: "same_roots p p"
  by (auto simp: same_roots_def)

lemma same_roots_trans: "same_roots p q \<Longrightarrow> same_roots q s \<Longrightarrow> same_roots p s"
  unfolding same_roots_def by metis

lemma halve_forest:
  assumes "forest p" "x < length p" "p ! x \<noteq> x"
  shows "forest (p[x := p ! (p ! x)])" and "same_roots p (p[x := p ! (p ! x)])"
proof -
  have lx: "\<exists>j s. leads p j x s" using assms by (simp add: forest_def)
  show same: "same_roots p (p[x := p ! (p ! x)])"
    using halve_leads [OF _ assms(2,3) lx] by (force simp: same_roots_def)
  show "forest (p[x := p ! (p ! x)])"
    unfolding forest_def
  proof (intro allI impI)
    fix y
    assume "y < length (p[x := p ! (p ! x)])"
    then have y: "y < length p" by simp
    have bound: "z < length p \<Longrightarrow> p ! z < length p" for z using assms(1) by (simp add: forest_def)
    have "p ! y < length p" "p ! (p ! x) < length p" using bound y assms(2) by simp_all
    then have "p[x := p ! (p ! x)] ! y < length p" using y by (cases "y = x") simp_all
    moreover have "\<exists>k r. leads (p[x := p ! (p ! x)]) k y r"
      using assms(1) y same unfolding forest_def same_roots_def by meson
    ultimately show "p[x := p ! (p ! x)] ! y < length (p[x := p ! (p ! x)])
        \<and> (\<exists>k r. leads (p[x := p ! (p ! x)]) k y r)" by simp
  qed
qed

lemma find_loop_correct:
  assumes "forest p" "x < length p" "leads p k x r" "k \<le> fuel"
  shows "fst (find_loop fuel p x) = r \<and> forest (snd (find_loop fuel p x))
    \<and> same_roots p (snd (find_loop fuel p x))"
  using assms
proof (induction fuel arbitrary: p x k)
  case 0
  then have "r = x" by (auto elim: leads_0E)
  with 0 show ?case by (simp add: same_roots_refl)
next
  case (Suc fuel)
  show ?case
  proof (cases "p ! x = x")
    case True
    with Suc.prems(3) have "r = x" by (auto elim: leads.cases)
    with True Suc.prems(1) show ?thesis by (simp add: same_roots_refl)
  next
    case False
    let ?p = "p[x := p ! (p ! x)]"
    note h = halve_forest [OF Suc.prems(1,2) False]
    have lx: "\<exists>j s. leads p j x s" using Suc.prems(3) by blast
    obtain k' where k': "k' \<le> k" "leads ?p k' x r"
      using halve_leads [OF Suc.prems(3) Suc.prems(2) False lx] by blast
    have at: "?p ! x = p ! (p ! x)" using Suc.prems(2) by simp
    have ne: "?p ! x \<noteq> x" unfolding at using no_two_cycle [OF Suc.prems(3)] False by blast
    with k'(2) obtain k'' where k'': "k' = Suc k''" "leads ?p k'' (?p ! x) r" by (auto elim: leads.cases)
    have "x < length ?p" using Suc.prems(2) by simp
    then have "?p ! x < length ?p" using h(1) unfolding forest_def by blast
    moreover have "k'' \<le> fuel" using k'(1) k''(1) Suc.prems(4) by simp
    ultimately have IH: "fst (find_loop fuel ?p (?p ! x)) = r \<and> forest (snd (find_loop fuel ?p (?p ! x)))
        \<and> same_roots ?p (snd (find_loop fuel ?p (?p ! x)))"
      using Suc.IH [OF h(1) _ k''(2)] by blast
    have "find_loop (Suc fuel) p x = find_loop fuel ?p (?p ! x)" using False by (simp add: Let_def)
    with IH same_roots_trans [OF h(2)] show ?thesis by simp
  qed
qed

definition uf_root :: "nat list \<Rightarrow> nat \<Rightarrow> nat" where
  "uf_root p x = fst (uf_find p x)"

lemma uf_find_facts:
  assumes "forest p" "x < length p"
  shows "\<exists>k. leads p k x (uf_root p x)" and "forest (snd (uf_find p x))" and "same_roots p (snd (uf_find p x))"
proof -
  from assms obtain k r where l: "leads p k x r" by (auto simp: forest_def)
  then have "k \<le> length p" using leads_bound [OF assms] by fastforce
  from find_loop_correct [OF assms l this]
  show "\<exists>k. leads p k x (uf_root p x)" "forest (snd (uf_find p x))" "same_roots p (snd (uf_find p x))"
    using l by (auto simp: uf_root_def uf_find_def)
qed

lemma uf_root_eq: "forest p \<Longrightarrow> x < length p \<Longrightarrow> leads p k x r \<Longrightarrow> uf_root p x = r"
  using uf_find_facts(1) leads_det by blast

lemma same_roots_root:
  assumes "forest p" "forest q" "same_roots p q" "x < length p"
  shows "uf_root q x = uf_root p x"
proof -
  from uf_find_facts(1) [OF assms(1,4)] assms(3) obtain k where "leads q k x (uf_root p x)"
    unfolding same_roots_def by blast
  with assms(2,3,4) show ?thesis by (auto simp: same_roots_def intro: uf_root_eq)
qed

subsection \<open>Union\<close>

lemma uf_find_length [simp]: "length (snd (uf_find p x)) = length p"
proof -
  have "length (snd (find_loop k p x)) = length p" for k
    by (induction k p x rule: find_loop.induct) (auto simp: Let_def)
  then show ?thesis by (simp add: uf_find_def)
qed

lemma link_leads:
  assumes "leads p k y r" "ri < length p" "p ! ri = ri" "p ! rj = rj" "ri \<noteq> rj"
  shows "\<exists>k'. leads (p[ri := rj]) k' y (if r = ri then rj else r)"
  using assms(1)
proof (induction rule: leads.induct)
  case (stop y)
  show ?case
  proof (cases "y = ri")
    case True
    have "leads (p[ri := rj]) 0 rj rj" using assms(4,5) by (intro leads.stop) simp
    then have "leads (p[ri := rj]) (Suc 0) ri rj" using assms(2,5) by (intro leads.walk) simp_all
    with True show ?thesis by auto
  next
    case False
    with stop have "leads (p[ri := rj]) 0 y y" by (intro leads.stop) simp
    with False show ?thesis by auto
  qed
next
  case (walk y k r)
  then obtain k' where "leads (p[ri := rj]) k' (p ! y) (if r = ri then rj else r)" by blast
  moreover have "y \<noteq> ri" using walk.hyps(1) assms(3) by auto
  ultimately have "leads (p[ri := rj]) (Suc k') y (if r = ri then rj else r)"
    using walk.hyps(1) by (intro leads.walk) simp_all
  then show ?case by blast
qed

lemma uf_union_facts:
  assumes "forest p" "i < length p" "j < length p"
  shows "forest (uf_union p (i, j)) \<and> length (uf_union p (i, j)) = length p
    \<and> (\<forall>y<length p. uf_root (uf_union p (i, j)) y = (if uf_root p y = uf_root p i then uf_root p j else uf_root p y))"
proof -
  define p1 where "p1 = snd (uf_find p j)"
  define p2 where "p2 = snd (uf_find p1 i)"
  note f1 = uf_find_facts(2,3) [OF assms(1,3), folded p1_def]
  have len1: "length p1 = length p" by (simp add: p1_def)
  have i1: "i < length p1" using assms(2) len1 by simp
  note f2 = uf_find_facts(2,3) [OF f1(1) i1, folded p2_def]
  have len2: "length p2 = length p" by (simp add: p2_def len1)
  have same: "same_roots p p2" by (rule same_roots_trans [OF f1(2) f2(2)])
  have root2: "uf_root p2 y = uf_root p y" if "y < length p" for y
    using same_roots_root [OF assms(1) f2(1) same that] .
  define ri where "ri = uf_root p i"
  define rj where "rj = uf_root p j"
  have eq: "uf_union p (i, j) = p2[ri := rj]"
    using same_roots_root [OF assms(1) f1(1,2) assms(2)]
    by (simp add: uf_union_def case_prod_unfold Let_def p1_def p2_def ri_def rj_def uf_root_def)
  have leads2: "\<exists>k. leads p2 k y (uf_root p y)" if "y < length p" for y
    using uf_find_facts(1) [OF f2(1), of y] root2 [OF that] that len2 by simp
  have ri: "p2 ! ri = ri" "ri < length p" and rj: "p2 ! rj = rj" "rj < length p"
    using leads2 [OF assms(2)] leads2 [OF assms(3)] leads_root leads_in_range [OF _ f2(1)] assms(2,3) len2
    unfolding ri_def rj_def by metis+
  have new: "\<exists>k. leads (p2[ri := rj]) k y (if uf_root p y = ri then rj else uf_root p y)" if "y < length p" for y
  proof (cases "ri = rj")
    case True
    then have "p2[ri := rj] = p2" using ri by (metis list_update_id)
    with leads2 [OF that] True show ?thesis by simp
  next
    case False
    from leads2 [OF that] obtain k where "leads p2 k y (uf_root p y)" by blast
    from link_leads [OF this _ ri(1) rj(1) False] ri(2) len2 show ?thesis by simp
  qed
  have "forest (p2[ri := rj])"
    unfolding forest_def
  proof (intro allI impI)
    fix y
    assume "y < length (p2[ri := rj])"
    then have y: "y < length p" using len2 by simp
    then have "p2 ! y < length p" using f2(1) len2 by (simp add: forest_def)
    then have "p2[ri := rj] ! y < length p" using y rj(2) len2 by (cases "y = ri") simp_all
    with new [OF y] show "p2[ri := rj] ! y < length (p2[ri := rj]) \<and> (\<exists>k r. leads (p2[ri := rj]) k y r)"
      using len2 by auto
  qed
  note f = this
  have "uf_root (p2[ri := rj]) y = (if uf_root p y = ri then rj else uf_root p y)" if y: "y < length p" for y
  proof -
    from new [OF y] obtain k where k: "leads (p2[ri := rj]) k y (if uf_root p y = ri then rj else uf_root p y)" ..
    show ?thesis by (rule uf_root_eq [OF f _ k]) (simp add: y len2)
  qed
  with f show ?thesis unfolding eq ri_def [symmetric] rj_def [symmetric] by (simp add: len2)
qed

lemma uf_init_facts: "forest (uf_init n) \<and> (\<forall>x<n. uf_root (uf_init n) x = x)"
proof -
  have l: "leads (uf_init n) 0 x x" if "x < n" for x
    using that by (intro leads.stop) (simp add: uf_init_def)
  then have f: "forest (uf_init n)" by (force simp: forest_def uf_init_def)
  have "uf_root (uf_init n) x = x" if "x < n" for x
    by (rule uf_root_eq [OF f _ l [OF that]]) (simp add: uf_init_def that)
  with f show ?thesis by simp
qed

subsection \<open>The classes are the connected components\<close>

definition linked :: "(nat \<times> nat) list \<Rightarrow> (nat \<times> nat) set" where
  "linked es = (set es \<union> (set es)\<inverse>)\<^sup>*"

lemma linked_sym: "(x, y) \<in> linked es \<Longrightarrow> (y, x) \<in> linked es"
proof -
  have "sym (set es \<union> (set es)\<inverse>)" by (auto intro: symI)
  then show "(x, y) \<in> linked es \<Longrightarrow> (y, x) \<in> linked es"
    unfolding linked_def by (meson sym_rtrancl symD)
qed

lemma linked_snoc:
  "(x, y) \<in> linked (es @ [(i, j)]) \<longleftrightarrow> (x, y) \<in> linked es
     \<or> ((x, i) \<in> linked es \<and> (j, y) \<in> linked es) \<or> ((x, j) \<in> linked es \<and> (i, y) \<in> linked es)"
proof
  have mono: "linked es \<subseteq> linked (es @ [(i, j)])"
    unfolding linked_def by (rule rtrancl_mono) auto
  have ij: "(i, j) \<in> linked (es @ [(i, j)])" "(j, i) \<in> linked (es @ [(i, j)])"
    unfolding linked_def by auto
  have trans: "(a, b) \<in> linked fs \<Longrightarrow> (b, c) \<in> linked fs \<Longrightarrow> (a, c) \<in> linked fs" for a b c fs
    unfolding linked_def by (rule rtrancl_trans)
  show "(x, y) \<in> linked (es @ [(i, j)])" if "(x, y) \<in> linked es
     \<or> ((x, i) \<in> linked es \<and> (j, y) \<in> linked es) \<or> ((x, j) \<in> linked es \<and> (i, y) \<in> linked es)"
    using that mono ij trans by (meson subsetD)
  assume "(x, y) \<in> linked (es @ [(i, j)])"
  then show "(x, y) \<in> linked es
     \<or> ((x, i) \<in> linked es \<and> (j, y) \<in> linked es) \<or> ((x, j) \<in> linked es \<and> (i, y) \<in> linked es)"
    unfolding linked_def [of "es @ [(i, j)]"]
  proof (induction rule: rtrancl_induct)
    case base
    then show ?case by (simp add: linked_def)
  next
    case (step y z)
    have refl: "(a, a) \<in> linked es" for a by (simp add: linked_def)
    from step.hyps(2) consider "(y, z) \<in> linked es" | "y = i" "z = j" | "y = j" "z = i"
      by (auto simp: linked_def)
    then show ?case
    proof cases
      case 1
      with step.IH trans show ?thesis by meson
    next
      case 2
      with step.IH trans linked_sym refl show ?thesis by meson
    next
      case 3
      with step.IH trans linked_sym refl show ?thesis by meson
    qed
  qed
qed

lemma unions_components:
  assumes "\<And>i j. (i, j) \<in> set es \<Longrightarrow> i < n \<and> j < n"
  defines "p \<equiv> foldl uf_union (uf_init n) es"
  shows "forest p \<and> length p = n \<and> (\<forall>x<n. \<forall>y<n. uf_root p x = uf_root p y \<longleftrightarrow> (x, y) \<in> linked es)"
  using assms(1) unfolding p_def
proof (induction es rule: rev_induct)
  case Nil
  then show ?case using uf_init_facts [of n] by (auto simp: linked_def uf_init_def)
next
  case (snoc e es)
  obtain i j where e: "e = (i, j)" by (cases e)
  let ?p = "foldl uf_union (uf_init n) es"
  from snoc have IH: "forest ?p" "length ?p = n"
      "\<And>x y. x < n \<Longrightarrow> y < n \<Longrightarrow> uf_root ?p x = uf_root ?p y \<longleftrightarrow> (x, y) \<in> linked es" by auto
  have ij: "i < n" "j < n" using snoc.prems [of i j] e by auto
  note f = uf_union_facts [OF IH(1), of i j, unfolded IH(2), OF ij]
  have "uf_root (uf_union ?p e) x = uf_root (uf_union ?p e) y \<longleftrightarrow> (x, y) \<in> linked (es @ [e])"
    if xy: "x < n" "y < n" for x y
  proof -
    have r: "uf_root (uf_union ?p e) z = (if uf_root ?p z = uf_root ?p i then uf_root ?p j else uf_root ?p z)"
      if "z < n" for z using f that e by simp
    have "(x, y) \<in> linked (es @ [e]) \<longleftrightarrow> uf_root ?p x = uf_root ?p y
        \<or> (uf_root ?p x = uf_root ?p i \<and> uf_root ?p j = uf_root ?p y)
        \<or> (uf_root ?p x = uf_root ?p j \<and> uf_root ?p i = uf_root ?p y)"
      unfolding e linked_snoc using IH(3) xy ij by simp
    then show ?thesis unfolding r [OF xy(1)] r [OF xy(2)] by auto
  qed
  with f e show ?case by simp
qed

end
