(* ===== verification/Collect.thy ===== *)
theory Collect
  imports Merger UnionFind
begin

section \<open>Collecting the findings\<close>

text \<open>
  Handler 3 of \<^verbatim>\<open>code_review/handlers.py\<close>: the findings of the completed specialists are merged
  by a key of file, line and normalised title, near-duplicates in one file are merged through
  a union-find, and every finding is tagged and counted. The embedding command is an
  argument, \<open>vec_of\<close>; where it is \<open>None\<close> the code falls back to token overlap. A finding's
  \<^verbatim>\<open>file\<close> is text or empty wherever two findings of one severity are compared; another value
  there is taken to be incomparable.
\<close>

subsection \<open>Keys and winners\<close>

fun collapse_spaces :: "string \<Rightarrow> string" where
  "collapse_spaces [] = []"
| "collapse_spaces (c # cs) =
     (if is_space c then (case cs of
          [] \<Rightarrow> '' ''
        | d # ds \<Rightarrow> if is_space d then collapse_spaces cs else CHR '' '' # collapse_spaces cs)
      else c # collapse_spaces cs)"

definition normalise_title :: "pyval \<Rightarrow> string" where
  "normalise_title title = (case title of VStr t \<Rightarrow> collapse_spaces (lower (strip t)) | _ \<Rightarrow> [])"

definition dedup_key :: "dict \<Rightarrow> string" where
  "dedup_key finding =
     (let file = py_or (dget finding ''file'') (VStr []);
          line_val = dget finding ''line'';
          line = (if line_val = VNone then [] else py_str line_val)
      in py_str file @ ''::'' @ line @ ''::'' @ normalise_title (dget finding ''title''))"

text \<open>\<^verbatim>\<open>_SEVERITY_RANK.get(f.get("severity", ""), 0)\<close>.\<close>

definition finding_rank :: "dict \<Rightarrow> nat res" where
  "finding_rank f =
     (let s = dget_or f ''severity'' (VStr []) in
      if \<not> hashable s then Inl TypeError
      else Inr (case s of VStr t \<Rightarrow> severity_value t | _ \<Rightarrow> 0))"

text \<open>\<^verbatim>\<open>a <= b\<close> of two scalars.\<close>

definition py_le :: "pyval \<Rightarrow> pyval \<Rightarrow> bool res" where
  "py_le a b = (case (a, b) of
     (VStr s, VStr t) \<Rightarrow> Inr (s \<le> t)
   | _ \<Rightarrow> (case (num_of a, num_of b) of (Some x, Some y) \<Rightarrow> Inr (float_le x y) | _ \<Rightarrow> Inl TypeError))"

definition origin_of :: "dict \<Rightarrow> pyval" where
  "origin_of a = py_or (dget a ''__winner'') (py_or (dget a ''__origin'') (VStr []))"

text \<open>Whether the first of two findings wins.\<close>

definition first_wins :: "dict \<Rightarrow> dict \<Rightarrow> bool res" where
  "first_wins a b =
     bindE (finding_rank a) (\<lambda>a_sev. bindE (finding_rank b) (\<lambda>b_sev.
       if a_sev \<noteq> b_sev then Inr (b_sev < a_sev) else py_le (origin_of a) (origin_of b)))"

definition drop_marks :: "dict \<Rightarrow> dict" where
  "drop_marks d = filter (\<lambda>(k, v). k \<noteq> ''__origin'' \<and> k \<noteq> ''__winner'') d"

text \<open>\<^verbatim>\<open>set(v or [])\<close>.\<close>

definition py_set_of :: "pyval \<Rightarrow> pyval list res" where
  "py_set_of v = bindE (py_iter (py_or v (VList []))) (\<lambda>xs. foldE (\<lambda>s x. set_add x s) [] xs)"

definition add_finding :: "pyval \<Rightarrow> (string \<times> dict) list \<Rightarrow> dict \<Rightarrow> (string \<times> dict) list res" where
  "add_finding specialist_id merged finding =
     (let key = dedup_key finding;
          existing = map_of merged key;
          stamped = dset ''__origin'' specialist_id finding
      in
      bindE (case existing of Some e \<Rightarrow> if e \<noteq> [] then py_set_of (dget e ''flagged_by'') else Inr [] | None \<Rightarrow> Inr [])
        (\<lambda>source_ids0.
      bindE (set_add specialist_id source_ids0) (\<lambda>source_ids.
      bindE (case existing of
               Some e \<Rightarrow> if e \<noteq> [] then first_wins e stamped else Inr False
             | None \<Rightarrow> Inr False) (\<lambda>keep.
      let winner = (if keep then the existing else stamped);
          winner_origin = (if keep then py_or (dget (the existing) ''__winner'') (dget (the existing) ''__origin'')
                           else specialist_id)
      in bindE (py_sorted source_ids) (\<lambda>flagged_by.
         Inr (dset key
                (dset ''__winner'' (py_or winner_origin specialist_id)
                   (dset ''flagged_by'' (VList flagged_by) (drop_marks winner))) merged))))))"

definition add_specialist :: "(string \<times> dict) list \<Rightarrow> dict \<Rightarrow> (string \<times> dict) list res" where
  "add_specialist merged specialist =
     (if dget specialist ''status'' \<noteq> VStr ''completed'' then Inr merged
      else foldE (add_finding (dget_or specialist ''id'' (VStr []))) merged
             (dicts_of (ensure_list (dget specialist ''findings''))))"

definition finish_record :: "dict \<Rightarrow> dict" where
  "finish_record record =
     (let winner = dget record ''__winner'';
          rest = filter (\<lambda>(k, v). k \<noteq> ''__winner'') record
      in if winner \<noteq> VNone then dset ''winner'' winner rest else rest)"

definition merge_findings :: "pyval list \<Rightarrow> dict list res" where
  "merge_findings specialist_outputs =
     bindE (foldE add_specialist [] (dicts_of specialist_outputs)) (\<lambda>merged. Inr (map (finish_record \<circ> snd) merged))"

subsection \<open>Order of the findings\<close>

type_synonym finding_key = "nat \<times> string \<times> int \<times> string"

definition finding_file :: "dict \<Rightarrow> pyval" where
  "finding_file f = py_or (dget f ''file'') (VStr [])"

definition sort_key_of :: "nat \<Rightarrow> dict \<Rightarrow> finding_key" where
  "sort_key_of rank f =
     (3 - rank, ensure_str (finding_file f) [],
      (case int_of (dget f ''line'') of Some n \<Rightarrow> n | None \<Rightarrow> 0), normalise_title (dget f ''title''))"

definition comparable :: "(nat \<times> dict) list \<Rightarrow> bool" where
  "comparable rfs \<longleftrightarrow> (\<forall>i<length rfs. \<forall>j<i. fst (rfs ! i) = fst (rfs ! j) \<longrightarrow>
     is_str (finding_file (snd (rfs ! i))) \<and> is_str (finding_file (snd (rfs ! j))))"

definition sort_findings :: "dict list \<Rightarrow> dict list res" where
  "sort_findings fs =
     bindE (mapE (\<lambda>f. bindE (finding_rank f) (\<lambda>r. Inr (r, f))) fs) (\<lambda>rfs.
       if comparable rfs then Inr (map snd (sort_key (\<lambda>(r, f). sort_key_of r f) rfs)) else Inl TypeError)"

subsection \<open>Near-duplicates\<close>

type_synonym embedder = "string list \<Rightarrow> rat list list option"

definition finding_text :: "dict \<Rightarrow> string" where
  "finding_text f = strip (py_str (dget_or f ''title'' (VStr [])) @ ''. '' @ py_str (dget_or f ''description'' (VStr [])))"

definition cosine :: "rat list \<Rightarrow> rat list \<Rightarrow> rat" where
  "cosine a b = sum_list (map2 (*) a b)"

definition is_word :: "char \<Rightarrow> bool" where
  "is_word c \<longleftrightarrow> is_digit c \<or> (CHR ''a'' \<le> c \<and> c \<le> CHR ''z'') \<or> c = CHR ''_''"

fun words_of :: "string \<Rightarrow> string \<Rightarrow> string list" where
  "words_of w [] = (if w = [] then [] else [w])"
| "words_of w (c # cs) =
     (if is_word c then words_of (w @ [c]) cs else (if w = [] then words_of [] cs else w # words_of [] cs))"

definition token_jaccard :: "string \<Rightarrow> string \<Rightarrow> rat" where
  "token_jaccard a b =
     (let ta = remdups (words_of [] (lower a)); tb = remdups (words_of [] (lower b));
          union = length (remdups (ta @ tb))
      in if union \<noteq> 0 then of_nat (length (filter (\<lambda>w. w \<in> set tb) ta)) / of_nat union else 0)"

definition near_duplicates :: "rat list list option \<Rightarrow> dict list \<Rightarrow> nat \<Rightarrow> nat \<Rightarrow> bool" where
  "near_duplicates vecs findings i j =
     (let fi = findings ! i; fj = findings ! j; li = dget fi ''line''; lj = dget fj ''line'';
          same_loc = (li \<noteq> VNone \<and> py_eq li lj);
          sim_ok = (case vecs of
              Some vs \<Rightarrow> 8 / 10 \<le> cosine (vs ! i) (vs ! j)
            | None \<Rightarrow> 1 / 2 \<le> token_jaccard (finding_text fi) (finding_text fj))
      in py_eq (finding_file fi) (finding_file fj) \<and> (same_loc \<or> sim_ok))"

definition index_pairs :: "nat \<Rightarrow> (nat \<times> nat) list" where
  "index_pairs n = concat (map (\<lambda>i. map (\<lambda>j. (i, j)) [Suc i..<n]) [0..<n])"

definition duplicate_pairs :: "rat list list option \<Rightarrow> dict list \<Rightarrow> (nat \<times> nat) list" where
  "duplicate_pairs vecs findings =
     filter (\<lambda>(i, j). near_duplicates vecs findings i j) (index_pairs (length findings))"

text \<open>\<^verbatim>\<open>groups.setdefault(find(i), []).append(i)\<close> for every index in turn.\<close>

definition group_step :: "nat list \<times> (nat \<times> nat list) list \<Rightarrow> nat \<Rightarrow> nat list \<times> (nat \<times> nat list) list" where
  "group_step = (\<lambda>(parent, groups) i.
     let (r, parent') = uf_find parent i;
         members = (case map_of groups r of Some ms \<Rightarrow> ms | None \<Rightarrow> [])
     in (parent', dset r (members @ [i]) groups))"

definition duplicate_groups :: "rat list list option \<Rightarrow> dict list \<Rightarrow> nat list list" where
  "duplicate_groups vecs findings =
     (let n = length findings; parent = foldl uf_union (uf_init n) (duplicate_pairs vecs findings)
      in map snd (snd (foldl group_step (parent, []) [0..<n])))"

text \<open>\<^verbatim>\<open>float(f.get("confidence") or 0.0)\<close>.\<close>

definition confidence_of :: "dict \<Rightarrow> pyfloat res" where
  "confidence_of f = py_float (py_or (dget f ''confidence'') (VFloat (Fin 0)))"

definition rep_key :: "dict \<Rightarrow> (nat \<times> pyfloat) res" where
  "rep_key f = bindE (finding_rank f) (\<lambda>r. bindE (confidence_of f) (\<lambda>c. Inr (r, c)))"

definition key_gt :: "nat \<times> pyfloat \<Rightarrow> nat \<times> pyfloat \<Rightarrow> bool" where
  "key_gt a b \<longleftrightarrow> fst b < fst a \<or> (fst a = fst b \<and> float_lt (snd b) (snd a))"

fun best_member :: "nat \<times> (nat \<times> pyfloat) \<Rightarrow> (nat \<times> (nat \<times> pyfloat)) list \<Rightarrow> nat" where
  "best_member best [] = fst best"
| "best_member best (m # ms) = best_member (if key_gt (snd m) (snd best) then m else best) ms"

definition max_float :: "pyfloat \<Rightarrow> pyfloat \<Rightarrow> pyfloat" where
  "max_float a b = (if float_lt a b then b else a)"

definition merge_group :: "dict list \<Rightarrow> nat list \<Rightarrow> dict res" where
  "merge_group findings members =
     (case members of
        [m] \<Rightarrow> Inr (findings ! m)
      | _ \<Rightarrow>
          bindE (mapE (\<lambda>m. bindE (rep_key (findings ! m)) (\<lambda>k. Inr (m, k))) members) (\<lambda>keys.
          bindE (mapE (\<lambda>m. py_iter (py_or (dget (findings ! m) ''flagged_by'') (VList []))) members) (\<lambda>flaggeds.
          let out = findings ! best_member (hd keys) (tl keys);
              flagged = sorted_list_of_set (set (strs_of (concat flaggeds)));
              conf = foldl max_float (Fin 0) (map (snd \<circ> snd) keys);
              with_flags = dset ''flagged_by'' (VList (map VStr flagged)) out;
              with_conf = (if conf \<noteq> Fin 0 then dset ''confidence'' (VFloat conf) with_flags else with_flags)
          in Inr (dset ''merged_count'' (VInt (int (length members))) with_conf))))"

definition semantic_merge :: "embedder \<Rightarrow> dict list \<Rightarrow> dict list res" where
  "semantic_merge vec_of findings =
     (if length findings < 2 then Inr findings
      else mapE (merge_group findings) (duplicate_groups (vec_of (map finding_text findings)) findings))"

subsection \<open>Selectivity and counts\<close>

definition primary_threshold :: "dict \<Rightarrow> pyfloat res" where
  "primary_threshold args_bag = (case py_float (dget_or args_bag ''primary-threshold'' (VFloat (Fin (3 / 4)))) of
     Inl e \<Rightarrow> if e = TypeError \<or> e = ValueError then Inr (Fin (3 / 4)) else Inl e
   | Inr t \<Rightarrow> Inr t)"

definition is_primary :: "pyfloat \<Rightarrow> nat \<Rightarrow> dict \<Rightarrow> bool res" where
  "is_primary prim_t corro f =
     (let conf = dget f ''confidence''; sev = dget f ''severity'' in
      if conf \<noteq> VNone then
        (case py_float conf of
           Inr c \<Rightarrow> Inr (float_le prim_t c)
         | Inl e \<Rightarrow> if e = TypeError \<or> e = ValueError then Inr (sev = VStr ''critical'') else Inl e)
      else Inr (sev = VStr ''critical'' \<or> (sev = VStr ''important'' \<and> 2 \<le> corro)))"

definition tag_finding :: "pyfloat \<Rightarrow> dict \<Rightarrow> dict res" where
  "tag_finding prim_t f =
     bindE (py_len (py_or (dget f ''flagged_by'') (VList []))) (\<lambda>corro.
       let f' = dset ''corroboration'' (VInt (int corro)) f in
       bindE (is_primary prim_t corro f') (\<lambda>p. Inr (dset ''primary'' (VBool p) f')))"

definition count_severity :: "string \<Rightarrow> dict list \<Rightarrow> pyval" where
  "count_severity s fs = VInt (int (count_if (\<lambda>f. dget f ''severity'' = VStr s) fs))"

definition handle_collect_findings :: "embedder \<Rightarrow> dict \<Rightarrow> dict res" where
  "handle_collect_findings vec_of env =
     bindE (merge_findings (ensure_list (dget env ''specialist_outputs''))) (\<lambda>fs0.
     bindE (sort_findings fs0) (\<lambda>fs1.
     bindE (semantic_merge vec_of fs1) (\<lambda>fs2.
     bindE (sort_findings fs2) (\<lambda>fs3.
     bindE (primary_threshold (ensure_dict (dget env ''args''))) (\<lambda>prim_t.
     bindE (mapE (tag_finding prim_t) fs3) (\<lambda>findings_out.
     if list_ex (\<lambda>f. \<not> hashable (dget f ''severity'')) findings_out then Inl TypeError
     else Inr [(''findings'', VList (map VDict findings_out)),
               (''severity_counts'', VDict (map (\<lambda>s. (s, count_severity s findings_out))
                   [''critical'', ''important'', ''minor''])),
               (''primary_count'', VInt (int (count_if (\<lambda>f. truthy (dget f ''primary'')) findings_out)))]))))))"

subsection \<open>The merge by key\<close>

text \<open>The findings of the completed specialists, each with the id of its specialist.\<close>

definition reports :: "pyval list \<Rightarrow> (pyval \<times> dict) list" where
  "reports specialist_outputs =
     concat (map (\<lambda>sp. if dget sp ''status'' \<noteq> VStr ''completed'' then []
         else map (\<lambda>f. (dget_or sp ''id'' (VStr []), f)) (dicts_of (ensure_list (dget sp ''findings''))))
       (dicts_of specialist_outputs))"

definition add_report :: "(string \<times> dict) list \<Rightarrow> pyval \<times> dict \<Rightarrow> (string \<times> dict) list res" where
  "add_report merged = (\<lambda>(sid, f). add_finding sid merged f)"

lemma add_report_pair: "add_report m (sid, f) = add_finding sid m f"
  by (simp add: add_report_def)

lemma foldE_map: "foldE f s (map g xs) = foldE (\<lambda>s x. f s (g x)) s xs"
  by (induction xs arbitrary: s) simp_all

lemma add_specialists_reports:
  "foldE add_specialist m (dicts_of outs) = foldE add_report m (reports outs)"
  unfolding reports_def
proof (induction "dicts_of outs" arbitrary: outs m)
  case Nil
  then show ?case by simp
next
  case (Cons sp sps)
  have sps: "sps = dicts_of (map VDict sps)" by simp
  have step: "add_specialist m sp = foldE add_report m (if dget sp ''status'' \<noteq> VStr ''completed'' then []
      else map (\<lambda>f. (dget_or sp ''id'' (VStr []), f)) (dicts_of (ensure_list (dget sp ''findings''))))" for m
    by (simp add: add_specialist_def foldE_map add_report_def)
  have IH: "foldE add_specialist t sps = foldE add_report t
      (concat (map (\<lambda>sp. if dget sp ''status'' \<noteq> VStr ''completed'' then []
         else map (\<lambda>f. (dget_or sp ''id'' (VStr []), f)) (dicts_of (ensure_list (dget sp ''findings'')))) sps))" for t
    using Cons.hyps(1) [OF sps, of t] by simp
  show ?case
    unfolding Cons.hyps(2) [symmetric] foldE.simps step list.map concat.simps foldE_append
    by (rule bindE_cong [OF refl]) (rule IH)
qed

text \<open>What the merged record of a key says of the findings with that key.\<close>

definition key_ids :: "(pyval \<times> dict) list \<Rightarrow> string \<Rightarrow> string set" where
  "key_ids rs k = {i. \<exists>f. (VStr i, f) \<in> set rs \<and> dedup_key f = k}"

definition key_ranks :: "(pyval \<times> dict) list \<Rightarrow> string \<Rightarrow> nat set" where
  "key_ranks rs k = {r. \<exists>sid f. (sid, f) \<in> set rs \<and> dedup_key f = k \<and> finding_rank f = Inr r}"

definition record_ok :: "(pyval \<times> dict) list \<Rightarrow> string \<Rightarrow> dict \<Rightarrow> bool" where
  "record_ok rs k rec \<longleftrightarrow>
     dedup_key rec = k
     \<and> dget rec ''flagged_by'' = VList (map VStr (sorted_list_of_set (key_ids rs k)))
     \<and> (\<forall>r. finding_rank rec = Inr r \<longrightarrow> (\<forall>r'\<in>key_ranks rs k. r' \<le> r) \<and> r \<in> key_ranks rs k)"

lemma dget_drop_marks: "k \<noteq> ''__origin'' \<Longrightarrow> k \<noteq> ''__winner'' \<Longrightarrow> dget (drop_marks d) k = dget d k"
  by (simp add: drop_marks_def dget_def dget_or_def map_of_filter_key [where P = "\<lambda>k. k \<noteq> ''__origin'' \<and> k \<noteq> ''__winner''"])

lemma dget_or_drop_marks: "k \<noteq> ''__origin'' \<Longrightarrow> k \<noteq> ''__winner'' \<Longrightarrow> dget_or (drop_marks d) k v = dget_or d k v"
  by (simp add: drop_marks_def dget_or_def map_of_filter_key [where P = "\<lambda>k. k \<noteq> ''__origin'' \<and> k \<noteq> ''__winner''"])

lemma dedup_key_dset: "k \<noteq> ''file'' \<Longrightarrow> k \<noteq> ''line'' \<Longrightarrow> k \<noteq> ''title'' \<Longrightarrow> dedup_key (dset k v d) = dedup_key d"
  by (auto simp: dedup_key_def)

lemma dedup_key_drop_marks: "dedup_key (drop_marks d) = dedup_key d"
  by (simp add: dedup_key_def dget_drop_marks)

lemma finding_rank_dset: "k \<noteq> ''severity'' \<Longrightarrow> finding_rank (dset k v d) = finding_rank d"
  by (simp add: finding_rank_def)

lemma finding_rank_drop_marks: "finding_rank (drop_marks d) = finding_rank d"
  by (simp add: finding_rank_def dget_or_drop_marks)

lemma set_add_fold_strs:
  "foldE (\<lambda>s x. set_add x s) (map VStr ys) (map VStr xs)
     = Inr (map VStr (foldl (\<lambda>s x. if x \<in> set s then s else s @ [x]) ys xs))"
  by (induction xs arbitrary: ys) (simp_all add: set_add_strs)

lemma py_set_of_strs:
  "distinct xs \<Longrightarrow> py_set_of (VList (map VStr xs)) = Inr (map VStr xs)"
proof -
  have "distinct (ys @ xs) \<Longrightarrow> foldl (\<lambda>s x. if x \<in> set s then s else s @ [x]) ys xs = ys @ xs" for ys xs :: "string list"
    by (induction xs arbitrary: ys) auto
  from this [of "[]" xs] have "distinct xs \<Longrightarrow> foldl (\<lambda>s x. if x \<in> set s then s else s @ [x]) [] xs = xs" by simp
  moreover have "py_or (VList (map VStr xs)) (VList []) = VList (map VStr xs)"
    by (cases xs) (simp_all add: py_or_def)
  ultimately show "distinct xs \<Longrightarrow> py_set_of (VList (map VStr xs)) = Inr (map VStr xs)"
    using set_add_fold_strs [of "[]" xs] by (simp only: py_set_of_def py_iter_VList bindE.simps list.map)
qed

lemma first_wins_rank:
  assumes "first_wins a b = Inr w" "finding_rank (if w then a else b) = Inr r"
  shows "\<exists>ra rb. finding_rank a = Inr ra \<and> finding_rank b = Inr rb \<and> ra \<le> r \<and> rb \<le> r"
  using assms by (auto simp: first_wins_def res_simps split: if_splits)

text \<open>One report: the record of its key after the report, given the record before it.\<close>

lemma add_finding_record:
  assumes "add_finding (VStr i) merged f = Inr merged'" "map_of merged (dedup_key f) = Some e"
    and "distinct ids" "dget e ''flagged_by'' = VList (map VStr ids)"
  shows "\<exists>w ids'. first_wins e (dset ''__origin'' (VStr i) f) = Inr w \<and> set ids' = insert i (set ids) \<and> distinct ids'
    \<and> (\<exists>rec. merged' = dset (dedup_key f) rec merged
         \<and> dget rec ''flagged_by'' = VList (map VStr (sort ids'))
         \<and> dedup_key rec = dedup_key (if w then e else f)
         \<and> finding_rank rec = finding_rank (if w then e else f))"
proof -
  have ne: "e \<noteq> []" using assms(4) by auto
  let ?ids = "if i \<in> set ids then ids else ids @ [i]"
  from assms(1) obtain w where w: "first_wins e (dset ''__origin'' (VStr i) f) = Inr w"
    and m: "merged' = dset (dedup_key f)
      (dset ''__winner'' (py_or (if w then py_or (dget e ''__winner'') (dget e ''__origin'') else VStr i) (VStr i))
        (dset ''flagged_by'' (VList (map VStr (sort ?ids)))
          (drop_marks (if w then e else dset ''__origin'' (VStr i) f)))) merged"
    using ne assms(3)
    by (auto simp: add_finding_def Let_def res_simps assms(2,4) py_set_of_strs set_add_strs py_sorted_strs)
  have "set ?ids = insert i (set ids)" "distinct ?ids" using assms(3) by auto
  moreover define rec where "rec = dset ''__winner''
      (py_or (if w then py_or (dget e ''__winner'') (dget e ''__origin'') else VStr i) (VStr i))
      (dset ''flagged_by'' (VList (map VStr (sort ?ids)))
        (drop_marks (if w then e else dset ''__origin'' (VStr i) f)))"
  moreover have "dget rec ''flagged_by'' = VList (map VStr (sort ?ids))" by (simp add: rec_def)
  moreover have "dedup_key rec = dedup_key (if w then e else f)" "finding_rank rec = finding_rank (if w then e else f)"
    by (simp_all add: rec_def dedup_key_drop_marks finding_rank_drop_marks dedup_key_dset finding_rank_dset)
  ultimately show ?thesis using w m [folded rec_def] by blast
qed

lemma add_finding_fresh:
  assumes "add_finding (VStr i) merged f = Inr merged'" "map_of merged (dedup_key f) = None"
  shows "\<exists>rec. merged' = dset (dedup_key f) rec merged \<and> dget rec ''flagged_by'' = VList [VStr i]
    \<and> dedup_key rec = dedup_key f \<and> finding_rank rec = finding_rank f"
proof -
  have "set_add (VStr i) [] = Inr [VStr i]" using set_add_strs [of i "[]"] by simp
  moreover have "py_sorted [VStr i] = Inr [VStr i]" using py_sorted_strs [of "[i]"] by simp
  ultimately have m: "merged' = dset (dedup_key f)
      (dset ''__winner'' (py_or (VStr i) (VStr i)) (dset ''flagged_by'' (VList [VStr i])
        (drop_marks (dset ''__origin'' (VStr i) f)))) merged"
    using assms by (simp add: add_finding_def Let_def)
  show ?thesis unfolding m
    by (intro exI conjI, rule refl)
      (simp_all add: dedup_key_dset finding_rank_dset dedup_key_drop_marks finding_rank_drop_marks)
qed

lemma key_ids_snoc: "key_ids (rs @ [(VStr i, f)]) k = (if k = dedup_key f then insert i (key_ids rs k) else key_ids rs k)"
  by (auto simp: key_ids_def)

lemma key_ranks_snoc: "key_ranks (rs @ [(sid, f)]) k =
    key_ranks rs k \<union> (if k = dedup_key f then {r. finding_rank f = Inr r} else {})"
  by (auto simp: key_ranks_def)

lemma finite_key_ids: "finite (key_ids rs k)"
proof -
  have "key_ids rs k \<subseteq> (\<lambda>x. ensure_str (fst x) []) ` set rs \<union> {[]}"
    by (force simp: key_ids_def ensure_str_def image_iff split: if_splits)
  then show ?thesis by (rule finite_subset) simp
qed

lemma merge_reports_ok:
  assumes "foldE add_report [] rs = Inr merged" "list_all (is_str \<circ> fst) rs"
  shows "distinct (dkeys merged) \<and> set (dkeys merged) = (dedup_key \<circ> snd) ` set rs
    \<and> (\<forall>k rec. map_of merged k = Some rec \<longrightarrow> record_ok rs k rec)"
  using assms
proof (induction rs arbitrary: merged rule: rev_induct)
  case Nil
  then show ?case by simp
next
  case (snoc x rs)
  obtain sid f where x: "x = (sid, f)" by (cases x)
  from snoc.prems(2) x obtain i where sid: "sid = VStr i" by (auto simp: is_str_def split: pyval.splits)
  from snoc.prems(1) obtain m where m: "foldE add_report [] rs = Inr m" and add: "add_finding (VStr i) m f = Inr merged"
    by (auto simp: foldE_append res_simps add_report_pair x sid)
  from snoc.IH [OF m] snoc.prems(2) have IH: "distinct (dkeys m)" "set (dkeys m) = (dedup_key \<circ> snd) ` set rs"
      "\<And>k rec. map_of m k = Some rec \<Longrightarrow> record_ok rs k rec" by auto
  let ?k = "dedup_key f"
  have other: "record_ok (rs @ [x]) k rec \<longleftrightarrow> record_ok rs k rec" if "k \<noteq> ?k" for k rec
    using that by (simp add: record_ok_def x sid key_ids_snoc key_ranks_snoc)
  obtain rec where rec: "merged = dset ?k rec m" and ok: "record_ok (rs @ [x]) ?k rec"
  proof (cases "map_of m ?k")
    case None
    from add_finding_fresh [OF add None] obtain rec where rec: "merged = dset ?k rec m"
      "dget rec ''flagged_by'' = VList [VStr i]" "dedup_key rec = ?k" "finding_rank rec = finding_rank f" by blast
    have "?k \<notin> (dedup_key \<circ> snd) ` set rs"
      using None IH(2) map_of_None_iff by (metis set_map)
    then have "key_ids rs ?k = {}" "key_ranks rs ?k = {}"
      by (force simp: key_ids_def key_ranks_def image_iff)+
    with rec have "record_ok (rs @ [x]) ?k rec"
      by (simp add: record_ok_def x sid key_ids_snoc key_ranks_snoc)
    with rec(1) show thesis by (rule that)
  next
    case (Some e)
    let ?ids = "sorted_list_of_set (key_ids rs ?k)"
    from IH(3) [OF Some] have e: "dedup_key e = ?k" "dget e ''flagged_by'' = VList (map VStr ?ids)"
        "\<And>r. finding_rank e = Inr r \<Longrightarrow> (\<forall>r'\<in>key_ranks rs ?k. r' \<le> r) \<and> r \<in> key_ranks rs ?k"
      by (auto simp: record_ok_def)
    from add_finding_record [OF add Some distinct_sorted_list_of_set e(2)] obtain w ids' rec where
        w: "first_wins e (dset ''__origin'' (VStr i) f) = Inr w"
      and ids': "set ids' = insert i (set ?ids)" "distinct ids'"
      and rec: "merged = dset ?k rec m" "dget rec ''flagged_by'' = VList (map VStr (sort ids'))"
        "dedup_key rec = dedup_key (if w then e else f)" "finding_rank rec = finding_rank (if w then e else f)"
      by blast
    have "sort ids' = sorted_list_of_set (insert i (key_ids rs ?k))"
      using ids' finite_key_ids [of rs ?k] by (simp add: sort_distinct_set)
    moreover have "(\<forall>r'\<in>key_ranks (rs @ [x]) ?k. r' \<le> r) \<and> r \<in> key_ranks (rs @ [x]) ?k"
      if r: "finding_rank rec = Inr r" for r
    proof -
      have "finding_rank (if w then e else dset ''__origin'' (VStr i) f) = Inr r"
        using r rec(4) by (cases w) (simp_all add: finding_rank_dset)
      from first_wins_rank [OF w this] obtain re rf where
          ranks: "finding_rank e = Inr re" "finding_rank f = Inr rf" "re \<le> r" "rf \<le> r"
        by (auto simp: finding_rank_dset)
      have "r = (if w then re else rf)" using r rec(4) ranks by auto
      with ranks e(3) [OF ranks(1)] show ?thesis by (auto simp: x key_ranks_snoc)
    qed
    ultimately have "record_ok (rs @ [x]) ?k rec"
      using rec(2,3) e(1) by (simp add: record_ok_def x sid key_ids_snoc)
    with rec(1) show thesis by (rule that)
  qed
  have "set (dkeys merged) = insert ?k (set (dkeys m))" unfolding rec dkeys_dset by auto
  moreover have "distinct (dkeys merged)" unfolding rec using IH(1) by (simp add: distinct_update del: distinct_map)
  moreover have "record_ok (rs @ [x]) k rec'" if "map_of merged k = Some rec'" for k rec'
    using that ok IH(3) other unfolding rec by (cases "k = ?k") auto
  ultimately show ?case using IH(2) by (simp add: x)
qed

subsection \<open>The groups of near-duplicates\<close>

definition members_of :: "(nat \<times> nat list) list \<Rightarrow> nat \<Rightarrow> nat list" where
  "members_of groups r = (case map_of groups r of Some ms \<Rightarrow> ms | None \<Rightarrow> [])"

lemma mset_group_add:
  "mset (concat (map snd (dset r (members_of d r @ [i]) d))) = mset (concat (map snd d)) + {#i#}"
proof (induction d)
  case Nil
  then show ?case by (simp add: members_of_def)
next
  case (Cons kv d)
  then show ?case by (cases kv) (auto simp: members_of_def)
qed

definition groups_inv :: "nat list \<Rightarrow> nat \<Rightarrow> nat list \<times> (nat \<times> nat list) list \<Rightarrow> bool" where
  "groups_inv p0 m st \<longleftrightarrow> forest (fst st) \<and> same_roots p0 (fst st)
     \<and> (\<forall>r. members_of (snd st) r = filter (\<lambda>i. uf_root p0 i = r) [0..<m])
     \<and> distinct (dkeys (snd st)) \<and> (\<forall>(r, ms)\<in>set (snd st). ms \<noteq> [])
     \<and> mset (concat (map snd (snd st))) = mset [0..<m]"

lemma group_step_inv:
  assumes "forest p0" "m < length p0" "groups_inv p0 m st"
  shows "groups_inv p0 (Suc m) (group_step st m)"
proof -
  obtain p gs where st: "st = (p, gs)" by (cases st)
  from assms(3) have inv: "forest p" "same_roots p0 p" "\<And>r. members_of gs r = filter (\<lambda>i. uf_root p0 i = r) [0..<m]"
      "distinct (dkeys gs)" "\<forall>(r, ms)\<in>set gs. ms \<noteq> []" "mset (concat (map snd gs)) = mset [0..<m]"
    by (auto simp: groups_inv_def st)
  have len: "m < length p" using assms(2) inv(2) by (simp add: same_roots_def)
  note f = uf_find_facts(2,3) [OF inv(1) len]
  let ?r = "uf_root p0 m"
  have r: "fst (uf_find p m) = ?r"
    using same_roots_root [OF assms(1) inv(1,2) assms(2)] by (simp add: uf_root_def)
  let ?gs = "dset ?r (members_of gs ?r @ [m]) gs"
  have step: "group_step st m = (snd (uf_find p m), ?gs)"
    by (simp add: group_step_def st case_prod_unfold r Let_def members_of_def)
  have "members_of ?gs q = filter (\<lambda>i. uf_root p0 i = q) [0..<Suc m]" for q
    using inv(3) by (auto simp: members_of_def [of ?gs]) (simp_all add: members_of_def)
  moreover have "distinct (dkeys ?gs)" using inv(4) by (simp add: distinct_update del: distinct_map)
  moreover have "\<forall>(r, ms)\<in>set ?gs. ms \<noteq> []"
    using inv(5) set_dset_subset [of ?r "members_of gs ?r @ [m]" gs] by auto
  moreover have "mset (concat (map snd ?gs)) = mset [0..<Suc m]"
    unfolding mset_group_add inv(6) by simp
  moreover have "same_roots p0 (snd (uf_find p m))" by (rule same_roots_trans [OF inv(2) f(2)])
  ultimately show ?thesis unfolding groups_inv_def step fst_conv snd_conv using f(1) by blast
qed

lemma groups_inv_all:
  "forest p0 \<Longrightarrow> m \<le> length p0 \<Longrightarrow> groups_inv p0 m (foldl group_step (p0, []) [0..<m])"
proof (induction m)
  case 0
  then show ?case by (simp add: groups_inv_def same_roots_refl members_of_def)
next
  case (Suc m)
  then show ?case by (simp add: group_step_inv)
qed

lemma duplicate_pairs_range: "(i, j) \<in> set (duplicate_pairs vecs fs) \<Longrightarrow> i < length fs \<and> j < length fs"
  by (auto simp: duplicate_pairs_def index_pairs_def)

subsection \<open>Properties\<close>

text \<open>
  C37: merging by key keeps one record per key of the completed specialists' findings: a
  record is flagged by exactly the specialists that reported its key, sorted, and its
  severity is the highest any of them gave.
\<close>

theorem merge_by_key_spec:
  assumes "foldE add_specialist [] (dicts_of specialist_outputs) = Inr merged"
    and "list_all (is_str \<circ> fst) (reports specialist_outputs)"
  shows "distinct (dkeys merged)
    \<and> set (dkeys merged) = (dedup_key \<circ> snd) ` set (reports specialist_outputs)
    \<and> (\<forall>k rec. map_of merged k = Some rec \<longrightarrow> record_ok (reports specialist_outputs) k rec)"
  using merge_reports_ok [OF _ assms(2)] assms(1) unfolding add_specialists_reports by blast

definition two_outputs :: "pyval list" where
  "two_outputs =
    [VDict [(''id'', VStr ''sec''), (''status'', VStr ''completed''), (''findings'', VList
        [VDict [(''file'', VStr ''a.py''), (''line'', VInt 3), (''title'', VStr ''Bad  Input''), (''severity'', VStr ''minor'')]])],
     VDict [(''id'', VStr ''dry''), (''status'', VStr ''completed''), (''findings'', VList
        [VDict [(''file'', VStr ''a.py''), (''line'', VInt 3), (''title'', VStr '' bad input ''), (''severity'', VStr ''critical'')]])]]"

lemma two_outputs_merged:
  "foldE add_specialist [] (dicts_of two_outputs) = Inr
     [(''a.py::3::bad input'',
       [(''file'', VStr ''a.py''), (''line'', VInt 3), (''title'', VStr '' bad input ''), (''severity'', VStr ''critical''),
        (''flagged_by'', VList [VStr ''dry'', VStr ''sec'']), (''__winner'', VStr ''dry'')])]"
  by code_simp

theorem merge_by_key_spec_witness:
  "(dedup_key \<circ> snd) ` set (reports two_outputs) = {''a.py::3::bad input''}"
proof -
  have "list_all (is_str \<circ> fst) (reports two_outputs)"
    by (simp add: reports_def two_outputs_def is_str_def ensure_list_def)
  from merge_by_key_spec [OF two_outputs_merged this] show ?thesis by simp
qed

text \<open>
  C38: the groups of near-duplicates are the connected components of the pairs found
  similar: every finding is in exactly one group, no group is empty, and two findings share a
  group exactly when a chain of similar pairs links them.
\<close>

theorem duplicate_groups_components:
  shows "mset (concat (duplicate_groups vecs findings)) = mset [0..<length findings]
    \<and> (\<forall>g\<in>set (duplicate_groups vecs findings). g \<noteq> [] \<and> (\<forall>i\<in>set g. \<forall>j<length findings.
        j \<in> set g \<longleftrightarrow> (i, j) \<in> linked (duplicate_pairs vecs findings)))"
proof -
  let ?n = "length findings"
  let ?es = "duplicate_pairs vecs findings"
  define p0 where "p0 = foldl uf_union (uf_init ?n) ?es"
  have p0: "forest p0" "length p0 = ?n"
      "\<And>x y. x < ?n \<Longrightarrow> y < ?n \<Longrightarrow> uf_root p0 x = uf_root p0 y \<longleftrightarrow> (x, y) \<in> linked ?es"
    using unions_components [of ?es ?n] duplicate_pairs_range [of _ _ vecs findings] unfolding p0_def by auto
  define st where "st = foldl group_step (p0, []) [0..<?n]"
  have inv: "groups_inv p0 ?n st" unfolding st_def using groups_inv_all [OF p0(1)] p0(2) by simp
  have gs: "duplicate_groups vecs findings = map snd (snd st)"
    by (simp add: duplicate_groups_def Let_def st_def p0_def)
  have "g \<noteq> [] \<and> (\<forall>i\<in>set g. \<forall>j<?n. j \<in> set g \<longleftrightarrow> (i, j) \<in> linked ?es)" if "g \<in> set (map snd (snd st))" for g
  proof -
    from that obtain r where r: "(r, g) \<in> set (snd st)" by auto
    then have "map_of (snd st) r = Some g" using inv by (auto simp: groups_inv_def)
    then have g: "g = filter (\<lambda>i. uf_root p0 i = r) [0..<?n]"
      using inv by (auto simp: groups_inv_def members_of_def dest: spec [of _ r])
    have "g \<noteq> []" using inv r by (auto simp: groups_inv_def)
    moreover have "j \<in> set g \<longleftrightarrow> (i, j) \<in> linked ?es" if "i \<in> set g" "j < ?n" for i j
      using that p0(3) [of i j] unfolding g by auto
    ultimately show ?thesis by blast
  qed
  moreover have "mset (concat (map snd (snd st))) = mset [0..<?n]" using inv by (simp add: groups_inv_def)
  ultimately show ?thesis unfolding gs by blast
qed

definition similar_findings :: "dict list" where
  "similar_findings =
    [[(''file'', VStr ''a.py''), (''line'', VInt 3), (''title'', VStr ''x'')],
     [(''file'', VStr ''b.py''), (''line'', VInt 3), (''title'', VStr ''y'')],
     [(''file'', VStr ''a.py''), (''line'', VInt 3), (''title'', VStr ''z'')]]"

theorem duplicate_groups_components_witness:
  "mset (concat (duplicate_groups None similar_findings)) = mset [0, 1, 2]
   \<and> (0, 2) \<in> linked (duplicate_pairs None similar_findings)"
proof -
  have g: "duplicate_groups None similar_findings = [[0, 2], [1]]" by code_simp
  have "\<forall>j<3. j \<in> set [0, 2] \<longleftrightarrow> (0, j) \<in> linked (duplicate_pairs None similar_findings)"
    using duplicate_groups_components [of None similar_findings] unfolding g
    by (simp add: similar_findings_def)
  from spec [OF this, of 2] have "(0, 2) \<in> linked (duplicate_pairs None similar_findings)" by simp
  then show ?thesis unfolding g by simp
qed

end
