(* ===== verification/Fsm.thy ===== *)
theory Fsm
  imports PyValue
begin

section \<open>The pipeline's state machine\<close>

text \<open>
  \<^verbatim>\<open>code_review/spec.py\<close>: the response schemas, the nineteen states with their worker, inline
  handler or loop, their declared inputs, outputs, preconditions and ordered transitions,
  and the closed vocabularies. Prompt texts and the free-text purposes are left out.

  The engine that runs the specification is not part of the repository. What is shown of a
  run holds for every engine that leaves a state through one of its declared transitions:
  \<open>flow\<close> takes any of them, whatever the predicates evaluate to. \<open>conforms\<close> is the meaning
  of the JSON-Schema keywords the file uses, as a specification the handlers are held to;
  the matching of the one \<^verbatim>\<open>pattern\<close> is an argument of it.
\<close>

subsection \<open>Schemas\<close>

datatype jschema = JS "kw list"
  and kw =
    KType "string list"
  | KEnum "pyval list"
  | KConst pyval
  | KRequired "string list"
  | KProps "(string \<times> jschema) list"
  | KItems jschema
  | KMinimum int
  | KMaximum int
  | KMinItems nat
  | KMaxItems nat
  | KMinLength nat
  | KMaxLength nat
  | KPattern string
  | KOneOf "jschema list"
  | KIfThen jschema jschema
  | KAdditional jschema

fun has_type :: "string \<Rightarrow> pyval \<Rightarrow> bool" where
  "has_type t VNone = (t = ''null'')"
| "has_type t (VBool _) = (t = ''boolean'')"
| "has_type t (VInt _) = (t = ''integer'' \<or> t = ''number'')"
| "has_type t (VFloat (Fin q)) = (t = ''number'' \<or> t = ''integer'' \<and> q = of_int \<lfloor>q\<rfloor>)"
| "has_type t (VFloat _) = (t = ''number'')"
| "has_type t (VStr _) = (t = ''string'')"
| "has_type t (VList _) = (t = ''array'')"
| "has_type t (VDict _) = (t = ''object'')"

text \<open>The bound of a numeric keyword; it says nothing of other values.\<close>

fun bounded_by :: "(rat \<Rightarrow> bool) \<Rightarrow> pyval \<Rightarrow> bool" where
  "bounded_by p (VInt i) = p (of_int i)"
| "bounded_by p (VFloat (Fin q)) = p q"
| "bounded_by p _ = True"

fun conforms :: "(string \<Rightarrow> string \<Rightarrow> bool) \<Rightarrow> jschema \<Rightarrow> pyval \<Rightarrow> bool"
  and conforms_kw :: "(string \<Rightarrow> string \<Rightarrow> bool) \<Rightarrow> kw \<Rightarrow> pyval \<Rightarrow> bool" where
  "conforms pat (JS ks) v = list_all (\<lambda>k. conforms_kw pat k v) ks"
| "conforms_kw pat (KType ts) v = list_ex (\<lambda>t. has_type t v) ts"
| "conforms_kw pat (KEnum vs) v = (v \<in> set vs)"
| "conforms_kw pat (KConst c) v = (v = c)"
| "conforms_kw pat (KRequired fs) v =
     (case v of VDict d \<Rightarrow> list_all (\<lambda>f. f \<in> set (dkeys d)) fs | _ \<Rightarrow> True)"
| "conforms_kw pat (KProps ps) v =
     (case v of VDict d \<Rightarrow>
        list_all (\<lambda>p. case map_of d (fst p) of None \<Rightarrow> True | Some w \<Rightarrow> conforms pat (snd p) w) ps
      | _ \<Rightarrow> True)"
| "conforms_kw pat (KItems s) v =
     (case v of VList xs \<Rightarrow> list_all (\<lambda>x. conforms pat s x) xs | _ \<Rightarrow> True)"
| "conforms_kw pat (KMinimum n) v = bounded_by (\<lambda>q. of_int n \<le> q) v"
| "conforms_kw pat (KMaximum n) v = bounded_by (\<lambda>q. q \<le> of_int n) v"
| "conforms_kw pat (KMinItems n) v = (case v of VList xs \<Rightarrow> n \<le> length xs | _ \<Rightarrow> True)"
| "conforms_kw pat (KMaxItems n) v = (case v of VList xs \<Rightarrow> length xs \<le> n | _ \<Rightarrow> True)"
| "conforms_kw pat (KMinLength n) v = (case v of VStr s \<Rightarrow> n \<le> length s | _ \<Rightarrow> True)"
| "conforms_kw pat (KMaxLength n) v = (case v of VStr s \<Rightarrow> length s \<le> n | _ \<Rightarrow> True)"
| "conforms_kw pat (KPattern p) v = (case v of VStr s \<Rightarrow> pat p s | _ \<Rightarrow> True)"
| "conforms_kw pat (KOneOf ss) v = (length (filter (\<lambda>s. conforms pat s v) ss) = 1)"
| "conforms_kw pat (KIfThen c t) v = (conforms pat c v \<longrightarrow> conforms pat t v)"
| "conforms_kw pat (KAdditional s) v =
     (case v of VDict d \<Rightarrow> list_all (\<lambda>p. conforms pat s (snd p)) d | _ \<Rightarrow> True)"

subsection \<open>States\<close>

text \<open>Role, inputs and response schema of a worker; handler and schema of an inline state;
  a loop is a worker with its bound and the field that ends it.\<close>

datatype state_kind =
    Worker string "string list" jschema
  | Inline string jschema
  | Loop string "string list" jschema nat string
  | Terminal

text \<open>A transition's predicate is \<open>None\<close> for \<^verbatim>\<open>TransitionKind.always\<close>.\<close>

record fsm_state =
  st_id :: string
  st_kind :: state_kind
  st_preconditions :: "string list"
  st_outputs :: "string list"
  st_post_validations :: "string list"
  st_allowed_tools :: "string list"
  st_verified :: bool
  st_transitions :: "(string \<times> string option) list"

definition in_set :: "string \<Rightarrow> string list \<Rightarrow> string" where
  "in_set field values = join '' OR '' (map (\<lambda>v. field @ '' == '' @ [CHR 0x27] @ v @ [CHR 0x27]) values)"

definition verifier_stuck_predicate :: "string \<Rightarrow> string" where
  "verifier_stuck_predicate state_id = ''verifier_rejection_counts.'' @ state_id @ '' >= 3''"

definition verifier_vote_schema :: jschema where
  "verifier_vote_schema =
    JS [KType [''object''], KRequired [''verdict'', ''reason''], KProps
        [(''verdict'', JS [KType [''string''], KEnum [VStr ''passed'', VStr ''rejected'']]),
         (''reason'', JS [KType [''string''], KMaxLength 280])]]"

definition project_scanner_schema :: jschema where
  "project_scanner_schema =
    JS [KType [''object''], KRequired [''project_profile'', ''changed_paths'', ''diff_stats''], KProps
        [(''project_profile'', JS [KType [''object''], KRequired [''languages'', ''frameworks'', ''monorepo''], KProps
            [(''languages'', JS [KType [''array''], KMinItems 1, KItems (JS [KType [''string'']])]),
             (''frameworks'', JS [KType [''array''], KItems (JS [KType [''string'']])]),
             (''monorepo'', JS [KType [''boolean'']]),
             (''ci'', JS [KType [''array''], KItems (JS [KType [''string'']])]),
             (''container'', JS [KType [''array''], KItems (JS [KType [''string'']])]),
             (''iac'', JS [KType [''array''], KItems (JS [KType [''string'']])]),
             (''build'', JS [KType [''array''], KItems (JS [KType [''string'']])]),
             (''lint'', JS [KType [''array''], KItems (JS [KType [''string'']])])]]),
         (''changed_paths'', JS [KType [''array''], KItems (JS [KType [''string'']])]),
         (''diff_stats'', JS [KType [''object''], KRequired [''lines_changed'', ''files_changed''], KProps
            [(''lines_changed'', JS [KType [''integer''], KMinimum 0]),
             (''files_changed'', JS [KType [''integer''], KMinimum 0])]])]]"

definition risk_tier_triage_schema :: jschema where
  "risk_tier_triage_schema =
    JS [KType [''object''], KRequired [''tier'', ''cap'', ''tier_rationale'', ''risk_signals'', ''scope_overrides_present''], KProps
        [(''tier'', JS [KType [''string''], KEnum [VStr ''trivial'', VStr ''lite'', VStr ''full'', VStr ''sensitive'']]),
         (''cap'', JS [KType [''integer''], KMinimum 3, KMaximum 50]),
         (''tier_rationale'', JS [KType [''string'']]),
         (''risk_signals'', JS [KType [''array''], KItems (JS [KType [''string'']])]),
         (''scope_overrides_present'', JS [KType [''boolean'']])]]"

definition activate_leaves_schema :: jschema where
  "activate_leaves_schema =
    JS [KType [''object''], KRequired [''activated_leaves''], KProps
        [(''activated_leaves'', JS [KType [''array''], KItems (JS [KType [''object''], KRequired [''id'', ''path'', ''activation_match''], KProps
              [(''id'', JS [KType [''string'']]),
               (''path'', JS [KType [''string'']]),
               (''activation_match'', JS [KType [''array''], KItems (JS [KType [''string'']])])]])])]]"

definition tree_descender_schema :: jschema where
  "tree_descender_schema =
    JS [KType [''object''], KRequired [''stage_a_candidates'', ''descent_path''], KProps
        [(''stage_a_candidates'', JS [KType [''array''], KItems (JS [KType [''object''], KRequired [''id'', ''path'', ''activation_match''], KProps
              [(''id'', JS [KType [''string''], KPattern ''^[a-z][a-z0-9-]*$'']),
               (''path'', JS [KType [''string'']]),
               (''activation_match'', JS [KType [''array''], KMinItems 1, KItems (JS [KEnum [VStr ''file_globs'', VStr ''keyword_matches'', VStr ''structural_signals'', VStr ''escalation_from'', VStr ''focus_only'']])]),
               (''file_globs'', JS [KType [''array''], KItems (JS [KType [''string'']])]),
               (''focus'', JS [KType [''string'']]),
               (''dimensions'', JS [KType [''array''], KItems (JS [KType [''string'']])]),
               (''audit_surface'', JS [KType [''array''], KItems (JS [KType [''string'']])]),
               (''languages'', JS [KOneOf [JS [KType [''string''], KEnum [VStr ''all'']], JS [KType [''array''], KItems (JS [KType [''string'']]), KMinItems 1]]]),
               (''tools'', JS [KType [''array''], KItems (JS [KType [''object''], KRequired [''name'', ''purpose''], KProps
                    [(''name'', JS [KType [''string''], KMinLength 1]),
                     (''purpose'', JS [KType [''string''], KMinLength 1]),
                     (''command'', JS [KType [''string'']])]])]),
               (''tags'', JS [KType [''array''], KItems (JS [KType [''string'']])]),
               (''covers'', JS [KType [''array''], KItems (JS [KType [''string'']])]),
               (''type'', JS [KType [''string'']])]])]),
         (''descent_path'', JS [KType [''array''], KItems (JS [KType [''string'']])])]]"

definition trim_candidates_schema :: jschema where
  "trim_candidates_schema =
    JS [KType [''object''], KRequired [''picked_leaves'', ''rejected_leaves'', ''coverage_rescues''], KProps
        [(''picked_leaves'', JS [KType [''array''], KItems (JS [KType [''object''], KRequired [''id'', ''path'', ''justification'', ''dimensions''], KProps
              [(''id'', JS [KType [''string'']]),
               (''path'', JS [KType [''string'']]),
               (''justification'', JS [KType [''string''], KMinLength 1]),
               (''dimensions'', JS [KType [''array''], KItems (JS [KType [''string'']])])]])]),
         (''rejected_leaves'', JS [KType [''array''], KItems (JS [KType [''object''], KRequired [''id'', ''reason''], KProps
              [(''id'', JS [KType [''string'']]),
               (''reason'', JS [KType [''string''], KMinLength 1])]])]),
         (''coverage_rescues'', JS [KType [''array''], KItems (JS [KType [''object''], KRequired [''file'', ''rescued_leaf'', ''reason''], KProps
              [(''file'', JS [KType [''string'']]),
               (''rescued_leaf'', JS [KType [''string'']]),
               (''reason'', JS [KType [''string'']])]])])]]"

definition tool_runner_schema :: jschema where
  "tool_runner_schema =
    JS [KType [''object''], KRequired [''tool_results''], KProps
        [(''tool_results'', JS [KType [''array''], KItems (JS [KType [''object''], KRequired [''name'', ''status''], KProps
              [(''name'', JS [KType [''string'']]),
               (''status'', JS [KEnum [VStr ''pass'', VStr ''fail'', VStr ''skipped'']]),
               (''findings'', JS [KType [''integer'']]),
               (''output'', JS [KType [''string'']]),
               (''reason'', JS [KType [''string'']]),
               (''scoped_files'', JS [KType [''array''], KItems (JS [KType [''string'']])])], KIfThen (JS [KProps
                [(''status'', JS [KConst (VStr ''skipped'')])]]) (JS [KRequired [''reason'']])])])]]"

definition plan_specialist_batches_schema :: jschema where
  "plan_specialist_batches_schema =
    JS [KType [''object''], KRequired [''specialist_batches'', ''total_batches'', ''total_files_planned''], KProps
        [(''specialist_batches'', JS [KType [''array''], KItems (JS [KType [''object''], KRequired [''batch_index'', ''units''], KProps
              [(''batch_index'', JS [KType [''integer''], KMinimum 1]),
               (''units'', JS [KType [''array''], KItems (JS [KType [''object''], KRequired [''leaf_id'', ''sub_index'', ''total_subs'', ''files''], KProps
                    [(''leaf_id'', JS [KType [''string'']]),
                     (''sub_index'', JS [KType [''integer''], KMinimum 1]),
                     (''total_subs'', JS [KType [''integer''], KMinimum 1]),
                     (''files'', JS [KType [''array''], KItems (JS [KType [''string'']])])]])])]])]),
         (''total_batches'', JS [KType [''integer''], KMinimum 0]),
         (''total_files_planned'', JS [KType [''integer''], KMinimum 0])]]"

definition specialist_batch_schema :: jschema where
  "specialist_batch_schema =
    JS [KType [''object''], KRequired [''batch_index'', ''iter_outputs'', ''loop_done''], KProps
        [(''batch_index'', JS [KType [''integer''], KMinimum 1]),
         (''iter_outputs'', JS [KType [''array''], KItems (JS [KType [''object''], KRequired [''leaf_id'', ''sub_index'', ''specialist_output''], KProps
              [(''leaf_id'', JS [KType [''string'']]),
               (''sub_index'', JS [KType [''integer''], KMinimum 1]),
               (''specialist_output'', JS [KType [''object'']])]])]),
         (''loop_done'', JS [KType [''boolean'']])]]"

definition merge_specialist_outputs_schema :: jschema where
  "merge_specialist_outputs_schema =
    JS [KType [''object''], KRequired [''specialist_outputs''], KProps
        [(''specialist_outputs'', JS [KType [''array''], KItems (JS [KType [''object''], KRequired [''id'', ''status'', ''findings''], KProps
              [(''id'', JS [KType [''string'']]),
               (''status'', JS [KEnum [VStr ''completed'', VStr ''failed'', VStr ''skipped'']]),
               (''findings'', JS [KType [''array'']]),
               (''skip_reason'', JS [KType [''string'']])]])])]]"

definition specialist_schema :: jschema where
  "specialist_schema =
    JS [KType [''object''], KRequired [''specialist_outputs''], KProps
        [(''specialist_outputs'', JS [KType [''array''], KItems (JS [KType [''object''], KRequired [''id'', ''status'', ''findings''], KProps
              [(''id'', JS [KType [''string'']]),
               (''status'', JS [KEnum [VStr ''completed'', VStr ''failed'', VStr ''skipped'']]),
               (''runtime_ms'', JS [KType [''integer'']]),
               (''tokens_in'', JS [KType [''integer'']]),
               (''tokens_out'', JS [KType [''integer'']]),
               (''findings'', JS [KType [''array''], KItems (JS [KType [''object''], KRequired [''severity'', ''file'', ''title''], KProps
                    [(''severity'', JS [KEnum [VStr ''critical'', VStr ''important'', VStr ''minor'']]),
                     (''file'', JS [KType [''string'']]),
                     (''line'', JS [KType [''integer'', ''null'']]),
                     (''title'', JS [KType [''string'']]),
                     (''description'', JS [KType [''string'']]),
                     (''impact'', JS [KType [''string'']]),
                     (''fix'', JS [KType [''string'']]),
                     (''confidence'', JS [KType [''number''], KMinimum 0, KMaximum 1]),
                     (''verified_via'', JS [KType [''array''], KItems (JS [KType [''string'']])])]])]),
               (''skip_reason'', JS [KType [''string'']])], KIfThen (JS [KProps
                [(''status'', JS [KConst (VStr ''skipped'')])]]) (JS [KRequired [''skip_reason'']])])])]]"

definition collect_findings_schema :: jschema where
  "collect_findings_schema =
    JS [KType [''object''], KRequired [''findings'', ''severity_counts''], KProps
        [(''findings'', JS [KType [''array'']]),
         (''severity_counts'', JS [KType [''object'']])]]"

definition verify_coverage_schema :: jschema where
  "verify_coverage_schema =
    JS [KType [''object''], KRequired [''coverage_matrix'', ''coverage_gaps'', ''coverage_rule_violated''], KProps
        [(''coverage_matrix'', JS [KType [''array'']]),
         (''coverage_gaps'', JS [KType [''array'']]),
         (''coverage_rule_violated'', JS [KType [''boolean'']])]]"

definition release_readiness_schema :: jschema where
  "release_readiness_schema =
    JS [KType [''object''], KRequired [''gates'', ''verdict''], KProps
        [(''gates'', JS [KType [''array''], KMinItems 8, KMaxItems 8]),
         (''verdict'', JS [KType [''string''], KEnum [VStr ''GO'', VStr ''CONDITIONAL'', VStr ''NO-GO'']])]]"

definition write_run_directory_schema :: jschema where
  "write_run_directory_schema =
    JS [KType [''object''], KRequired [''run_dir_path''], KProps
        [(''run_dir_path'', JS [KType [''string''], KMinLength 1])]]"

definition emit_stdout_schema :: jschema where
  "emit_stdout_schema =
    JS [KType [''object''], KAdditional (JS [])]"

definition short_circuit_schema :: jschema where
  "short_circuit_schema =
    JS [KType [''object''], KRequired [''findings'', ''severity_counts'', ''coverage_matrix'', ''coverage_gaps'', ''gates'', ''verdict'', ''short_circuited''], KProps
        [(''findings'', JS [KType [''array'']]),
         (''severity_counts'', JS [KType [''object'']]),
         (''coverage_matrix'', JS [KType [''array'']]),
         (''coverage_gaps'', JS [KType [''array'']]),
         (''gates'', JS [KType [''array'']]),
         (''verdict'', JS [KType [''string''], KEnum [VStr ''GO'', VStr ''CONDITIONAL'', VStr ''NO-GO'']]),
         (''short_circuited'', JS [KType [''boolean'']])]]"

definition stage_a_empty_schema :: jschema where
  "stage_a_empty_schema =
    JS [KType [''object''], KRequired [''findings'', ''severity_counts'', ''coverage_matrix'', ''coverage_gaps'', ''gates'', ''verdict'', ''degraded_run''], KProps
        [(''findings'', JS [KType [''array'']]),
         (''severity_counts'', JS [KType [''object'']]),
         (''coverage_matrix'', JS [KType [''array'']]),
         (''coverage_gaps'', JS [KType [''array'']]),
         (''gates'', JS [KType [''array'']]),
         (''verdict'', JS [KType [''string''], KEnum [VStr ''GO'', VStr ''CONDITIONAL'', VStr ''NO-GO'']]),
         (''degraded_run'', JS [KType [''boolean'']])]]"

definition verifier_stuck_schema :: jschema where
  "verifier_stuck_schema =
    JS [KType [''object''], KRequired [''verifier_stuck'', ''degraded_run'', ''verifier_rejection_counts'', ''failed_units''], KProps
        [(''verifier_stuck'', JS [KType [''object''], KRequired [''stuck_state_id'', ''rejection_count'', ''limit''], KProps
            [(''stuck_state_id'', JS [KType [''string'']]),
             (''rejection_count'', JS [KType [''integer''], KMinimum 0]),
             (''limit'', JS [KType [''integer''], KMinimum 1])]]),
         (''degraded_run'', JS [KType [''boolean'']]),
         (''verifier_rejection_counts'', JS [KType [''object''], KAdditional (JS [KType [''integer''], KMinimum 0])]),
         (''failed_units'', JS [KType [''array'']])]]"

definition st_scan_project :: fsm_state where
  "st_scan_project =
    \<lparr>st_id = ''scan_project'',
     st_kind = Worker ''project-scanner'' [''args''] project_scanner_schema,
     st_preconditions = [],
     st_outputs = [''project_profile'', ''changed_paths'', ''diff_stats''],
     st_post_validations = [''len(project_profile.languages) > 0'', ''diff_stats.lines_changed >= 0''],
     st_allowed_tools = [''Bash(git diff:*)'', ''Bash(git log:*)'', ''Bash(git status:*)'', ''Bash(git ls-files:*)'', ''Bash(cat:*)'', ''Read'', ''Glob''],
     st_verified = True,
     st_transitions = [(''verifier_stuck'', Some (verifier_stuck_predicate ''scan_project'')),
       (''risk_tier_triage'', None)]\<rparr>"

definition st_risk_tier_triage :: fsm_state where
  "st_risk_tier_triage =
    \<lparr>st_id = ''risk_tier_triage'',
     st_kind = Inline ''risk_tier_triage'' risk_tier_triage_schema,
     st_preconditions = [''project_profile exists in run state'', ''changed_paths exists in run state'', ''diff_stats exists in run state''],
     st_outputs = [''tier'', ''cap'', ''tier_rationale'', ''risk_signals'', ''scope_overrides_present''],
     st_post_validations = [(in_set ''tier'' [''trivial'', ''lite'', ''full'', ''sensitive'']), ''cap >= 3 AND cap <= 50''],
     st_allowed_tools = [],
     st_verified = False,
     st_transitions = [(''short_circuit_exit'', Some (''tier == '' @ [CHR 0x27] @ ''trivial'' @ [CHR 0x27] @ '' AND len(risk_signals) == 0 AND NOT scope_overrides_present'')),
       (''activate_leaves'', None)]\<rparr>"

definition st_activate_leaves :: fsm_state where
  "st_activate_leaves =
    \<lparr>st_id = ''activate_leaves'',
     st_kind = Inline ''activate_leaves'' activate_leaves_schema,
     st_preconditions = [''project_profile exists in run state'', ''changed_paths exists in run state''],
     st_outputs = [''activated_leaves''],
     st_post_validations = [''len(activated_leaves) >= 0''],
     st_allowed_tools = [],
     st_verified = False,
     st_transitions = [(''stage_a_empty'', Some ''len(activated_leaves) == 0''),
       (''tree_descend'', None)]\<rparr>"

definition st_tree_descend :: fsm_state where
  "st_tree_descend =
    \<lparr>st_id = ''tree_descend'',
     st_kind = Worker ''tree-descender'' [''project_profile'', ''changed_paths'', ''tier'', ''activated_leaves''] tree_descender_schema,
     st_preconditions = [''project_profile exists in run state'', ''tier exists in run state'', ''activated_leaves exists in run state''],
     st_outputs = [''stage_a_candidates'', ''descent_path''],
     st_post_validations = [''len(stage_a_candidates) >= 0''],
     st_allowed_tools = [''Read''],
     st_verified = True,
     st_transitions = [(''verifier_stuck'', Some (verifier_stuck_predicate ''tree_descend'')),
       (''stage_a_empty'', Some ''len(stage_a_candidates) == 0''),
       (''llm_trim'', None)]\<rparr>"

definition st_llm_trim :: fsm_state where
  "st_llm_trim =
    \<lparr>st_id = ''llm_trim'',
     st_kind = Worker ''trim-candidates'' [''project_profile'', ''changed_paths'', ''tier'', ''cap'', ''stage_a_candidates''] trim_candidates_schema,
     st_preconditions = [''stage_a_candidates is non-empty'', ''cap exists in run state''],
     st_outputs = [''picked_leaves'', ''rejected_leaves'', ''coverage_rescues''],
     st_post_validations = [''len(picked_leaves) >= 0''],
     st_allowed_tools = [],
     st_verified = True,
     st_transitions = [(''verifier_stuck'', Some (verifier_stuck_predicate ''llm_trim'')),
       (''tool_discovery'', None)]\<rparr>"

definition st_tool_discovery :: fsm_state where
  "st_tool_discovery =
    \<lparr>st_id = ''tool_discovery'',
     st_kind = Worker ''tool-runner'' [''picked_leaves'', ''args''] tool_runner_schema,
     st_preconditions = [''picked_leaves is an array''],
     st_outputs = [''tool_results''],
     st_post_validations = [],
     st_allowed_tools = [''Bash(eslint:*)'', ''Bash(ruff:*)'', ''Bash(mypy:*)'', ''Bash(npm test:*)'', ''Bash(pytest:*)'', ''Bash(cargo:*)'', ''Bash(go test:*)'', ''Bash(which:*)'', ''Read''],
     st_verified = True,
     st_transitions = [(''verifier_stuck'', Some (verifier_stuck_predicate ''tool_discovery'')),
       (''plan_specialist_batches'', None)]\<rparr>"

definition st_plan_specialist_batches :: fsm_state where
  "st_plan_specialist_batches =
    \<lparr>st_id = ''plan_specialist_batches'',
     st_kind = Inline ''plan_specialist_batches'' plan_specialist_batches_schema,
     st_preconditions = [''picked_leaves is an array'', ''changed_paths exists in run state''],
     st_outputs = [''specialist_batches'', ''total_batches'', ''total_files_planned''],
     st_post_validations = [''len(specialist_batches) >= 0'', ''total_batches >= 0'', ''total_files_planned >= 0'', ''(len(picked_leaves) == 0) OR (total_batches > 0)''],
     st_allowed_tools = [],
     st_verified = False,
     st_transitions = [(''merge_specialist_outputs'', Some ''total_batches == 0''),
       (''dispatch_specialists'', None)]\<rparr>"

definition st_dispatch_specialists :: fsm_state where
  "st_dispatch_specialists =
    \<lparr>st_id = ''dispatch_specialists'',
     st_kind = Loop ''specialist-batch'' [''project_profile'', ''changed_paths'', ''tool_results'', ''specialist_batches'', ''total_batches'', ''picked_leaves''] specialist_batch_schema 64 ''loop_done'',
     st_preconditions = [''picked_leaves is an array'', ''specialist_batches exists in run state'', ''total_batches exists in run state''],
     st_outputs = [''batch_index'', ''iter_outputs'', ''loop_done''],
     st_post_validations = [],
     st_allowed_tools = [''Read'', ''Grep'', ''Glob'', ''WebFetch'', ''Bash(git diff:*)'', ''Bash(git log:*)'', ''Task''],
     st_verified = False,
     st_transitions = [(''verifier_stuck'', Some (verifier_stuck_predicate ''dispatch_specialists'')),
       (''merge_specialist_outputs'', None)]\<rparr>"

definition st_merge_specialist_outputs :: fsm_state where
  "st_merge_specialist_outputs =
    \<lparr>st_id = ''merge_specialist_outputs'',
     st_kind = Inline ''merge_specialist_outputs'' merge_specialist_outputs_schema,
     st_preconditions = [''specialist_batches exists in run state'', ''total_files_planned exists in run state''],
     st_outputs = [''specialist_outputs''],
     st_post_validations = [''len(specialist_outputs) >= 0''],
     st_allowed_tools = [],
     st_verified = False,
     st_transitions = [(''collect_findings'', None)]\<rparr>"

definition st_collect_findings :: fsm_state where
  "st_collect_findings =
    \<lparr>st_id = ''collect_findings'',
     st_kind = Inline ''collect_findings'' collect_findings_schema,
     st_preconditions = [''specialist_outputs exists in run state''],
     st_outputs = [''findings'', ''severity_counts''],
     st_post_validations = [''len(findings) >= 0''],
     st_allowed_tools = [],
     st_verified = False,
     st_transitions = [(''rank_findings'', None)]\<rparr>"

definition rank_findings_schema :: jschema where
  "rank_findings_schema =
    JS [KType [''object''], KRequired [''findings'', ''severity_counts''], KProps
        [(''findings'', JS [KType [''array'']]),
         (''severity_counts'', JS [KType [''object'']])]]"

definition st_rank_findings :: fsm_state where
  "st_rank_findings =
    \<lparr>st_id = ''rank_findings'',
     st_kind = Worker ''finding-ranker'' [''findings'', ''changed_paths'', ''args''] rank_findings_schema,
     st_preconditions = [''findings exists in run state''],
     st_outputs = [''findings'', ''severity_counts''],
     st_post_validations = [''len(findings) >= 0''],
     st_allowed_tools = [],
     st_verified = True,
     st_transitions = [(''verifier_stuck'', Some (verifier_stuck_predicate ''rank_findings'')),
       (''verify_coverage'', None)]\<rparr>"

definition st_verify_coverage :: fsm_state where
  "st_verify_coverage =
    \<lparr>st_id = ''verify_coverage'',
     st_kind = Inline ''verify_coverage'' verify_coverage_schema,
     st_preconditions = [''findings exists in run state'', ''picked_leaves exists in run state'', ''changed_paths exists in run state''],
     st_outputs = [''coverage_matrix'', ''coverage_gaps'', ''coverage_rule_violated''],
     st_post_validations = [''len(coverage_matrix) >= 0''],
     st_allowed_tools = [],
     st_verified = False,
     st_transitions = [(''synthesize_release_readiness'', None)]\<rparr>"

definition st_synthesize_release_readiness :: fsm_state where
  "st_synthesize_release_readiness =
    \<lparr>st_id = ''synthesize_release_readiness'',
     st_kind = Inline ''synthesize_release_readiness'' release_readiness_schema,
     st_preconditions = [''findings exists in run state'', ''picked_leaves exists in run state''],
     st_outputs = [''gates'', ''verdict''],
     st_post_validations = [(in_set ''verdict'' [''GO'', ''CONDITIONAL'', ''NO-GO'']), ''len(gates) == 8''],
     st_allowed_tools = [],
     st_verified = False,
     st_transitions = [(''write_run_directory'', None)]\<rparr>"

definition st_write_run_directory :: fsm_state where
  "st_write_run_directory =
    \<lparr>st_id = ''write_run_directory'',
     st_kind = Inline ''write_run_directory'' write_run_directory_schema,
     st_preconditions = [''verdict exists in run state'', ''gates exists in run state''],
     st_outputs = [''run_dir_path''],
     st_post_validations = [''len(run_dir_path) > 0''],
     st_allowed_tools = [],
     st_verified = False,
     st_transitions = [(''emit_stdout'', None)]\<rparr>"

definition st_emit_stdout :: fsm_state where
  "st_emit_stdout =
    \<lparr>st_id = ''emit_stdout'',
     st_kind = Inline ''emit_stdout'' emit_stdout_schema,
     st_preconditions = [''run_dir_path exists in run state''],
     st_outputs = [],
     st_post_validations = [],
     st_allowed_tools = [],
     st_verified = False,
     st_transitions = [(''terminal'', None)]\<rparr>"

definition st_short_circuit_exit :: fsm_state where
  "st_short_circuit_exit =
    \<lparr>st_id = ''short_circuit_exit'',
     st_kind = Inline ''short_circuit_exit'' short_circuit_schema,
     st_preconditions = [(''tier == '' @ [CHR 0x27] @ ''trivial'' @ [CHR 0x27])],
     st_outputs = [''findings'', ''severity_counts'', ''coverage_matrix'', ''coverage_gaps'', ''gates'', ''verdict'', ''short_circuited''],
     st_post_validations = [(''verdict == '' @ [CHR 0x27] @ ''GO'' @ [CHR 0x27]), ''len(findings) == 0''],
     st_allowed_tools = [],
     st_verified = False,
     st_transitions = [(''write_run_directory'', None)]\<rparr>"

definition st_stage_a_empty :: fsm_state where
  "st_stage_a_empty =
    \<lparr>st_id = ''stage_a_empty'',
     st_kind = Inline ''stage_a_empty'' stage_a_empty_schema,
     st_preconditions = [''stage_a_candidates is empty''],
     st_outputs = [''findings'', ''severity_counts'', ''coverage_matrix'', ''coverage_gaps'', ''gates'', ''verdict'', ''degraded_run''],
     st_post_validations = [(''verdict == '' @ [CHR 0x27] @ ''CONDITIONAL'' @ [CHR 0x27]), ''degraded_run == true''],
     st_allowed_tools = [],
     st_verified = False,
     st_transitions = [(''write_run_directory'', None)]\<rparr>"

definition st_verifier_stuck :: fsm_state where
  "st_verifier_stuck =
    \<lparr>st_id = ''verifier_stuck'',
     st_kind = Inline ''verifier_stuck'' verifier_stuck_schema,
     st_preconditions = [''verifier_rejection_counts exists in run state''],
     st_outputs = [''verifier_stuck'', ''degraded_run'', ''verifier_rejection_counts'', ''failed_units''],
     st_post_validations = [''degraded_run == true''],
     st_allowed_tools = [],
     st_verified = False,
     st_transitions = [(''synthesize_release_readiness'', None)]\<rparr>"

definition st_terminal :: fsm_state where
  "st_terminal =
    \<lparr>st_id = ''terminal'',
     st_kind = Terminal,
     st_preconditions = [],
     st_outputs = [],
     st_post_validations = [],
     st_allowed_tools = [],
     st_verified = False,
     st_transitions = []\<rparr>"

subsection \<open>The specification\<close>

definition spec_states :: "fsm_state list" where
  "spec_states = [st_scan_project, st_risk_tier_triage, st_activate_leaves, st_tree_descend, st_llm_trim,
     st_tool_discovery, st_plan_specialist_batches, st_dispatch_specialists, st_merge_specialist_outputs,
     st_collect_findings, st_rank_findings, st_verify_coverage, st_synthesize_release_readiness,
     st_write_run_directory, st_emit_stdout, st_short_circuit_exit, st_stage_a_empty, st_verifier_stuck,
     st_terminal]"

definition entry_state :: string where "entry_state = ''scan_project''"

definition all_handler_ids :: "string list" where
  "all_handler_ids = [''risk_tier_triage'', ''activate_leaves'', ''plan_specialist_batches'',
     ''merge_specialist_outputs'', ''collect_findings'', ''verify_coverage'', ''synthesize_release_readiness'',
     ''write_run_directory'', ''emit_stdout'', ''short_circuit_exit'', ''stage_a_empty'', ''verifier_stuck'']"

definition get_state_ids :: "string list" where
  "get_state_ids = map st_id spec_states"

fun inline_handler :: "state_kind \<Rightarrow> string option" where
  "inline_handler (Inline h _) = Some h"
| "inline_handler _ = None"

definition get_handler_ids :: "string list" where
  "get_handler_ids = List.map_filter (\<lambda>st. inline_handler (st_kind st)) spec_states"

lemmas state_defs = st_scan_project_def st_risk_tier_triage_def st_activate_leaves_def st_tree_descend_def
  st_llm_trim_def st_tool_discovery_def st_plan_specialist_batches_def st_dispatch_specialists_def
  st_merge_specialist_outputs_def st_collect_findings_def st_rank_findings_def st_verify_coverage_def
  st_synthesize_release_readiness_def st_write_run_directory_def st_emit_stdout_def
  st_short_circuit_exit_def st_stage_a_empty_def st_verifier_stuck_def st_terminal_def

subsection \<open>Runs\<close>

definition targets :: "fsm_state \<Rightarrow> string list" where
  "targets st = map fst (st_transitions st)"

inductive flow :: "string \<Rightarrow> string \<Rightarrow> bool" where
  flowI: "st \<in> set spec_states \<Longrightarrow> t \<in> set (targets st) \<Longrightarrow> flow (st_id st) t"

text \<open>
  The fields a state reads: the inputs its worker declares, and the field that each of its
  preconditions begins with, whatever it says of it (\<^verbatim>\<open>f exists in run state\<close>, \<^verbatim>\<open>f is non-empty\<close>,
  \<^verbatim>\<open>f is an array\<close>, \<^verbatim>\<open>f is empty\<close>, \<^verbatim>\<open>f == 'trivial'\<close>).
\<close>

fun declared_inputs :: "state_kind \<Rightarrow> string list" where
  "declared_inputs (Worker _ ins _) = ins"
| "declared_inputs (Loop _ ins _ _ _) = ins"
| "declared_inputs _ = []"

definition named_field :: "string \<Rightarrow> string" where
  "named_field p = takeWhile (\<lambda>c. c \<noteq> CHR '' '') p"

definition expected_fields :: "fsm_state \<Rightarrow> string list" where
  "expected_fields st = declared_inputs (st_kind st) @ map named_field (st_preconditions st)"

text \<open>A visit of a state with the fields committed so far: the arguments of the run and the
  rejection counters are there from the start.\<close>

inductive visit :: "string \<Rightarrow> string set \<Rightarrow> bool" where
  visit_entry: "visit entry_state {''args'', ''verifier_rejection_counts''}"
| visit_step: "visit (st_id st) F \<Longrightarrow> st \<in> set spec_states \<Longrightarrow> t \<in> set (targets st) \<Longrightarrow>
    visit t (F \<union> set (st_outputs st))"

subsection \<open>Lemmas\<close>

text \<open>The longest way from the entry to a state.\<close>

definition depth_table :: "(string \<times> nat) list" where
  "depth_table = [(''scan_project'', 0), (''risk_tier_triage'', 1), (''activate_leaves'', 2), (''tree_descend'', 3),
     (''llm_trim'', 4), (''tool_discovery'', 5), (''plan_specialist_batches'', 6), (''dispatch_specialists'', 7),
     (''merge_specialist_outputs'', 8), (''collect_findings'', 9), (''rank_findings'', 10), (''verify_coverage'', 11),
     (''verifier_stuck'', 11), (''synthesize_release_readiness'', 12), (''short_circuit_exit'', 2),
     (''stage_a_empty'', 4), (''write_run_directory'', 13), (''emit_stdout'', 14), (''terminal'', 15)]"

definition depth :: "string \<Rightarrow> nat" where
  "depth s = (case map_of depth_table s of Some n \<Rightarrow> n | None \<Rightarrow> 0)"

lemma state_ids: "get_state_ids = [''scan_project'', ''risk_tier_triage'', ''activate_leaves'', ''tree_descend'',
    ''llm_trim'', ''tool_discovery'', ''plan_specialist_batches'', ''dispatch_specialists'',
    ''merge_specialist_outputs'', ''collect_findings'', ''rank_findings'', ''verify_coverage'',
    ''synthesize_release_readiness'', ''write_run_directory'', ''emit_stdout'', ''short_circuit_exit'',
    ''stage_a_empty'', ''verifier_stuck'', ''terminal'']"
  by (simp add: get_state_ids_def spec_states_def state_defs)

definition edges :: "(string \<times> string list) list" where
  "edges = map (\<lambda>st. (st_id st, targets st)) spec_states"

lemma edges_eq: "edges =
   [(''scan_project'', [''verifier_stuck'', ''risk_tier_triage'']),
    (''risk_tier_triage'', [''short_circuit_exit'', ''activate_leaves'']),
    (''activate_leaves'', [''stage_a_empty'', ''tree_descend'']),
    (''tree_descend'', [''verifier_stuck'', ''stage_a_empty'', ''llm_trim'']),
    (''llm_trim'', [''verifier_stuck'', ''tool_discovery'']),
    (''tool_discovery'', [''verifier_stuck'', ''plan_specialist_batches'']),
    (''plan_specialist_batches'', [''merge_specialist_outputs'', ''dispatch_specialists'']),
    (''dispatch_specialists'', [''verifier_stuck'', ''merge_specialist_outputs'']),
    (''merge_specialist_outputs'', [''collect_findings'']),
    (''collect_findings'', [''rank_findings'']),
    (''rank_findings'', [''verifier_stuck'', ''verify_coverage'']),
    (''verify_coverage'', [''synthesize_release_readiness'']),
    (''synthesize_release_readiness'', [''write_run_directory'']),
    (''write_run_directory'', [''emit_stdout'']),
    (''emit_stdout'', [''terminal'']),
    (''short_circuit_exit'', [''write_run_directory'']),
    (''stage_a_empty'', [''write_run_directory'']),
    (''verifier_stuck'', [''synthesize_release_readiness'']),
    (''terminal'', [])]"
  by (simp add: edges_def spec_states_def state_defs targets_def)

lemma flow_edges: "flow s t \<longleftrightarrow> (\<exists>ts. (s, ts) \<in> set edges \<and> t \<in> set ts)"
  by (auto simp: flow.simps edges_def)

lemma depth_step: "flow s t \<Longrightarrow> depth s < depth t"
proof -
  have "list_all (\<lambda>(s, ts). list_all (\<lambda>t. depth s < depth t) ts) edges"
    by (simp add: edges_eq depth_def depth_table_def)
  then show "flow s t \<Longrightarrow> depth s < depth t"
    by (fastforce simp: flow_edges list_all_iff)
qed

lemma depth_bound: "depth s \<le> 15"
proof -
  have "list_all (\<lambda>(k, n). n \<le> 15) depth_table" by (simp add: depth_table_def)
  then show ?thesis
    by (fastforce simp: depth_def list_all_iff split: option.splits dest: map_of_SomeD)
qed

lemma flow_source: "flow s t \<Longrightarrow> s \<in> set get_state_ids"
  by (auto simp: flow.simps get_state_ids_def)

lemma flow_target: "flow s t \<Longrightarrow> t \<in> set get_state_ids"
proof -
  have "list_all (\<lambda>(s, ts). list_all (\<lambda>t. List.member get_state_ids t) ts) edges"
    by (simp add: edges_eq state_ids)
  then show "flow s t \<Longrightarrow> t \<in> set get_state_ids"
    by (fastforce simp: flow_edges list_all_iff)
qed

lemma flow_progress:
  assumes "s \<in> set get_state_ids" "s \<noteq> ''terminal''"
  shows "\<exists>t. flow s t"
proof -
  have ids: "get_state_ids = map fst edges" by (simp add: edges_def get_state_ids_def comp_def)
  have "s \<in> fst ` set edges" using assms(1) unfolding ids set_map .
  then obtain ts where e: "(s, ts) \<in> set edges" by (rule imageE) (metis prod.collapse)
  have "\<forall>(s, ts)\<in>set edges. s = ''terminal'' \<or> ts \<noteq> []" by (simp add: edges_eq)
  with e assms(2) have "ts \<noteq> []" by auto
  then obtain t where "t \<in> set ts" using list.set_sel(1) by blast
  with e show ?thesis unfolding flow_edges by blast
qed

interpretation pipeline: terminating_system flow "\<lambda>s. s \<in> set get_state_ids" "\<lambda>s. s = ''terminal''"
  "\<lambda>s. 15 - depth s"
proof
  fix s t
  assume s: "s \<in> set get_state_ids"
  show "flow s t \<Longrightarrow> t \<in> set get_state_ids" by (rule flow_target)
  show "flow s t \<Longrightarrow> 15 - depth t < 15 - depth s" using depth_step depth_bound [of t] by fastforce
  show "s \<noteq> ''terminal'' \<Longrightarrow> \<exists>t. flow s t" using s by (rule flow_progress)
qed

text \<open>The fields that every way to a state has committed, in the order of the states.\<close>

definition committed_table :: "(string \<times> string list) list" where
  "committed_table =
    (let a = [''args'', ''verifier_rejection_counts''];
         scan = a @ st_outputs st_scan_project;
         risk = scan @ st_outputs st_risk_tier_triage;
         act = risk @ st_outputs st_activate_leaves;
         tree = act @ st_outputs st_tree_descend;
         trim = tree @ st_outputs st_llm_trim;
         tools = trim @ st_outputs st_tool_discovery;
         plan = tools @ st_outputs st_plan_specialist_batches;
         merged = plan @ st_outputs st_merge_specialist_outputs;
         found = merged @ st_outputs st_collect_findings
     in [(''scan_project'', a), (''risk_tier_triage'', scan), (''activate_leaves'', risk), (''tree_descend'', act),
         (''llm_trim'', tree), (''tool_discovery'', trim), (''plan_specialist_batches'', tools),
         (''dispatch_specialists'', plan), (''merge_specialist_outputs'', plan), (''collect_findings'', merged),
         (''rank_findings'', found), (''verify_coverage'', found), (''synthesize_release_readiness'', scan),
         (''write_run_directory'', scan @ [''gates'', ''verdict'']),
         (''emit_stdout'', scan @ [''gates'', ''verdict'', ''run_dir_path'']), (''short_circuit_exit'', risk),
         (''stage_a_empty'', risk), (''verifier_stuck'', scan), (''terminal'', scan)])"

definition committed :: "string \<Rightarrow> string list" where
  "committed s = (case map_of committed_table s of Some fs \<Rightarrow> fs | None \<Rightarrow> [])"

text \<open>
  The exceptions: synthesis is entered from the verifier impasse too, with no findings and no
  leaves, and the empty exit from the activation, which has committed no candidates.
\<close>

definition excused :: "string \<Rightarrow> string list" where
  "excused s = (if s = ''synthesize_release_readiness'' then [''findings'', ''picked_leaves'']
     else if s = ''stage_a_empty'' then [''stage_a_candidates''] else [])"

lemma committed_step:
  "list_all (\<lambda>st. list_all (\<lambda>t. list_all (\<lambda>f. List.member (committed (st_id st) @ st_outputs st) f) (committed t))
     (targets st)) spec_states"
  by code_simp

lemma expected_committed:
  "list_all (\<lambda>st. list_all (\<lambda>f. List.member (committed (st_id st) @ excused (st_id st)) f) (expected_fields st)) spec_states"
  by code_simp

lemma visit_committed: "visit s F \<Longrightarrow> set (committed s) \<subseteq> F"
proof (induction rule: visit.induct)
  case visit_entry
  have "committed entry_state = [''args'', ''verifier_rejection_counts'']"
    by (simp add: committed_def committed_table_def entry_state_def Let_def)
  then show ?case by simp
next
  case (visit_step st F t)
  have "set (committed t) \<subseteq> set (committed (st_id st)) \<union> set (st_outputs st)"
    using committed_step visit_step(2,3) unfolding list_all_iff List.member_iff set_append by blast
  with visit_step.IH show ?case by blast
qed

lemma flow_visit: "(flow ^^ n) entry_state t \<Longrightarrow> \<exists>F. visit t F"
proof (induction n arbitrary: t)
  case 0
  then show ?case by (auto intro: visit_entry)
next
  case (Suc n)
  then obtain s where s: "(flow ^^ n) entry_state s" "flow s t" by auto
  from Suc.IH [OF s(1)] obtain F where "visit s F" by blast
  with s(2) show ?case by (auto elim!: flow.cases intro: visit_step)
qed

definition ways :: "(string \<times> string) list" where
  "ways = [(''risk_tier_triage'', ''scan_project''), (''activate_leaves'', ''risk_tier_triage''),
     (''tree_descend'', ''activate_leaves''), (''llm_trim'', ''tree_descend''), (''tool_discovery'', ''llm_trim''),
     (''plan_specialist_batches'', ''tool_discovery''), (''dispatch_specialists'', ''plan_specialist_batches''),
     (''merge_specialist_outputs'', ''dispatch_specialists''), (''collect_findings'', ''merge_specialist_outputs''),
     (''rank_findings'', ''collect_findings''), (''verify_coverage'', ''rank_findings''),
     (''synthesize_release_readiness'', ''verify_coverage''),
     (''write_run_directory'', ''synthesize_release_readiness''), (''emit_stdout'', ''write_run_directory''),
     (''short_circuit_exit'', ''risk_tier_triage''), (''stage_a_empty'', ''activate_leaves''),
     (''verifier_stuck'', ''scan_project''), (''terminal'', ''emit_stdout'')]"

lemma ways_flow: "(t, s) \<in> set ways \<Longrightarrow> flow s t"
proof -
  have "list_all (\<lambda>(t, s). list_ex (\<lambda>(s', ts). s' = s \<and> List.member ts t) edges) ways"
    unfolding edges_eq by code_simp
  then show "(t, s) \<in> set ways \<Longrightarrow> flow s t"
    unfolding flow_edges list_all_iff list_ex_iff by fastforce
qed

text \<open>A list of steps each of which starts where an earlier one arrived.\<close>

fun grown :: "string list \<Rightarrow> (string \<times> string) list \<Rightarrow> bool" where
  "grown R [] = True"
| "grown R ((t, s) # ws) = (List.member R s \<and> grown (t # R) ws)"

lemma grown_reach:
  "grown R ws \<Longrightarrow> set ws \<subseteq> set ways \<Longrightarrow> (\<And>s. s \<in> set R \<Longrightarrow> flow\<^sup>*\<^sup>* e s) \<Longrightarrow> t \<in> set (map fst ws) \<Longrightarrow> flow\<^sup>*\<^sup>* e t"
proof (induction R ws rule: grown.induct)
  case (2 R t' s ws)
  have "flow\<^sup>*\<^sup>* e t'"
    using 2(2) 2(3) 2(4) [of s] by (auto intro: rtranclp.rtrancl_into_rtrancl ways_flow)
  with 2 show ?case by auto
qed simp

lemma reach_all: "s \<in> set get_state_ids \<Longrightarrow> flow\<^sup>*\<^sup>* entry_state s"
proof -
  have g: "grown [entry_state] ways" by code_simp
  have "list_all (\<lambda>s. List.member (entry_state # map fst ways) s) get_state_ids"
    unfolding state_ids by code_simp
  then have "s \<in> set get_state_ids \<Longrightarrow> s = entry_state \<or> s \<in> set (map fst ways)"
    by (simp only: list_all_iff List.member_iff list.set insert_iff)
  then show "s \<in> set get_state_ids \<Longrightarrow> flow\<^sup>*\<^sup>* entry_state s"
    using grown_reach [OF g subset_refl, of entry_state s] by fastforce
qed

text \<open>Two ways through the graph: into the synthesis by an impasse, and into the exit for an empty stage A.\<close>

lemma scan_visit: "visit (st_id st_scan_project) {''args'', ''verifier_rejection_counts''}"
  using visit_entry by (simp add: entry_state_def st_scan_project_def)

lemma impasse_visit:
  "\<exists>F. visit ''synthesize_release_readiness'' F \<and> ''findings'' \<notin> F \<and> ''picked_leaves'' \<notin> F \<and> ''coverage_rule_violated'' \<notin> F"
proof -
  let ?F = "{''args'', ''verifier_rejection_counts''} \<union> set (st_outputs st_scan_project) \<union> set (st_outputs st_verifier_stuck)"
  have "visit (st_id st_verifier_stuck) ({''args'', ''verifier_rejection_counts''} \<union> set (st_outputs st_scan_project))"
    by (rule visit_step [OF scan_visit]) (simp_all add: spec_states_def targets_def st_scan_project_def st_verifier_stuck_def)
  then have "visit ''synthesize_release_readiness'' ?F"
    by (rule visit_step) (simp_all add: spec_states_def targets_def st_verifier_stuck_def)
  then show ?thesis
    by (intro exI [of _ ?F]) (simp add: st_scan_project_def st_verifier_stuck_def)
qed

lemma activation_visit: "\<exists>F. visit ''stage_a_empty'' F \<and> ''stage_a_candidates'' \<notin> F"
proof -
  let ?F = "{''args'', ''verifier_rejection_counts''} \<union> set (st_outputs st_scan_project) \<union> set (st_outputs st_risk_tier_triage)"
  have "visit (st_id st_risk_tier_triage) ({''args'', ''verifier_rejection_counts''} \<union> set (st_outputs st_scan_project))"
    by (rule visit_step [OF scan_visit]) (simp_all add: spec_states_def targets_def st_scan_project_def st_risk_tier_triage_def)
  then have "visit (st_id st_activate_leaves) ?F"
    by (rule visit_step) (simp_all add: spec_states_def targets_def st_risk_tier_triage_def st_activate_leaves_def)
  then have "visit ''stage_a_empty'' (?F \<union> set (st_outputs st_activate_leaves))"
    by (rule visit_step) (simp_all add: spec_states_def targets_def st_activate_leaves_def)
  then show ?thesis
    by (intro exI [of _ "?F \<union> set (st_outputs st_activate_leaves)"])
      (simp add: st_scan_project_def st_risk_tier_triage_def st_activate_leaves_def)
qed

subsection \<open>Properties\<close>

text \<open>
  The specification is well formed: the state ids are distinct, every transition leads
  to a declared state, a state without transitions is the terminal one and every other state
  ends its transitions with an unconditional one, and the inline states name exactly the
  registered handler ids, each once and in the order of the enumeration.
\<close>

theorem spec_well_formed:
  "distinct get_state_ids
   \<and> entry_state \<in> set get_state_ids
   \<and> list_all (\<lambda>st. set (targets st) \<subseteq> set get_state_ids) spec_states
   \<and> list_all (\<lambda>st. if st_kind st = Terminal then st_transitions st = []
        else st_transitions st \<noteq> [] \<and> snd (last (st_transitions st)) = None) spec_states
   \<and> get_handler_ids = all_handler_ids"
proof (intro conjI)
  show "distinct get_state_ids" unfolding state_ids by code_simp
  show "entry_state \<in> set get_state_ids" unfolding state_ids entry_state_def by simp
  show "list_all (\<lambda>st. set (targets st) \<subseteq> set get_state_ids) spec_states"
    unfolding list_all_iff by (auto dest: flowI [THEN flow_target])
  show "list_all (\<lambda>st. if st_kind st = Terminal then st_transitions st = []
        else st_transitions st \<noteq> [] \<and> snd (last (st_transitions st)) = None) spec_states"
    by (simp add: spec_states_def state_defs)
  show "get_handler_ids = all_handler_ids"
    by (simp add: get_handler_ids_def all_handler_ids_def spec_states_def state_defs)
qed

text \<open>
  C20: every run reaches the terminal state: whatever the predicates evaluate to, a run
  makes at most fifteen transitions, it can leave every state but the terminal one, and every
  state of the specification is on some run.
\<close>

theorem runs_terminate:
  "((flow ^^ n) entry_state t \<longrightarrow> n \<le> 15 \<and> t \<in> set get_state_ids \<and> (t = ''terminal'' \<or> (\<exists>u. flow t u)))
   \<and> (s \<in> set get_state_ids \<longrightarrow> flow\<^sup>*\<^sup>* entry_state s)"
proof (intro conjI impI)
  assume run: "(flow ^^ n) entry_state t"
  have entry: "entry_state \<in> set get_state_ids" unfolding state_ids entry_state_def by simp
  show "n \<le> 15" using pipeline.run_bounded [OF run entry] by simp
  show "t \<in> set get_state_ids" using run entry by (rule pipeline.run_inv)
  show "t = ''terminal'' \<or> (\<exists>u. flow t u)" using run entry by (rule pipeline.run_not_stuck)
qed (rule reach_all)

theorem runs_terminate_witness:
  "flow\<^sup>*\<^sup>* entry_state ''emit_stdout'' \<and> \<not> (flow ^^ 16) entry_state ''terminal''"
proof -
  have "''emit_stdout'' \<in> set get_state_ids" unfolding state_ids by simp
  then show ?thesis
    using runs_terminate [of 16 "''terminal''" "''emit_stdout''"] by simp
qed



text \<open>
  The impasse is a way into the synthesis that skips its preconditions: from the very
  first state a run can reach the verdict with no findings, no picked leaves and no coverage
  committed.
\<close>

theorem synthesis_without_findings:
  "\<exists>F. visit ''synthesize_release_readiness'' F \<and> ''findings'' \<notin> F \<and> ''picked_leaves'' \<notin> F \<and> ''coverage_rule_violated'' \<notin> F
     \<and> {''findings'', ''picked_leaves''} \<subseteq> set (expected_fields st_synthesize_release_readiness)"
proof -
  have "list_all (List.member (expected_fields st_synthesize_release_readiness)) [''findings'', ''picked_leaves'']"
    by code_simp
  then show ?thesis using impasse_visit by simp
qed

end
