(* ===== verification/Cost.thy ===== *)
theory Cost
  imports PyValue
begin

section \<open>Per-call cost stamps\<close>

text \<open>
  \<^verbatim>\<open>code_review/cost.py\<close>: the price table, the token estimate, the proxy cost, the reading of
  a usage block and the stamp that the dispatch layer puts on an output. Amounts are exact
  rationals, so the rounding of binary floats is not modelled; converting an integer beyond
  the range of a double, or a non-finite float to an integer, raises as in Python.
\<close>

subsection \<open>Prices\<close>

record price_row =
  price_in :: rat
  price_out :: rat
  price_cache_write :: rat
  price_cache_read :: rat

definition per_mtok :: rat where "per_mtok = 1000000"

text \<open>\<^verbatim>\<open>_row\<close>, with the cache multipliers on the input rate.\<close>

definition row_of :: "rat \<Rightarrow> rat \<Rightarrow> price_row" where
  "row_of in_per_mtok out_per_mtok =
     (let in_tok = in_per_mtok / per_mtok; out_tok = out_per_mtok / per_mtok in
      \<lparr>price_in = in_tok, price_out = out_tok,
       price_cache_write = in_tok * (5 / 4), price_cache_read = in_tok * (1 / 10)\<rparr>)"

definition price_table :: "(string \<times> price_row) list" where
  "price_table = [(''strong'', row_of 5 25), (''cheap'', row_of 3 15)]"

definition price :: "string \<Rightarrow> price_row" where
  "price tier = (case map_of price_table tier of Some r \<Rightarrow> r | None \<Rightarrow> row_of 3 15)"

subsection \<open>Estimates\<close>

definition est_tokens_from_chars :: "string \<Rightarrow> int" where
  "est_tokens_from_chars text = (if text = [] then 0 else \<lceil>(of_nat (str_len text) :: rat) / 4\<rceil>)"

text \<open>An integer times a float: the integer is converted first.\<close>

definition times_price :: "int \<Rightarrow> rat \<Rightarrow> rat res" where
  "times_price n p = (if float_limit \<le> \<bar>of_int n\<bar> then Inl OverflowError else Inr (of_int n * p))"

definition est_cost :: "string \<Rightarrow> int \<Rightarrow> int \<Rightarrow> int \<Rightarrow> int \<Rightarrow> rat res" where
  "est_cost tier in_tokens out_tokens cache_write cache_read =
     (let p = price tier in
      bindE (times_price in_tokens (price_in p)) (\<lambda>a.
      bindE (times_price out_tokens (price_out p)) (\<lambda>b.
      bindE (times_price cache_write (price_cache_write p)) (\<lambda>c.
      bindE (times_price cache_read (price_cache_read p)) (\<lambda>d. Inr (a + b + c + d))))))"

subsection \<open>Usage\<close>

definition as_int :: "pyval \<Rightarrow> int option res" where
  "as_int v = (case v of VInt i \<Rightarrow> Inr (Some i)
     | VFloat f \<Rightarrow> bindE (int_of_float f) (\<lambda>i. Inr (Some i)) | _ \<Rightarrow> Inr None)"

text \<open>\<^verbatim>\<open>_as_int(v) or 0\<close>.\<close>

definition int_or_zero :: "pyval \<Rightarrow> int res" where
  "int_or_zero v = bindE (as_int v) (\<lambda>r. Inr (case r of None \<Rightarrow> 0 | Some i \<Rightarrow> i))"

text \<open>A number but no boolean, as a float; \<^verbatim>\<open>None\<close> otherwise.\<close>

definition float_or_none :: "pyval \<Rightarrow> pyval res" where
  "float_or_none v = (case v of VInt _ \<Rightarrow> bindE (py_float v) (\<lambda>f. Inr (VFloat f))
     | VFloat f \<Rightarrow> Inr v | _ \<Rightarrow> Inr VNone)"

definition usage_from_envelope :: "pyval \<Rightarrow> dict option res" where
  "usage_from_envelope env = (case env of
     VDict e \<Rightarrow>
       (let usage = dget e ''usage''; cost = dget e ''total_cost_usd'' in
        if \<not> is_dict usage \<and> num_of cost = None then Inr None
        else (let u = ensure_dict usage in
          bindE (int_or_zero (dget u ''input_tokens'')) (\<lambda>i.
          bindE (int_or_zero (dget u ''output_tokens'')) (\<lambda>out.
          bindE (int_or_zero (dget u ''cache_creation_input_tokens'')) (\<lambda>cw.
          bindE (int_or_zero (dget u ''cache_read_input_tokens'')) (\<lambda>cr.
          bindE (float_or_none cost) (\<lambda>c.
          Inr (Some [(''in_tokens'', VInt i), (''out_tokens'', VInt out), (''cache_create'', VInt cw),
                     (''cache_read'', VInt cr), (''cost_usd'', c)]))))))))
   | _ \<Rightarrow> Inr None)"

text \<open>The four token counts and the billed cost of a call, from its usage or by estimate.\<close>

definition call_tokens :: "dict option \<Rightarrow> string \<Rightarrow> string \<Rightarrow> (int \<times> int \<times> int \<times> int \<times> pyval) res" where
  "call_tokens usage prompt response_text = (case usage of
     Some u \<Rightarrow>
       bindE (int_or_zero (dget u ''in_tokens'')) (\<lambda>i.
       bindE (int_or_zero (dget u ''out_tokens'')) (\<lambda>out.
       bindE (int_or_zero (dget u ''cache_create'')) (\<lambda>cw.
       bindE (int_or_zero (dget u ''cache_read'')) (\<lambda>cr.
       bindE (float_or_none (dget u ''cost_usd'')) (\<lambda>cost_usd.
       if i = 0 \<and> out = 0 \<and> cw = 0 \<and> cr = 0 \<and> (prompt \<noteq> [] \<or> response_text \<noteq> [])
       then Inr (est_tokens_from_chars prompt, est_tokens_from_chars response_text, cw, cr, cost_usd)
       else Inr (i, out, cw, cr, cost_usd))))))
   | None \<Rightarrow> Inr (est_tokens_from_chars prompt, est_tokens_from_chars response_text, 0, 0, VNone))"

definition call_cost_fields :: "string \<Rightarrow> dict option \<Rightarrow> string \<Rightarrow> string \<Rightarrow> dict res" where
  "call_cost_fields tier usage prompt response_text =
     bindE (call_tokens usage prompt response_text) (\<lambda>(i, out, cw, cr, cost_usd).
     bindE (est_cost tier i out cw cr) (\<lambda>c.
     Inr [(''tier'', VStr tier), (''tokens_in'', VInt i), (''tokens_out'', VInt out),
          (''cache_create'', VInt cw), (''cache_read'', VInt cr), (''cost_usd'', cost_usd),
          (''est_cost'', VFloat (Fin c))]))"

subsection \<open>Lemmas\<close>

lemma est_tokens_pos: "0 < str_len text \<Longrightarrow> 0 < est_tokens_from_chars text"
  by (auto simp: est_tokens_from_chars_def str_len_def)

lemma est_tokens_nonneg: "0 \<le> est_tokens_from_chars text"
  by (simp add: est_tokens_from_chars_def order_less_le_trans [of "-1" 0])

lemma price_pos:
  "0 < price_in (price tier)" "0 < price_out (price tier)"
  "0 < price_cache_write (price tier)" "0 < price_cache_read (price tier)"
  by (auto simp: price_def price_table_def row_of_def per_mtok_def Let_def split: if_splits)

lemma est_cost_value:
  assumes "est_cost tier i out cw cr = Inr c"
  shows "c = of_int i * price_in (price tier) + of_int out * price_out (price tier)
    + of_int cw * price_cache_write (price tier) + of_int cr * price_cache_read (price tier)"
  using assms by (auto simp: est_cost_def times_price_def Let_def res_simps split: if_splits)

lemma est_cost_pos:
  assumes "est_cost tier i out cw cr = Inr c" "0 \<le> i" "0 \<le> out" "0 \<le> cw" "0 \<le> cr"
    and "0 < i \<or> 0 < out \<or> 0 < cw \<or> 0 < cr"
  shows "0 < c"
proof -
  have "0 \<le> of_int n * p" if "0 \<le> n" "0 < p" for n :: int and p :: rat
    using that by (intro mult_nonneg_nonneg) auto
  moreover have "0 < of_int n * p" if "0 < n" "0 < p" for n :: int and p :: rat
    using that by simp
  ultimately show ?thesis
    unfolding est_cost_value [OF assms(1)] using assms(2-) price_pos [of tier]
    by (metis add_nonneg_pos add_pos_nonneg add_nonneg_nonneg)
qed

text \<open>
  A malformed count does not always degrade to zero: a \<^verbatim>\<open>NaN\<close> count, which \<^verbatim>\<open>json.loads\<close>
  accepts, raises out of the envelope reader and out of the stamp.
\<close>

lemma nan_count_raises:
  "usage_from_envelope (VDict [(''usage'', VDict [(''input_tokens'', VFloat FNaN)])]) = Inl ValueError
   \<and> call_cost_fields tier (Some [(''in_tokens'', VFloat FNaN)]) prompt text = Inl ValueError"
  by (simp add: usage_from_envelope_def call_cost_fields_def call_tokens_def is_dict_def ensure_dict_def
      int_or_zero_def as_int_def int_of_float_def Let_def)

lemma int_or_zero_nonneg:
  "int_or_zero v = Inr i \<Longrightarrow> \<not> (\<exists>n. as_int v = Inr (Some n) \<and> n < 0) \<Longrightarrow> 0 \<le> i"
  by (auto simp: int_or_zero_def res_simps split: option.splits)

definition token_keys :: "string list" where
  "token_keys = [''in_tokens'', ''out_tokens'', ''cache_create'', ''cache_read'']"

text \<open>No token count of the usage is negative.\<close>

definition counts_nonneg :: "dict option \<Rightarrow> bool" where
  "counts_nonneg usage \<longleftrightarrow>
     (case usage of None \<Rightarrow> True
      | Some u \<Rightarrow> list_all (\<lambda>k. case as_int (dget u k) of Inr (Some n) \<Rightarrow> 0 \<le> n | _ \<Rightarrow> True) token_keys)"

lemma call_tokens_nonneg:
  assumes "call_tokens usage prompt text = Inr (i, out, cw, cr, c)" "counts_nonneg usage"
    and "0 < str_len prompt \<or> 0 < str_len text"
  shows "0 \<le> i \<and> 0 \<le> out \<and> 0 \<le> cw \<and> 0 \<le> cr \<and> (0 < i \<or> 0 < out \<or> 0 < cw \<or> 0 < cr)"
proof -
  have some: "prompt \<noteq> [] \<or> text \<noteq> []" using assms(3) by (auto simp: str_len_def)
  have est: "0 < est_tokens_from_chars prompt \<or> 0 < est_tokens_from_chars text"
    using assms(3) est_tokens_pos by auto
  show ?thesis
  proof (cases usage)
    case None
    with assms(1) est show ?thesis by (auto simp: call_tokens_def est_tokens_nonneg)
  next
    case (Some u)
    have nn: "int_or_zero (dget u k) = Inr n \<Longrightarrow> 0 \<le> n" if "k \<in> set token_keys" for k n
      using assms(2) that
      by (auto simp: counts_nonneg_def Some list_all_iff intro!: int_or_zero_nonneg split: sum.splits option.splits)
    from assms(1) obtain i' out' cw' cr' where
        n: "int_or_zero (dget u ''in_tokens'') = Inr i'" "int_or_zero (dget u ''out_tokens'') = Inr out'"
          "int_or_zero (dget u ''cache_create'') = Inr cw'" "int_or_zero (dget u ''cache_read'') = Inr cr'"
      and r: "(i, out, cw, cr) = (if i' = 0 \<and> out' = 0 \<and> cw' = 0 \<and> cr' = 0
          then (est_tokens_from_chars prompt, est_tokens_from_chars text, cw', cr') else (i', out', cw', cr'))"
      using some by (auto simp: call_tokens_def Some res_simps split: if_splits)
    have "0 \<le> i'" "0 \<le> out'" "0 \<le> cw'" "0 \<le> cr'"
      using n nn by (auto simp: token_keys_def)
    with r est show ?thesis by (auto simp: est_tokens_nonneg split: if_splits)
  qed
qed

subsection \<open>Properties\<close>

text \<open>
  A real call never looks free: whatever usage block a backend hands over, as long as no
  count in it is negative, the stamp of a call with a non-empty prompt or response carries a
  positive proxy cost, computed from the token counts the stamp shows at the prices of its
  tier; without a usage block the counts are the estimate and no billed cost is claimed.
\<close>

theorem cost_stamp_positive:
  assumes "call_cost_fields tier usage prompt text = Inr out"
    and "counts_nonneg usage" "0 < str_len prompt \<or> 0 < str_len text"
  shows "\<exists>i t cw cr c. dget out ''tokens_in'' = VInt i \<and> dget out ''tokens_out'' = VInt t
    \<and> dget out ''cache_create'' = VInt cw \<and> dget out ''cache_read'' = VInt cr
    \<and> dget out ''est_cost'' = VFloat (Fin c) \<and> 0 < c
    \<and> c = of_int i * price_in (price tier) + of_int t * price_out (price tier)
        + of_int cw * price_cache_write (price tier) + of_int cr * price_cache_read (price tier)
    \<and> (usage = None \<longrightarrow> i = est_tokens_from_chars prompt \<and> t = est_tokens_from_chars text
         \<and> dget out ''cost_usd'' = VNone)"
proof -
  from assms(1) obtain i t cw cr usd c where
      tok: "call_tokens usage prompt text = Inr (i, t, cw, cr, usd)" and c: "est_cost tier i t cw cr = Inr c"
    and out: "out = [(''tier'', VStr tier), (''tokens_in'', VInt i), (''tokens_out'', VInt t),
          (''cache_create'', VInt cw), (''cache_read'', VInt cr), (''cost_usd'', usd), (''est_cost'', VFloat (Fin c))]"
    by (auto simp: call_cost_fields_def res_simps)
  have "0 < c" using call_tokens_nonneg [OF tok assms(2,3)] by (intro est_cost_pos [OF c]) auto
  moreover have "usage = None \<Longrightarrow> i = est_tokens_from_chars prompt \<and> t = est_tokens_from_chars text \<and> usd = VNone"
    using tok by (simp add: call_tokens_def)
  ultimately show ?thesis using est_cost_value [OF c] by (simp add: out)
qed

theorem cost_stamp_positive_witness:
  "\<exists>out c. call_cost_fields ''strong'' (Some [(''cost_usd'', VInt 2)]) ''Review'' [] = Inr out
     \<and> dget out ''est_cost'' = VFloat (Fin c) \<and> 0 < c"
proof -
  have len: "str_len ''Review'' = 6" by (simp add: str_len_def continues_def)
  then have est: "est_tokens_from_chars ''Review'' = 2" by (simp add: est_tokens_from_chars_def ceiling_eq_iff)
  have zero: "est_tokens_from_chars [] = 0" by (simp add: est_tokens_from_chars_def)
  have fl: "\<not> float_limit \<le> 2" "\<not> float_limit \<le> 0" by (simp_all add: float_limit_def)
  obtain out where out: "call_cost_fields ''strong'' (Some [(''cost_usd'', VInt 2)]) ''Review'' [] = Inr out"
    using fl by (simp add: call_cost_fields_def call_tokens_def int_or_zero_def as_int_def float_or_none_def
        py_float_def est est_cost_def times_price_def zero Let_def)
  moreover have "counts_nonneg (Some [(''cost_usd'', VInt 2)])"
    by (simp add: counts_nonneg_def token_keys_def as_int_def)
  ultimately show ?thesis
    using cost_stamp_positive [OF out] len by auto
qed

end
