(* ===== verification/Limiter.thy ===== *)
theory Limiter
  imports Prelude
begin

section \<open>The adaptive limiter and the dispatch pool\<close>

text \<open>
  \<^verbatim>\<open>_AdaptiveLimiter\<close> of \<^verbatim>\<open>code_review/runner.py\<close> as a record with its four operations, and the
  thread pool of \<^verbatim>\<open>_dispatch_units\<close> as a step relation: workers take units from the queue and
  each runs the loop of \<^verbatim>\<open>_dispatch_one\<close>. A step is one critical section of the limiter's
  lock, so steps of different workers interleave as the lock allows. What a dispatch call
  does is any of its four outcomes. The model of the values returned is in \<open>Runner\<close>.
\<close>

subsection \<open>The limiter\<close>

record limiter =
  lm_limit :: int
  lm_max :: int
  lm_min :: int
  lm_inflight :: int
  lm_stats_min :: int
  lm_stats_max :: int

definition limiter_init :: "int \<Rightarrow> int \<Rightarrow> limiter" where
  "limiter_init limit minimum =
     \<lparr>lm_limit = limit, lm_max = limit, lm_min = max 1 minimum, lm_inflight = 0,
      lm_stats_min = limit, lm_stats_max = limit\<rparr>"

text \<open>The wait of \<^verbatim>\<open>acquire\<close> ends when this holds.\<close>

definition can_acquire :: "limiter \<Rightarrow> bool" where
  "can_acquire l \<longleftrightarrow> \<not> lm_limit l \<le> lm_inflight l"

definition acquire :: "limiter \<Rightarrow> limiter" where
  "acquire l = l\<lparr>lm_inflight := lm_inflight l + 1\<rparr>"

definition release :: "limiter \<Rightarrow> limiter" where
  "release l = l\<lparr>lm_inflight := lm_inflight l - 1\<rparr>"

definition penalize :: "limiter \<Rightarrow> limiter" where
  "penalize l = (let limit = max (lm_min l) (lm_limit l div 2) in
     l\<lparr>lm_limit := limit, lm_stats_min := min (lm_stats_min l) limit\<rparr>)"

definition reward :: "limiter \<Rightarrow> limiter" where
  "reward l = (if lm_limit l < lm_max l
     then (let limit = lm_limit l + 1 in l\<lparr>lm_limit := limit, lm_stats_max := max (lm_stats_max l) limit\<rparr>)
     else l)"

subsection \<open>The pool\<close>

text \<open>
  A task is the file list of a unit, or of a part of one, with the attempts made on it. A
  worker holds the tasks of the unit it runs, innermost first: an overflow replaces the
  first by its two halves, which the recursion dispatches one after the other.
\<close>

datatype call_outcome = Answered | RateLimited | Overflowed | Crashed

datatype phase = Idle | Calling | Released call_outcome

type_synonym 'f task = "'f list \<times> nat"

record 'f worker =
  wk_phase :: phase
  wk_tasks :: "'f task list"

text \<open>The log holds every file list that was settled, and whether a specialist answered it.\<close>

record 'f pool =
  pl_limiter :: limiter
  pl_workers :: "'f worker list"
  pl_queue :: "'f list list"
  pl_log :: "('f list \<times> bool) list"

text \<open>After an exception: another attempt, or a failed task when the retries are spent.\<close>

definition retry :: "nat \<Rightarrow> 'f list \<Rightarrow> nat \<Rightarrow> 'f task list \<times> ('f list \<times> bool) list" where
  "retry max_retries fs a = (if max_retries < a + 1 then ([], [(fs, False)]) else ([(fs, a + 1)], []))"

definition halves :: "'f list \<Rightarrow> 'f list \<times> 'f list" where
  "halves fs = (take (length fs div 2) fs, drop (length fs div 2) fs)"

text \<open>What the loop does after the release: the limiter, the tasks that replace the current
  one, and the file lists settled.\<close>

fun settle :: "nat \<Rightarrow> call_outcome \<Rightarrow> limiter \<Rightarrow> 'f list \<Rightarrow> nat \<Rightarrow> limiter \<times> 'f task list \<times> ('f list \<times> bool) list" where
  "settle R Answered l fs a = (reward l, [], [(fs, True)])"
| "settle R RateLimited l fs a = (penalize l, retry R fs a)"
| "settle R Crashed l fs a = (l, retry R fs a)"
| "settle R Overflowed l fs a =
     (if length fs \<le> 1 then (l, [], [(fs, False)])
      else (l, [(fst (halves fs), 0), (snd (halves fs), 0)], []))"

inductive pool_step :: "nat \<Rightarrow> 'f pool \<Rightarrow> 'f pool \<Rightarrow> bool" for R :: nat where
  start: "i < length (pl_workers p) \<Longrightarrow> pl_workers p ! i = \<lparr>wk_phase = Idle, wk_tasks = []\<rparr> \<Longrightarrow>
    pl_queue p = fs # q \<Longrightarrow>
    pool_step R p (p\<lparr>pl_workers := (pl_workers p)[i := \<lparr>wk_phase = Idle, wk_tasks = [(fs, 0)]\<rparr>], pl_queue := q\<rparr>)"
| acquire: "i < length (pl_workers p) \<Longrightarrow> pl_workers p ! i = \<lparr>wk_phase = Idle, wk_tasks = t # ts\<rparr> \<Longrightarrow>
    can_acquire (pl_limiter p) \<Longrightarrow>
    pool_step R p (p\<lparr>pl_limiter := Limiter.acquire (pl_limiter p),
      pl_workers := (pl_workers p)[i := \<lparr>wk_phase = Calling, wk_tasks = t # ts\<rparr>]\<rparr>)"
| release: "i < length (pl_workers p) \<Longrightarrow> pl_workers p ! i = \<lparr>wk_phase = Calling, wk_tasks = t # ts\<rparr> \<Longrightarrow>
    pool_step R p (p\<lparr>pl_limiter := Limiter.release (pl_limiter p),
      pl_workers := (pl_workers p)[i := \<lparr>wk_phase = Released oc, wk_tasks = t # ts\<rparr>]\<rparr>)"
| settle: "i < length (pl_workers p) \<Longrightarrow>
    pl_workers p ! i = \<lparr>wk_phase = Released oc, wk_tasks = (fs, a) # ts\<rparr> \<Longrightarrow>
    settle R oc (pl_limiter p) fs a = (l, new, entries) \<Longrightarrow>
    pool_step R p (p\<lparr>pl_limiter := l, pl_workers := (pl_workers p)[i := \<lparr>wk_phase = Idle, wk_tasks = new @ ts\<rparr>],
      pl_log := pl_log p @ entries\<rparr>)"

definition pool_init :: "nat \<Rightarrow> int \<Rightarrow> 'f list list \<Rightarrow> 'f pool" where
  "pool_init max_workers min_workers units =
     \<lparr>pl_limiter = limiter_init (int max_workers) min_workers,
      pl_workers = replicate max_workers \<lparr>wk_phase = Idle, wk_tasks = []\<rparr>,
      pl_queue = units, pl_log = []\<rparr>"

definition pool_done :: "'f pool \<Rightarrow> bool" where
  "pool_done p \<longleftrightarrow> pl_queue p = [] \<and> list_all (\<lambda>w. wk_phase w = Idle \<and> wk_tasks w = []) (pl_workers p)"

subsection \<open>Invariants\<close>

definition limiter_ok :: "limiter \<Rightarrow> bool" where
  "limiter_ok l \<longleftrightarrow> 1 \<le> lm_min l \<and> lm_min l \<le> lm_limit l \<and> lm_limit l \<le> lm_max l
     \<and> lm_stats_min l \<le> lm_limit l \<and> lm_min l \<le> lm_stats_min l \<and> lm_stats_max l = lm_max l"

lemma limiter_init_ok: "1 \<le> limit \<Longrightarrow> minimum \<le> limit \<Longrightarrow> limiter_ok (limiter_init limit minimum)"
  by (simp add: limiter_ok_def limiter_init_def)

lemma limiter_ops_ok:
  "limiter_ok l \<Longrightarrow> limiter_ok (acquire l)" "limiter_ok l \<Longrightarrow> limiter_ok (release l)"
  "limiter_ok l \<Longrightarrow> limiter_ok (reward l)" "limiter_ok l \<Longrightarrow> limiter_ok (penalize l)"
  by (auto simp: limiter_ok_def acquire_def release_def reward_def penalize_def Let_def)

lemma limiter_ops_frame [simp]:
  "lm_inflight (acquire l) = lm_inflight l + 1" "lm_inflight (release l) = lm_inflight l - 1"
  "lm_inflight (reward l) = lm_inflight l" "lm_inflight (penalize l) = lm_inflight l"
  "lm_max (acquire l) = lm_max l" "lm_max (release l) = lm_max l"
  "lm_max (reward l) = lm_max l" "lm_max (penalize l) = lm_max l"
  by (simp_all add: acquire_def release_def reward_def penalize_def Let_def)

lemma sum_map_update:
  fixes f :: "'a \<Rightarrow> 'b :: comm_monoid_add"
  shows "i < length xs \<Longrightarrow> sum_list (map f (xs[i := y])) + f (xs ! i) = sum_list (map f xs) + f y"
  by (induction xs arbitrary: i) (auto simp: ac_simps split: nat.splits)

definition live_calls :: "'f worker list \<Rightarrow> int" where
  "live_calls ws = sum_list (map (\<lambda>w. if wk_phase w = Calling then 1 else 0) ws)"

definition task_files :: "'f worker \<Rightarrow> 'f multiset" where
  "task_files w = mset (concat (map fst (wk_tasks w)))"

text \<open>Every file the pool knows of: settled, in a worker's tasks or queued.\<close>

definition pool_files :: "'f pool \<Rightarrow> 'f multiset" where
  "pool_files p = mset (concat (map fst (pl_log p))) + sum_list (map task_files (pl_workers p))
     + mset (concat (pl_queue p))"

definition worker_ok :: "nat \<Rightarrow> 'f worker \<Rightarrow> bool" where
  "worker_ok R w \<longleftrightarrow> (wk_phase w \<noteq> Idle \<longrightarrow> wk_tasks w \<noteq> []) \<and> (\<forall>(fs, a)\<in>set (wk_tasks w). a \<le> R)"

definition pool_inv :: "nat \<Rightarrow> nat \<Rightarrow> 'f list list \<Rightarrow> 'f pool \<Rightarrow> bool" where
  "pool_inv R w units p \<longleftrightarrow> limiter_ok (pl_limiter p) \<and> lm_max (pl_limiter p) = int w
     \<and> length (pl_workers p) = w \<and> lm_inflight (pl_limiter p) = live_calls (pl_workers p)
     \<and> (\<forall>v\<in>set (pl_workers p). worker_ok R v) \<and> pool_files p = mset (concat units)"

lemma live_calls_update:
  "i < length ws \<Longrightarrow> live_calls (ws[i := v]) =
     live_calls ws - (if wk_phase (ws ! i) = Calling then 1 else 0) + (if wk_phase v = Calling then 1 else 0)"
  using sum_map_update [of i ws "\<lambda>w. if wk_phase w = Calling then 1 else 0 :: int" v]
  by (simp add: live_calls_def)

lemma live_calls_bounds: "0 \<le> live_calls ws \<and> live_calls ws \<le> int (length ws)"
  by (induction ws) (auto simp: live_calls_def)

lemma live_calls_zero: "(\<forall>v\<in>set ws. wk_phase v \<noteq> Calling) \<Longrightarrow> live_calls ws = 0"
  by (induction ws) (auto simp: live_calls_def)

lemma set_update_cases: "v \<in> set (xs[i := y]) \<Longrightarrow> v \<in> set xs \<or> v = y"
  using set_update_subset_insert by fastforce

lemma halves_files: "mset (fst (halves fs)) + mset (snd (halves fs)) = mset fs"
  unfolding halves_def fst_conv snd_conv mset_append [symmetric] append_take_drop_id ..

lemma retry_files:
  "retry R fs a = (new, entries) \<Longrightarrow> mset (concat (map fst new)) + mset (concat (map fst entries)) = mset fs"
  by (auto simp: retry_def split: if_splits)

lemma settle_files:
  "settle R oc l fs a = (l', new, entries) \<Longrightarrow>
     mset (concat (map fst new)) + mset (concat (map fst entries)) = mset fs"
  by (cases oc) (auto simp: halves_files retry_files split: if_splits)

lemma settle_attempts: "settle R oc l fs a = (l', new, entries) \<Longrightarrow> \<forall>(gs, b)\<in>set new. b \<le> R"
  by (cases oc) (auto simp: retry_def split: if_splits)

lemma settle_limiter:
  "settle R oc l fs a = (l', new, entries) \<Longrightarrow> limiter_ok l \<Longrightarrow>
     limiter_ok l' \<and> lm_inflight l' = lm_inflight l \<and> lm_max l' = lm_max l"
  by (cases oc) (auto simp: limiter_ops_ok split: if_splits)

lemma sum_list_all_empty: "(\<forall>x\<in>set xs. f x = {#}) \<Longrightarrow> sum_list (map f xs) = {#}"
  by (induction xs) simp_all

lemma sum_replicate_empty: "sum_list (replicate n {#}) = {#}"
  by (induction n) simp_all

lemma pool_init_inv:
  assumes "1 \<le> w" "m \<le> int w"
  shows "pool_inv R w units (pool_init w m units)"
  using assms limiter_init_ok [of "int w" m]
  by (auto simp: pool_inv_def pool_init_def limiter_init_def live_calls_def pool_files_def task_files_def
      worker_ok_def sum_list_replicate sum_replicate_empty)

lemma exchange:
  fixes l :: "'a :: cancel_comm_monoid_add"
  assumes "w' + t = w + v" "l' + v + q' = l + t + q"
  shows "l' + w' + q' = l + w + q"
proof -
  have "(l' + w' + q') + t = (l' + q') + (w' + t)" by (simp only: ac_simps)
  also have "\<dots> = (l' + v + q') + w" unfolding assms(1) by (simp only: ac_simps)
  also have "\<dots> = (l + w + q) + t" unfolding assms(2) by (simp only: ac_simps)
  finally show ?thesis by (rule add_right_imp_eq)
qed

lemma pool_files_update:
  assumes "i < length (pl_workers p)"
    and "mset (concat (map fst lg)) + task_files v + mset (concat q)
      = mset (concat (map fst (pl_log p))) + task_files (pl_workers p ! i) + mset (concat (pl_queue p))"
  shows "pool_files (p\<lparr>pl_limiter := l, pl_workers := (pl_workers p)[i := v], pl_queue := q, pl_log := lg\<rparr>) = pool_files p"
  unfolding pool_files_def using exchange [OF sum_map_update [OF assms(1)] assms(2)] by simp

text \<open>One lemma for the four rules: a step replaces one worker, and the rest follows it.\<close>

lemma pool_update_inv:
  assumes "pool_inv R w units p" "i < length (pl_workers p)" "worker_ok R v"
    and "limiter_ok l" "lm_max l = lm_max (pl_limiter p)"
    and "lm_inflight l = lm_inflight (pl_limiter p)
      - (if wk_phase (pl_workers p ! i) = Calling then 1 else 0) + (if wk_phase v = Calling then 1 else 0)"
    and "mset (concat (map fst lg)) + task_files v + mset (concat q)
      = mset (concat (map fst (pl_log p))) + task_files (pl_workers p ! i) + mset (concat (pl_queue p))"
  shows "pool_inv R w units (p\<lparr>pl_limiter := l, pl_workers := (pl_workers p)[i := v], pl_queue := q, pl_log := lg\<rparr>)"
proof -
  have "\<forall>u\<in>set ((pl_workers p)[i := v]). worker_ok R u"
    using assms(1,3) by (auto simp: pool_inv_def dest!: set_update_cases)
  then show ?thesis
    using assms(1,4-6) pool_files_update [OF assms(2,7)] live_calls_update [OF assms(2), of v]
    by (simp add: pool_inv_def)
qed

lemma pool_invD:
  assumes "pool_inv R w units p"
  shows "limiter_ok (pl_limiter p)" "lm_max (pl_limiter p) = int w" "length (pl_workers p) = w"
    and "lm_inflight (pl_limiter p) = live_calls (pl_workers p)"
    and "v \<in> set (pl_workers p) \<Longrightarrow> worker_ok R v" and "pool_files p = mset (concat units)"
  using assms by (simp_all add: pool_inv_def)

lemma pool_step_inv:
  assumes "pool_step R p p'" "pool_inv R w units p"
  shows "pool_inv R w units p'"
  using assms(1)
proof (cases rule: pool_step.cases)
  case (start i fs q)
  have "pool_inv R w units (p\<lparr>pl_limiter := pl_limiter p,
      pl_workers := (pl_workers p)[i := \<lparr>wk_phase = Idle, wk_tasks = [(fs, 0)]\<rparr>], pl_queue := q, pl_log := pl_log p\<rparr>)"
    by (rule pool_update_inv [OF assms(2) start(2)])
      (simp_all add: start pool_invD(1) [OF assms(2)] worker_ok_def task_files_def)
  then show ?thesis unfolding start(1) by simp
next
  case (acquire i t ts)
  have "worker_ok R (pl_workers p ! i)" using acquire(2) by (intro pool_invD(5) [OF assms(2)] nth_mem)
  then have "pool_inv R w units (p\<lparr>pl_limiter := Limiter.acquire (pl_limiter p),
      pl_workers := (pl_workers p)[i := \<lparr>wk_phase = Calling, wk_tasks = t # ts\<rparr>], pl_queue := pl_queue p,
      pl_log := pl_log p\<rparr>)"
    by (intro pool_update_inv [OF assms(2) acquire(2)])
      (simp_all add: acquire limiter_ops_ok pool_invD(1) [OF assms(2)] worker_ok_def task_files_def)
  then show ?thesis unfolding acquire(1) by simp
next
  case (release i t ts oc)
  have "worker_ok R (pl_workers p ! i)" using release(2) by (intro pool_invD(5) [OF assms(2)] nth_mem)
  then have "pool_inv R w units (p\<lparr>pl_limiter := Limiter.release (pl_limiter p),
      pl_workers := (pl_workers p)[i := \<lparr>wk_phase = Released oc, wk_tasks = t # ts\<rparr>], pl_queue := pl_queue p,
      pl_log := pl_log p\<rparr>)"
    by (intro pool_update_inv [OF assms(2) release(2)])
      (simp_all add: release limiter_ops_ok pool_invD(1) [OF assms(2)] worker_ok_def task_files_def)
  then show ?thesis unfolding release(1) by simp
next
  case (settle i oc fs a ts l new entries)
  have old: "worker_ok R (pl_workers p ! i)" using settle(2) by (intro pool_invD(5) [OF assms(2)] nth_mem)
  note lim = settle_limiter [OF settle(4) pool_invD(1) [OF assms(2)]]
  have "worker_ok R \<lparr>wk_phase = Idle, wk_tasks = new @ ts\<rparr>"
    using old settle(3) settle_attempts [OF settle(4)] by (auto simp: worker_ok_def)
  moreover have "mset (concat (map fst (pl_log p @ entries))) + task_files \<lparr>wk_phase = Idle, wk_tasks = new @ ts\<rparr>
      = mset (concat (map fst (pl_log p))) + task_files (pl_workers p ! i)"
    unfolding settle(3) task_files_def using settle_files [OF settle(4)]
    by (simp add: ac_simps)
  ultimately have "pool_inv R w units (p\<lparr>pl_limiter := l,
      pl_workers := (pl_workers p)[i := \<lparr>wk_phase = Idle, wk_tasks = new @ ts\<rparr>], pl_queue := pl_queue p,
      pl_log := pl_log p @ entries\<rparr>)"
    using lim settle(3) by (intro pool_update_inv [OF assms(2) settle(2)]) simp_all
  then show ?thesis unfolding settle(1) by simp
qed

subsection \<open>Termination\<close>

text \<open>
  The calls a task can still cause: a file list of \<open>n\<close> files is cut at most \<open>n - 1\<close> times, and
  each of the \<open>2 n - 1\<close> parts is tried \<open>R + 1\<close> times.
\<close>

definition calls_left :: "nat \<Rightarrow> 'f task \<Rightarrow> nat" where
  "calls_left R = (\<lambda>(fs, a). (2 * max 1 (length fs) - 1) * (R + 1) - a)"

fun phase_weight :: "phase \<Rightarrow> nat" where
  "phase_weight Idle = 2"
| "phase_weight Calling = 1"
| "phase_weight (Released oc) = 0"

definition worker_weight :: "nat \<Rightarrow> 'f worker \<Rightarrow> nat" where
  "worker_weight R w = phase_weight (wk_phase w) + 3 * sum_list (map (calls_left R) (wk_tasks w))"

definition pool_measure :: "nat \<Rightarrow> 'f pool \<Rightarrow> nat" where
  "pool_measure R p = sum_list (map (worker_weight R) (pl_workers p))
     + sum_list (map (\<lambda>fs. 3 * calls_left R (fs, 0) + 1) (pl_queue p))"

lemma calls_left_pos: "a \<le> R \<Longrightarrow> 1 \<le> calls_left R (fs, a)"
proof -
  assume "a \<le> R"
  moreover have "1 * (R + 1) \<le> (2 * max 1 (length fs) - 1) * (R + 1)" by (rule mult_le_mono1) simp
  ultimately show ?thesis by (simp add: calls_left_def)
qed

lemma calls_left_split:
  assumes "1 < length fs" "a \<le> R"
  shows "calls_left R (fst (halves fs), 0) + calls_left R (snd (halves fs), 0) < calls_left R (fs, a)"
proof -
  define h k where "h = length fs div 2" and "k = length fs - length fs div 2"
  have hk: "1 \<le> h" "1 \<le> k" "length fs = h + k" using assms(1) by (auto simp: h_def k_def)
  have "length (fst (halves fs)) = h" "length (snd (halves fs)) = k"
    by (simp_all add: halves_def h_def k_def)
  then have "calls_left R (fst (halves fs), 0) + calls_left R (snd (halves fs), 0)
      = ((2 * h - 1) + (2 * k - 1)) * (R + 1)"
    using hk by (simp only: calls_left_def split_conv max_absorb2 add_mult_distrib diff_zero)
  also have "(2 * h - 1) + (2 * k - 1) = 2 * (h + k) - 2" using hk by simp
  also have "(2 * (h + k) - 2) * (R + 1) < (2 * (h + k) - 1) * (R + 1) - a"
  proof -
    have "2 * (h + k) - 1 = Suc (2 * (h + k) - 2)" using hk by simp
    then have "(2 * (h + k) - 1) * (R + 1) = (2 * (h + k) - 2) * (R + 1) + (R + 1)" by simp
    with assms(2) show ?thesis by simp
  qed
  also have "\<dots> = calls_left R (fs, a)" using hk by (simp add: calls_left_def)
  finally show ?thesis .
qed

lemma calls_left_again: "calls_left R (fs, a + 1) = calls_left R (fs, a) - 1"
  by (simp add: calls_left_def)

lemma calls_left_retry:
  assumes "a \<le> R" "retry R fs a = (new, entries)"
  shows "sum_list (map (calls_left R) new) < calls_left R (fs, a)"
proof -
  have "new = [] \<or> new = [(fs, a + 1)]" using assms(2) by (auto simp: retry_def split: if_splits)
  then show ?thesis using calls_left_pos [OF assms(1), of fs] calls_left_again [of R fs a] by auto
qed

lemma settle_calls_left:
  assumes "settle R oc l fs a = (l', new, entries)" "a \<le> R"
  shows "sum_list (map (calls_left R) new) < calls_left R (fs, a)"
proof (cases oc)
  case Answered
  with assms calls_left_pos [of a R fs] show ?thesis by auto
next
  case RateLimited
  with assms calls_left_retry [of a R fs new entries] show ?thesis by simp
next
  case Crashed
  with assms calls_left_retry [of a R fs new entries] show ?thesis by simp
next
  case Overflowed
  with assms calls_left_pos [of a R fs] calls_left_split [of fs a R] show ?thesis
    by (auto split: if_splits)
qed

lemma pool_measure_update:
  assumes "i < length (pl_workers p)"
    and "worker_weight R v + sum_list (map (\<lambda>fs. 3 * calls_left R (fs, 0) + 1) q)
      < worker_weight R (pl_workers p ! i) + sum_list (map (\<lambda>fs. 3 * calls_left R (fs, 0) + 1) (pl_queue p))"
  shows "pool_measure R (p\<lparr>pl_limiter := l, pl_workers := (pl_workers p)[i := v], pl_queue := q, pl_log := lg\<rparr>)
    < pool_measure R p"
  using sum_map_update [OF assms(1), of "worker_weight R" v] assms(2) by (simp add: pool_measure_def)

lemma pool_step_measure:
  assumes "pool_step R p p'" "pool_inv R w units p"
  shows "pool_measure R p' < pool_measure R p"
  using assms(1)
proof (cases rule: pool_step.cases)
  case (start i fs q)
  have "pool_measure R (p\<lparr>pl_limiter := pl_limiter p,
      pl_workers := (pl_workers p)[i := \<lparr>wk_phase = Idle, wk_tasks = [(fs, 0)]\<rparr>], pl_queue := q, pl_log := pl_log p\<rparr>)
      < pool_measure R p"
    by (rule pool_measure_update [OF start(2)]) (simp add: start worker_weight_def)
  then show ?thesis unfolding start(1) by simp
next
  case (acquire i t ts)
  have "pool_measure R (p\<lparr>pl_limiter := Limiter.acquire (pl_limiter p),
      pl_workers := (pl_workers p)[i := \<lparr>wk_phase = Calling, wk_tasks = t # ts\<rparr>], pl_queue := pl_queue p,
      pl_log := pl_log p\<rparr>) < pool_measure R p"
    by (rule pool_measure_update [OF acquire(2)]) (simp add: acquire worker_weight_def)
  then show ?thesis unfolding acquire(1) by simp
next
  case (release i t ts oc)
  have "pool_measure R (p\<lparr>pl_limiter := Limiter.release (pl_limiter p),
      pl_workers := (pl_workers p)[i := \<lparr>wk_phase = Released oc, wk_tasks = t # ts\<rparr>], pl_queue := pl_queue p,
      pl_log := pl_log p\<rparr>) < pool_measure R p"
    by (rule pool_measure_update [OF release(2)]) (simp add: release worker_weight_def)
  then show ?thesis unfolding release(1) by simp
next
  case (settle i oc fs a ts l new entries)
  have "worker_ok R (pl_workers p ! i)" using settle(2) by (intro pool_invD(5) [OF assms(2)] nth_mem)
  then have "a \<le> R" by (simp add: settle(3) worker_ok_def)
  from settle_calls_left [OF settle(4) this]
  have "pool_measure R (p\<lparr>pl_limiter := l,
      pl_workers := (pl_workers p)[i := \<lparr>wk_phase = Idle, wk_tasks = new @ ts\<rparr>], pl_queue := pl_queue p,
      pl_log := pl_log p @ entries\<rparr>) < pool_measure R p"
    by (intro pool_measure_update [OF settle(2)]) (simp add: settle(3) worker_weight_def)
  then show ?thesis unfolding settle(1) by simp
qed

text \<open>
  No deadlock: a worker past its call can always move on, and when every worker is idle no
  call is live, so the limit of at least one lets somebody in.
\<close>

lemma pool_step_progress:
  assumes "pool_inv R w units p" "\<not> pool_done p"
  shows "\<exists>p'. pool_step R p p'"
proof (cases "\<exists>i<length (pl_workers p). wk_phase (pl_workers p ! i) \<noteq> Idle")
  case True
  then obtain i where i: "i < length (pl_workers p)" and ph: "wk_phase (pl_workers p ! i) \<noteq> Idle" by blast
  have "worker_ok R (pl_workers p ! i)" using i by (intro pool_invD(5) [OF assms(1)] nth_mem)
  with ph obtain fs a ts where ts: "wk_tasks (pl_workers p ! i) = (fs, a) # ts"
    by (cases "wk_tasks (pl_workers p ! i)") (auto simp: worker_ok_def)
  show ?thesis
  proof (cases "wk_phase (pl_workers p ! i)")
    case Idle
    with ph show ?thesis by simp
  next
    case Calling
    then have "pl_workers p ! i = \<lparr>wk_phase = Calling, wk_tasks = (fs, a) # ts\<rparr>" using ts by simp
    from pool_step.release [OF i this] show ?thesis by blast
  next
    case (Released oc)
    then have v: "pl_workers p ! i = \<lparr>wk_phase = Released oc, wk_tasks = (fs, a) # ts\<rparr>" using ts by simp
    obtain l new entries where "settle R oc (pl_limiter p) fs a = (l, new, entries)"
      by (metis prod.exhaust)
    from pool_step.settle [OF i v this] show ?thesis by blast
  qed
next
  case False
  then have idle: "\<And>i. i < length (pl_workers p) \<Longrightarrow> wk_phase (pl_workers p ! i) = Idle" by blast
  then have "lm_inflight (pl_limiter p) = 0"
    unfolding pool_invD(4) [OF assms(1)] by (intro live_calls_zero) (auto simp: in_set_conv_nth)
  with pool_invD(1) [OF assms(1)] have free: "can_acquire (pl_limiter p)"
    by (auto simp: can_acquire_def limiter_ok_def)
  show ?thesis
  proof (cases "\<exists>i<length (pl_workers p). wk_tasks (pl_workers p ! i) \<noteq> []")
    case True
    then obtain i t ts where i: "i < length (pl_workers p)" and "wk_tasks (pl_workers p ! i) = t # ts"
      by (auto simp: neq_Nil_conv)
    then have "pl_workers p ! i = \<lparr>wk_phase = Idle, wk_tasks = t # ts\<rparr>" using idle by simp
    from pool_step.acquire [OF i this free] show ?thesis by blast
  next
    case False
    have "0 < length (pl_workers p)"
      using pool_invD(1-3) [OF assms(1)] by (simp add: limiter_ok_def)
    moreover from this False idle have "pl_workers p ! 0 = \<lparr>wk_phase = Idle, wk_tasks = []\<rparr>" by simp
    moreover have "pl_queue p \<noteq> []"
      using assms(2) False idle by (auto simp: pool_done_def list_all_iff in_set_conv_nth)
    then obtain fs q where "pl_queue p = fs # q" by (auto simp: neq_Nil_conv)
    ultimately show ?thesis using pool_step.start by blast
  qed
qed

interpretation pool: terminating_system "pool_step R" "pool_inv R w units" pool_done "pool_measure R"
  for R :: nat and w :: nat and units :: "'f list list"
  by unfold_locales (rule pool_step_inv pool_step_measure pool_step_progress; assumption)+

lemma pool_step_min: "pool_step R p p' \<Longrightarrow> lm_min (pl_limiter p') = lm_min (pl_limiter p)"
proof (induction rule: pool_step.induct)
  case (settle i p oc fs a ts l new entries)
  then show ?case
    by (cases oc) (auto simp: reward_def penalize_def Let_def split: if_splits)
qed (simp_all add: acquire_def release_def)

lemma pool_run_min: "(pool_step R ^^ n) p p' \<Longrightarrow> lm_min (pl_limiter p') = lm_min (pl_limiter p)"
  by (induction n arbitrary: p') (auto simp: pool_step_min)

lemma live_calls_count: "live_calls ws = int (count_if (\<lambda>w. wk_phase w = Calling) ws)"
  by (induction ws) (auto simp: live_calls_def)

lemma step_admits:
  "pool_step R p p' \<Longrightarrow> lm_inflight (pl_limiter p) < lm_inflight (pl_limiter p') \<Longrightarrow>
     lm_inflight (pl_limiter p') \<le> lm_limit (pl_limiter p')"
proof (induction rule: pool_step.induct)
  case (acquire i p t ts)
  then show ?case by (simp add: can_acquire_def) (simp add: Limiter.acquire_def)
next
  case (settle i p oc fs a ts l new entries)
  then show ?case by (cases oc) (auto split: if_splits)
qed simp_all

text \<open>
  A floor above the ceiling turns the back-off around: with \<open>min_workers\<close> above
  \<open>max_workers\<close> the first rate limit raises the limit beyond the ceiling.
\<close>

lemma floor_above_ceiling:
  "lm_max (limiter_init 2 8) = 2 \<and> lm_limit (penalize (limiter_init 2 8)) = 8"
  by (simp add: limiter_init_def penalize_def Let_def)

subsection \<open>Properties\<close>

text \<open>
  C10: however the workers interleave and whatever the calls do, the limit stays between the
  floor and \<^verbatim>\<open>max_workers\<close>, the limiter's count is the number of calls in flight, and there are
  never more of them than \<^verbatim>\<open>max_workers\<close>; a call is let in only up to the limit as it then
  stands; and the extremes reported bracket the limit.
\<close>

theorem pool_concurrency_bounds:
  assumes "(pool_step R ^^ n) (pool_init w m units) p" "1 \<le> w" "m \<le> int w"
  defines "l \<equiv> pl_limiter p"
  shows "max 1 m \<le> lm_limit l \<and> lm_limit l \<le> int w
    \<and> lm_inflight l = int (count_if (\<lambda>v. wk_phase v = Calling) (pl_workers p)) \<and> lm_inflight l \<le> int w
    \<and> max 1 m \<le> lm_stats_min l \<and> lm_stats_min l \<le> lm_limit l \<and> lm_stats_max l = int w
    \<and> (\<forall>p'. pool_step R p p' \<and> lm_inflight l < lm_inflight (pl_limiter p') \<longrightarrow>
          lm_inflight (pl_limiter p') \<le> lm_limit (pl_limiter p'))"
proof -
  have inv: "pool_inv R w units p"
    using assms(1) pool_init_inv [OF assms(2,3)] by (rule pool.run_inv)
  have "lm_min l = max 1 m"
    unfolding l_def pool_run_min [OF assms(1)] by (simp add: pool_init_def limiter_init_def)
  moreover have "live_calls (pl_workers p) \<le> int w"
    using live_calls_bounds [of "pl_workers p"] pool_invD(3) [OF inv] by simp
  ultimately show ?thesis
    using pool_invD(1,2,4) [OF inv] step_admits [of R p]
    by (simp add: limiter_ok_def l_def flip: live_calls_count)
qed

definition small_pool :: "string pool" where
  "small_pool = pool_init 2 1 [[''a.py'', ''b.py''], [''c.py'']]"

theorem pool_concurrency_bounds_witness:
  "\<exists>p. (pool_step 2 ^^ 1) small_pool p \<and> lm_inflight (pl_limiter p) \<le> 2"
proof -
  have "pool_step 2 small_pool (small_pool\<lparr>pl_workers := (pl_workers small_pool)[0 := \<lparr>wk_phase = Idle,
      wk_tasks = [([''a.py'', ''b.py''], 0)]\<rparr>], pl_queue := [[''c.py'']]\<rparr>)"
    by (rule pool_step.start) (simp_all add: small_pool_def pool_init_def numeral_2_eq_2)
  then obtain p where p: "(pool_step 2 ^^ 1) (pool_init 2 1 [[''a.py'', ''b.py''], [''c.py'']]) p"
    by (auto simp: small_pool_def)
  then show ?thesis
    using pool_concurrency_bounds [OF p] by (auto simp: small_pool_def)
qed

text \<open>
  C8: the pool always finishes: no interleaving and no behaviour of the backend, however long
  it keeps rate-limiting, crashing or overflowing, gives a run of more steps than three for
  each of the \<open>(2 n - 1) (R + 1)\<close> calls a unit of \<open>n\<close> files may cause, one for each unit and two
  for each worker; and no run is stuck before every unit is done.
\<close>

theorem pool_terminates:
  assumes "1 \<le> w" "m \<le> int w"
  shows "((pool_step R ^^ n) (pool_init w m units) p \<longrightarrow>
      n \<le> 2 * w + sum_list (map (\<lambda>fs. 3 * ((2 * max 1 (length fs) - 1) * (R + 1)) + 1) units)
      \<and> (pool_done p \<or> (\<exists>p'. pool_step R p p')))
    \<and> (\<exists>n p. (pool_step R ^^ n) (pool_init w m units) p \<and> pool_done p)"
proof (intro conjI impI)
  note inv = pool_init_inv [OF assms, of R units]
  have weights: "sum_list (map (worker_weight R) (replicate k \<lparr>wk_phase = Idle, wk_tasks = []\<rparr>)) = 2 * k" for k
    by (induction k) (simp_all add: worker_weight_def)
  have "pool_measure R (pool_init w m units)
      = 2 * w + sum_list (map (\<lambda>fs. 3 * ((2 * max 1 (length fs) - 1) * (R + 1)) + 1) units)"
    by (simp only: pool_measure_def pool_init_def pool.simps weights calls_left_def split_conv diff_zero)
  moreover assume run: "(pool_step R ^^ n) (pool_init w m units) p"
  ultimately show "n \<le> 2 * w + sum_list (map (\<lambda>fs. 3 * ((2 * max 1 (length fs) - 1) * (R + 1)) + 1) units)"
    using pool.run_bounded [OF run inv] by (simp only:)
  show "pool_done p \<or> (\<exists>p'. pool_step R p p')" using run inv by (rule pool.run_not_stuck)
next
  show "\<exists>n p. (pool_step R ^^ n) (pool_init w m units) p \<and> pool_done p"
    using pool_init_inv [OF assms, of R units] by (rule pool.run_finishes)
qed

theorem pool_terminates_witness:
  "\<exists>n p. (pool_step 2 ^^ n) small_pool p \<and> pool_done p"
  using pool_terminates [of 2 1 2 _ "[[''a.py'', ''b.py''], [''c.py'']]"] unfolding small_pool_def by simp

text \<open>
  C1: no file is lost and none is reviewed twice: when the pool has finished, the file lists
  it settled, each answered by a specialist or recorded as failed, hold exactly the files of
  the planned units, counted with multiplicity.
\<close>

theorem pool_covers_files:
  assumes "(pool_step R ^^ n) (pool_init w m units) p" "pool_done p" "1 \<le> w" "m \<le> int w"
  shows "mset (concat (map fst (pl_log p))) = mset (concat units)"
proof -
  have inv: "pool_inv R w units p"
    using assms(1) pool_init_inv [OF assms(3,4)] by (rule pool.run_inv)
  have "sum_list (map task_files (pl_workers p)) = {#}"
    using assms(2) by (intro sum_list_all_empty) (simp add: pool_done_def list_all_iff task_files_def)
  then show ?thesis
    using pool_invD(6) [OF inv] assms(2) by (simp add: pool_files_def pool_done_def)
qed

theorem pool_covers_files_witness:
  "\<exists>n p. (pool_step 2 ^^ n) small_pool p \<and> pool_done p
     \<and> mset (concat (map fst (pl_log p))) = {#''a.py'', ''b.py'', ''c.py''#}"
proof -
  have "pool_inv 2 2 [[''a.py'', ''b.py''], [''c.py'']] (pool_init 2 1 [[''a.py'', ''b.py''], [''c.py'']])"
    by (rule pool_init_inv) simp_all
  from pool.run_finishes [OF this] obtain n p where
      "(pool_step 2 ^^ n) (pool_init 2 1 [[''a.py'', ''b.py''], [''c.py'']]) p" "pool_done p" by blast
  from this pool_covers_files [OF this] show ?thesis
    by (intro exI [of _ n] exI [of _ p]) (simp add: small_pool_def)
qed

end
