(* ===== verification/Runner.thy ===== *)
theory Runner
  imports Limiter PyValue
begin

section \<open>The runner: resilient dispatch\<close>

text \<open>
  \<^verbatim>\<open>code_review/runner.py\<close>: the counters and the cost roll-up, the retry loop of the worker
  states, the loop of \<^verbatim>\<open>_dispatch_one\<close> with its back-off and its recursion on overflow, the
  dispatch of all units, and the coverage floor. The language model is a hook: a function of
  a world that it changes, which answers or raises. The interleaving of the pool's threads
  is the subject of \<open>Limiter\<close>; here the units run one after the other.
\<close>

subsection \<open>Hooks and state\<close>

text \<open>An answer, one of the two exceptions the runner knows, or another one by its class name.\<close>

datatype answer =
    Answer dict
  | RaiseRateLimit
  | RaiseOverflow
  | RaiseOther string

type_synonym 'w specialist_hook = "dict \<Rightarrow> dict \<Rightarrow> 'w \<Rightarrow> answer \<times> 'w"
type_synonym 'w worker_hook = "string \<Rightarrow> dict \<Rightarrow> 'w \<Rightarrow> answer \<times> 'w"

record runner_stats =
  dispatched :: nat
  failed :: nat
  retries :: nat
  rate_limit_events :: nat
  overflow_splits :: nat
  min_concurrency_seen :: int
  max_concurrency_seen :: int
  coverage_floor_used :: nat
  degraded_workers :: nat
  total_in_tokens :: int
  total_out_tokens :: int
  total_cost_usd :: pyfloat
  total_est_cost :: pyfloat

definition stats_init :: runner_stats where
  "stats_init = \<lparr>dispatched = 0, failed = 0, retries = 0, rate_limit_events = 0, overflow_splits = 0,
     min_concurrency_seen = 0, max_concurrency_seen = 0, coverage_floor_used = 0, degraded_workers = 0,
     total_in_tokens = 0, total_out_tokens = 0, total_cost_usd = Fin 0, total_est_cost = Fin 0\<rparr>"

text \<open>The world behind the hook, the counters, the limiter and the sleeps, longest ago first.\<close>

record 'w run_state =
  rs_world :: 'w
  rs_stats :: runner_stats
  rs_limiter :: limiter
  rs_sleeps :: "rat list"

text \<open>\<^verbatim>\<open>base_backoff * 2 ** n\<close>.\<close>

definition pause :: "rat \<Rightarrow> nat \<Rightarrow> 'w run_state \<Rightarrow> 'w run_state" where
  "pause base n st = st\<lparr>rs_sleeps := rs_sleeps st @ [base * 2 ^ n]\<rparr>"

abbreviation tally :: "(runner_stats \<Rightarrow> runner_stats) \<Rightarrow> 'w run_state \<Rightarrow> 'w run_state" where
  "tally f st \<equiv> st\<lparr>rs_stats := f (rs_stats st)\<rparr>"

abbreviation limit_by :: "(limiter \<Rightarrow> limiter) \<Rightarrow> 'w run_state \<Rightarrow> 'w run_state" where
  "limit_by f st \<equiv> st\<lparr>rs_limiter := f (rs_limiter st)\<rparr>"

subsection \<open>Cost roll-up\<close>

fun float_add :: "pyfloat \<Rightarrow> pyfloat \<Rightarrow> pyfloat" where
  "float_add (Fin p) (Fin q) = float_of_rat (p + q)"
| "float_add (Fin p) b = b"
| "float_add a (Fin q) = a"
| "float_add a b = (if a = b then a else FNaN)"

text \<open>\<^verbatim>\<open>isinstance(v, (int, float)) and not isinstance(v, bool)\<close>.\<close>

definition is_number :: "pyval \<Rightarrow> bool" where
  "is_number v = (case v of VInt _ \<Rightarrow> True | VFloat _ \<Rightarrow> True | _ \<Rightarrow> False)"

definition add_tokens :: "pyval \<Rightarrow> int \<Rightarrow> int res" where
  "add_tokens v acc = (if is_number v then bindE (py_int v) (\<lambda>i. Inr (acc + i)) else Inr acc)"

definition add_amount :: "pyval \<Rightarrow> pyfloat \<Rightarrow> pyfloat res" where
  "add_amount v acc = (if is_number v then bindE (py_float v) (\<lambda>f. Inr (float_add acc f)) else Inr acc)"

definition accumulate_cost :: "runner_stats \<Rightarrow> dict \<Rightarrow> runner_stats res" where
  "accumulate_cost stats out =
     bindE (add_tokens (dget out ''tokens_in'') (total_in_tokens stats)) (\<lambda>ti.
     bindE (add_tokens (dget out ''tokens_out'') (total_out_tokens stats)) (\<lambda>to.
     bindE (add_amount (dget out ''cost_usd'') (total_cost_usd stats)) (\<lambda>cu.
     bindE (add_amount (dget out ''est_cost'') (total_est_cost stats)) (\<lambda>ec.
     Inr (stats\<lparr>total_in_tokens := ti, total_out_tokens := to, total_cost_usd := cu, total_est_cost := ec\<rparr>)))))"

definition num_float :: "pyval \<Rightarrow> pyfloat option res" where
  "num_float v = (if is_number v then bindE (py_float v) (\<lambda>f. Inr (Some f)) else Inr None)"

text \<open>The sum of one field over the sub-results that carry a number in it.\<close>

definition sum_field :: "dict list \<Rightarrow> string \<Rightarrow> dict res" where
  "sum_field results key =
     bindE (mapE (\<lambda>r. num_float (dget r key)) results) (\<lambda>ns.
       let vals = List.map_filter id ns; amount = foldl float_add (Fin 0) vals in
       if vals = [] then Inr []
       else if key \<in> {''wall_ms'', ''tokens_in'', ''tokens_out''}
       then bindE (int_of_float amount) (\<lambda>i. Inr [(key, VInt i)])
       else Inr [(key, VFloat amount)])"

definition sum_cost_stamp :: "dict list \<Rightarrow> dict res" where
  "sum_cost_stamp results =
     bindE (mapE (sum_field results) [''wall_ms'', ''tokens_in'', ''tokens_out'', ''cost_usd'', ''est_cost'']) (\<lambda>fields.
     Inr (concat fields @ (case List.find (\<lambda>r. dget r ''tier'' \<noteq> VNone) results of
       None \<Rightarrow> [] | Some r \<Rightarrow> [(''tier'', dget r ''tier'')])))"

subsection \<open>One unit\<close>

definition unit_files :: "dict \<Rightarrow> pyval" where
  "unit_files unit = py_or (dget unit ''files'') (VList [])"

text \<open>
  \<^verbatim>\<open>_split_unit\<close>. A planned unit holds a list; of the other values a string is cut too, a
  dictionary has a length but no slices, and the rest has no length.
\<close>

definition split_unit :: "dict \<Rightarrow> (dict \<times> dict) option res" where
  "split_unit unit = (case unit_files unit of
     VList fs \<Rightarrow> Inr (if length fs \<le> 1 then None
       else Some (dset ''files'' (VList (fst (halves fs))) unit, dset ''files'' (VList (snd (halves fs))) unit))
   | VStr s \<Rightarrow> Inr (if str_len s \<le> 1 then None
       else Some (dset ''files'' (VStr (str_take (str_len s div 2) s)) unit,
                  dset ''files'' (VStr (str_drop (str_len s div 2) s)) unit))
   | VDict d \<Rightarrow> (if length d \<le> 1 then Inr None else Inl KeyError)
   | _ \<Rightarrow> Inl TypeError)"

definition failed_output :: "pyval \<Rightarrow> string \<Rightarrow> dict" where
  "failed_output leaf_id reason =
     [(''id'', leaf_id), (''status'', VStr ''failed''), (''findings'', VList []), (''skip_reason'', VStr reason)]"

text \<open>\<^verbatim>\<open>failed(reason)\<close> counts the unit and returns its record.\<close>

definition give_up :: "pyval \<Rightarrow> string \<Rightarrow> 'w run_state \<Rightarrow> (dict \<times> 'w run_state) res" where
  "give_up leaf_id reason st =
     Inr (failed_output leaf_id reason, tally (failed_update Suc) st)"

definition unit_size :: "dict \<Rightarrow> nat" where
  "unit_size unit = (case unit_files unit of VList fs \<Rightarrow> length fs | VStr s \<Rightarrow> str_len s | _ \<Rightarrow> 0)"

lemma split_unit_smaller:
  assumes "split_unit unit = Inr (Some (a, b))"
  shows "unit_size a < unit_size unit" "unit_size b < unit_size unit"
  using assms
  by (auto simp: split_unit_def unit_size_def unit_files_def py_or_def halves_def str_len_take str_len_drop
      split: pyval.splits if_splits)

text \<open>What a fruitful call adds: its id, status and findings where it left them out.\<close>

definition with_defaults :: "pyval \<Rightarrow> dict \<Rightarrow> dict" where
  "with_defaults leaf_id out =
     dsetdefault ''findings'' (VList []) (dsetdefault ''status'' (VStr ''completed'')
       (dsetdefault ''id'' leaf_id out))"

definition call_specialist ::
  "'w specialist_hook \<Rightarrow> dict \<Rightarrow> dict \<Rightarrow> 'w run_state \<Rightarrow> answer \<times> 'w run_state" where
  "call_specialist hook unit shared st =
     (let (o', w) = hook unit shared (rs_world st) in
      (o', limit_by (release \<circ> Limiter.acquire) (st\<lparr>rs_world := w\<rparr>)))"

text \<open>The state after a failed attempt: a rate limit is counted and shrinks the pool.\<close>

definition after_rate_limit :: "'w run_state \<Rightarrow> 'w run_state" where
  "after_rate_limit st = tally (retries_update Suc) (limit_by penalize (tally (rate_limit_events_update Suc) st))"

definition after_error :: "'w run_state \<Rightarrow> 'w run_state" where
  "after_error st = tally (retries_update Suc) st"

text \<open>The first argument is \<^verbatim>\<open>max_retries\<close>, the last but one the number of attempts made.\<close>

function dispatch_one ::
  "nat \<Rightarrow> rat \<Rightarrow> 'w specialist_hook \<Rightarrow> dict \<Rightarrow> dict \<Rightarrow> nat \<Rightarrow> 'w run_state \<Rightarrow> (dict \<times> 'w run_state) res" where
  "dispatch_one R base hook shared unit attempt st0 =
     (let leaf_id = dget_or unit ''leaf_id'' (VStr []);
          (o', st) = call_specialist hook unit shared st0
      in case o' of
        Answer out \<Rightarrow>
          bindE (accumulate_cost (dispatched_update Suc (rs_stats st)) out) (\<lambda>stats.
          Inr (with_defaults leaf_id out, limit_by reward (st\<lparr>rs_stats := stats\<rparr>)))
      | RaiseRateLimit \<Rightarrow>
          if R < attempt + 1 then give_up leaf_id ''rate-limited after retries'' (after_rate_limit st)
          else dispatch_one R base hook shared unit (attempt + 1) (pause base attempt (after_rate_limit st))
      | RaiseOther name \<Rightarrow>
          if R < attempt + 1 then give_up leaf_id (''error after retries: '' @ name) (after_error st)
          else dispatch_one R base hook shared unit (attempt + 1) (pause base attempt (after_error st))
      | RaiseOverflow \<Rightarrow>
          (case split_unit unit of
             Inl e \<Rightarrow> Inl e
           | Inr None \<Rightarrow> give_up leaf_id ''context overflow; single file too large'' st
           | Inr (Some (a, b)) \<Rightarrow>
               bindE (dispatch_one R base hook shared a 0 (tally (overflow_splits_update Suc) st)) (\<lambda>(r1, st1).
               bindE (py_iter (dget_or r1 ''findings'' (VList []))) (\<lambda>f1.
               bindE (dispatch_one R base hook shared b 0 st1) (\<lambda>(r2, st2).
               bindE (py_iter (dget_or r2 ''findings'' (VList []))) (\<lambda>f2.
               bindE (sum_cost_stamp [r1, r2]) (\<lambda>stamp.
               Inr (dmerge [(''id'', leaf_id), (''status'', VStr ''completed''), (''findings'', VList (f1 @ f2))] stamp,
                    st2))))))))"
  by pat_completeness auto
termination
  by (relation "measures [\<lambda>(R, base, hook, shared, unit, attempt, st). unit_size unit,
      \<lambda>(R, base, hook, shared, unit, attempt, st). R - attempt]")
    (auto dest: split_unit_smaller)

declare dispatch_one.simps [simp del]

subsection \<open>All units\<close>

definition unit_key :: "dict \<Rightarrow> (pyval \<times> int) res" where
  "unit_key u = bindE (py_int (dget_or u ''sub_index'' (VInt 1))) (\<lambda>i.
     Inr (dget_or u ''leaf_id'' (VStr []), i))"

type_synonym results = "((pyval \<times> int) \<times> dict) list"

definition dispatch_next ::
  "nat \<Rightarrow> rat \<Rightarrow> 'w specialist_hook \<Rightarrow> dict \<Rightarrow> results \<times> 'w run_state \<Rightarrow> dict \<Rightarrow> (results \<times> 'w run_state) res" where
  "dispatch_next R base hook shared = (\<lambda>(results, st) u.
     bindE (unit_key u) (\<lambda>key.
     if \<not> hashable (fst key) then Inl TypeError
     else bindE (dispatch_one R base hook shared u 0 st) (\<lambda>(out, st').
          Inr (dset key out results, st'))))"

definition dispatch_units ::
  "int \<Rightarrow> int \<Rightarrow> nat \<Rightarrow> rat \<Rightarrow> 'w specialist_hook \<Rightarrow> dict \<Rightarrow> dict list \<Rightarrow> 'w run_state \<Rightarrow> (results \<times> 'w run_state) res" where
  "dispatch_units max_workers min_workers R base hook shared units st =
     (if max_workers \<le> 0 then Inl ValueError
      else bindE (foldE (dispatch_next R base hook shared)
             ([], st\<lparr>rs_limiter := limiter_init max_workers min_workers\<rparr>) units) (\<lambda>(results, st').
           Inr (results, tally (\<lambda>s. s\<lparr>min_concurrency_seen := lm_stats_min (rs_limiter st'),
             max_concurrency_seen := lm_stats_max (rs_limiter st')\<rparr>) st')))"

subsection \<open>Worker states\<close>

text \<open>The final answer of the hook: what it returned, or the exception that leaves the loop.\<close>

function call_worker_resilient ::
  "nat \<Rightarrow> rat \<Rightarrow> 'w worker_hook \<Rightarrow> string \<Rightarrow> dict \<Rightarrow> nat \<Rightarrow> 'w run_state \<Rightarrow> answer \<times> 'w run_state" where
  "call_worker_resilient R base hook state_id inputs attempt st0 =
     (let (o', w) = hook state_id inputs (rs_world st0); st = st0\<lparr>rs_world := w\<rparr> in
      case o' of
        RaiseRateLimit \<Rightarrow>
          (let st' = tally (rate_limit_events_update Suc) st in
           if R \<le> attempt then (RaiseRateLimit, st')
           else call_worker_resilient R base hook state_id inputs (attempt + 1) (pause base attempt st'))
      | RaiseOverflow \<Rightarrow>
          (let st' = tally (overflow_splits_update Suc) st in
           if R \<le> attempt then (RaiseOverflow, st')
           else call_worker_resilient R base hook state_id inputs (attempt + 1) (pause base attempt st'))
      | _ \<Rightarrow> (o', st))"
  by pat_completeness auto
termination by (relation "measure (\<lambda>(R, base, hook, state_id, inputs, attempt, st). R - attempt)") auto

declare call_worker_resilient.simps [simp del]

text \<open>\<^verbatim>\<open>_DEGRADABLE_WORKERS\<close>: the output that stands in for a worker whose absence is tolerated.\<close>

definition degradable_worker :: "string \<Rightarrow> dict option" where
  "degradable_worker state_id =
     (if state_id = ''tool_discovery'' then Some [(''tool_results'', VList [])] else None)"

subsection \<open>The coverage floor\<close>

definition floor_prefixes :: "string list" where
  "floor_prefixes = [''lang-'', ''fw-'', ''sec-'', ''footgun-'', ''orm-'', ''reliability-'', ''data-'']"

definition value_len :: "pyval \<Rightarrow> nat res" where
  "value_len v = (case v of VList xs \<Rightarrow> Inr (length xs) | VDict d \<Rightarrow> Inr (length d)
     | VStr s \<Rightarrow> Inr (str_len s) | _ \<Rightarrow> Inl TypeError)"

definition floor_score :: "string list \<Rightarrow> dict \<Rightarrow> nat res" where
  "floor_score langs leaf =
     bindE (py_iter (py_or (dget leaf ''dimensions'') (VList []))) (\<lambda>dims.
     if list_ex (\<lambda>v. \<not> hashable v) dims then Inl TypeError
     else bindE (value_len (py_or (dget leaf ''activation_match'') (VList []))) (\<lambda>n.
       let lid = py_str (dget_or leaf ''id'' (VStr [])) in
       Inr ((if VStr ''security'' \<in> set dims \<or> VStr ''correctness'' \<in> set dims then 3 else 0)
          + (if list_ex (\<lambda>p. prefix p lid) floor_prefixes then 2 else 0)
          + (if list_ex (\<lambda>lang. lang \<noteq> [] \<and> contains lang lid) langs then 1 else 0) + n)))"

text \<open>\<^verbatim>\<open>xs[:cap]\<close>; a negative bound counts from the end.\<close>

definition slice_to :: "int \<Rightarrow> 'a list \<Rightarrow> 'a list" where
  "slice_to cap xs = (if 0 \<le> cap then take (nat cap) xs else take (length xs - nat (- cap)) xs)"

definition rank_by_score :: "string list \<Rightarrow> dict list \<Rightarrow> dict list res" where
  "rank_by_score langs leaves =
     bindE (mapE (floor_score langs) leaves) (\<lambda>scores.
     Inr (map snd (sort_key (\<lambda>p. - int (fst p)) (zip scores leaves))))"

definition floor_pick :: "dict \<Rightarrow> dict" where
  "floor_pick lf = [(''id'', dget lf ''id''), (''path'', dget lf ''path''),
     (''justification'', VStr ''deterministic coverage floor (LLM trim returned empty)''),
     (''dimensions'', py_or (dget lf ''dimensions'') (VList []))]"

definition profile_languages :: "dict \<Rightarrow> string list res" where
  "profile_languages env = (case py_or (dget env ''project_profile'') (VDict []) of
     VDict prof \<Rightarrow> bindE (py_iter (py_or (dget prof ''languages'') (VList []))) (\<lambda>xs. Inr (map py_str xs))
   | _ \<Rightarrow> Inl AttributeError)"

definition floor_picks :: "dict \<Rightarrow> pyval list \<Rightarrow> dict list res" where
  "floor_picks env activated =
     bindE (py_int (py_or (dget env ''cap'') (py_or (dget env ''tier_cap'') (VInt 20)))) (\<lambda>cap.
     bindE (profile_languages env) (\<lambda>langs.
     bindE (rank_by_score langs (dicts_of activated)) (\<lambda>ranked.
     Inr (map floor_pick (filter (\<lambda>lf. truthy (dget lf ''id'') \<and> truthy (dget lf ''path''))
       (slice_to cap ranked))))))"

definition coverage_floor ::
  "string \<Rightarrow> dict \<Rightarrow> dict \<Rightarrow> dict \<Rightarrow> runner_stats \<Rightarrow> (dict \<times> runner_stats) res" where
  "coverage_floor state_id inputs outputs env stats =
     (if state_id \<noteq> ''llm_trim'' \<or> truthy (dget outputs ''picked_leaves'') then Inr (outputs, stats)
      else (case py_or (dget env ''activated_leaves'') (py_or (dget inputs ''stage_a_candidates'') (VList [])) of
        VList activated \<Rightarrow>
          if activated = [] then Inr (outputs, stats)
          else bindE (floor_picks env activated) (\<lambda>picked.
            if picked = [] then Inr (outputs, stats)
            else Inr (dsetdefault ''coverage_rescues'' (VList []) (dsetdefault ''rejected_leaves'' (VList [])
                   (dset ''picked_leaves'' (VList (map VDict picked)) outputs)),
                 coverage_floor_used_update Suc stats))
      | _ \<Rightarrow> Inr (outputs, stats)))"

subsection \<open>Lemmas\<close>

lemma run_state_simps [simp]:
  "rs_world (pause b n st) = rs_world st" "rs_stats (pause b n st) = rs_stats st"
  "rs_limiter (pause b n st) = rs_limiter st" "rs_sleeps (pause b n st) = rs_sleeps st @ [b * 2 ^ n]"
  by (simp_all add: pause_def)

lemma set_keys_dset: "set (dkeys (dset k v d)) = insert k (set (dkeys d))"
  unfolding dkeys_dset by (simp add: insert_absorb)

lemma set_keys_dsetdefault: "set (dkeys (dsetdefault k v d)) = insert k (set (dkeys d))"
proof (cases "map_of d k")
  case None
  then show ?thesis unfolding dsetdefault_def using set_keys_dset [of k v d] by simp
next
  case (Some w)
  then have "k \<in> set (dkeys d)" unfolding set_map map_of_None_iff by simp
  with Some show ?thesis by (simp add: dsetdefault_def insert_absorb)
qed

definition output_keys :: "string set" where
  "output_keys = {''id'', ''status'', ''findings''}"

lemma with_defaults_keys: "output_keys \<subseteq> set (dkeys (with_defaults leaf_id out))"
  unfolding with_defaults_def set_keys_dsetdefault output_keys_def by blast

lemma failed_output_keys: "output_keys \<subseteq> set (dkeys (failed_output leaf_id reason))"
  by (simp add: failed_output_def output_keys_def)

text \<open>One step of the loop, outcome by outcome.\<close>

lemma dispatch_one_step:
  assumes "call_specialist hook unit shared st0 = (ans, st)"
  defines "leaf_id \<equiv> dget_or unit ''leaf_id'' (VStr [])"
  shows "ans = RaiseRateLimit \<Longrightarrow> dispatch_one R base hook shared unit a st0 =
      (if R < a + 1 then give_up leaf_id ''rate-limited after retries'' (after_rate_limit st)
       else dispatch_one R base hook shared unit (a + 1) (pause base a (after_rate_limit st)))"
    and "ans = RaiseOther name \<Longrightarrow> dispatch_one R base hook shared unit a st0 =
      (if R < a + 1 then give_up leaf_id (''error after retries: '' @ name) (after_error st)
       else dispatch_one R base hook shared unit (a + 1) (pause base a (after_error st)))"
    and "ans = Answer out \<Longrightarrow> dispatch_one R base hook shared unit a st0 =
      bindE (accumulate_cost (dispatched_update Suc (rs_stats st)) out) (\<lambda>stats.
          Inr (with_defaults leaf_id out, limit_by reward (st\<lparr>rs_stats := stats\<rparr>)))"
  using assms by (simp_all add: dispatch_one.simps [of R base hook shared unit a st0] Let_def)

lemma dispatch_one_overflow:
  assumes "call_specialist hook unit shared st0 = (RaiseOverflow, st)"
    and "split_unit unit = Inr (Some (u1, u2))"
    and "dispatch_one R base hook shared unit a st0 = Inr (out, st')"
  obtains r1 r2 st1 f1 f2 stamp where
    "dispatch_one R base hook shared u1 0 (tally (overflow_splits_update Suc) st) = Inr (r1, st1)"
    "dispatch_one R base hook shared u2 0 st1 = Inr (r2, st')"
    "py_iter (dget_or r1 ''findings'' (VList [])) = Inr f1" "py_iter (dget_or r2 ''findings'' (VList [])) = Inr f2"
    "sum_cost_stamp [r1, r2] = Inr stamp"
    "out = dmerge [(''id'', dget_or unit ''leaf_id'' (VStr [])), (''status'', VStr ''completed''),
       (''findings'', VList (f1 @ f2))] stamp"
  using assms by (auto simp: dispatch_one.simps [of R base hook shared unit a st0] Let_def res_simps)

lemma dmerge_keys: "set (dkeys a) \<subseteq> set (dkeys (dmerge a b))"
proof (induction b arbitrary: a)
  case Nil
  then show ?case by (simp add: dmerge_def)
next
  case (Cons kv b)
  have "dmerge a (kv # b) = dmerge (dset (fst kv) (snd kv) a) b" by (simp add: dmerge_def split_beta)
  then show ?case using Cons.IH [of "dset (fst kv) (snd kv) a"] unfolding set_keys_dset by auto
qed

lemma dispatch_one_keys:
  "dispatch_one R base hook shared unit a st = Inr (out, st') \<Longrightarrow> output_keys \<subseteq> set (dkeys out)"
proof (induction R base hook shared unit a st arbitrary: out st' rule: dispatch_one.induct)
  case (1 R base hook shared unit a st0)
  obtain ans st where call: "call_specialist hook unit shared st0 = (ans, st)" by fastforce
  show ?case
  proof (cases ans)
    case (Answer o')
    from 1(5) show ?thesis
      unfolding dispatch_one_step(3) [OF call Answer] using with_defaults_keys by (auto simp: res_simps)
  next
    case RaiseRateLimit
    from 1(5) show ?thesis
      unfolding dispatch_one_step(1) [OF call RaiseRateLimit]
      using 1(1) [OF refl refl call [symmetric] RaiseRateLimit] failed_output_keys
      by (auto simp: give_up_def split: if_splits)
  next
    case (RaiseOther name)
    from 1(5) show ?thesis
      unfolding dispatch_one_step(2) [OF call RaiseOther]
      using 1(4) [OF refl refl call [symmetric] RaiseOther] failed_output_keys
      by (auto simp: give_up_def split: if_splits)
  next
    case RaiseOverflow
    show ?thesis
    proof (cases "split_unit unit")
      case (Inl e)
      with 1(5) call RaiseOverflow show ?thesis
        by (simp add: dispatch_one.simps [of R base hook shared unit a st0] Let_def)
    next
      case (Inr s)
      show ?thesis
      proof (cases s)
        case None
        with 1(5) call RaiseOverflow Inr failed_output_keys show ?thesis
          by (auto simp: dispatch_one.simps [of R base hook shared unit a st0] Let_def give_up_def)
      next
        case (Some ab)
        then obtain u1 u2 where s: "split_unit unit = Inr (Some (u1, u2))" using Inr by (cases ab) auto
        obtain fs stamp where out: "out = dmerge [(''id'', dget_or unit ''leaf_id'' (VStr [])),
            (''status'', VStr ''completed''), (''findings'', VList fs)] stamp"
          by (rule dispatch_one_overflow [OF call [unfolded RaiseOverflow] s 1(5)]) blast
        have "output_keys \<subseteq> set (dkeys [(''id'', dget_or unit ''leaf_id'' (VStr [])),
            (''status'', VStr ''completed''), (''findings'', VList fs)])" by (simp add: output_keys_def)
        also note dmerge_keys
        finally show ?thesis unfolding out .
      qed
    qed
  qed
qed

lemma dispatch_next_keys:
  assumes "dispatch_next R base hook shared (results, st) u = Inr (results', st')"
    and "\<forall>(k, out)\<in>set results. output_keys \<subseteq> set (dkeys out)"
  shows "(\<exists>k. unit_key u = Inr k \<and> set (dkeys results') = insert k (set (dkeys results)))
    \<and> (\<forall>(k, out)\<in>set results'. output_keys \<subseteq> set (dkeys out))"
proof -
  from assms(1) obtain k out where k: "unit_key u = Inr k"
    and one: "dispatch_one R base hook shared u 0 st = Inr (out, st')" and r: "results' = dset k out results"
    by (auto simp: dispatch_next_def res_simps split: if_splits)
  have "set (dkeys results') = insert k (set (dkeys results))" unfolding r by (rule set_keys_dset)
  moreover have "\<forall>(k, out)\<in>set results'. output_keys \<subseteq> set (dkeys out)"
    using assms(2) dispatch_one_keys [OF one] set_dset_subset [of k out results] unfolding r by blast
  ultimately show ?thesis using k by blast
qed

lemma dispatch_fold_keys:
  "foldE (dispatch_next R base hook shared) (results, st) units = Inr (results', st') \<Longrightarrow>
    \<forall>(k, out)\<in>set results. output_keys \<subseteq> set (dkeys out) \<Longrightarrow>
    set (dkeys results') = set (dkeys results) \<union> {k. \<exists>u\<in>set units. unit_key u = Inr k}
    \<and> (\<forall>(k, out)\<in>set results'. output_keys \<subseteq> set (dkeys out))"
proof (induction units arbitrary: results st)
  case Nil
  then show ?case by simp
next
  case (Cons u units)
  from Cons.prems(1) obtain r1 s1 where n: "dispatch_next R base hook shared (results, st) u = Inr (r1, s1)"
    and f: "foldE (dispatch_next R base hook shared) (r1, s1) units = Inr (results', st')"
    by (auto simp: res_simps)
  from dispatch_next_keys [OF n Cons.prems(2)] obtain k where k: "unit_key u = Inr k"
    "set (dkeys r1) = insert k (set (dkeys results))" "\<forall>(k, out)\<in>set r1. output_keys \<subseteq> set (dkeys out)" by blast
  from Cons.IH [OF f k(3)] k(1,2) show ?case by (simp del: set_map) blast
qed

lemma rate_limited_run:
  assumes "\<And>w. fst (hook unit shared w) = RaiseRateLimit" "a \<le> R"
  shows "\<exists>st'. dispatch_one R base hook shared unit a st
      = Inr (failed_output (dget_or unit ''leaf_id'' (VStr [])) ''rate-limited after retries'', st')
    \<and> rs_sleeps st' = rs_sleeps st @ map (\<lambda>k. base * 2 ^ k) [a..<R]
    \<and> retries (rs_stats st') = retries (rs_stats st) + (R + 1 - a)
    \<and> rate_limit_events (rs_stats st') = rate_limit_events (rs_stats st) + (R + 1 - a)
    \<and> failed (rs_stats st') = failed (rs_stats st) + 1
    \<and> rs_limiter st' = ((penalize \<circ> release \<circ> Limiter.acquire) ^^ (R + 1 - a)) (rs_limiter st)"
  using assms(2)
proof (induction "R - a" arbitrary: a st)
  case 0
  obtain w where h: "hook unit shared (rs_world st) = (RaiseRateLimit, w)"
    using assms(1) [of "rs_world st"] by (metis fst_conv surj_pair)
  from 0 have "a = R" by simp
  with h show ?case
    by (simp add: dispatch_one_step(1) [OF surjective_pairing] call_specialist_def give_up_def after_rate_limit_def)
next
  case (Suc n)
  obtain s' where call: "call_specialist hook unit shared st = (RaiseRateLimit, s')"
    using assms(1) [of "rs_world st"] by (auto simp: call_specialist_def split_beta)
  define s1 where "s1 = pause base a (after_rate_limit s')"
  have "\<not> R < a + 1" using Suc.hyps(2) by simp
  then have step: "dispatch_one R base hook shared unit a st = dispatch_one R base hook shared unit (a + 1) s1"
    unfolding dispatch_one_step(1) [OF call refl] s1_def by (simp only: if_False)
  have s': "rs_sleeps s' = rs_sleeps st" "rs_stats s' = rs_stats st"
    "rs_limiter s' = (release \<circ> Limiter.acquire) (rs_limiter st)"
    using call by (auto simp: call_specialist_def split_beta)
  have n: "n = R - (a + 1)" "a + 1 \<le> R" using Suc.hyps(2) by auto
  have s1: "rs_sleeps s1 = rs_sleeps st @ [base * 2 ^ a]" "retries (rs_stats s1) = retries (rs_stats st) + 1"
    "rate_limit_events (rs_stats s1) = rate_limit_events (rs_stats st) + 1"
    "failed (rs_stats s1) = failed (rs_stats st)"
    "rs_limiter s1 = (penalize \<circ> release \<circ> Limiter.acquire) (rs_limiter st)"
    by (simp_all add: s1_def after_rate_limit_def s')
  have upt: "[a..<R] = a # [a + 1..<R]" using n(2) by (simp add: upt_conv_Cons)
  have k: "R + 1 - a = Suc (R + 1 - (a + 1))" using n(2) by simp
  from Suc.hyps(1) [OF n, of s1] show ?case
    unfolding step upt k funpow_Suc_right by (auto simp: s1)
qed

subsection \<open>Properties\<close>

text \<open>
  C7: no planned unit is dropped: when the dispatch returns, it has a result under the key of
  every unit and under no other, and each result carries an id, a status and findings,
  whatever the hook answered or raised.
\<close>

theorem dispatch_units_total:
  assumes "dispatch_units max_workers min_workers R base hook shared units st = Inr (results, st')"
  shows "set (dkeys results) = {k. \<exists>u\<in>set units. unit_key u = Inr k}
    \<and> (\<forall>k out. (k, out) \<in> set results \<longrightarrow> {''id'', ''status'', ''findings''} \<subseteq> set (dkeys out))"
proof -
  from assms obtain s0 s1 where "foldE (dispatch_next R base hook shared) ([], s0) units = Inr (results, s1)"
    by (auto simp: dispatch_units_def res_simps split: if_splits)
  from dispatch_fold_keys [OF this] show ?thesis
    unfolding output_keys_def by (simp del: set_map) blast
qed

definition idle_state :: "unit run_state" where
  "idle_state = \<lparr>rs_world = (), rs_stats = stats_init, rs_limiter = limiter_init 4 1, rs_sleeps = []\<rparr>"

definition two_units :: "dict list" where
  "two_units = [[(''leaf_id'', VStr ''sec-web''), (''sub_index'', VInt 1), (''files'', VList [VStr ''a.py''])],
     [(''leaf_id'', VStr ''lang-py''), (''sub_index'', VInt 1), (''files'', VList [VStr ''b.py''])]]"

text \<open>A hook that fails on one leaf and answers for the other.\<close>

definition flaky_hook :: "unit specialist_hook" where
  "flaky_hook = (\<lambda>u shared w. (if dget u ''leaf_id'' = VStr ''sec-web'' then RaiseOther ''ValueError''
     else Answer [(''findings'', VList [VStr ''bug''])], w))"

lemma flaky_run:
  "\<exists>results st'. dispatch_units 4 1 0 1 flaky_hook [] two_units idle_state = Inr (results, st')"
  by (simp add: dispatch_units_def two_units_def dispatch_next_def unit_key_def py_int_def hashable_def is_list_def
      is_dict_def dispatch_one.simps call_specialist_def flaky_hook_def give_up_def accumulate_cost_def
      add_tokens_def add_amount_def is_number_def Let_def)

theorem dispatch_units_total_witness:
  "\<exists>results st'. dispatch_units 4 1 0 1 flaky_hook [] two_units idle_state = Inr (results, st')
     \<and> (VStr ''sec-web'', 1) \<in> set (dkeys results) \<and> (VStr ''lang-py'', 1) \<in> set (dkeys results)"
proof -
  obtain results st' where r: "dispatch_units 4 1 0 1 flaky_hook [] two_units idle_state = Inr (results, st')"
    using flaky_run by blast
  have "set (dkeys results) = {k. \<exists>u\<in>set two_units. unit_key u = Inr k}"
    using dispatch_units_total [OF r] by blast
  then have "(VStr ''sec-web'', 1) \<in> set (dkeys results) \<and> (VStr ''lang-py'', 1) \<in> set (dkeys results)"
    by (simp add: two_units_def unit_key_def py_int_def)
  with r show ?thesis by blast
qed

text \<open>
  Back-off is exponential and bounded: a specialist that is rate-limited on every call is
  tried \<open>max_retries + 1\<close> times with pauses of one, two, four and so on times the base in
  between, halves the pool each time, and ends as one failed unit with the retries counted.
\<close>

theorem rate_limit_backoff:
  assumes "\<And>w. fst (hook unit shared w) = RaiseRateLimit"
  shows "\<exists>st'. dispatch_one R base hook shared unit 0 st
      = Inr (failed_output (dget_or unit ''leaf_id'' (VStr [])) ''rate-limited after retries'', st')
    \<and> rs_sleeps st' = rs_sleeps st @ map (\<lambda>k. base * 2 ^ k) [0..<R]
    \<and> retries (rs_stats st') = retries (rs_stats st) + R + 1
    \<and> rate_limit_events (rs_stats st') = rate_limit_events (rs_stats st) + R + 1
    \<and> failed (rs_stats st') = failed (rs_stats st) + 1
    \<and> rs_limiter st' = ((penalize \<circ> release \<circ> Limiter.acquire) ^^ (R + 1)) (rs_limiter st)"
  using rate_limited_run [of hook unit shared 0 R base st, OF assms le0] by auto

theorem rate_limit_backoff_witness:
  "\<exists>st'. dispatch_one 2 1 (\<lambda>u s w. (RaiseRateLimit, w)) [] [] 0 idle_state
      = Inr (failed_output (VStr []) ''rate-limited after retries'', st') \<and> rs_sleeps st' = [1, 2]"
  using rate_limit_backoff [of "\<lambda>u s w. (RaiseRateLimit, w)" "[]" "[]" 2 1 idle_state]
  by (auto simp: idle_state_def numeral_2_eq_2)

text \<open>The fields of a cost stamp leave the rest of a merged record alone.\<close>

definition cost_keys :: "string list" where
  "cost_keys = [''wall_ms'', ''tokens_in'', ''tokens_out'', ''cost_usd'', ''est_cost'', ''tier'']"

lemma sum_field_keys: "sum_field results key = Inr fs \<Longrightarrow> set (dkeys fs) \<subseteq> {key}"
  by (auto simp: sum_field_def res_simps Let_def split: if_splits)

lemma sum_fields_keys: "mapE (sum_field results) ks = Inr fss \<Longrightarrow> set (dkeys (concat fss)) \<subseteq> set ks"
proof (induction ks arbitrary: fss)
  case (Cons k ks)
  then obtain fs rest where "sum_field results k = Inr fs" "mapE (sum_field results) ks = Inr rest" "fss = fs # rest"
    by (auto simp: res_simps)
  with Cons.IH [of rest] sum_field_keys [of results k fs] show ?case by (simp del: set_map) blast
qed simp

lemma sum_cost_stamp_keys: "sum_cost_stamp results = Inr stamp \<Longrightarrow> set (dkeys stamp) \<subseteq> set cost_keys"
  by (auto simp: sum_cost_stamp_def res_simps cost_keys_def simp del: set_map mapE.simps dest!: sum_fields_keys
      split: option.splits)

lemma sum_cost_stamp_none:
  assumes "\<forall>r\<in>set results. \<forall>k\<in>set cost_keys. dget r k = VNone"
  shows "sum_cost_stamp results = Inr []"
proof -
  have "sum_field results k = Inr []" if "k \<in> set cost_keys" for k
  proof -
    have "mapE (\<lambda>r. num_float (dget r k)) results = Inr (map (\<lambda>_. None) results)"
      using assms that by (intro mapE_total) (simp add: num_float_def is_number_def)
    then show ?thesis by (simp add: sum_field_def List.map_filter_def Let_def)
  qed
  moreover have "List.find (\<lambda>r. dget r ''tier'' \<noteq> VNone) results = None"
    using assms by (auto simp: find_None_iff cost_keys_def)
  ultimately show ?thesis by (simp add: sum_cost_stamp_def cost_keys_def)
qed

text \<open>A hook that answers on no part of a unit: whatever it raises, the record has no findings and no cost.\<close>

definition silent_record :: "dict \<Rightarrow> bool" where
  "silent_record out \<longleftrightarrow> dget out ''findings'' = VList [] \<and> (\<forall>k\<in>set cost_keys. dget out k = VNone)"

lemma silent_failed: "silent_record (failed_output leaf_id reason)"
  by (simp add: silent_record_def failed_output_def cost_keys_def)

lemma silent_findings: "silent_record out \<Longrightarrow> py_iter (dget_or out ''findings'' (VList [])) = Inr []"
  by (auto simp: silent_record_def dget_def dget_or_def split: option.splits)

lemma silent_merged:
  assumes "silent_record r1" "silent_record r2" "sum_cost_stamp [r1, r2] = Inr stamp"
  shows "silent_record (dmerge [(''id'', i), (''status'', VStr ''completed''), (''findings'', VList [])] stamp)"
proof -
  have "stamp = []" using assms sum_cost_stamp_none [of "[r1, r2]"] by (simp add: silent_record_def)
  then show ?thesis by (simp add: silent_record_def dmerge_def cost_keys_def)
qed

lemma call_specialist_stats: "rs_stats (snd (call_specialist hook unit shared st)) = rs_stats st"
  by (simp add: call_specialist_def split_beta)

lemma split_part:
  assumes "split_unit (dset ''files'' (VList gs) unit) = Inr (Some (a, b))"
  shows "a = dset ''files'' (VList (fst (halves gs))) unit" "b = dset ''files'' (VList (snd (halves gs))) unit"
    "length (fst (halves gs)) < length gs" "length (snd (halves gs)) < length gs"
  using assms by (auto simp: split_unit_def unit_files_def py_or_def halves_def split: if_splits)

lemma silent_dispatch:
  assumes "dispatch_one R base hook shared u a st = Inr (out, st')"
    and "\<And>files w ans. length files \<le> N \<Longrightarrow> fst (hook (dset ''files'' (VList files) unit) shared w) \<noteq> Answer ans"
    and "u = dset ''files'' (VList gs) unit" "length gs \<le> N"
  shows "silent_record out \<and> dispatched (rs_stats st') = dispatched (rs_stats st)
    \<and> failed (rs_stats st) < failed (rs_stats st')"
  using assms
proof (induction R base hook shared u a st arbitrary: out st' gs rule: dispatch_one.induct)
  case (1 R base hook shared u a st0)
  obtain ans st where call: "call_specialist hook u shared st0 = (ans, st)" by fastforce
  have same: "rs_stats st = rs_stats st0" using call_specialist_stats [of hook u shared st0] call by simp
  show ?case
  proof (cases ans)
    case (Answer o')
    have "fst (hook u shared (rs_world st0)) = Answer o'" using call Answer by (auto simp: call_specialist_def split_beta)
    with "1.prems"(2) [OF "1.prems"(4)] "1.prems"(3) show ?thesis by simp
  next
    case RaiseRateLimit
    from "1.prems"(1) show ?thesis
      unfolding dispatch_one_step(1) [OF call RaiseRateLimit]
      using "1.IH"(1) [OF refl refl call [symmetric] RaiseRateLimit _ _ "1.prems"(2-4)] silent_failed
      by (auto simp: give_up_def after_rate_limit_def same split: if_splits)
  next
    case (RaiseOther name)
    from "1.prems"(1) show ?thesis
      unfolding dispatch_one_step(2) [OF call RaiseOther]
      using "1.IH"(4) [OF refl refl call [symmetric] RaiseOther _ _ "1.prems"(2-4)] silent_failed
      by (auto simp: give_up_def after_error_def same split: if_splits)
  next
    case RaiseOverflow
    show ?thesis
    proof (cases "split_unit u")
      case (Inl e)
      with "1.prems"(1) call RaiseOverflow show ?thesis
        by (simp add: dispatch_one.simps [of R base hook shared u a st0] Let_def)
    next
      case (Inr s)
      show ?thesis
      proof (cases s)
        case None
        with "1.prems"(1) call RaiseOverflow Inr silent_failed show ?thesis
          by (auto simp: dispatch_one.simps [of R base hook shared u a st0] Let_def give_up_def same)
      next
        case (Some ab)
        then obtain u1 u2 where s: "split_unit u = Inr (Some (u1, u2))" using Inr by (cases ab) auto
        note part = split_part [OF s [unfolded "1.prems"(3)]]
        obtain r1 r2 st1 f1 f2 stamp where
            r1: "dispatch_one R base hook shared u1 0 (tally (overflow_splits_update Suc) st) = Inr (r1, st1)"
          and r2: "dispatch_one R base hook shared u2 0 st1 = Inr (r2, st')"
          and f: "py_iter (dget_or r1 ''findings'' (VList [])) = Inr f1" "py_iter (dget_or r2 ''findings'' (VList [])) = Inr f2"
          and stamp: "sum_cost_stamp [r1, r2] = Inr stamp"
          and out: "out = dmerge [(''id'', dget_or u ''leaf_id'' (VStr [])), (''status'', VStr ''completed''),
             (''findings'', VList (f1 @ f2))] stamp"
          by (rule dispatch_one_overflow [OF call [unfolded RaiseOverflow] s "1.prems"(1)]) (rule that)
        have one: "silent_record r1 \<and> dispatched (rs_stats st1) = dispatched (rs_stats st)
            \<and> failed (rs_stats st) < failed (rs_stats st1)"
          using "1.IH"(2) [OF refl refl call [symmetric] RaiseOverflow s refl refl r1 "1.prems"(2) part(1)] part(3) "1.prems"(4)
          by simp
        have two: "silent_record r2 \<and> dispatched (rs_stats st') = dispatched (rs_stats st1)
            \<and> failed (rs_stats st1) < failed (rs_stats st')"
          using "1.IH"(3) [OF refl refl call [symmetric] RaiseOverflow s refl refl r1 refl f(1) r2 "1.prems"(2) part(2)] part(4) "1.prems"(4)
          by simp
        show ?thesis
          using one two f silent_findings [of r1] silent_findings [of r2] silent_merged [OF _ _ stamp] same by (simp add: out)
      qed
    qed
  qed
qed


text \<open>A hook that overflows on two files and is rate-limited on one.\<close>

definition narrow_hook :: "unit specialist_hook" where
  "narrow_hook = (\<lambda>u shared w. (if 1 < unit_size u then RaiseOverflow else RaiseRateLimit, w))"

definition wide_unit :: dict where
  "wide_unit = [(''leaf_id'', VStr ''sec-web''), (''files'', VList [VStr ''a.py'', VStr ''b.py''])]"

lemma narrow_run: "\<exists>out st'. dispatch_one 0 1 narrow_hook [] wide_unit 0 idle_state = Inr (out, st')"
  by (simp add: dispatch_one.simps call_specialist_def narrow_hook_def wide_unit_def unit_size_def unit_files_def
      py_or_def split_unit_def halves_def give_up_def failed_output_def sum_cost_stamp_def sum_field_def
      num_float_def is_number_def Let_def List.map_filter_def)


text \<open>
  \<^verbatim>\<open>_dispatch_one\<close> is said never to raise; an answer whose token count is no number of tokens makes it raise
  after the call succeeded.
\<close>

lemma dispatch_can_raise:
  "dispatch_one 0 1 (\<lambda>u shared w. (Answer [(''tokens_in'', VFloat FNaN)], w)) [] wide_unit 0 idle_state = Inl ValueError"
  by (simp add: dispatch_one.simps call_specialist_def accumulate_cost_def add_tokens_def is_number_def py_int_def
      int_of_float_def)

text \<open>The hook with a count of its calls in the world.\<close>

definition counted :: "'w worker_hook \<Rightarrow> ('w \<times> nat) worker_hook" where
  "counted hook = (\<lambda>state_id inputs (w, n). let (o', w') = hook state_id inputs w in (o', (w', n + 1)))"

lemma worker_calls:
  "call_worker_resilient R base (counted hook) sid inputs a st = (ans, st') \<Longrightarrow> a \<le> R \<Longrightarrow>
    \<exists>n. snd (rs_world st') = snd (rs_world st) + n + 1 \<and> a + n \<le> R
      \<and> rs_sleeps st' = rs_sleeps st @ map (\<lambda>k. base * 2 ^ k) [a..<a + n]
      \<and> (ans \<in> {RaiseRateLimit, RaiseOverflow} \<longrightarrow> a + n = R)"
proof (induction "R - a" arbitrary: a st)
  case 0
  obtain o' w where h: "hook sid inputs (fst (rs_world st)) = (o', w)" by fastforce
  from 0 have "a = R" by simp
  with 0 h show ?case
    by (intro exI [of _ 0])
      (auto simp: call_worker_resilient.simps [of R base _ sid inputs R st] counted_def split_beta Let_def
        split: answer.splits)
next
  case (Suc d)
  obtain o' w where h: "hook sid inputs (fst (rs_world st)) = (o', w)" by fastforce
  have lt: "\<not> R \<le> a" and d: "d = R - (a + 1)" "a + 1 \<le> R" using Suc.hyps(2) by auto
  define st1 where "st1 = st\<lparr>rs_world := (w, snd (rs_world st) + 1)\<rparr>"
  have again: ?case if "call_worker_resilient R base (counted hook) sid inputs (a + 1) (pause base a (tally f st1)) = (ans, st')"
    for f
  proof -
    from Suc.hyps(1) [OF d(1) that d(2)] obtain n where n: "snd (rs_world st') = snd (rs_world st1) + n + 1"
        "a + 1 + n \<le> R" "rs_sleeps st' = rs_sleeps st1 @ [base * 2 ^ a] @ map (\<lambda>k. base * 2 ^ k) [a + 1..<a + 1 + n]"
        "ans \<in> {RaiseRateLimit, RaiseOverflow} \<longrightarrow> a + 1 + n = R"
      by auto
    have "[a..<a + (n + 1)] = a # [a + 1..<a + 1 + n]" by (simp add: upt_conv_Cons)
    with n show ?thesis by (intro exI [of _ "n + 1"]) (auto simp: st1_def)
  qed
  show ?case
  proof (cases o')
    case RaiseRateLimit
    with Suc.prems(1) h lt show ?thesis
      by (intro again [of "rate_limit_events_update Suc"])
        (simp add: call_worker_resilient.simps [of R base _ sid inputs a st] counted_def split_beta Let_def st1_def)
  next
    case RaiseOverflow
    with Suc.prems(1) h lt show ?thesis
      by (intro again [of "overflow_splits_update Suc"])
        (simp add: call_worker_resilient.simps [of R base _ sid inputs a st] counted_def split_beta Let_def st1_def)
  next
    case (Answer out)
    with Suc.prems h show ?thesis
      by (intro exI [of _ 0])
        (auto simp: call_worker_resilient.simps [of R base _ sid inputs a st] counted_def split_beta Let_def)
  next
    case (RaiseOther name)
    with Suc.prems h show ?thesis
      by (intro exI [of _ 0])
        (auto simp: call_worker_resilient.simps [of R base _ sid inputs a st] counted_def split_beta Let_def)
  qed
qed

text \<open>
  A worker state is called at least once and at most \<open>max_retries + 1\<close> times, with the
  exponential pauses in between, and one of the two transient exceptions leaves the loop only
  after the last of these calls.
\<close>

theorem worker_retries_bounded:
  assumes "call_worker_resilient R base (counted hook) sid inputs 0 st = (ans, st')"
  defines "calls \<equiv> snd (rs_world st') - snd (rs_world st)"
  shows "1 \<le> calls \<and> calls \<le> R + 1
    \<and> rs_sleeps st' = rs_sleeps st @ map (\<lambda>k. base * 2 ^ k) [0..<calls - 1]
    \<and> (ans \<in> {RaiseRateLimit, RaiseOverflow} \<longrightarrow> calls = R + 1)"
  using worker_calls [OF assms(1) le0] by (auto simp: calls_def)

theorem worker_retries_bounded_witness:
  "\<exists>st'. call_worker_resilient 1 1 (counted (\<lambda>sid inputs w. (RaiseOverflow, w))) ''llm_trim'' [] 0
      \<lparr>rs_world = ((), 0), rs_stats = stats_init, rs_limiter = limiter_init 1 1, rs_sleeps = []\<rparr> = (RaiseOverflow, st')
    \<and> snd (rs_world st') = 2 \<and> rs_sleeps st' = [1]"
proof -
  let ?st = "\<lparr>rs_world = ((), 0), rs_stats = stats_init, rs_limiter = limiter_init 1 1, rs_sleeps = []\<rparr>"
  obtain st' where r: "call_worker_resilient 1 1 (counted (\<lambda>sid inputs w. (RaiseOverflow, w))) ''llm_trim'' [] 0 ?st
      = (RaiseOverflow, st')"
    by (simp add: call_worker_resilient.simps counted_def split_beta)
  from worker_retries_bounded [OF r] have "snd (rs_world st') = 2 \<and> rs_sleeps st' = [1]" by simp
  with r show ?thesis by blast
qed

text \<open>The ranking is a rearrangement in which no leaf stands before one with a higher score.\<close>

definition outranked :: "string list \<Rightarrow> dict \<Rightarrow> dict \<Rightarrow> bool" where
  "outranked langs l m \<longleftrightarrow> (\<exists>a b. floor_score langs l = Inr a \<and> floor_score langs m = Inr b \<and> b \<le> a)"

lemma rank_by_score_spec:
  assumes "rank_by_score langs leaves = Inr ranked"
  shows "mset ranked = mset leaves \<and> sorted_wrt (outranked langs) ranked"
proof -
  from assms obtain scores where s: "mapE (floor_score langs) leaves = Inr scores"
    and r: "ranked = map snd (sort_key (\<lambda>p. - int (fst p)) (zip scores leaves))"
    by (auto simp: rank_by_score_def res_simps)
  have len: "length scores = length leaves" using s by (rule mapE_length)
  have pair: "floor_score langs (snd p) = Inr (fst p)" if "p \<in> set (zip scores leaves)" for p
    using that mapE_nth [OF s] by (metis in_set_zip)
  have "mset ranked = mset (map snd (zip scores leaves))"
    unfolding r mset_map mset_sort ..
  then have "mset ranked = mset leaves" by (simp add: len map_snd_zip)
  moreover have "sorted_wrt (\<lambda>p q. fst q \<le> fst p) (sort_key (\<lambda>p. - int (fst p)) (zip scores leaves))"
    using sorted_sort_key [of "\<lambda>p. - int (fst p)" "zip scores leaves"]
    by (simp add: sorted_map)
  then have "sorted_wrt (\<lambda>p q. outranked langs (snd p) (snd q)) (sort_key (\<lambda>p. - int (fst p)) (zip scores leaves))"
    by (rule sorted_wrt_mono_rel [rotated]) (auto simp: outranked_def dest!: pair)
  then have "sorted_wrt (outranked langs) ranked" by (simp add: r sorted_wrt_map)
  ultimately show ?thesis by blast
qed

text \<open>
  C14: the router cannot silence the review: when trimming picks no leaf although leaves were
  activated, the floor picks as many of them as the cap allows, and every activated leaf it
  passes over scores no higher than any it picked; the other outputs of the worker stay.
\<close>

theorem coverage_floor_spec:
  assumes "coverage_floor ''llm_trim'' inputs outputs env stats = Inr (out, stats')"
    and "\<not> truthy (dget outputs ''picked_leaves'')"
    and "dget env ''activated_leaves'' = VList (map VDict leaves)" "leaves \<noteq> []"
    and "\<forall>lf\<in>set leaves. truthy (dget lf ''id'') \<and> truthy (dget lf ''path'')"
    and "py_int (py_or (dget env ''cap'') (py_or (dget env ''tier_cap'') (VInt 20))) = Inr cap" "1 \<le> cap"
  shows "\<exists>langs chosen passed. profile_languages env = Inr langs
    \<and> dget out ''picked_leaves'' = VList (map (VDict \<circ> floor_pick) chosen)
    \<and> length chosen = min (nat cap) (length leaves) \<and> chosen \<noteq> []
    \<and> mset chosen + mset passed = mset leaves
    \<and> (\<forall>l\<in>set chosen. \<forall>m\<in>set passed. outranked langs l m)
    \<and> (\<forall>k. k \<notin> {''picked_leaves'', ''rejected_leaves'', ''coverage_rescues''} \<longrightarrow> dget out k = dget outputs k)
    \<and> coverage_floor_used stats' = coverage_floor_used stats + 1"
proof -
  have act: "py_or (dget env ''activated_leaves'') (py_or (dget inputs ''stage_a_candidates'') (VList []))
      = VList (map VDict leaves)"
    using assms(3,4) by (simp add: py_or_def)
  from assms(1,2,4) obtain picked where p: "floor_picks env (map VDict leaves) = Inr picked"
    and o': "(out, stats') = (if picked = [] then (outputs, stats)
        else (dsetdefault ''coverage_rescues'' (VList []) (dsetdefault ''rejected_leaves'' (VList [])
                   (dset ''picked_leaves'' (VList (map VDict picked)) outputs)), coverage_floor_used_update Suc stats))"
    by (auto simp: coverage_floor_def act res_simps split: if_splits)
  from p assms(6) obtain langs ranked where langs: "profile_languages env = Inr langs"
    and ranked: "rank_by_score langs leaves = Inr ranked"
    and picked: "picked = map floor_pick (filter (\<lambda>lf. truthy (dget lf ''id'') \<and> truthy (dget lf ''path''))
         (slice_to cap ranked))"
    by (auto simp: floor_picks_def res_simps)
  define chosen passed where "chosen = take (nat cap) ranked" and "passed = drop (nat cap) ranked"
  have parts: "chosen @ passed = ranked" by (simp add: chosen_def passed_def)
  note spec = rank_by_score_spec [OF ranked]
  have "set ranked = set leaves" using spec mset_eq_setD by blast
  then have "\<forall>lf\<in>set chosen. truthy (dget lf ''id'') \<and> truthy (dget lf ''path'')"
    using assms(5) by (auto simp: chosen_def dest: in_set_takeD)
  then have pc: "picked = map floor_pick chosen"
    using assms(7) by (simp add: picked slice_to_def chosen_def)
  have len: "length ranked = length leaves" using spec mset_eq_length by blast
  then have cl: "length chosen = min (nat cap) (length leaves)" by (simp add: chosen_def min.commute)
  then have ne: "chosen \<noteq> []" using assms(4,7) by (cases leaves) auto
  have "out = dsetdefault ''coverage_rescues'' (VList []) (dsetdefault ''rejected_leaves'' (VList [])
      (dset ''picked_leaves'' (VList (map VDict picked)) outputs))"
    and st: "stats' = coverage_floor_used_update Suc stats" using o' ne pc by auto
  then have "dget out ''picked_leaves'' = VList (map VDict picked)"
    and "\<forall>k. k \<notin> {''picked_leaves'', ''rejected_leaves'', ''coverage_rescues''} \<longrightarrow> dget out k = dget outputs k"
    by (auto simp: dsetdefault_def)
  moreover have "mset chosen + mset passed = mset leaves" using spec unfolding parts [symmetric] by simp
  moreover have "\<forall>l\<in>set chosen. \<forall>m\<in>set passed. outranked langs l m"
    using spec unfolding parts [symmetric] sorted_wrt_append by blast
  ultimately show ?thesis using langs cl ne st pc by (intro exI [of _ langs] exI [of _ chosen] exI [of _ passed]) simp
qed

definition floor_env :: dict where
  "floor_env = [(''cap'', VInt 1), (''activated_leaves'', VList (map VDict
      [[(''id'', VStr ''style''), (''path'', VStr ''style.md'')],
       [(''id'', VStr ''sec-web''), (''path'', VStr ''sec-web.md''), (''dimensions'', VList [VStr ''security''])]]))]"

theorem coverage_floor_spec_witness:
  "\<exists>out stats'. coverage_floor ''llm_trim'' [] [] floor_env stats_init = Inr (out, stats')
     \<and> coverage_floor_used stats' = 1 \<and> length (ensure_list (dget out ''picked_leaves'')) = 1"
proof -
  obtain out stats' where r: "coverage_floor ''llm_trim'' [] [] floor_env stats_init = Inr (out, stats')"
    by (simp add: coverage_floor_def floor_env_def py_or_def floor_picks_def py_int_def profile_languages_def
        rank_by_score_def floor_score_def value_len_def hashable_def is_list_def is_dict_def slice_to_def Let_def)
  have act: "dget floor_env ''activated_leaves'' = VList (map VDict
      [[(''id'', VStr ''style''), (''path'', VStr ''style.md'')],
       [(''id'', VStr ''sec-web''), (''path'', VStr ''sec-web.md''), (''dimensions'', VList [VStr ''security''])]])"
    by (simp add: floor_env_def)
  from coverage_floor_spec [OF r _ act, of 1] show ?thesis
    using r by (auto simp: floor_env_def py_or_def py_int_def stats_init_def ensure_list_def)
qed

end
