(* ===== verification/Review.thy ===== *)
theory Review
  imports Runner Fsm
begin

section \<open>The main loop of the runner\<close>

text \<open>
  \<^verbatim>\<open>run_review\<close> of \<^verbatim>\<open>code_review/runner.py\<close>: the loop over the states of the specification
  with its timings, its three kinds of states and the outcomes of a run. The engine is not in
  the repository: executing an inline state and advancing are fields of the record
  \<open>runtime\<close>, beside the clock and the two dispatch hooks, each a function of the world.
\<close>

subsection \<open>Runtime\<close>

text \<open>What \<^verbatim>\<open>engine_advance\<close> may answer.\<close>

datatype advance =
    AdvFault string
  | LoopContinue nat
  | AdvTerminal
  | AdvNext "string option"

text \<open>Executing an inline state gives its outputs or the text of the fault.\<close>

record 'w runtime =
  rt_now :: "'w \<Rightarrow> rat \<times> 'w"
  rt_worker :: "'w worker_hook"
  rt_specialist :: "'w specialist_hook"
  rt_inline :: "fsm_state \<Rightarrow> nat option \<Rightarrow> dict \<Rightarrow> 'w \<Rightarrow> (string + dict) \<times> 'w"
  rt_advance :: "string \<Rightarrow> nat option \<Rightarrow> dict \<Rightarrow> dict \<Rightarrow> advance"

record run_config =
  cf_max_workers :: int
  cf_min_workers :: int
  cf_max_retries :: nat
  cf_base_backoff :: rat

record stage_row =
  sg_scope :: string
  sg_name :: string
  sg_iteration :: "nat option"
  sg_wall_ms :: int

record 'w review_state =
  rv_state :: string
  rv_iteration :: "nat option"
  rv_env :: dict
  rv_results :: results
  rv_run :: "'w run_state"
  rv_stages :: "stage_row list"
  rv_start :: rat

record run_result =
  rr_verdict :: pyval
  rr_run_dir_path :: pyval
  rr_findings :: pyval
  rr_fault :: "string option"

text \<open>Reading the clock, and the time since a reading in whole milliseconds.\<close>

definition read_clock :: "'w runtime \<Rightarrow> 'w review_state \<Rightarrow> rat \<times> 'w review_state" where
  "read_clock rt s = (let (t, w) = rt_now rt (rs_world (rv_run s)) in
     (t, s\<lparr>rv_run := (rv_run s)\<lparr>rs_world := w\<rparr>\<rparr>))"

definition elapsed_ms :: "rat \<Rightarrow> rat \<Rightarrow> int" where
  "elapsed_ms t0 t = PyValue.truncate ((t - t0) * 1000)"

definition record_stage :: "'w runtime \<Rightarrow> string \<Rightarrow> rat \<Rightarrow> 'w review_state \<Rightarrow> 'w review_state" where
  "record_stage rt scope t0 s = (let (t, s') = read_clock rt s in
     s'\<lparr>rv_stages := rv_stages s' @ [\<lparr>sg_scope = scope, sg_name = rv_state s', sg_iteration = rv_iteration s',
        sg_wall_ms = elapsed_ms t0 t\<rparr>]\<rparr>)"

subsection \<open>Timings\<close>

definition opt_int :: "nat option \<Rightarrow> pyval" where
  "opt_int n = (case n of None \<Rightarrow> VNone | Some k \<Rightarrow> VInt (int k))"

definition stage_val :: "stage_row \<Rightarrow> pyval" where
  "stage_val r = VDict [(''scope'', VStr (sg_scope r)), (''name'', VStr (sg_name r)),
     (''iteration_n'', opt_int (sg_iteration r)), (''wall_ms'', VInt (sg_wall_ms r))]"

text \<open>The keys of the results are the ids of leaves, strings, with the index of the unit.\<close>

definition result_order :: "(pyval \<times> int) \<times> dict \<Rightarrow> string \<times> int" where
  "result_order = (\<lambda>((leaf, sub), _). (case leaf of VStr s \<Rightarrow> s | _ \<Rightarrow> [], sub))"

definition per_specialist_timings :: "results \<Rightarrow> pyval list" where
  "per_specialist_timings results =
     map (\<lambda>((leaf, sub), result). VDict ((''leaf_id'', leaf) #
        map (\<lambda>k. (k, dget result k)) [''wall_ms'', ''tokens_in'', ''tokens_out'', ''cost_usd'', ''est_cost'', ''tier'']))
       (sort_key result_order results)"

definition timings_artifact :: "rat \<Rightarrow> 'w review_state \<Rightarrow> pyval" where
  "timings_artifact t s = (let stats = rs_stats (rv_run s) in VDict
     [(''whole_review_ms'', VInt (elapsed_ms (rv_start s) t)),
      (''stage_timings'', VList (map stage_val (rv_stages s))),
      (''specialists'', VList (per_specialist_timings (rv_results s))),
      (''cost'', VDict [(''total_in_tokens'', VInt (total_in_tokens stats)),
         (''total_out_tokens'', VInt (total_out_tokens stats)),
         (''total_cost_usd'', VFloat (total_cost_usd stats)), (''total_est_cost'', VFloat (total_est_cost stats))])])"

subsection \<open>Steps\<close>

text \<open>A step goes on with the outputs of the state, or ends the run with a fault.\<close>

datatype 'w step_outcome = Outputs dict "'w review_state" | Fault string "'w review_state"

definition inline_step :: "'w runtime \<Rightarrow> fsm_state \<Rightarrow> 'w review_state \<Rightarrow> 'w step_outcome res" where
  "inline_step rt st s0 =
     (let (tm, s1) = read_clock rt s0;
          s2 = s1\<lparr>rv_env := dset ''timings'' (timings_artifact tm s1) (rv_env s1)\<rparr>;
          (t0, s3) = read_clock rt s2;
          (r, w) = rt_inline rt st (rv_iteration s3) (rv_env s3) (rs_world (rv_run s3));
          s4 = record_stage rt ''inline'' t0 (s3\<lparr>rv_run := (rv_run s3)\<lparr>rs_world := w\<rparr>\<rparr>)
      in Inr (case r of
          Inl fault \<Rightarrow> Fault (''inline:'' @ rv_state s4 @ '':'' @ fault) s4
        | Inr outputs \<Rightarrow> Outputs outputs s4))"

text \<open>\<^verbatim>\<open>[u for b in batches for u in b.get("units", [])]\<close>.\<close>

definition as_dict :: "pyval \<Rightarrow> dict res" where
  "as_dict v = (case v of VDict d \<Rightarrow> Inr d | _ \<Rightarrow> Inl AttributeError)"

definition batch_list :: "dict \<Rightarrow> pyval list res" where
  "batch_list env = py_iter (py_or (dget env ''specialist_batches'') (VList []))"

definition units_of_batch :: "pyval \<Rightarrow> dict list res" where
  "units_of_batch b = bindE (as_dict b) (\<lambda>d. bindE (py_iter (dget_or d ''units'' (VList []))) (mapE as_dict))"

definition shared_inputs :: "dict \<Rightarrow> dict" where
  "shared_inputs env = map (\<lambda>k. (k, dget env k))
     [''project_profile'', ''changed_paths'', ''tool_results'', ''picked_leaves'', ''args'']"

definition ensure_results :: "'w runtime \<Rightarrow> run_config \<Rightarrow> 'w review_state \<Rightarrow> 'w review_state res" where
  "ensure_results rt cf s =
     (if rv_results s \<noteq> [] then Inr s
      else bindE (batch_list (rv_env s)) (\<lambda>batches.
           bindE (mapE units_of_batch batches) (\<lambda>unitss.
           bindE (dispatch_units (cf_max_workers cf) (cf_min_workers cf) (cf_max_retries cf) (cf_base_backoff cf)
                    (rt_specialist rt) (shared_inputs (rv_env s)) (concat unitss) (rv_run s)) (\<lambda>(results, run).
           Inr (s\<lparr>rv_results := results, rv_run := run\<rparr>)))))"

definition need :: "dict \<Rightarrow> string \<Rightarrow> pyval res" where
  "need d k = (case map_of d k of None \<Rightarrow> Inl KeyError | Some v \<Rightarrow> Inr v)"

definition no_result :: "pyval \<Rightarrow> dict" where
  "no_result leaf_id = failed_output leaf_id ''no result''"

definition iter_output :: "results \<Rightarrow> dict \<Rightarrow> pyval res" where
  "iter_output results u =
     bindE (need u ''leaf_id'') (\<lambda>leaf_id.
     bindE (need u ''sub_index'') (\<lambda>sub.
     bindE (py_int sub) (\<lambda>i.
     Inr (VDict [(''leaf_id'', leaf_id), (''sub_index'', sub),
       (''specialist_output'', VDict (case map_of results (leaf_id, i) of Some r \<Rightarrow> r | None \<Rightarrow> no_result leaf_id))]))))"

definition loop_outputs :: "dict \<Rightarrow> results \<Rightarrow> nat \<Rightarrow> dict res" where
  "loop_outputs env results batch_index =
     bindE (batch_list env) (\<lambda>batches.
     bindE (if batch_index - 1 < length batches then units_of_batch (batches ! (batch_index - 1)) else Inr []) (\<lambda>us.
     bindE (mapE (iter_output results) us) (\<lambda>iter_outputs.
     Inr [(''batch_index'', VInt (int batch_index)), (''iter_outputs'', VList iter_outputs),
          (''loop_done'', VBool (py_eq (VInt (int batch_index))
             (dget_or env ''total_batches'' (VInt (int batch_index)))))])))"

definition loop_step :: "'w runtime \<Rightarrow> run_config \<Rightarrow> 'w review_state \<Rightarrow> 'w step_outcome res" where
  "loop_step rt cf s0 =
     (let (t0, s1) = read_clock rt s0 in
      bindE (ensure_results rt cf s1) (\<lambda>s2.
      bindE (loop_outputs (rv_env s2) (rv_results s2) (case rv_iteration s2 of Some n \<Rightarrow> max n 1 | None \<Rightarrow> 1)) (\<lambda>outputs.
      let env = dset ''loop_iters'' (VList (ensure_list (dget (rv_env s2) ''loop_iters'') @ [VDict outputs])) (rv_env s2)
      in Inr (Outputs outputs (record_stage rt ''loop'' t0 (s2\<lparr>rv_env := env\<rparr>))))))"

definition exception_name :: "answer \<Rightarrow> string" where
  "exception_name a = (case a of RaiseRateLimit \<Rightarrow> ''RateLimitError'' | RaiseOverflow \<Rightarrow> ''ContextOverflowError''
     | RaiseOther n \<Rightarrow> n | Answer _ \<Rightarrow> [])"

definition worker_finish ::
  "'w runtime \<Rightarrow> rat \<Rightarrow> dict \<Rightarrow> dict \<Rightarrow> 'w review_state \<Rightarrow> 'w step_outcome res" where
  "worker_finish rt t0 inputs outputs s =
     bindE (accumulate_cost (rs_stats (rv_run s)) outputs) (\<lambda>stats.
     bindE (coverage_floor (rv_state s) inputs outputs (rv_env s) stats) (\<lambda>(outputs', stats').
     Inr (Outputs outputs' (record_stage rt ''worker'' t0 (s\<lparr>rv_run := (rv_run s)\<lparr>rs_stats := stats'\<rparr>\<rparr>)))))"

text \<open>The text of an exception is left out of the fault, its class is kept. An exception the retry
  loop does not know leaves \<^verbatim>\<open>run_review\<close> altogether.\<close>

definition worker_step :: "'w runtime \<Rightarrow> run_config \<Rightarrow> fsm_state \<Rightarrow> 'w review_state \<Rightarrow> 'w step_outcome res" where
  "worker_step rt cf st s0 =
     (let (t0, s1) = read_clock rt s0;
          inputs = map (\<lambda>k. (k, dget (rv_env s1) k)) (declared_inputs (st_kind st));
          (ans, run) = call_worker_resilient (cf_max_retries cf) (cf_base_backoff cf) (rt_worker rt)
             (rv_state s1) inputs 0 (rv_run s1);
          s2 = s1\<lparr>rv_run := run\<rparr>
      in case ans of
          Answer outputs \<Rightarrow> worker_finish rt t0 inputs outputs s2
        | RaiseOther name \<Rightarrow> Inl (Raised name)
        | _ \<Rightarrow> (case degradable_worker (rv_state s2) of
              Some outputs \<Rightarrow> worker_finish rt t0 inputs outputs
                (s2\<lparr>rv_run := tally (degraded_workers_update Suc) (rv_run s2)\<rparr>)
            | None \<Rightarrow> Inr (Fault (''worker:'' @ rv_state s2 @ '':'' @ exception_name ans)
                (record_stage rt ''worker'' t0 s2))))"

subsection \<open>The loop\<close>

definition state_of :: "string \<Rightarrow> fsm_state option" where
  "state_of i = List.find (\<lambda>st. st_id st = i) spec_states"

definition state_step :: "'w runtime \<Rightarrow> run_config \<Rightarrow> fsm_state \<Rightarrow> 'w review_state \<Rightarrow> 'w step_outcome res" where
  "state_step rt cf st s = (case st_kind st of
     Inline _ _ \<Rightarrow> inline_step rt st s
   | Loop _ _ _ _ _ \<Rightarrow> loop_step rt cf s
   | _ \<Rightarrow> worker_step rt cf st s)"

text \<open>Where a step leads: the state of the next turn, or the result of the run.\<close>

datatype 'w turn = Continue "'w review_state" | Finished run_result "'w review_state"

definition faulted :: "string \<Rightarrow> run_result" where
  "faulted fault = \<lparr>rr_verdict = VNone, rr_run_dir_path = VNone, rr_findings = VList [], rr_fault = Some fault\<rparr>"

definition merge_env :: "dict \<Rightarrow> 'w review_state \<Rightarrow> 'w review_state" where
  "merge_env outputs s = s\<lparr>rv_env := dmerge (rv_env s) outputs\<rparr>"

definition advance_step :: "'w runtime \<Rightarrow> dict \<Rightarrow> 'w review_state \<Rightarrow> 'w turn" where
  "advance_step rt outputs s0 =
     (let (t0, s1) = read_clock rt s0;
          adv = rt_advance rt (rv_state s1) (rv_iteration s1) (rv_env s1) outputs;
          s2 = record_stage rt ''advance'' t0 s1
      in case adv of
          AdvFault reason \<Rightarrow> Finished (faulted (''advance:'' @ reason)) s2
        | LoopContinue n \<Rightarrow> Continue (merge_env outputs (s2\<lparr>rv_iteration := Some n\<rparr>))
        | AdvTerminal \<Rightarrow> Continue (merge_env outputs (s2\<lparr>rv_state := ''terminal''\<rparr>))
        | AdvNext next \<Rightarrow> Continue (merge_env outputs (s2\<lparr>rv_iteration := None,
            rv_state := (case next of None \<Rightarrow> ''terminal'' | Some t \<Rightarrow> if t = [] then ''terminal'' else t)\<rparr>)))"

definition review_turn :: "'w runtime \<Rightarrow> run_config \<Rightarrow> 'w review_state \<Rightarrow> 'w turn res" where
  "review_turn rt cf s = (case state_of (rv_state s) of
     None \<Rightarrow> Inl KeyError
   | Some st \<Rightarrow>
      if st_kind st = Terminal
      then Inr (Finished \<lparr>rr_verdict = dget (rv_env s) ''verdict'', rr_run_dir_path = dget (rv_env s) ''run_dir_path'',
          rr_findings = dget_or (rv_env s) ''findings'' (VList []), rr_fault = None\<rparr> s)
      else bindE (state_step rt cf st s) (\<lambda>r. Inr (case r of
          Fault text s' \<Rightarrow> Finished (faulted text) s'
        | Outputs outputs s' \<Rightarrow> advance_step rt outputs s')))"

fun review_loop :: "'w runtime \<Rightarrow> run_config \<Rightarrow> nat \<Rightarrow> 'w review_state \<Rightarrow> (run_result \<times> 'w review_state) res" where
  "review_loop rt cf 0 s = Inr (faulted ''max_steps_exceeded'', s)"
| "review_loop rt cf (Suc k) s = bindE (review_turn rt cf s) (\<lambda>t. case t of
     Finished r s' \<Rightarrow> Inr (r, s') | Continue s' \<Rightarrow> review_loop rt cf k s')"

definition max_steps :: nat where "max_steps = 512"

definition review_init :: "'w runtime \<Rightarrow> run_config \<Rightarrow> dict \<Rightarrow> 'w \<Rightarrow> 'w review_state" where
  "review_init rt cf args w =
     (let (t, w') = rt_now rt w in
      \<lparr>rv_state = entry_state, rv_iteration = None, rv_env = [(''args'', VDict args), (''loop_iters'', VList [])],
       rv_results = [],
       rv_run = \<lparr>rs_world = w', rs_stats = stats_init,
         rs_limiter = limiter_init (cf_max_workers cf) (cf_min_workers cf), rs_sleeps = []\<rparr>,
       rv_stages = [], rv_start = t\<rparr>)"

text \<open>The run and its whole wall time, taken when the loop is left.\<close>

definition run_review :: "'w runtime \<Rightarrow> run_config \<Rightarrow> dict \<Rightarrow> 'w \<Rightarrow> (run_result \<times> int \<times> 'w review_state) res" where
  "run_review rt cf args w =
     bindE (review_loop rt cf max_steps (review_init rt cf args w)) (\<lambda>(r, s).
     let (t, s') = read_clock rt s in Inr (r, elapsed_ms (rv_start s') t, s'))"

subsection \<open>Lemmas\<close>

abbreviation position :: "'w review_state \<Rightarrow> string \<times> nat option" where
  "position s \<equiv> (rv_state s, rv_iteration s)"

lemma read_clock_frame [simp]:
  "rv_state (snd (read_clock rt s)) = rv_state s" "rv_iteration (snd (read_clock rt s)) = rv_iteration s"
  "rv_env (snd (read_clock rt s)) = rv_env s"
  by (simp_all add: read_clock_def split_beta)

lemma record_stage_frame [simp]:
  "rv_state (record_stage rt scope t0 s) = rv_state s"
  "rv_iteration (record_stage rt scope t0 s) = rv_iteration s"
  "rv_env (record_stage rt scope t0 s) = rv_env s"
  by (simp_all add: record_stage_def split_beta)

fun outcome_state :: "'w step_outcome \<Rightarrow> 'w review_state" where
  "outcome_state (Outputs _ s) = s"
| "outcome_state (Fault _ s) = s"

lemma ensure_results_frame:
  "ensure_results rt cf s = Inr s' \<Longrightarrow> position s' = position s"
  by (auto simp: ensure_results_def res_simps split: if_splits)

lemma inline_step_frame: "inline_step rt st s = Inr r \<Longrightarrow> position (outcome_state r) = position s"
  by (auto simp: inline_step_def Let_def split_beta split: sum.splits)

lemma loop_step_frame: "loop_step rt cf s = Inr r \<Longrightarrow> position (outcome_state r) = position s"
  by (auto simp: loop_step_def Let_def split_beta res_simps dest: ensure_results_frame)

lemma worker_finish_frame: "worker_finish rt t0 inputs outputs s = Inr r \<Longrightarrow> position (outcome_state r) = position s"
  by (auto simp: worker_finish_def res_simps)

lemma worker_step_frame: "worker_step rt cf st s = Inr r \<Longrightarrow> position (outcome_state r) = position s"
  by (auto simp: worker_step_def Let_def split_beta res_simps dest!: worker_finish_frame
      split: answer.splits option.splits)

lemma state_step_frame: "state_step rt cf st s = Inr r \<Longrightarrow> position (outcome_state r) = position s"
  by (auto simp: state_step_def dest: inline_step_frame loop_step_frame worker_step_frame split: state_kind.splits)

text \<open>Faults name the place they come from, so none reads like running out of steps.\<close>

definition out_of_steps :: "run_result \<Rightarrow> bool" where
  "out_of_steps r \<longleftrightarrow> rr_fault r = Some ''max_steps_exceeded''"

fun fault_of :: "'w step_outcome \<Rightarrow> string" where
  "fault_of (Outputs _ _) = ''inline:''"
| "fault_of (Fault f _) = f"

lemma state_step_fault:
  "state_step rt cf st s = Inr r \<Longrightarrow> prefix ''inline:'' (fault_of r) \<or> prefix ''worker:'' (fault_of r)"
  by (auto simp: state_step_def inline_step_def loop_step_def worker_step_def worker_finish_def Let_def split_beta
      res_simps split: state_kind.splits sum.splits answer.splits option.splits)

subsection \<open>The run is bounded\<close>

definition iterations :: "nat option \<Rightarrow> nat" where
  "iterations it = (case it of None \<Rightarrow> 0 | Some k \<Rightarrow> k)"

text \<open>
  What is relied on of the engine: it goes on to a declared target of the state, and it goes
  round a loop only in a state that has one, each time with a higher count within its bound.
\<close>

definition loop_bound :: "string \<Rightarrow> nat" where
  "loop_bound s = (case state_of s of
     Some st \<Rightarrow> (case st_kind st of Loop _ _ _ n _ \<Rightarrow> n | _ \<Rightarrow> 0) | None \<Rightarrow> 0)"

definition engine_ok :: "'w runtime \<Rightarrow> bool" where
  "engine_ok rt \<longleftrightarrow> (\<forall>s it env outputs. case rt_advance rt s it env outputs of
     LoopContinue n \<Rightarrow> iterations it < n \<and> n \<le> loop_bound s
   | AdvNext (Some t) \<Rightarrow> t = [] \<or> flow s t
   | _ \<Rightarrow> True)"

definition steps_left :: "string \<times> nat option \<Rightarrow> nat" where
  "steps_left = (\<lambda>(s, it). (15 - depth s)
     + (if depth s < 7 then 64 else if s = ''dispatch_specialists'' then 64 - iterations it else 0))"

definition position_ok :: "string \<times> nat option \<Rightarrow> bool" where
  "position_ok = (\<lambda>(s, it). s \<in> set get_state_ids \<and> (s = ''terminal'' \<or> iterations it \<le> loop_bound s))"

lemma loop_bound_eq: "loop_bound s = (if s = ''dispatch_specialists'' then 64 else 0)"
proof -
  have "list_all (\<lambda>st. case st_kind st of Loop _ _ _ n _ \<Rightarrow> st_id st = ''dispatch_specialists'' \<and> n = 64 | _ \<Rightarrow> True)
      spec_states"
    by (simp add: spec_states_def state_defs)
  then have "loop_bound s \<noteq> 0 \<Longrightarrow> s = ''dispatch_specialists''"
    by (fastforce simp: loop_bound_def state_of_def list_all_iff find_Some_iff dest!: nth_mem
        split: option.splits state_kind.splits)
  moreover have "loop_bound ''dispatch_specialists'' = 64"
    by (simp add: loop_bound_def state_of_def spec_states_def state_defs)
  ultimately show ?thesis by (cases "loop_bound s = 0") auto
qed

lemma state_of_id: "state_of s = Some st \<Longrightarrow> st_id st = s \<and> st \<in> set spec_states"
  by (auto simp: state_of_def find_Some_iff)

lemma terminal_kind: "st \<in> set spec_states \<Longrightarrow> st_kind st \<noteq> Terminal \<Longrightarrow> st_id st \<noteq> ''terminal''"
proof -
  have "list_all (\<lambda>st. st_kind st = Terminal \<or> st_id st \<noteq> ''terminal'') spec_states"
    by (simp add: spec_states_def state_defs)
  then show "st \<in> set spec_states \<Longrightarrow> st_kind st \<noteq> Terminal \<Longrightarrow> st_id st \<noteq> ''terminal''"
    unfolding list_all_iff by blast
qed

lemma depth_dispatch: "depth ''dispatch_specialists'' = 7" "depth ''terminal'' = 15"
  by (simp_all add: depth_def depth_table_def)

lemma steps_left_next: "flow s t \<Longrightarrow> iterations it \<le> loop_bound s \<Longrightarrow> steps_left (t, None) < steps_left (s, it)"
  using depth_step [of s t] depth_bound [of t]
  by (auto simp: steps_left_def iterations_def loop_bound_eq depth_dispatch split: if_splits option.splits)

lemma steps_left_terminal: "s \<noteq> ''terminal'' \<Longrightarrow> s \<in> set get_state_ids \<Longrightarrow> steps_left (''terminal'', it') < steps_left (s, it)"
proof -
  assume "s \<noteq> ''terminal''" "s \<in> set get_state_ids"
  then obtain t where "flow s t" using flow_progress by blast
  from depth_step [OF this] depth_bound [of t] show ?thesis
    by (auto simp: steps_left_def depth_dispatch)
qed

lemma steps_left_again:
  "iterations it < n \<Longrightarrow> n \<le> loop_bound s \<Longrightarrow> steps_left (s, Some n) < steps_left (s, it)"
  by (auto simp: steps_left_def loop_bound_eq depth_dispatch iterations_def split: if_splits)

lemma terminal_declared: "''terminal'' \<in> set get_state_ids"
  by (simp add: state_ids)

lemma position_simps [simp]: "position (merge_env out s) = position s"
  by (simp add: merge_env_def)

lemma advance_step_turn:
  assumes "advance_step rt outputs s = Continue s'" "engine_ok rt" "position_ok (position s)" "rv_state s \<noteq> ''terminal''"
  shows "position_ok (position s') \<and> steps_left (position s') < steps_left (position s)"
proof -
  let ?s = "rv_state s" and ?it = "rv_iteration s" and ?env = "rv_env s"
  have ok: "?s \<in> set get_state_ids" "iterations ?it \<le> loop_bound ?s"
    using assms(3,4) by (auto simp: position_ok_def)
  have fin: ?thesis if "rv_state s' = ''terminal''"
    using that steps_left_terminal [OF assms(4) ok(1)] terminal_declared by (simp add: position_ok_def)
  have eng: "case rt_advance rt ?s ?it ?env outputs of
     LoopContinue n \<Rightarrow> iterations ?it < n \<and> n \<le> loop_bound ?s
   | AdvNext (Some t) \<Rightarrow> t = [] \<or> flow ?s t | _ \<Rightarrow> True"
    using assms(2) unfolding engine_ok_def by blast
  show ?thesis
  proof (cases "rt_advance rt ?s ?it ?env outputs")
    case (AdvFault r)
    with assms(1) show ?thesis by (simp add: advance_step_def Let_def split_beta)
  next
    case (LoopContinue n)
    with assms(1) have "position s' = (?s, Some n)"
      by (auto simp: advance_step_def Let_def split_beta merge_env_def)
    with LoopContinue eng ok steps_left_again [of ?it n ?s] show ?thesis
      by (auto simp: position_ok_def iterations_def)
  next
    case AdvTerminal
    with assms(1) show ?thesis
      by (intro fin) (auto simp: advance_step_def Let_def split_beta merge_env_def)
  next
    case (AdvNext nx)
    with assms(1) have s': "rv_iteration s' = None"
      "rv_state s' = (case nx of None \<Rightarrow> ''terminal'' | Some t \<Rightarrow> if t = [] then ''terminal'' else t)"
      by (auto simp: advance_step_def Let_def split_beta merge_env_def)
    show ?thesis
    proof (cases "rv_state s' = ''terminal''")
      case True
      then show ?thesis by (rule fin)
    next
      case False
      with s'(2) obtain t where t: "nx = Some t" "t \<noteq> []" "rv_state s' = t"
        by (auto split: option.splits if_splits)
      with eng AdvNext have "flow ?s t" by simp
      with steps_left_next [OF this ok(2)] flow_target [OF this] t s'(1) show ?thesis
        by (simp add: position_ok_def iterations_def)
    qed
  qed
qed

lemma review_turn_cases:
  assumes "review_turn rt cf s = Inr t"
  obtains (terminal) st where "state_of (rv_state s) = Some st" "st_kind st = Terminal"
      "t = Finished \<lparr>rr_verdict = dget (rv_env s) ''verdict'', rr_run_dir_path = dget (rv_env s) ''run_dir_path'',
          rr_findings = dget_or (rv_env s) ''findings'' (VList []), rr_fault = None\<rparr> s"
  | (fault) st msg s1 where "state_of (rv_state s) = Some st" "st_kind st \<noteq> Terminal"
      "state_step rt cf st s = Inr (Fault msg s1)" "t = Finished (faulted msg) s1"
  | (outputs) st out s1 where "state_of (rv_state s) = Some st" "st_kind st \<noteq> Terminal"
      "state_step rt cf st s = Inr (Outputs out s1)" "t = advance_step rt out s1"
proof (cases "state_of (rv_state s)")
  case None
  with assms show ?thesis by (simp add: review_turn_def)
next
  case (Some st)
  show ?thesis
  proof (cases "st_kind st = Terminal")
    case True
    with assms Some terminal show ?thesis by (simp add: review_turn_def)
  next
    case False
    with assms Some obtain r where r: "state_step rt cf st s = Inr r"
      and t: "t = (case r of Fault text s' \<Rightarrow> Finished (faulted text) s' | Outputs out s' \<Rightarrow> advance_step rt out s')"
      by (auto simp: review_turn_def res_simps)
    show ?thesis
    proof (cases r)
      case (Outputs out s1)
      with r t show ?thesis by (intro outputs [OF Some False, of out s1]) simp_all
    next
      case (Fault msg s1)
      with r t show ?thesis by (intro fault [OF Some False, of msg s1]) simp_all
    qed
  qed
qed

lemma review_turn_continue:
  assumes "review_turn rt cf s = Inr (Continue s')" "engine_ok rt" "position_ok (position s)"
  shows "position_ok (position s') \<and> steps_left (position s') < steps_left (position s)"
  using assms(1)
proof (cases rule: review_turn_cases)
  case (outputs st out s1)
  have pos: "position s1 = position s" using state_step_frame [OF outputs(3)] by simp
  have "rv_state s \<noteq> ''terminal''" using state_of_id [OF outputs(1)] terminal_kind [of st] outputs(2) by auto
  with advance_step_turn [OF outputs(4) [symmetric] assms(2)] pos assms(3) show ?thesis by simp
qed simp_all

interpretation review: terminating_system "\<lambda>s s'. review_turn rt cf s = Inr (Continue s')"
  "\<lambda>s. engine_ok rt \<and> position_ok (position s)" "\<lambda>s. \<nexists>s'. review_turn rt cf s = Inr (Continue s')"
  "\<lambda>s. steps_left (position s)"
  for rt :: "'w runtime" and cf :: run_config
proof
  fix s s' :: "'w review_state"
  assume inv: "engine_ok rt \<and> position_ok (position s)"
  show "review_turn rt cf s = Inr (Continue s') \<Longrightarrow> engine_ok rt \<and> position_ok (position s')"
    "review_turn rt cf s = Inr (Continue s') \<Longrightarrow> steps_left (position s') < steps_left (position s)"
    using inv review_turn_continue by blast+
  show "\<not> (\<nexists>s'. review_turn rt cf s = Inr (Continue s')) \<Longrightarrow> \<exists>s'. review_turn rt cf s = Inr (Continue s')"
    by blast
qed

lemma advance_step_finished:
  "advance_step rt out s = Finished r s' \<Longrightarrow> \<exists>reason. r = faulted (''advance:'' @ reason)"
  by (auto simp: advance_step_def Let_def split_beta split: advance.splits)

lemma faulted_steps: "prefix p text \<Longrightarrow> p \<in> {''inline:'', ''worker:'', ''advance:''} \<Longrightarrow> \<not> out_of_steps (faulted text)"
  by (auto simp: out_of_steps_def faulted_def)

lemma review_turn_finished:
  assumes "review_turn rt cf s = Inr (Finished r s')"
  shows "\<not> out_of_steps r \<and> (rr_fault r = None \<longrightarrow>
    rv_state s' = ''terminal'' \<and> rr_verdict r = dget (rv_env s') ''verdict'' \<and> rr_findings r = dget_or (rv_env s') ''findings'' (VList []))"
  using assms
proof (cases rule: review_turn_cases)
  case (terminal st)
  have "list_all (\<lambda>st. st_kind st = Terminal \<longrightarrow> st_id st = ''terminal'') spec_states"
    by (simp add: spec_states_def state_defs)
  then have "rv_state s = ''terminal''"
    using state_of_id [OF terminal(1)] terminal(2) unfolding list_all_iff by auto
  with terminal(3) show ?thesis by (simp add: out_of_steps_def)
next
  case (fault st msg s1)
  then show ?thesis using state_step_fault [OF fault(3)] faulted_steps [of _ msg] by (auto simp: faulted_def)
next
  case (outputs st out s1)
  from advance_step_finished [OF outputs(4) [symmetric]] show ?thesis
    using faulted_steps [of "''advance:''"] by (auto simp: faulted_def)
qed

text \<open>Either the loop ended by itself, or it took every step it was given.\<close>

lemma review_loop_outcome:
  "review_loop rt cf k s = Inr (r, s') \<Longrightarrow>
    (\<exists>n u. ((\<lambda>s s'. review_turn rt cf s = Inr (Continue s')) ^^ n) s u \<and> review_turn rt cf u = Inr (Finished r s'))
    \<or> (\<exists>u. ((\<lambda>s s'. review_turn rt cf s = Inr (Continue s')) ^^ k) s u)"
proof (induction rt cf k s rule: review_loop.induct)
  case (1 rt cf s)
  then show ?case by auto
next
  case (2 rt cf k s)
  let ?R = "\<lambda>s s'. review_turn rt cf s = Inr (Continue s')"
  from 2(2) obtain t where t: "review_turn rt cf s = Inr t"
    and rest: "(case t of Finished r s' \<Rightarrow> Inr (r, s') | Continue s' \<Rightarrow> review_loop rt cf k s') = Inr (r, s')"
    by (auto simp: res_simps)
  show ?case
  proof (cases t)
    case (Finished r1 s1)
    with t rest have "review_turn rt cf s = Inr (Finished r s')" by simp
    then show ?thesis by (intro disjI1 exI [of _ 0] exI [of _ s]) simp
  next
    case (Continue s1)
    then have one: "?R s s1" and loop: "review_loop rt cf k s1 = Inr (r, s')" using t rest by simp_all
    from 2(1) [OF t Continue loop] show ?thesis
    proof
      assume "\<exists>n u. (?R ^^ n) s1 u \<and> review_turn rt cf u = Inr (Finished r s')"
      then obtain n u where nu: "(?R ^^ n) s1 u" "review_turn rt cf u = Inr (Finished r s')" by blast
      have "(?R ^^ Suc n) s u" by (rule relpowp_Suc_I2 [of ?R, OF one nu(1)])
      with nu(2) show ?thesis by blast
    next
      assume "\<exists>u. (?R ^^ k) s1 u"
      then obtain u where "(?R ^^ k) s1 u" by blast
      then have "(?R ^^ Suc k) s u" by (rule relpowp_Suc_I2 [of ?R, OF one])
      then show ?thesis by blast
    qed
  qed
qed

subsection \<open>Properties\<close>

text \<open>How a run ends: never for want of steps, and without a fault in the terminal state.\<close>

lemma run_review_ends:
  assumes "engine_ok rt" "run_review rt cf args w = Inr (r, ms, s)"
  shows "\<not> out_of_steps r \<and> (rr_fault r = None \<longrightarrow>
    rv_state s = ''terminal'' \<and> rr_verdict r = dget (rv_env s) ''verdict'' \<and> rr_findings r = dget_or (rv_env s) ''findings'' (VList []))"
proof -
  let ?R = "\<lambda>s s'. review_turn rt cf s = Inr (Continue s')" and ?s0 = "review_init rt cf args w"
  from assms(2) obtain s' where loop: "review_loop rt cf max_steps ?s0 = Inr (r, s')" and s: "s = snd (read_clock rt s')"
    by (auto simp: run_review_def res_simps split_beta Let_def)
  have pos: "position ?s0 = (''scan_project'', None)"
    by (simp add: review_init_def split_beta Let_def entry_state_def)
  then have inv: "engine_ok rt \<and> position_ok (position ?s0)"
    using assms(1) by (simp add: position_ok_def state_ids iterations_def)
  have "\<not> (\<exists>u. (?R ^^ max_steps) ?s0 u)"
  proof
    assume "\<exists>u. (?R ^^ max_steps) ?s0 u"
    then obtain u where u: "(?R ^^ max_steps) ?s0 u" by blast
    have "max_steps \<le> steps_left (position ?s0)" using u inv by (rule review.run_bounded)
    then show False
      unfolding pos by (simp add: steps_left_def iterations_def max_steps_def depth_def depth_table_def)
  qed
  with review_loop_outcome [OF loop] obtain u where "review_turn rt cf u = Inr (Finished r s')" by blast
  from review_turn_finished [OF this] show ?thesis by (simp add: s)
qed

text \<open>
  C5: a review never runs out of steps: with an engine that follows the declared transitions
  and raises the iteration count of a loop within its bound, the limit of 512 turns is not
  reached, whatever the model, the handlers and the clock do; a run that returns without a
  fault stands in the terminal state and reports the verdict and findings committed there.
\<close>

theorem review_bounded:
  assumes "engine_ok rt" "run_review rt cf args w = Inr (r, ms, s)"
  shows "rr_fault r \<noteq> Some ''max_steps_exceeded''
    \<and> (rr_fault r = None \<longrightarrow> rv_state s = ''terminal'' \<and> rr_verdict r = dget (rv_env s) ''verdict''
         \<and> rr_findings r = dget_or (rv_env s) ''findings'' (VList []))"
  using run_review_ends [OF assms] by (simp add: out_of_steps_def)

text \<open>A runtime whose model answers nothing and whose engine stops after the scan.\<close>

definition quick_runtime :: "unit runtime" where
  "quick_runtime = \<lparr>rt_now = (\<lambda>w. (0, w)), rt_worker = (\<lambda>sid inputs w. (Answer [(''verdict'', VStr ''GO'')], w)),
     rt_specialist = (\<lambda>u shared w. (RaiseRateLimit, w)), rt_inline = (\<lambda>st it env w. (Inl ''unused'', w)),
     rt_advance = (\<lambda>s it env outputs. AdvTerminal)\<rparr>"

definition quick_config :: run_config where
  "quick_config = \<lparr>cf_max_workers = 8, cf_min_workers = 1, cf_max_retries = 2, cf_base_backoff = 1\<rparr>"

theorem review_bounded_witness:
  "\<exists>r ms s. run_review quick_runtime quick_config [] () = Inr (r, ms, s) \<and> rr_fault r = None
     \<and> rv_state s = ''terminal'' \<and> rr_verdict r = VStr ''GO''"
proof -
  have scan: "state_of ''scan_project'' = Some st_scan_project" and trm: "state_of ''terminal'' = Some st_terminal"
    by (simp_all add: state_of_def spec_states_def state_defs)
  have ok: "engine_ok quick_runtime" by (simp add: engine_ok_def quick_runtime_def)
  let ?s0 = "review_init quick_runtime quick_config [] ()"
  obtain s1 where one: "review_turn quick_runtime quick_config ?s0 = Inr (Continue s1)"
    and s1: "rv_state s1 = ''terminal''" "dget (rv_env s1) ''verdict'' = VStr ''GO''"
    by (simp add: review_init_def review_turn_def entry_state_def scan st_scan_project_def state_step_def worker_step_def
        call_worker_resilient.simps quick_runtime_def quick_config_def read_clock_def record_stage_def Let_def
        worker_finish_def accumulate_cost_def add_tokens_def add_amount_def is_number_def coverage_floor_def
        advance_step_def merge_env_def dmerge_def)
  have "review_loop quick_runtime quick_config max_steps ?s0 = review_loop quick_runtime quick_config (Suc (Suc 510)) ?s0"
    by (simp add: max_steps_def)
  also have "\<dots> = review_loop quick_runtime quick_config (Suc 510) s1"
    by (simp only: review_loop.simps(2) [of _ _ "Suc 510"] one bindE.simps turn.case)
  also have "\<exists>r. \<dots> = Inr (r, s1) \<and> rr_fault r = None"
    unfolding review_loop.simps(2) by (simp add: review_turn_def s1 trm st_terminal_def)
  finally obtain r where r: "review_loop quick_runtime quick_config max_steps ?s0 = Inr (r, s1)" "rr_fault r = None" by blast
  then obtain ms s where run: "run_review quick_runtime quick_config [] () = Inr (r, ms, s)" "rv_env s = rv_env s1"
    by (simp add: run_review_def split_beta Let_def)
  from review_bounded [OF ok run(1)] r(2) s1 run show ?thesis by auto
qed

end
