(* ===== verification/Dispatch.thy ===== *)
theory Dispatch
  imports Cost Gates
begin

section \<open>The dispatch layer\<close>

text \<open>
  \<^verbatim>\<open>code_review/dispatch.py\<close>: how a backend's answer and its failures are classified, the
  compaction of leaves for a prompt and their rehydration, the application of the ranker's
  decisions, the removal of nulls, the cost stamp and the routing of leaves to tiers. The
  subprocesses and SDKs of the backends are outside the model; an SDK's usage object is the
  dictionary of its attributes.
\<close>

subsection \<open>Signals\<close>

datatype signal = SignalRateLimit string | SignalOverflow string

text \<open>\<^verbatim>\<open>low[-200:]\<close>.\<close>

definition signal_tail :: "string \<Rightarrow> string" where
  "signal_tail low = str_drop (str_len low - 200) low"

definition raise_for_signal :: "string \<Rightarrow> signal option" where
  "raise_for_signal text = (let low = lower text in
     if (contains ''rate'' low \<and> contains ''limit'' low) \<or> contains ''429'' low \<or> contains ''overloaded'' low
     then Some (SignalRateLimit (signal_tail low))
     else if contains ''context'' low
       \<and> (contains ''overflow'' low \<or> contains ''too long'' low \<or> contains ''exceed'' low)
     then Some (SignalOverflow (signal_tail low))
     else if contains ''prompt is too long'' low \<or> contains ''maximum context'' low
     then Some (SignalOverflow (signal_tail low))
     else None)"

subsection \<open>Backends\<close>

text \<open>What a backend returns: a tuple or any other value.\<close>

datatype backend_result = Bare pyval | Tuple "pyval list"

definition str_of_result :: "backend_result \<Rightarrow> string" where
  "str_of_result r = (case r of Bare v \<Rightarrow> py_str v
     | Tuple vs \<Rightarrow> ''('' @ join '', '' (map py_repr vs) @ (if length vs = 1 then '','' else []) @ '')'')"

definition call_backend :: "backend_result \<Rightarrow> string \<times> dict option" where
  "call_backend out = (case out of
     Tuple [text, usage] \<Rightarrow> (py_str text, dict_of usage)
   | _ \<Rightarrow> (str_of_result out, None))"

definition sdk_int :: "dict \<Rightarrow> string \<Rightarrow> int res" where
  "sdk_int obj name = int_or_zero (dget_or obj name (VInt 0))"

definition usage_from_sdk :: "dict option \<Rightarrow> dict option res" where
  "usage_from_sdk usage = (case usage of None \<Rightarrow> Inr None
   | Some u \<Rightarrow>
       bindE (sdk_int u ''input_tokens'') (\<lambda>i.
       bindE (sdk_int u ''output_tokens'') (\<lambda>out.
       bindE (sdk_int u ''cache_creation_input_tokens'') (\<lambda>cw.
       bindE (sdk_int u ''cache_read_input_tokens'') (\<lambda>cr.
       Inr (Some [(''in_tokens'', VInt i), (''out_tokens'', VInt out), (''cache_create'', VInt cw),
                  (''cache_read'', VInt cr), (''cost_usd'', VNone)]))))))"

definition openai_usage_from_sdk :: "dict option \<Rightarrow> dict option res" where
  "openai_usage_from_sdk usage = (case usage of None \<Rightarrow> Inr None
   | Some u \<Rightarrow>
       bindE (sdk_int u ''prompt_tokens'') (\<lambda>i.
       bindE (sdk_int u ''completion_tokens'') (\<lambda>out.
       bindE (sdk_int (ensure_dict (dget u ''prompt_tokens_details'')) ''cached_tokens'') (\<lambda>cr.
       Inr (Some [(''in_tokens'', VInt i), (''out_tokens'', VInt out), (''cache_create'', VInt 0),
                  (''cache_read'', VInt cr), (''cost_usd'', VNone)])))))"

subsection \<open>Leaves in prompts\<close>

definition leaf_list_keys :: "string list" where
  "leaf_list_keys = [''activated_leaves'', ''stage_a_candidates'', ''candidate_leaves'']"

definition heavy_leaf_keys :: "string list" where
  "heavy_leaf_keys = [''covers'', ''audit_surface'']"

definition compact_leaf :: "dict \<Rightarrow> dict" where
  "compact_leaf leaf =
     (let out = filter (\<lambda>(k, v). k \<notin> set heavy_leaf_keys) leaf in
      case dget leaf ''covers'' of
        VList cov \<Rightarrow> if cov \<noteq> [] then dset ''covers'' (VList (take 3 cov)) out else out
      | _ \<Rightarrow> out)"

definition compact_value :: "pyval \<Rightarrow> pyval" where
  "compact_value x = (case x of VDict d \<Rightarrow> VDict (compact_leaf d) | _ \<Rightarrow> x)"

definition compact_inputs :: "dict \<Rightarrow> dict" where
  "compact_inputs inputs =
     foldl (\<lambda>out k. case dget out k of VList xs \<Rightarrow> dset k (VList (map compact_value xs)) out | _ \<Rightarrow> out)
       inputs leaf_list_keys"

definition index_by_id :: "pyval \<Rightarrow> (string \<times> dict) list" where
  "index_by_id leaves = foldl (\<lambda>m lf. case dget lf ''id'' of VStr i \<Rightarrow> dset i lf m | _ \<Rightarrow> m) []
     (dicts_of (ensure_list leaves))"

text \<open>\<^verbatim>\<open>v not in (None, [], "")\<close>.\<close>

definition given :: "pyval \<Rightarrow> bool" where
  "given v \<longleftrightarrow> v \<noteq> VNone \<and> v \<noteq> VList [] \<and> v \<noteq> VStr []"

definition rehydrate_leaf :: "(string \<times> dict) list \<Rightarrow> dict \<Rightarrow> dict res" where
  "rehydrate_leaf source p =
     (let i = dget_or p ''id'' (VStr []) in
      if \<not> hashable i then Inl TypeError
      else (case i of
          VStr s \<Rightarrow> (case map_of source s of
              Some full \<Rightarrow> Inr (if full \<noteq> [] then dmerge full (filter (\<lambda>(k, v). given v) p) else p)
            | None \<Rightarrow> Inr p)
        | _ \<Rightarrow> Inr p))"

definition rehydrate :: "pyval \<Rightarrow> (string \<times> dict) list \<Rightarrow> dict list res" where
  "rehydrate picked source = mapE (rehydrate_leaf source) (dicts_of (ensure_list picked))"

subsection \<open>The ranker's decisions\<close>

definition sev_default_conf :: "(string \<times> rat) list" where
  "sev_default_conf = [(''critical'', 9 / 10), (''important'', 7 / 10), (''minor'', 1 / 4)]"

definition severity_text :: "dict \<Rightarrow> string" where
  "severity_text f = lower (py_str (dget_or f ''severity'' (VStr [])))"

definition default_conf :: "dict \<Rightarrow> pyfloat" where
  "default_conf f = Fin (case map_of sev_default_conf (severity_text f) of Some c \<Rightarrow> c | None \<Rightarrow> 1 / 2)"

definition rank_threshold :: "dict \<Rightarrow> pyfloat res" where
  "rank_threshold args = (case py_float (py_or (dget args ''primary-threshold'') (VFloat (Fin (3 / 4)))) of
     Inl TypeError \<Rightarrow> Inr (Fin (3 / 4)) | Inl ValueError \<Rightarrow> Inr (Fin (3 / 4)) | r \<Rightarrow> r)"

definition decisions_by_index :: "pyval \<Rightarrow> (int \<times> dict) list" where
  "decisions_by_index decisions =
     foldl (\<lambda>m d. case int_of (dget d ''i'') of Some i \<Rightarrow> dset i d m | None \<Rightarrow> m) []
       (dicts_of (ensure_list decisions))"

definition decision_for :: "(int \<times> dict) list \<Rightarrow> nat \<Rightarrow> dict" where
  "decision_for by_i idx = (case map_of by_i (int idx) of Some d \<Rightarrow> d | None \<Rightarrow> [])"

definition decided_conf :: "dict \<Rightarrow> dict \<Rightarrow> pyfloat res" where
  "decided_conf f d = (let conf = dget d ''defect_confidence'' in
     if num_of conf \<noteq> None then py_float conf else Inr (default_conf f))"

definition apply_decision :: "pyfloat \<Rightarrow> dict \<Rightarrow> dict \<Rightarrow> dict res" where
  "apply_decision thr f d =
     bindE (decided_conf f d) (\<lambda>conf.
       let primary = (case dget d ''primary'' of VBool b \<Rightarrow> b | _ \<Rightarrow> float_le thr conf) in
       Inr (dset ''primary'' (VBool primary) (dset ''defect_confidence'' (VFloat conf) f)))"

definition severity_names :: "string list" where
  "severity_names = [''critical'', ''important'', ''minor'']"

definition apply_rank_decisions :: "dict list \<Rightarrow> pyval \<Rightarrow> dict \<Rightarrow> dict res" where
  "apply_rank_decisions findings decisions args =
     bindE (rank_threshold args) (\<lambda>thr.
       let by_i = decisions_by_index decisions;
           kept = filter (\<lambda>(idx, f). \<not> truthy (dget (decision_for by_i idx) ''drop'')) (enumerate 0 findings)
       in bindE (mapE (\<lambda>(idx, f). apply_decision thr f (decision_for by_i idx)) kept) (\<lambda>out.
          Inr [(''findings'', VList (map VDict out)),
               (''severity_counts'', VDict (map (\<lambda>s. (s, VInt (int (count_if (\<lambda>f. severity_text f = s) out))))
                  severity_names))]))"

subsection \<open>Nulls, stamps and tiers\<close>

fun strip_nulls :: "pyval \<Rightarrow> pyval"
  and strip_items :: "pyval list \<Rightarrow> pyval list"
  and strip_fields :: "dict \<Rightarrow> dict" where
  "strip_nulls (VDict d) = VDict (strip_fields d)"
| "strip_nulls (VList xs) = VList (strip_items xs)"
| "strip_nulls v = v"
| "strip_items [] = []"
| "strip_items (x # xs) = strip_nulls x # strip_items xs"
| "strip_fields [] = []"
| "strip_fields ((k, v) # d) = (if v = VNone then strip_fields d else (k, strip_nulls v) # strip_fields d)"

definition stamp_cost :: "dict \<Rightarrow> string \<Rightarrow> dict option \<Rightarrow> string \<Rightarrow> string \<Rightarrow> dict res" where
  "stamp_cost out tier usage prompt response_text =
     bindE (call_cost_fields tier usage prompt response_text) (\<lambda>fields. Inr (dmerge out fields))"

definition strong_prefixes :: "string list" where
  "strong_prefixes = [''sec-'', ''lang-'', ''fw-'', ''orm-'', ''footgun-'', ''reliability-'', ''data-'']"

text \<open>\<^verbatim>\<open>re.match\<close> raises for a leaf id that is no string.\<close>

definition route_tier :: "pyval \<Rightarrow> pyval \<Rightarrow> string res" where
  "route_tier leaf_id dimensions =
     (let dims = py_or dimensions (VList []) in
      bindE (or_else (str_in ''security'' dims) (str_in ''correctness'' dims)) (\<lambda>strong.
      if strong then Inr ''strong''
      else (case leaf_id of
          VStr i \<Rightarrow> Inr (if list_ex (\<lambda>p. prefix p i) strong_prefixes \<or> i = ''principle-fail-fast''
                         then ''strong'' else ''cheap'')
        | _ \<Rightarrow> Inl TypeError)))"

subsection \<open>Lemmas\<close>

text \<open>No dictionary inside the value has a null.\<close>

fun null_free :: "pyval \<Rightarrow> bool" where
  "null_free (VDict d) = list_all (\<lambda>(k, v). v \<noteq> VNone \<and> null_free v) d"
| "null_free (VList xs) = list_all null_free xs"
| "null_free v = True"

lemma strip_nulls_None [simp]: "strip_nulls v = VNone \<longleftrightarrow> v = VNone"
  by (cases v) auto

lemma strip_null_free:
  "null_free (strip_nulls v)" "list_all null_free (strip_items xs)"
  "list_all (\<lambda>(k, v). v \<noteq> VNone \<and> null_free v) (strip_fields d)"
  by (induction v and xs and d rule: strip_nulls_strip_items_strip_fields.induct) auto

lemma strip_id:
  "null_free v \<Longrightarrow> strip_nulls v = v" "list_all null_free xs \<Longrightarrow> strip_items xs = xs"
  "list_all (\<lambda>(k, v). v \<noteq> VNone \<and> null_free v) d \<Longrightarrow> strip_fields d = d"
  by (induction v and xs and d rule: strip_nulls_strip_items_strip_fields.induct) auto

lemma strip_items_map: "strip_items xs = map strip_nulls xs"
  by (induction xs) auto

lemma strip_fields_keys: "fst ` set (strip_fields d) \<subseteq> fst ` set d"
proof (induction d)
  case Nil
  then show ?case by simp
next
  case (Cons kv d)
  then show ?case by (cases kv) (simp, blast)
qed

lemma dget_absent: "k \<notin> fst ` set d \<Longrightarrow> dget d k = VNone"
  by (induction d) auto

lemma dget_strip_fields: "distinct (map fst d) \<Longrightarrow> dget (strip_fields d) k = strip_nulls (dget d k)"
proof (induction d)
  case Nil
  then show ?case by simp
next
  case (Cons kv d)
  obtain k' v where kv: "kv = (k', v)" by fastforce
  have "k' \<notin> fst ` set (strip_fields d)" using Cons.prems strip_fields_keys [of d] by (auto simp: kv)
  with Cons show ?case by (auto simp: kv dget_absent)
qed

lemma apply_decision_fields:
  assumes "apply_decision thr f d = Inr nf"
  shows "\<forall>k. k \<noteq> ''defect_confidence'' \<and> k \<noteq> ''primary'' \<longrightarrow> dget nf k = dget f k"
    and "severity_text nf = severity_text f"
    and "d = [] \<Longrightarrow> dget nf ''defect_confidence'' = VFloat (default_conf f)
       \<and> dget nf ''primary'' = VBool (float_le thr (default_conf f))"
  using assms
  by (auto simp: apply_decision_def decided_conf_def Let_def severity_text_def num_of_def res_simps split: if_splits)

lemma count_map_eq:
  "length xs = length ys \<Longrightarrow> (\<And>n. n < length xs \<Longrightarrow> f (xs ! n) = g (ys ! n)) \<Longrightarrow>
     count_if (\<lambda>x. f x = s) xs = count_if (\<lambda>y. g y = s) ys"
proof (induction xs ys rule: list_induct2)
  case Nil
  then show ?case by simp
next
  case (Cons x xs y ys)
  have "f x = g y" using Cons.prems [of 0] by simp
  moreover have "count_if (\<lambda>x. f x = s) xs = count_if (\<lambda>y. g y = s) ys"
    using Cons.IH Cons.prems by fastforce
  ultimately show ?case by simp
qed

lemma distinct_fst_filter: "distinct (map fst d) \<Longrightarrow> distinct (map fst (filter P d))"
  by (induction d) auto

lemma dget_filter:
  "distinct (map fst d) \<Longrightarrow> dget (filter (\<lambda>(k, v). P k v) d) k = (if P k (dget d k) then dget d k else VNone)"
proof (induction d)
  case Nil
  then show ?case by simp
next
  case (Cons kv d)
  obtain k' v where kv: "kv = (k', v)" by fastforce
  have "k' \<notin> fst ` set (filter (\<lambda>(k, v). P k v) d)" using Cons.prems by (auto simp: kv)
  with Cons show ?case by (auto simp: kv dget_absent)
qed

subsection \<open>Properties\<close>

text \<open>
  Removing nulls is the safe normalisation it is meant to be: no dictionary of the result,
  at any depth, has a null, a value without nulls is unchanged, so doing it twice is doing
  it once, and every other field keeps its (normalised) value.
\<close>

theorem strip_nulls_spec:
  "null_free (strip_nulls v) \<and> strip_nulls (strip_nulls v) = strip_nulls v \<and> (null_free v \<longrightarrow> strip_nulls v = v)
   \<and> (distinct (map fst d) \<longrightarrow> strip_nulls (VDict d) = VDict (strip_fields d)
        \<and> (\<forall>k. dget (strip_fields d) k = strip_nulls (dget d k)))"
  using strip_null_free(1) [of v] strip_id(1) dget_strip_fields by auto

theorem strip_nulls_spec_witness:
  "dget (strip_fields [(''status'', VStr ''completed''), (''skip_reason'', VNone)]) ''status'' = VStr ''completed''"
  using strip_nulls_spec [of VNone "[(''status'', VStr ''completed''), (''skip_reason'', VNone)]"] by simp

text \<open>
  C13: the ranker cannot lose or rewrite a finding: exactly the findings with a decision to drop
  are left out, the others stay in order with every field but the two scores as it was, a
  finding the ranker said nothing of gets the default confidence of its severity and is
  primary when that reaches the threshold, and the severities are counted over what is kept.
\<close>

theorem apply_rank_decisions_spec:
  assumes "apply_rank_decisions findings decisions args = Inr out" "rank_threshold args = Inr thr"
  defines "by_i \<equiv> decisions_by_index decisions"
  defines "kept \<equiv> filter (\<lambda>(idx, f). \<not> truthy (dget (decision_for by_i idx) ''drop'')) (enumerate 0 findings)"
  shows "\<exists>fs. dget out ''findings'' = VList (map VDict fs) \<and> length fs = length kept
    \<and> (\<forall>n<length kept. \<forall>k. k \<noteq> ''defect_confidence'' \<and> k \<noteq> ''primary'' \<longrightarrow> dget (fs ! n) k = dget (snd (kept ! n)) k)
    \<and> (\<forall>n<length kept. decision_for by_i (fst (kept ! n)) = [] \<longrightarrow>
         dget (fs ! n) ''defect_confidence'' = VFloat (default_conf (snd (kept ! n)))
         \<and> dget (fs ! n) ''primary'' = VBool (float_le thr (default_conf (snd (kept ! n)))))
    \<and> (\<forall>s\<in>set severity_names. dget (ensure_dict (dget out ''severity_counts'')) s
         = VInt (int (count_if (\<lambda>p. severity_text (snd p) = s) kept)))"
proof -
  from assms(1,2) obtain fs where fs: "mapE (\<lambda>(idx, f). apply_decision thr f (decision_for by_i idx)) kept = Inr fs"
    and out: "out = [(''findings'', VList (map VDict fs)),
               (''severity_counts'', VDict (map (\<lambda>s. (s, VInt (int (count_if (\<lambda>f. severity_text f = s) fs))))
                  severity_names))]"
    by (auto simp: apply_rank_decisions_def by_i_def kept_def Let_def res_simps)
  have len: "length fs = length kept" using fs by (rule mapE_length)
  have dec: "apply_decision thr (snd (kept ! n)) (decision_for by_i (fst (kept ! n))) = Inr (fs ! n)"
    if "n < length kept" for n
    using mapE_nth [OF fs that] by (simp add: split_beta)
  have "count_if (\<lambda>f. severity_text f = s) fs = count_if (\<lambda>p. severity_text (snd p) = s) kept" for s
    using len apply_decision_fields(2) [OF dec] by (intro count_map_eq) auto
  moreover have "\<forall>n<length kept. \<forall>k. k \<noteq> ''defect_confidence'' \<and> k \<noteq> ''primary'' \<longrightarrow>
      dget (fs ! n) k = dget (snd (kept ! n)) k"
    using apply_decision_fields(1) [OF dec] by blast
  moreover have "\<forall>n<length kept. decision_for by_i (fst (kept ! n)) = [] \<longrightarrow>
         dget (fs ! n) ''defect_confidence'' = VFloat (default_conf (snd (kept ! n)))
         \<and> dget (fs ! n) ''primary'' = VBool (float_le thr (default_conf (snd (kept ! n))))"
    using apply_decision_fields(3) [OF dec] by blast
  ultimately show ?thesis
    using len by (intro exI [of _ fs]) (auto simp: out ensure_dict_def severity_names_def)
qed

definition two_findings :: "dict list" where
  "two_findings = [[(''severity'', VStr ''critical''), (''title'', VStr ''leak'')],
     [(''severity'', VStr ''minor''), (''title'', VStr ''style'')]]"

theorem apply_rank_decisions_spec_witness:
  "\<exists>out fs. apply_rank_decisions two_findings (VList [VDict [(''i'', VInt 1), (''drop'', VBool True)]]) [] = Inr out
     \<and> dget out ''findings'' = VList (map VDict fs) \<and> length fs = 1 \<and> dget (fs ! 0) ''title'' = VStr ''leak''"
proof -
  let ?dec = "VList [VDict [(''i'', VInt 1), (''drop'', VBool True)]]"
  have thr: "rank_threshold [] = Inr (Fin (3 / 4))" by (simp add: rank_threshold_def py_or_def py_float_def)
  have kept: "filter (\<lambda>(idx, f). \<not> truthy (dget (decision_for (decisions_by_index ?dec) idx) ''drop''))
      (enumerate 0 two_findings) = [(0, hd two_findings)]"
    by (simp add: two_findings_def decisions_by_index_def ensure_list_def int_of_def decision_for_def)
  obtain out where out: "apply_rank_decisions two_findings ?dec [] = Inr out"
    using kept by (simp add: apply_rank_decisions_def thr apply_decision_def decided_conf_def num_of_def
        two_findings_def decision_for_def decisions_by_index_def ensure_list_def int_of_def Let_def)
  from apply_rank_decisions_spec [OF out thr, unfolded kept] obtain fs where
      fs: "dget out ''findings'' = VList (map VDict fs)" "length fs = length [(0 :: nat, hd two_findings)]"
    and same: "\<forall>n<length [(0 :: nat, hd two_findings)]. \<forall>k. k \<noteq> ''defect_confidence'' \<and> k \<noteq> ''primary'' \<longrightarrow>
      dget (fs ! n) k = dget (snd ([(0 :: nat, hd two_findings)] ! n)) k"
    by (elim exE conjE) (rule that; assumption)
  have "dget (fs ! 0) ''title'' = VStr ''leak''" using same by (simp add: two_findings_def)
  with out fs show ?thesis by auto
qed

text \<open>
  Rehydration does not undo compaction: a leaf that the model echoes as it was sent gets
  every field back but \<^verbatim>\<open>covers\<close>, of which the thin hint of the prompt, the first three
  entries, replaces the full list of the source.
\<close>

theorem rehydrate_compact:
  assumes "distinct (map fst leaf)" "dget leaf ''id'' = VStr i"
    and "map_of source i = Some leaf" "dget leaf ''covers'' = VList cov" "cov \<noteq> []"
  shows "\<exists>r. rehydrate (VList [VDict (compact_leaf leaf)]) source = Inr [r]
    \<and> (\<forall>k. k \<noteq> ''covers'' \<longrightarrow> dget r k = dget leaf k) \<and> dget r ''covers'' = VList (take 3 cov)"
proof -
  let ?c = "compact_leaf leaf"
  let ?light = "filter (\<lambda>(k, v). k \<notin> set heavy_leaf_keys) leaf"
  have c: "?c = dset ''covers'' (VList (take 3 cov)) ?light"
    using assms(4,5) by (simp add: compact_leaf_def Let_def)
  have dist: "distinct (map fst ?c)"
    unfolding c using distinct_fst_filter [OF assms(1)] by (rule distinct_update)
  have light: "dget ?c k = (if k = ''covers'' then VList (take 3 cov) else if k = ''audit_surface'' then VNone else dget leaf k)" for k
    unfolding c using dget_filter [OF assms(1), of "\<lambda>k v. k \<notin> set heavy_leaf_keys" k]
    by (simp add: heavy_leaf_keys_def)
  have "leaf \<noteq> []" using assms(2) by auto
  let ?r = "dmerge leaf (filter (\<lambda>(k, v). given v) ?c)"
  have "dget_or ?c ''id'' (VStr []) = VStr i"
    using light [of "''id''"] assms(2) by (auto simp: dget_def dget_or_def split: option.splits)
  then have "rehydrate_leaf source ?c = Inr ?r"
    using assms(3) \<open>leaf \<noteq> []\<close> by (simp add: rehydrate_leaf_def hashable_def is_list_def is_dict_def)
  then have run: "rehydrate (VList [VDict ?c]) source = Inr [?r]" by (simp add: rehydrate_def ensure_list_def)
  have merged: "dget ?r k = (if given (dget ?c k) then dget ?c k else dget leaf k)" for k
  proof -
    let ?g = "filter (\<lambda>(k, v). given v) ?c"
    have d: "dget ?g k = (if given (dget ?c k) then dget ?c k else VNone)"
      using dget_filter [OF dist, of "\<lambda>k v. given v" k] .
    have none: "v \<noteq> VNone" if "(k, v) \<in> set ?g" for v using that by (auto simp: given_def)
    have m: "map_of (dmerge leaf ?g) k = (case map_of ?g k of None \<Rightarrow> map_of leaf k | Some v \<Rightarrow> Some v)"
      using distinct_fst_filter [OF dist] by (rule map_of_dmerge)
    show ?thesis
    proof (cases "map_of ?g k")
      case None
      then have "dget ?g k = VNone" by (simp add: dget_def dget_or_def)
      then have "\<not> given (dget ?c k)" using d by (auto simp: given_def split: if_splits)
      with m None show ?thesis by (simp add: dget_def dget_or_def)
    next
      case (Some v)
      then have "v \<noteq> VNone" using none map_of_SomeD by fastforce
      moreover have v: "dget ?g k = v" using Some by (simp add: dget_def dget_or_def)
      ultimately have "given (dget ?c k) \<and> dget ?c k = v" using d by (auto split: if_splits)
      moreover have "dget ?r k = v" using m Some by (simp add: dget_def dget_or_def)
      ultimately show ?thesis by auto
    qed
  qed
  have "\<forall>k. k \<noteq> ''covers'' \<longrightarrow> dget ?r k = dget leaf k"
    unfolding merged light by (auto simp: given_def)
  moreover have "dget ?r ''covers'' = VList (take 3 cov)"
    unfolding merged light using assms(5) by (simp add: given_def)
  ultimately show ?thesis using run by blast
qed

theorem rehydrate_compact_witness:
  "\<exists>r. rehydrate (VList [VDict (compact_leaf [(''id'', VStr ''sec''), (''covers'', VList (map VInt [1, 2, 3, 4]))])])
      [(''sec'', [(''id'', VStr ''sec''), (''covers'', VList (map VInt [1, 2, 3, 4]))])] = Inr [r]
    \<and> dget r ''covers'' = VList (map VInt [1, 2, 3])"
  using rehydrate_compact [of "[(''id'', VStr ''sec''), (''covers'', VList (map VInt [1, 2, 3, 4]))]" "''sec''"
      "[(''sec'', [(''id'', VStr ''sec''), (''covers'', VList (map VInt [1, 2, 3, 4]))])]" "map VInt [1, 2, 3, 4]"]
  by auto

end
