(* ===== verification/Dispatch_Refinement.thy ===== *)
theory Dispatch_Refinement
  imports Runner
begin

section \<open>The dispatch loop refines the pool\<close>

text \<open>
  \<open>Runner.dispatch_one\<close> computes what \<^verbatim>\<open>_dispatch_one\<close> returns; \<open>Limiter.pool_step\<close> has its
  critical sections as steps of one worker. This theory ties the two models of the same code
  together: every run of the function is a run of a worker of the pool, with the same
  limiter and with the settled file lists the counters speak of.
\<close>

abbreviation lone_worker :: "limiter \<Rightarrow> pyval task list \<Rightarrow> pyval list list \<Rightarrow> (pyval list \<times> bool) list \<Rightarrow> pyval pool" where
  "lone_worker l ts q lg \<equiv>
     \<lparr>pl_limiter = l, pl_workers = [\<lparr>wk_phase = Idle, wk_tasks = ts\<rparr>], pl_queue = q, pl_log = lg\<rparr>"

definition free_limiter :: "limiter \<Rightarrow> bool" where
  "free_limiter l \<longleftrightarrow> limiter_ok l \<and> lm_inflight l = 0"

text \<open>One call: the worker acquires, calls, releases and settles the outcome.\<close>

lemma lone_call:
  assumes "free_limiter l" "settle R oc (release (Limiter.acquire l)) fs a = (l', new, entries)"
  shows "(pool_step R)\<^sup>*\<^sup>* (lone_worker l ((fs, a) # ts) q lg) (lone_worker l' (new @ ts) q (lg @ entries))"
    and "free_limiter l'"
proof -
  let ?p0 = "lone_worker l ((fs, a) # ts) q lg"
  let ?w = "\<lambda>ph. [\<lparr>wk_phase = ph, wk_tasks = (fs, a) # ts\<rparr>]"
  let ?p1 = "\<lparr>pl_limiter = Limiter.acquire l, pl_workers = ?w Calling, pl_queue = q, pl_log = lg\<rparr>"
  let ?p2 = "\<lparr>pl_limiter = release (Limiter.acquire l), pl_workers = ?w (Released oc), pl_queue = q, pl_log = lg\<rparr>"
  have "can_acquire l" using assms(1) by (auto simp: free_limiter_def can_acquire_def limiter_ok_def)
  then have s1: "pool_step R ?p0 ?p1"
    using pool_step.acquire [of 0 ?p0 "(fs, a)" ts R] by simp
  have s2: "pool_step R ?p1 ?p2"
    using pool_step.release [of 0 ?p1 "(fs, a)" ts R oc] by simp
  have s3: "pool_step R ?p2 (lone_worker l' (new @ ts) q (lg @ entries))"
    using pool_step.settle [of 0 ?p2 oc fs a ts R l' new entries] assms(2) by simp
  show "(pool_step R)\<^sup>*\<^sup>* ?p0 (lone_worker l' (new @ ts) q (lg @ entries))"
    using s1 s2 s3 by (blast intro: rtranclp.rtrancl_into_rtrancl r_into_rtranclp)
  show "free_limiter l'"
    using settle_limiter [OF assms(2)] assms(1) by (simp add: free_limiter_def limiter_ops_ok)
qed

text \<open>What the counters say of the entries of the log.\<close>

definition answered_in :: "(pyval list \<times> bool) list \<Rightarrow> nat" where
  "answered_in entries = count_if snd entries"

definition failed_in :: "(pyval list \<times> bool) list \<Rightarrow> nat" where
  "failed_in entries = count_if (\<lambda>e. \<not> snd e) entries"

definition refines :: "nat \<Rightarrow> pyval list \<Rightarrow> nat \<Rightarrow> 'w run_state \<Rightarrow> 'w run_state \<Rightarrow> bool" where
  "refines R fs a st st' \<longleftrightarrow> (\<forall>ts q lg. \<exists>entries.
     (pool_step R)\<^sup>*\<^sup>* (lone_worker (rs_limiter st) ((fs, a) # ts) q lg)
        (lone_worker (rs_limiter st') ts q (lg @ entries))
     \<and> dispatched (rs_stats st') = dispatched (rs_stats st) + answered_in entries
     \<and> failed (rs_stats st') = failed (rs_stats st) + failed_in entries)
   \<and> free_limiter (rs_limiter st')"

lemma call_specialist_frame:
  "call_specialist hook unit shared st0 = (ans, st) \<Longrightarrow>
     rs_limiter st = release (Limiter.acquire (rs_limiter st0)) \<and> rs_stats st = rs_stats st0"
  by (auto simp: call_specialist_def split_beta)

lemma accumulate_cost_frame:
  "accumulate_cost s out = Inr s' \<Longrightarrow> dispatched s' = dispatched s \<and> failed s' = failed s"
  by (auto simp: accumulate_cost_def res_simps)

text \<open>An outcome that settles the task, and one that leaves another attempt to make.\<close>

lemma refines_settled:
  assumes "free_limiter (rs_limiter st)"
    and "settle R oc (release (Limiter.acquire (rs_limiter st))) fs a = (rs_limiter st', [], [(fs, b)])"
    and "dispatched (rs_stats st') = dispatched (rs_stats st) + (if b then 1 else 0)"
    and "failed (rs_stats st') = failed (rs_stats st) + (if b then 0 else 1)"
  shows "refines R fs a st st'"
  unfolding refines_def
proof (intro conjI allI)
  fix ts q lg
  from lone_call(1) [OF assms(1,2), of ts q lg] assms(3,4)
  show "\<exists>entries. (pool_step R)\<^sup>*\<^sup>* (lone_worker (rs_limiter st) ((fs, a) # ts) q lg)
        (lone_worker (rs_limiter st') ts q (lg @ entries))
     \<and> dispatched (rs_stats st') = dispatched (rs_stats st) + answered_in entries
     \<and> failed (rs_stats st') = failed (rs_stats st) + failed_in entries"
    by (intro exI [of _ "[(fs, b)]"]) (auto simp: answered_in_def failed_in_def)
qed (rule lone_call(2) [OF assms(1,2)])

lemma refines_again:
  assumes "free_limiter (rs_limiter st)"
    and "settle R oc (release (Limiter.acquire (rs_limiter st))) fs a = (rs_limiter st1, [(fs, a + 1)], [])"
    and "dispatched (rs_stats st1) = dispatched (rs_stats st)" "failed (rs_stats st1) = failed (rs_stats st)"
    and "refines R fs (a + 1) st1 st'"
  shows "refines R fs a st st'"
  unfolding refines_def
proof (intro conjI allI)
  fix ts q lg
  from assms(5) obtain entries where
      run: "(pool_step R)\<^sup>*\<^sup>* (lone_worker (rs_limiter st1) ((fs, a + 1) # ts) q lg)
        (lone_worker (rs_limiter st') ts q (lg @ entries))"
    and c: "dispatched (rs_stats st') = dispatched (rs_stats st1) + answered_in entries"
      "failed (rs_stats st') = failed (rs_stats st1) + failed_in entries"
    unfolding refines_def by blast
  have "(pool_step R)\<^sup>*\<^sup>* (lone_worker (rs_limiter st) ((fs, a) # ts) q lg)
      (lone_worker (rs_limiter st1) ((fs, a + 1) # ts) q lg)"
    using lone_call(1) [OF assms(1,2), of ts q lg] by simp
  from rtranclp_trans [OF this run] c assms(3,4)
  show "\<exists>entries. (pool_step R)\<^sup>*\<^sup>* (lone_worker (rs_limiter st) ((fs, a) # ts) q lg)
        (lone_worker (rs_limiter st') ts q (lg @ entries))
     \<and> dispatched (rs_stats st') = dispatched (rs_stats st) + answered_in entries
     \<and> failed (rs_stats st') = failed (rs_stats st) + failed_in entries"
    by (intro exI [of _ entries]) simp
qed (use assms(5) refines_def in blast)

lemma refines_split:
  assumes "free_limiter (rs_limiter st)"
    and "settle R Overflowed (release (Limiter.acquire (rs_limiter st))) fs a
      = (rs_limiter st0, [(fs1, 0), (fs2, 0)], [])"
    and "dispatched (rs_stats st0) = dispatched (rs_stats st)" "failed (rs_stats st0) = failed (rs_stats st)"
    and "refines R fs1 0 st0 st1" "refines R fs2 0 st1 st'"
  shows "refines R fs a st st'"
  unfolding refines_def
proof (intro conjI allI)
  fix ts q lg
  from assms(5) obtain e1 where
      run1: "(pool_step R)\<^sup>*\<^sup>* (lone_worker (rs_limiter st0) ((fs1, 0) # (fs2, 0) # ts) q lg)
        (lone_worker (rs_limiter st1) ((fs2, 0) # ts) q (lg @ e1))"
    and c1: "dispatched (rs_stats st1) = dispatched (rs_stats st0) + answered_in e1"
      "failed (rs_stats st1) = failed (rs_stats st0) + failed_in e1"
    unfolding refines_def by blast
  from assms(6) obtain e2 where
      run2: "(pool_step R)\<^sup>*\<^sup>* (lone_worker (rs_limiter st1) ((fs2, 0) # ts) q (lg @ e1))
        (lone_worker (rs_limiter st') ts q ((lg @ e1) @ e2))"
    and c2: "dispatched (rs_stats st') = dispatched (rs_stats st1) + answered_in e2"
      "failed (rs_stats st') = failed (rs_stats st1) + failed_in e2"
    unfolding refines_def by blast
  have "(pool_step R)\<^sup>*\<^sup>* (lone_worker (rs_limiter st) ((fs, a) # ts) q lg)
      (lone_worker (rs_limiter st0) ((fs1, 0) # (fs2, 0) # ts) q lg)"
    using lone_call(1) [OF assms(1,2), of ts q lg] by simp
  from rtranclp_trans [OF rtranclp_trans [OF this run1] run2] c1 c2 assms(3,4)
  show "\<exists>entries. (pool_step R)\<^sup>*\<^sup>* (lone_worker (rs_limiter st) ((fs, a) # ts) q lg)
        (lone_worker (rs_limiter st') ts q (lg @ entries))
     \<and> dispatched (rs_stats st') = dispatched (rs_stats st) + answered_in entries
     \<and> failed (rs_stats st') = failed (rs_stats st) + failed_in entries"
    by (intro exI [of _ "e1 @ e2"]) (simp add: answered_in_def failed_in_def)
qed (use assms(6) refines_def in blast)

lemma free_after_call: "free_limiter l \<Longrightarrow> free_limiter (release (Limiter.acquire l))"
  by (simp add: free_limiter_def limiter_ops_ok)

lemma free_penalize: "free_limiter l \<Longrightarrow> free_limiter (penalize l)"
  by (simp add: free_limiter_def limiter_ops_ok)

lemma dispatch_one_refines:
  "dispatch_one R base hook shared unit a st = Inr (out, st') \<Longrightarrow> unit_files unit = VList fs \<Longrightarrow>
     free_limiter (rs_limiter st) \<Longrightarrow> refines R fs a st st'"
proof (induction R base hook shared unit a st arbitrary: out st' fs rule: dispatch_one.induct)
  case (1 R base hook shared unit a st0)
  obtain ans st where call: "call_specialist hook unit shared st0 = (ans, st)" by fastforce
  note frame = call_specialist_frame [OF call]
  have free: "free_limiter (rs_limiter st)" using frame free_after_call 1(7) by simp
  show ?case
  proof (cases ans)
    case (Answer o')
    from 1(5) [unfolded dispatch_one_step(3) [OF call Answer]] obtain stats where
        s: "accumulate_cost (dispatched_update Suc (rs_stats st)) o' = Inr stats"
      and st': "st' = limit_by reward (st\<lparr>rs_stats := stats\<rparr>)" by (auto simp: res_simps)
    show ?thesis
      using accumulate_cost_frame [OF s] frame
      by (intro refines_settled [OF 1(7), of R Answered _ _ _ True]) (auto simp: st')
  next
    case RaiseRateLimit
    show ?thesis
    proof (cases "R < a + 1")
      case True
      with 1(5) [unfolded dispatch_one_step(1) [OF call RaiseRateLimit]]
      show ?thesis using frame
        by (intro refines_settled [OF 1(7), of R RateLimited _ _ _ False])
          (auto simp: give_up_def after_rate_limit_def retry_def)
    next
      case False
      let ?s = "pause base a (after_rate_limit st)"
      have "dispatch_one R base hook shared unit (a + 1) ?s = Inr (out, st')"
        using 1(5) [unfolded dispatch_one_step(1) [OF call RaiseRateLimit]] False by simp
      moreover have "free_limiter (rs_limiter ?s)" using free_penalize [OF free] by (simp add: after_rate_limit_def)
      ultimately have "refines R fs (a + 1) ?s st'"
        using 1(1) [OF refl refl call [symmetric] RaiseRateLimit False] 1(6) by blast
      then show ?thesis using frame False
        by (intro refines_again [OF 1(7), of R RateLimited fs a ?s]) (auto simp: after_rate_limit_def retry_def)
    qed
  next
    case (RaiseOther name)
    show ?thesis
    proof (cases "R < a + 1")
      case True
      with 1(5) [unfolded dispatch_one_step(2) [OF call RaiseOther]]
      show ?thesis using frame
        by (intro refines_settled [OF 1(7), of R Crashed _ _ _ False])
          (auto simp: give_up_def after_error_def retry_def)
    next
      case False
      let ?s = "pause base a (after_error st)"
      have "dispatch_one R base hook shared unit (a + 1) ?s = Inr (out, st')"
        using 1(5) [unfolded dispatch_one_step(2) [OF call RaiseOther]] False by simp
      moreover have "free_limiter (rs_limiter ?s)" using free by (simp add: after_error_def)
      ultimately have "refines R fs (a + 1) ?s st'"
        using 1(4) [OF refl refl call [symmetric] RaiseOther False] 1(6) by blast
      then show ?thesis using frame False
        by (intro refines_again [OF 1(7), of R Crashed fs a ?s]) (auto simp: after_error_def retry_def)
    qed
  next
    case RaiseOverflow
    show ?thesis
    proof (cases "length fs \<le> 1")
      case True
      then have none: "split_unit unit = Inr None" using 1(6) by (simp add: split_unit_def)
      with 1(5) call RaiseOverflow True show ?thesis using frame
        by (intro refines_settled [OF 1(7), of R Overflowed _ _ _ False])
          (auto simp: dispatch_one.simps [of R base hook shared unit a st0] Let_def give_up_def)
    next
      case False
      let ?u1 = "dset ''files'' (VList (fst (halves fs))) unit" and ?u2 = "dset ''files'' (VList (snd (halves fs))) unit"
      let ?s = "tally (overflow_splits_update Suc) st"
      have split: "split_unit unit = Inr (Some (?u1, ?u2))" using 1(6) False by (simp add: split_unit_def)
      obtain r1 r2 st1 f1 where
          r1: "dispatch_one R base hook shared ?u1 0 ?s = Inr (r1, st1)"
        and r2: "dispatch_one R base hook shared ?u2 0 st1 = Inr (r2, st')"
        and f1: "py_iter (dget_or r1 ''findings'' (VList [])) = Inr f1"
        by (rule dispatch_one_overflow [OF call [unfolded RaiseOverflow] split 1(5)]) (rule that)
      have files: "unit_files (dset ''files'' (VList gs) unit) = VList gs" for gs
        by (simp add: unit_files_def py_or_def)
      have one: "refines R (fst (halves fs)) 0 ?s st1"
        using 1(2) [OF refl refl call [symmetric] RaiseOverflow split refl refl r1 files] free by simp
      then have "free_limiter (rs_limiter st1)" by (simp add: refines_def)
      from 1(3) [OF refl refl call [symmetric] RaiseOverflow split refl refl r1 refl f1 r2 files this]
      have two: "refines R (snd (halves fs)) 0 st1 st'" .
      show ?thesis
        using frame False by (intro refines_split [OF 1(7) _ _ _ one two]) auto
    qed
  qed
qed

subsection \<open>Property\<close>

text \<open>
  C6: the function and the pool model agree: whatever the hook does, a run of the dispatch
  loop on a unit with a list of files is a run of a worker of the pool on that list, from
  attempt none to the end of its tasks, that leaves the same limiter, and the units counted as
  dispatched and as failed are the file lists the pool settled as answered and as failed.
\<close>

theorem dispatch_one_refines_pool:
  assumes "dispatch_one R base hook shared unit 0 st = Inr (out, st')" "unit_files unit = VList fs"
    and "limiter_ok (rs_limiter st)" "lm_inflight (rs_limiter st) = 0"
  shows "\<exists>entries. (pool_step R)\<^sup>*\<^sup>* (lone_worker (rs_limiter st) [(fs, 0)] [] [])
        (lone_worker (rs_limiter st') [] [] entries)
     \<and> dispatched (rs_stats st') = dispatched (rs_stats st) + count_if snd entries
     \<and> failed (rs_stats st') = failed (rs_stats st) + count_if (\<lambda>e. \<not> snd e) entries"
proof -
  have "refines R fs 0 st st'"
    using assms by (intro dispatch_one_refines) (simp_all add: free_limiter_def)
  then obtain entries where "(pool_step R)\<^sup>*\<^sup>* (lone_worker (rs_limiter st) ((fs, 0) # []) [] [])
        (lone_worker (rs_limiter st') [] [] ([] @ entries))"
    "dispatched (rs_stats st') = dispatched (rs_stats st) + answered_in entries"
    "failed (rs_stats st') = failed (rs_stats st) + failed_in entries"
    unfolding refines_def by blast
  then show ?thesis unfolding answered_in_def failed_in_def by auto
qed

theorem dispatch_one_refines_pool_witness:
  "\<exists>out st' entries. dispatch_one 0 1 narrow_hook [] wide_unit 0 idle_state = Inr (out, st')
     \<and> (pool_step 0)\<^sup>*\<^sup>* (lone_worker (limiter_init 4 1) [([VStr ''a.py'', VStr ''b.py''], 0)] [] [])
          (lone_worker (rs_limiter st') [] [] entries)"
proof -
  obtain out st' where run: "dispatch_one 0 1 narrow_hook [] wide_unit 0 idle_state = Inr (out, st')"
    using narrow_run by blast
  have "unit_files wide_unit = VList [VStr ''a.py'', VStr ''b.py'']"
    by (simp add: unit_files_def wide_unit_def py_or_def)
  moreover have "limiter_ok (rs_limiter idle_state)" "lm_inflight (rs_limiter idle_state) = 0"
    by (simp_all add: idle_state_def limiter_init_def limiter_ok_def)
  ultimately show ?thesis
    using dispatch_one_refines_pool [OF run] run by (auto simp: idle_state_def)
qed

end
