(* ===== verification/Contracts.thy ===== *)
theory Contracts
  imports Fsm RiskTier Activation Planner Merger Collect Coverage Gates
begin

section \<open>The handlers keep their schemas\<close>

text \<open>
  The engine validates what an inline handler returns against the response schema of its
  state. Here the handlers of the model are held to the schemas of the specification: their
  outputs conform, so validation cannot fault a run at these states.
\<close>

lemma conforms_array: "conforms pat (JS [KType [''array'']]) (VList xs)"
  by simp

lemma conforms_string: "conforms pat (JS [KType [''string'']]) (VStr s)"
  by simp

lemmas schema_simps = list_all_iff Let_def

lemma triage_conforms:
  assumes "handle_risk_tier_triage env = Inr out"
  shows "conforms pat risk_tier_triage_schema (VDict out)"
proof -
  obtain t c r sigs b where out: "out = [(''tier'', VStr (tier_value t)), (''cap'', VInt c), (''tier_rationale'', VStr r),
      (''risk_signals'', VList (map VStr sigs)), (''scope_overrides_present'', VBool b)]" and "3 \<le> c" "c \<le> 50"
    using assms cap_override_bounds tier_cap_bounds
    by (auto simp: handle_risk_tier_triage_def Let_def res_simps split: option.splits)
  then show ?thesis
    by (cases t) (simp_all add: risk_tier_triage_schema_def list_all_iff)
qed

lemma unit_conforms:
  assumes "1 \<le> u_sub u" "1 \<le> u_total u"
  shows "conforms pat (JS [KType [''object''], KRequired [''leaf_id'', ''sub_index'', ''total_subs'', ''files''], KProps
      [(''leaf_id'', JS [KType [''string'']]), (''sub_index'', JS [KType [''integer''], KMinimum 1]),
       (''total_subs'', JS [KType [''integer''], KMinimum 1]),
       (''files'', JS [KType [''array''], KItems (JS [KType [''string'']])])]]) (unit_val u)"
  using assms by (simp add: unit_dict_def list_all_iff)

lemma leaf_units_positive:
  assumes "u \<in> set (leaf_units t leaf files)"
  shows "1 \<le> u_sub u \<and> 1 \<le> u_total u"
proof -
  have sub: "1 \<le> u_sub v \<and> 1 \<le> u_total v" if v: "v \<in> set (sub_units leaf m c fs)" for v m c fs
  proof -
    from v obtain k where "k \<in> set [0..<m]" and r: "v = \<lparr>u_leaf = leaf, u_sub = k + 1, u_total = m,
        u_files = take c (drop (k * c) fs)\<rparr>"
      unfolding sub_units_def set_map using set_takeWhileD by fast
    then have "k < m" by simp
    with r show ?thesis by simp
  qed
  show ?thesis using assms sub by (auto simp: leaf_units_def Let_def split: if_splits)
qed

lemma env_units_positive: "u \<in> set (env_units env) \<Longrightarrow> 1 \<le> u_sub u \<and> 1 \<le> u_total u"
  unfolding env_units_def plan_units_def
  by (auto dest: leaf_units_positive split: option.splits)

lemma plan_conforms:
  assumes "handle_plan_specialist_batches env = Inr out"
  shows "conforms pat plan_specialist_batches_schema (VDict out)"
proof -
  let ?bs = "env_batches env"
  have "concat ?bs = env_units env"
    unfolding env_batches_def using plan_batch_size_pos by (rule chunks_concat)
  then have units: "u \<in> set (env_units env)" if "us \<in> set ?bs" "u \<in> set us" for us u
    using that by (metis UN_I set_concat)
  have batch: "conforms pat (JS [KType [''object''], KRequired [''batch_index'', ''units''], KProps
        [(''batch_index'', JS [KType [''integer''], KMinimum 1]),
         (''units'', JS [KType [''array''], KItems (JS [KType [''object''],
            KRequired [''leaf_id'', ''sub_index'', ''total_subs'', ''files''], KProps
            [(''leaf_id'', JS [KType [''string'']]), (''sub_index'', JS [KType [''integer''], KMinimum 1]),
             (''total_subs'', JS [KType [''integer''], KMinimum 1]),
             (''files'', JS [KType [''array''], KItems (JS [KType [''string'']])])]])])]]) (batch_val (i, us))"
    if "(i, us) \<in> set (zip [1..<Suc (length ?bs)] ?bs)" for i us
  proof -
    from that have "i \<in> set [1..<Suc (length ?bs)]" and us: "us \<in> set ?bs"
      by (auto dest: set_zip_leftD set_zip_rightD)
    then have "1 \<le> i" unfolding set_upt by simp
    moreover have "conforms pat (JS [KType [''object''], KRequired [''leaf_id'', ''sub_index'', ''total_subs'', ''files''], KProps
      [(''leaf_id'', JS [KType [''string'']]), (''sub_index'', JS [KType [''integer''], KMinimum 1]),
       (''total_subs'', JS [KType [''integer''], KMinimum 1]),
       (''files'', JS [KType [''array''], KItems (JS [KType [''string'']])])]]) (unit_val u)" if "u \<in> set us" for u
      using env_units_positive [OF units [OF us that]] by (intro unit_conforms) simp_all
    ultimately show ?thesis by (simp add: batch_val_def list_all_iff del: conforms_kw.simps(6))
        (simp add: list_all_iff)
  qed
  have "out = [(''specialist_batches'', VList (map batch_val (zip [1..<Suc (length ?bs)] ?bs))),
               (''total_batches'', VInt (int (length ?bs))),
               (''total_files_planned'', VInt (int (length (remdups (concat (map u_files (env_units env)))))))]"
    using assms by (simp add: handle_plan_specialist_batches_def Let_def)
  then show ?thesis using batch
    by (simp add: plan_specialist_batches_schema_def list_all_iff) fastforce
qed

lemma synthesis_conforms:
  assumes "handle_synthesize_release_readiness env = Inr out"
  shows "conforms pat release_readiness_schema (VDict out)"
proof -
  from assms obtain gates v where g: "synthesize_gates env = Inr gates"
    and out: "out = [(''gates'', VList (map gate_val gates)), (''verdict'', VStr v)]"
    and "v = ''NO-GO'' \<or> v = ''GO''"
    by (auto simp: handle_synthesize_release_readiness_def res_simps Let_def)
  moreover have "length gates = 8"
    using g by (auto simp: synthesize_gates_def res_simps numbered_gates_eq)
  ultimately show ?thesis by (auto simp: release_readiness_schema_def)
qed

lemma short_circuit_conforms:
  "handle_short_circuit_exit env = Inr out \<Longrightarrow> conforms pat short_circuit_schema (VDict out)"
  by (auto simp: handle_short_circuit_exit_def short_circuit_schema_def zero_counts_def)

lemma stage_a_empty_conforms:
  "handle_stage_a_empty env = Inr out \<Longrightarrow> conforms pat stage_a_empty_schema (VDict out)"
  by (auto simp: handle_stage_a_empty_def stage_a_empty_schema_def zero_counts_def Let_def)

lemma coverage_conforms:
  "handle_verify_coverage load env = Inr out \<Longrightarrow> conforms pat verify_coverage_schema (VDict out)"
  by (auto simp: handle_verify_coverage_def verify_coverage_schema_def res_simps Let_def)

lemma collect_conforms:
  "handle_collect_findings vec_of env = Inr out \<Longrightarrow> conforms pat collect_findings_schema (VDict out)"
  by (auto simp: handle_collect_findings_def collect_findings_schema_def res_simps split: if_splits)

lemma run_dir_conforms: "d \<noteq> [] \<Longrightarrow> conforms pat write_run_directory_schema (VDict [(''run_dir_path'', VStr d)])"
  by (cases d) (simp_all add: write_run_directory_schema_def)

text \<open>The counters that the impasse reads: booleans are integers to Python but not to the schema.\<close>

definition proper_counts :: "dict \<Rightarrow> bool" where
  "proper_counts env \<longleftrightarrow> list_all (\<lambda>(k, v). \<not> (\<exists>b. v = VBool b)) (ensure_dict (dget env ''verifier_rejection_counts''))"

lemma read_counts_nonneg:
  assumes "proper_counts env" "(k, v) \<in> set (read_verifier_rejection_counts env)"
  shows "\<exists>n. v = VInt n \<and> 0 \<le> n"
  using assms
  by (auto simp: proper_counts_def read_verifier_rejection_counts_def int_of_def list_all_iff
      split: pyval.splits option.splits)

lemma verifier_stuck_conforms:
  assumes "handle_verifier_stuck env = Inr out" "proper_counts env"
  shows "conforms pat verifier_stuck_schema (VDict out)"
proof -
  let ?counts = "read_verifier_rejection_counts env" and ?stuck = "find_stuck env (read_verifier_rejection_counts env)"
  let ?name = "case ?stuck of None \<Rightarrow> [] | Some s \<Rightarrow> s"
  let ?reset = "case ?stuck of None \<Rightarrow> ?counts | Some s \<Rightarrow> dset s (VInt 0) ?counts"
  have out: "out = [(''verifier_stuck'', VDict [(''stuck_state_id'', VStr ?name),
                 (''rejection_count'', dget_or ?counts ?name (VInt 0)), (''limit'', VInt 3)]),
              (''degraded_run'', VBool True), (''verifier_rejection_counts'', VDict ?reset),
              (''failed_units'', VList (failed_units env))]"
    using assms(1) by (simp add: handle_verifier_stuck_def Let_def verifier_rejection_limit_def)
  have "\<exists>n. dget_or ?counts k (VInt 0) = VInt n \<and> 0 \<le> n" for k
    using read_counts_nonneg [OF assms(2)] by (auto simp: dget_or_def split: option.splits dest: map_of_SomeD)
  then obtain n where n: "dget_or ?counts ?name (VInt 0) = VInt n" "0 \<le> n" by blast
  have "\<exists>n. v = VInt n \<and> 0 \<le> n" if "(k, v) \<in> set ?reset" for k v
  proof (cases ?stuck)
    case None
    with that show ?thesis using read_counts_nonneg [OF assms(2)] by simp
  next
    case (Some i)
    then have "(k, v) \<in> insert (i, VInt 0) (set ?counts)" using that set_dset_subset by fastforce
    then show ?thesis using read_counts_nonneg [OF assms(2)] by auto
  qed
  then have reset: "list_all (\<lambda>p. conforms pat (JS [KType [''integer''], KMinimum 0]) (snd p)) ?reset"
    by (fastforce simp: list_all_iff)
  show ?thesis using n reset by (simp add: out verifier_stuck_schema_def)
qed

lemma v2_keys: "fst ` set (project_v2_fields data) \<subseteq> set v2_fields"
proof -
  have "fst ` set (foldl (\<lambda>out field. let value = dget data field in
       if value = VNone then out
       else (let validated = validate_v2_field field value in
             if validated = VNone then out else dset field validated out)) d fs) \<subseteq> fst ` set d \<union> set fs" for d fs
  proof (induction fs arbitrary: d)
    case Nil
    then show ?case by simp
  next
    case (Cons field fs)
    have "fst ` set (dset field v d) \<subseteq> insert field (fst ` set d)" for v
      using set_dset_subset [of field v d] by force
    with Cons show ?case by (simp add: Let_def) blast
  qed
  from this [of "[]" v2_fields] show ?thesis by (simp add: project_v2_fields_def)
qed

lemma wiki_leaf_path:
  assumes "wiki_leaf f = Some leaf"
  shows "\<exists>i p. dget leaf ''id'' = VStr i \<and> dget leaf ''path'' = VStr p"
proof -
  have keys: "''id'' \<notin> fst ` set (project_v2_fields data)" "''path'' \<notin> fst ` set (project_v2_fields data)" for data
    using v2_keys [of data] by (auto simp: v2_fields_def)
  from assms show ?thesis
    by (auto simp: wiki_leaf_def Let_def dget_dmerge_other [OF keys(1)] dget_dmerge_other [OF keys(2)]
        split: if_splits option.splits)
qed

lemma entry_conforms:
  assumes "dget leaf ''id'' = VStr i" "dget leaf ''path'' = VStr p"
  shows "conforms pat (JS [KType [''object''], KRequired [''id'', ''path'', ''activation_match''], KProps
      [(''id'', JS [KType [''string'']]), (''path'', JS [KType [''string'']]),
       (''activation_match'', JS [KType [''array''], KItems (JS [KType [''string'']])])]])
     (VDict (activated_entry signals leaf))"
proof -
  let ?e = "activated_entry signals leaf"
  define v2 where "v2 = map (\<lambda>field. (field, dget leaf field)) (filter (\<lambda>field. dget leaf field \<noteq> VNone) v2_fields)"
  have keys: "k \<notin> fst ` set v2" if "k \<in> {''id'', ''path'', ''activation_match''}" for k
    using that by (auto simp: v2_def v2_fields_def)
  obtain ms base where base: "?e = dmerge base v2" and b: "dget base ''id'' = VStr i" "dget base ''path'' = VStr p"
      "dget base ''activation_match'' = VList (map VStr ms)"
    using assms by (auto simp: activated_entry_def Let_def v2_def)
  then have "dget ?e ''id'' = VStr i" "dget ?e ''path'' = VStr p" "dget ?e ''activation_match'' = VList (map VStr ms)"
    using dget_dmerge_other [OF keys] by auto
  then have m: "map_of ?e ''id'' = Some (VStr i)" "map_of ?e ''path'' = Some (VStr p)"
      "map_of ?e ''activation_match'' = Some (VList (map VStr ms))"
    by (auto simp: dget_def dget_or_def split: option.splits)
  have "k \<in> set (dkeys ?e)" if "map_of ?e k \<noteq> None" for k
    using that map_of_None_iff [of k ?e] by simp
  with m show ?thesis by (simp add: list_all_iff del: set_map) simp
qed

lemma activation_conforms:
  assumes "handle_activate_leaves files git skill_root env = Inr out"
  shows "conforms pat activate_leaves_schema (VDict out)"
proof -
  from assms obtain ls sigs ps prof diff where
      ev: "evaluate_activation (wiki_leaves files) ps prof diff = Inr (ls, sigs)"
    and out: "out = [(''activated_leaves'', VList (map (VDict \<circ> activated_entry sigs) ls))]"
    by (auto simp: handle_activate_leaves_def Let_def res_simps)
  obtain st where inv: "act_inv (wiki_leaves files) st" and ls: "ls = map snd (sort_key fst (Activation.activated st))"
    by (rule evaluate_activation_state [OF ev]) blast
  have "conforms pat (JS [KType [''object''], KRequired [''id'', ''path'', ''activation_match''], KProps
      [(''id'', JS [KType [''string'']]), (''path'', JS [KType [''string'']]),
       (''activation_match'', JS [KType [''array''], KItems (JS [KType [''string'']])])]])
     (VDict (activated_entry sigs leaf))" if "leaf \<in> set ls" for leaf
  proof -
    from that inv have "leaf \<in> set (wiki_leaves files)" by (auto simp: ls act_inv_def)
    then obtain f where "wiki_leaf f = Some leaf" by (auto simp: wiki_leaves_def List.map_filter_def)
    from wiki_leaf_path [OF this] show ?thesis using entry_conforms by blast
  qed
  then show ?thesis by (simp add: out activate_leaves_schema_def list_all_iff)
qed

subsection \<open>Property\<close>

text \<open>
  C9: the inline handlers keep the schemas of their states: whatever the environment holds, an
  output of the triage, the activation, the planner, the collection, the coverage, the
  synthesis and the two short exits conforms to the response schema its state declares, and so
  does that of the impasse when no counter is a boolean; the state's handler id is the one the
  handler is registered under.
\<close>

theorem inline_handlers_conform:
  "(handle_risk_tier_triage env = Inr out \<longrightarrow> conforms pat risk_tier_triage_schema (VDict out))
   \<and> (handle_activate_leaves files git skill_root env = Inr out \<longrightarrow> conforms pat activate_leaves_schema (VDict out))
   \<and> (handle_plan_specialist_batches env = Inr out \<longrightarrow> conforms pat plan_specialist_batches_schema (VDict out))
   \<and> (handle_collect_findings vec_of env = Inr out \<longrightarrow> conforms pat collect_findings_schema (VDict out))
   \<and> (handle_verify_coverage load env = Inr out \<longrightarrow> conforms pat verify_coverage_schema (VDict out))
   \<and> (handle_synthesize_release_readiness env = Inr out \<longrightarrow> conforms pat release_readiness_schema (VDict out))
   \<and> (handle_short_circuit_exit env = Inr out \<longrightarrow> conforms pat short_circuit_schema (VDict out))
   \<and> (handle_stage_a_empty env = Inr out \<longrightarrow> conforms pat stage_a_empty_schema (VDict out))
   \<and> (handle_verifier_stuck env = Inr out \<and> proper_counts env \<longrightarrow> conforms pat verifier_stuck_schema (VDict out))
   \<and> map (\<lambda>st. st_kind st) [st_risk_tier_triage, st_activate_leaves, st_plan_specialist_batches, st_collect_findings,
        st_verify_coverage, st_synthesize_release_readiness, st_short_circuit_exit, st_stage_a_empty, st_verifier_stuck]
      = [Inline ''risk_tier_triage'' risk_tier_triage_schema, Inline ''activate_leaves'' activate_leaves_schema,
         Inline ''plan_specialist_batches'' plan_specialist_batches_schema, Inline ''collect_findings'' collect_findings_schema,
         Inline ''verify_coverage'' verify_coverage_schema, Inline ''synthesize_release_readiness'' release_readiness_schema,
         Inline ''short_circuit_exit'' short_circuit_schema, Inline ''stage_a_empty'' stage_a_empty_schema,
         Inline ''verifier_stuck'' verifier_stuck_schema]"
proof (intro conjI impI)
  assume "handle_verifier_stuck env = Inr out \<and> proper_counts env"
  then show "conforms pat verifier_stuck_schema (VDict out)" by (blast intro: verifier_stuck_conforms)
qed (rule triage_conforms activation_conforms plan_conforms collect_conforms coverage_conforms synthesis_conforms
    short_circuit_conforms stage_a_empty_conforms, assumption | simp add: state_defs)+

theorem inline_handlers_conform_witness:
  "\<exists>out. handle_short_circuit_exit [] = Inr out \<and> conforms (\<lambda>p s. True) short_circuit_schema (VDict out)"
proof -
  obtain out where out: "handle_short_circuit_exit [] = Inr out" by (simp add: handle_short_circuit_exit_def)
  note all = inline_handlers_conform [of "[]" out "\<lambda>p s. True" "[]" "\<lambda>_ _ _. None" "[]" "\<lambda>_. None" "\<lambda>_. None"]
  from all [THEN conjunct2, THEN conjunct2, THEN conjunct2, THEN conjunct2, THEN conjunct2, THEN conjunct2,
      THEN conjunct1] out
  show ?thesis by blast
qed

end
