(* ===== verification/Report.thy ===== *)
theory Report
  imports Merger Json
begin

section \<open>The report of a run\<close>

text \<open>
  Handler 6 of \<^verbatim>\<open>code_review/handlers.py\<close>: the payload of the report, its Markdown and JSON texts,
  the manifest and the timings, and the files they are written to. The clock, the directory of
  the skill, the number of leaves in its wiki and the working directory are arguments; the files
  a run writes are the list of its writes, in order.
\<close>

subsection \<open>Scope, methodology and rows\<close>

definition split_or_null :: "pyval \<Rightarrow> pyval" where
  "split_or_null raw = (case raw of
     VStr s \<Rightarrow>
       if strip s = [] then VNone
       else (let tokens = filter (\<lambda>t. t \<noteq> []) (map strip (split_on (CHR '','') s)) in
             if tokens = [] then VNone else VList (map VStr tokens))
   | _ \<Rightarrow> VNone)"

definition build_scope :: "dict \<Rightarrow> dict" where
  "build_scope args_bag =
     [(''dirs'', split_or_null (dget args_bag ''scope-dir'')),
      (''langs'', split_or_null (dget args_bag ''scope-lang'')),
      (''frameworks'', split_or_null (dget args_bag ''scope-framework'')),
      (''reviewers'', split_or_null (dget args_bag ''scope-reviewer'')),
      (''severity_filter'', split_or_null (dget args_bag ''scope-severity'')),
      (''gates_filter'', split_or_null (dget args_bag ''scope-gate''))]"

definition methodology_principles :: "string list" where
  "methodology_principles = [''SRP'', ''OCP'', ''LSP'', ''ISP'', ''DIP'', ''DRY'', ''KISS'', ''YAGNI'']"

text \<open>\<^verbatim>\<open>v in S\<close> for a set of strings: a value that cannot be hashed raises.\<close>

definition in_strings :: "string list \<Rightarrow> pyval \<Rightarrow> bool res" where
  "in_strings S v = (if \<not> hashable v then Inl TypeError else Inr (\<exists>s\<in>set S. v = VStr s))"

definition build_methodology :: "dict \<Rightarrow> dict res" where
  "build_methodology env =
     (let provided = ensure_dict (dget env ''methodology'') in
      mapE (\<lambda>p. bindE (in_strings [''PASS'', ''FAIL'', ''N/A''] (dget provided p)) (\<lambda>ok.
             Inr (p, if ok then dget provided p else VStr ''N/A''))) methodology_principles)"

definition valid_severities :: "string list" where
  "valid_severities = [''critical'', ''important'', ''minor'']"

definition valid_verdicts :: "string list" where
  "valid_verdicts = [''GO'', ''NO-GO'', ''CONDITIONAL'']"

definition sorted_flagged :: "dict \<Rightarrow> string list" where
  "sorted_flagged finding = sort (strs_of (ensure_list (py_or (dget finding ''flagged_by'') (VList []))))"

definition build_issue :: "dict \<Rightarrow> nat \<Rightarrow> dict res" where
  "build_issue finding idx =
     bindE (in_strings valid_severities (dget finding ''severity'')) (\<lambda>ok.
     if \<not> ok then Inl ValueError
     else bindE (py_int (dget_or finding ''corroboration'' (VInt (int (length (sorted_flagged finding)))))) (\<lambda>corro.
     Inr [(''id'', VInt (int idx + 1)),
          (''severity'', dget finding ''severity''),
          (''specialist'', py_or (dget finding ''winner'')
             (case sorted_flagged finding of [] \<Rightarrow> VNone | s # _ \<Rightarrow> VStr s)),
          (''file'', dget finding ''file''), (''line'', dget finding ''line''),
          (''title'', dget finding ''title''), (''description'', dget finding ''description''),
          (''impact'', dget finding ''impact''), (''fix'', dget finding ''fix''),
          (''principle'', dget finding ''principle''),
          (''primary'', VBool (truthy (dget_or finding ''primary'' (VBool False)))),
          (''corroboration'', VInt corro),
          (''confidence'', dget_or finding ''defect_confidence'' (dget finding ''confidence''))]))"

text \<open>\<^verbatim>\<open>enumerate(findings)\<close>, of which only dictionaries become issues: they keep their numbers.\<close>

definition numbered_dicts :: "pyval list \<Rightarrow> (nat \<times> dict) list" where
  "numbered_dicts xs = List.map_filter (\<lambda>(i, v). map_option (Pair i) (dict_of v)) (enumerate 0 xs)"

definition has_severity :: "string \<Rightarrow> dict \<Rightarrow> bool" where
  "has_severity s f \<longleftrightarrow> dget f ''severity'' = VStr s"

definition first_with :: "string \<Rightarrow> dict list \<Rightarrow> pyval" where
  "first_with s findings =
     (case List.find (\<lambda>f. has_severity s f \<and> is_str (dget f ''title'')) findings of
        None \<Rightarrow> VNone | Some f \<Rightarrow> dget f ''title'')"

definition build_specialist_row :: "dict \<Rightarrow> dict" where
  "build_specialist_row specialist =
     (let is_completed = (dget specialist ''status'' = VStr ''completed'');
          findings = dicts_of (ensure_list (if is_completed then dget specialist ''findings'' else VList []));
          critical = count_if (has_severity ''critical'') findings;
          important = count_if (has_severity ''important'') findings;
          minor = count_if (has_severity ''minor'') findings;
          ok = is_completed \<and> critical = 0 \<and> important = 0
      in [(''id'', dget specialist ''id''), (''status'', VStr (if ok then ''pass'' else ''fail'')),
          (''critical'', VInt (int critical)), (''important'', VInt (int important)), (''minor'', VInt (int minor)),
          (''key_finding'', py_or (first_with ''critical'' findings) (py_or (first_with ''important'' findings)
             (py_or (dget specialist ''skip_reason'') VNone)))])"

definition build_gate_row :: "dict \<Rightarrow> dict" where
  "build_gate_row gate =
     [(''number'', dget gate ''number''), (''name'', dget gate ''name''), (''status'', dget gate ''status''),
      (''blockers'', dget_or gate ''blocker_count'' (VInt 0))]"

definition build_tool_row :: "dict \<Rightarrow> dict" where
  "build_tool_row tool =
     (let row = [(''name'', dget tool ''name''), (''status'', dget tool ''status''),
                 (''findings'', dget tool ''findings''), (''specialist'', dget tool ''specialist''),
                 (''output_summary'', py_or (dget tool ''output_summary'') (dget tool ''output''))] in
      if dget tool ''status'' = VStr ''skipped'' \<and> dget tool ''reason'' \<noteq> VNone
      then dset ''reason'' (dget tool ''reason'') row else row)"

subsection \<open>The payload\<close>

definition coverage_row :: "dict \<Rightarrow> dict" where
  "coverage_row row = [(''file'', dget row ''file''), (''reviewers'', VList (ensure_list (dget row ''reviewers'')))]"

definition report_stack :: "dict \<Rightarrow> pyval list" where
  "report_stack env = (case dget env ''stack'' of VList xs \<Rightarrow> xs
     | _ \<Rightarrow> (let profile = ensure_dict (dget env ''project_profile'') in
          ensure_list (dget profile ''languages'') @ ensure_list (dget profile ''frameworks'')))"

definition list_count :: "pyval \<Rightarrow> nat \<Rightarrow> pyval" where
  "list_count v dflt = VInt (int (case v of VList xs \<Rightarrow> length xs | _ \<Rightarrow> dflt))"

definition report_summary :: "nat \<Rightarrow> dict \<Rightarrow> dict" where
  "report_summary wiki_total env =
     (let args_bag = ensure_dict (dget env ''args'') in
      [(''description'', py_or (dget env ''description'') (py_or (dget args_bag ''description'') (VStr []))),
       (''range'', VDict [(''base'', dget env ''base_sha''), (''head'', dget env ''head_sha'')]),
       (''mode'', VStr (if truthy (dget args_bag ''full'') then ''full'' else ''diff'')),
       (''files_changed'', list_count (dget env ''changed_paths'') 0),
       (''stack'', VList (report_stack env)),
       (''specialists_dispatched'',
          list_count (dget env ''picked_leaves'') (length (ensure_list (dget env ''specialist_outputs'')))),
       (''specialists_total'', VInt (int wiki_total)),
       (''scope'', VDict (build_scope args_bag))])"

definition rows :: "(dict \<Rightarrow> dict) \<Rightarrow> pyval \<Rightarrow> pyval" where
  "rows f v = VList (map (VDict \<circ> f) (dicts_of (ensure_list v)))"

definition build_report_payload :: "nat \<Rightarrow> dict \<Rightarrow> dict res" where
  "build_report_payload wiki_total env =
     bindE (in_strings valid_verdicts (dget env ''verdict'')) (\<lambda>ok.
     if \<not> ok then Inl ValueError
     else bindE (build_methodology env) (\<lambda>methodology.
          bindE (mapE (\<lambda>(i, f). build_issue f i) (numbered_dicts (ensure_list (dget env ''findings'')))) (\<lambda>issues.
     Inr [(''verdict'', dget env ''verdict''),
          (''summary'', VDict (report_summary wiki_total env)),
          (''methodology'', VDict methodology),
          (''issues'', VList (map VDict issues)),
          (''strengths'', VList (ensure_list (dget env ''strengths''))),
          (''tool_results'', rows build_tool_row (dget env ''tool_results'')),
          (''specialists'', rows build_specialist_row (dget env ''specialist_outputs'')),
          (''gates'', rows build_gate_row (dget env ''gates'')),
          (''coverage'', rows coverage_row (dget env ''coverage_matrix''))])))"

subsection \<open>Lemmas\<close>

lemma numbered_dicts_snd: "map snd (numbered_dicts xs) = dicts_of xs"
proof -
  have "map snd (List.map_filter (\<lambda>(i, v). map_option (Pair i) (dict_of v)) (enumerate n xs)) = dicts_of xs" for n
    by (induction xs arbitrary: n) (auto simp: List.map_filter_def dicts_of_def split: option.split)
  then show ?thesis by (simp add: numbered_dicts_def)
qed

lemma in_strings_Inr: "in_strings S v = Inr b \<longleftrightarrow> hashable v \<and> b = (\<exists>s\<in>set S. v = VStr s)"
  by (auto simp: in_strings_def)

lemma build_issue_fields:
  assumes "build_issue f i = Inr iss"
  shows "dget iss ''id'' = VInt (int i + 1)" "dget iss ''severity'' = dget f ''severity''"
    "\<exists>s\<in>set valid_severities. dget f ''severity'' = VStr s"
    "\<forall>k\<in>{''file'', ''line'', ''title'', ''description'', ''impact'', ''fix'', ''principle''}. dget iss k = dget f k"
  using assms by (auto simp: build_issue_def res_simps in_strings_Inr split: if_splits)

lemma built_issue_severity:
  assumes "mapE (\<lambda>(i, f). build_issue f i) (numbered_dicts xs) = Inr issues" "d \<in> set issues"
  shows "\<exists>s\<in>set valid_severities. dget d ''severity'' = VStr s"
proof -
  from assms(2) obtain k where k: "k < length issues" "d = issues ! k" by (auto simp: in_set_conv_nth)
  then have "build_issue (snd (numbered_dicts xs ! k)) (fst (numbered_dicts xs ! k)) = Inr d"
    using mapE_nth [OF assms(1)] mapE_length [OF assms(1)] by (simp add: split_beta)
  from build_issue_fields(2,3) [OF this] show ?thesis by simp
qed

lemma build_report_parts:
  assumes "build_report_payload wiki_total env = Inr p"
  obtains methodology issues where "build_methodology env = Inr methodology"
    and "mapE (\<lambda>(i, f). build_issue f i) (numbered_dicts (ensure_list (dget env ''findings''))) = Inr issues"
    and "\<exists>v\<in>set valid_verdicts. dget env ''verdict'' = VStr v"
    and "p = [(''verdict'', dget env ''verdict''), (''summary'', VDict (report_summary wiki_total env)),
          (''methodology'', VDict methodology), (''issues'', VList (map VDict issues)),
          (''strengths'', VList (ensure_list (dget env ''strengths''))),
          (''tool_results'', rows build_tool_row (dget env ''tool_results'')),
          (''specialists'', rows build_specialist_row (dget env ''specialist_outputs'')),
          (''gates'', rows build_gate_row (dget env ''gates'')),
          (''coverage'', rows coverage_row (dget env ''coverage_matrix''))]"
  using assms by (auto simp: build_report_payload_def res_simps in_strings_Inr split: if_splits)

subsection \<open>Properties\<close>

text \<open>
  C22: the report loses no finding and rewrites none: a payload that is built has one issue for
  each finding that is a dictionary, in the same order, under the number of its place, with its severity,
  one of the three known, and with its text fields as they are; the verdict is the run's,
  one of the three known.
\<close>

theorem report_keeps_findings:
  assumes "build_report_payload wiki_total env = Inr p"
  defines "fs \<equiv> numbered_dicts (ensure_list (dget env ''findings''))"
  shows "dget p ''verdict'' = dget env ''verdict'' \<and> (\<exists>v\<in>set valid_verdicts. dget env ''verdict'' = VStr v)
    \<and> map snd fs = dicts_of (ensure_list (dget env ''findings''))
    \<and> (\<exists>issues. dget p ''issues'' = VList (map VDict issues) \<and> length issues = length fs
        \<and> (\<forall>k<length fs. dget (issues ! k) ''id'' = VInt (int (fst (fs ! k)) + 1)
             \<and> dget (issues ! k) ''severity'' = dget (snd (fs ! k)) ''severity''
             \<and> (\<exists>s\<in>set valid_severities. dget (snd (fs ! k)) ''severity'' = VStr s)
             \<and> (\<forall>key\<in>{''file'', ''line'', ''title'', ''description'', ''impact'', ''fix'', ''principle''}.
                  dget (issues ! k) key = dget (snd (fs ! k)) key)))"
proof -
  obtain methodology issues where iss: "mapE (\<lambda>(i, f). build_issue f i) fs = Inr issues"
    and v: "\<exists>v\<in>set valid_verdicts. dget env ''verdict'' = VStr v"
    and p: "dget p ''verdict'' = dget env ''verdict''" "dget p ''issues'' = VList (map VDict issues)"
    by (rule build_report_parts [OF assms(1)]) (rule that; simp add: fs_def)
  have issue: "build_issue (snd (fs ! k)) (fst (fs ! k)) = Inr (issues ! k)" if "k < length fs" for k
    using mapE_nth [OF iss that] by (simp add: split_beta)
  show ?thesis
    using p v mapE_length [OF iss] build_issue_fields [OF issue] numbered_dicts_snd
    by (intro conjI exI [of _ issues] allI impI) (simp_all add: fs_def)
qed

definition reported_env :: dict where
  "reported_env = [(''verdict'', VStr ''NO-GO''),
     (''findings'', VList [VNone, VDict [(''severity'', VStr ''critical''), (''title'', VStr ''leak'')]])]"

theorem report_keeps_findings_witness:
  "\<exists>p issue. build_report_payload 0 reported_env = Inr p \<and> dget p ''issues'' = VList [VDict issue]
     \<and> dget issue ''id'' = VInt 2 \<and> dget issue ''title'' = VStr ''leak''"
proof -
  have fs: "numbered_dicts (ensure_list (dget reported_env ''findings''))
      = [(1, [(''severity'', VStr ''critical''), (''title'', VStr ''leak'')])]"
    by (simp add: reported_env_def ensure_list_def numbered_dicts_def List.map_filter_def dict_of_def)
  have "build_methodology reported_env = Inr (map (\<lambda>p. (p, VStr ''N/A'')) methodology_principles)"
    by (simp add: build_methodology_def reported_env_def ensure_dict_def in_strings_def hashable_def is_list_def
        is_dict_def methodology_principles_def)
  moreover have "dget reported_env ''verdict'' = VStr ''NO-GO''" by (simp add: reported_env_def)
  ultimately obtain p where p: "build_report_payload 0 reported_env = Inr p"
    by (simp add: build_report_payload_def fs build_issue_def in_strings_def hashable_def is_list_def is_dict_def
        valid_severities_def valid_verdicts_def sorted_flagged_def py_or_def py_int_def)
  from report_keeps_findings [OF p, unfolded fs] obtain issues where
      iss: "dget p ''issues'' = VList (map VDict issues)" "length issues = 1"
    and "dget (issues ! 0) ''id'' = VInt 2" "dget (issues ! 0) ''title'' = VStr ''leak''"
    by auto
  then show ?thesis using p by (cases issues) auto
qed

end
