(* ===== verification/Markdown.thy ===== *)
theory Markdown
  imports Report
begin

section \<open>The report as Markdown\<close>

text \<open>
  The renderer of \<^verbatim>\<open>code_review/handlers.py\<close>: \<^verbatim>\<open>_mdcell\<close>, \<^verbatim>\<open>_file_link\<close>, one function for each section of
  the report and \<^verbatim>\<open>render_report_markdown\<close>. The payload may come from a file, so it is any value,
  and each access that would raise is a branch. A reader of table rows shows that the issues of the
  payload come back from the rendered text.
\<close>

subsection \<open>Access\<close>

text \<open>\<^verbatim>\<open>v.get(k)\<close> and \<^verbatim>\<open>v.get(k, d)\<close> where \<^verbatim>\<open>v\<close> may be no dictionary, and \<^verbatim>\<open>sep.join(v)\<close>.\<close>

definition pget_or :: "pyval \<Rightarrow> string \<Rightarrow> pyval \<Rightarrow> pyval res" where
  "pget_or v k w = (case v of VDict d \<Rightarrow> Inr (dget_or d k w) | _ \<Rightarrow> Inl AttributeError)"

definition pget :: "pyval \<Rightarrow> string \<Rightarrow> pyval res" where
  "pget v k = pget_or v k VNone"

definition py_join :: "string \<Rightarrow> pyval \<Rightarrow> string res" where
  "py_join sep v = bindE (py_iter v) (\<lambda>xs. if list_all is_str xs then Inr (join sep (strs_of xs)) else Inl TypeError)"

definition or_dash :: "string \<Rightarrow> string" where
  "or_dash s = (if s = [] then em_dash else s)"

subsection \<open>Cells\<close>

fun replace_crlf :: "string \<Rightarrow> string" where
  "replace_crlf (c # d # s) =
     (if c = CHR 0x0D \<and> d = CHR 0x0A then CHR '' '' # replace_crlf s else c # replace_crlf (d # s))"
| "replace_crlf s = s"

definition md_cell :: "pyval \<Rightarrow> string" where
  "md_cell v = (if v = VNone then em_dash
     else replace_char newline '' '' (replace_crlf
            (replace_char (CHR ''|'') [CHR 0x5C, CHR ''|''] (replace_char (CHR 0x5C) [CHR 0x5C, CHR 0x5C] (py_str v)))))"

definition unreserved :: "char \<Rightarrow> bool" where
  "unreserved c \<longleftrightarrow> is_alnum c \<or> c \<in> set ''_.-~''"

definition upper_hex :: "nat \<Rightarrow> char" where
  "upper_hex n = (if n < 10 then char_of (48 + n) else char_of (55 + n))"

text \<open>\<^verbatim>\<open>quote(seg, safe="")\<close> of the UTF-8 bytes.\<close>

definition url_quote :: "string \<Rightarrow> string" where
  "url_quote s = concat (map (\<lambda>c. if unreserved c then [c]
     else [CHR ''%'', upper_hex (of_char c div 16), upper_hex (of_char c mod 16)]) s)"

definition file_link :: "pyval \<Rightarrow> pyval \<Rightarrow> string" where
  "file_link file line = (case file of
     VStr f \<Rightarrow>
       if f = [] then em_dash
       else if line = VNone then ''`'' @ f @ ''`''
       else ''['' @ f @ '':'' @ py_str line @ ''](../../../'' @ join ''/'' (map url_quote (split_on (CHR ''/'') f))
              @ ''#L'' @ py_str line @ '')''
   | _ \<Rightarrow> em_dash)"

definition md_row :: "string list \<Rightarrow> string" where
  "md_row cells = ''| '' @ join '' | '' cells @ '' |''"

subsection \<open>Sections\<close>

definition severity_counts :: "pyval list \<Rightarrow> (string \<Rightarrow> nat) res" where
  "severity_counts xs = bindE (mapE (\<lambda>d. bindE (in_strings valid_severities (dget d ''severity'')) (\<lambda>_. Inr d)) (dicts_of xs))
     (\<lambda>ds. Inr (\<lambda>s. count_if (has_severity s) ds))"

definition blocking_text :: "(string \<Rightarrow> nat) \<Rightarrow> string" where
  "blocking_text counts =
     (if 0 < counts ''critical'' \<or> 0 < counts ''important''
      then show_nat (counts ''critical'') @ '' critical, '' @ show_nat (counts ''important'') @ '' important''
      else ''none'')"

definition range_text :: "pyval \<Rightarrow> string res" where
  "range_text rng =
     bindE (pget rng ''base'') (\<lambda>base. bindE (pget rng ''head'') (\<lambda>head.
     Inr (if truthy base \<and> truthy head then py_str base @ ''..'' @ py_str head
          else if truthy head then py_str head else em_dash)))"

definition bold_row :: "string \<Rightarrow> string \<Rightarrow> string" where
  "bold_row label value = ''| **'' @ label @ ''** | '' @ value @ '' |''"

definition render_verdict_table :: "pyval \<Rightarrow> string list res" where
  "render_verdict_table payload =
     bindE (pget payload ''issues'') (\<lambda>issues. bindE (py_iter (py_or issues (VList []))) (\<lambda>xs.
     bindE (severity_counts xs) (\<lambda>counts.
     bindE (pget payload ''summary'') (\<lambda>s. let summary = py_or s (VDict []) in
     bindE (pget summary ''range'') (\<lambda>r. bindE (range_text (py_or r (VDict []))) (\<lambda>range_str.
     bindE (pget summary ''stack'') (\<lambda>st. bindE (py_join '', '' (py_or st (VList []))) (\<lambda>stack.
     bindE (pget_or summary ''specialists_dispatched'' (VInt 0)) (\<lambda>dispatched.
     bindE (pget_or summary ''specialists_total'' (VStr ''?'')) (\<lambda>total.
     bindE (pget payload ''verdict'') (\<lambda>verdict.
     bindE (pget summary ''description'') (\<lambda>description.
     bindE (pget_or summary ''files_changed'' (VInt 0)) (\<lambda>files.
     bindE (pget_or summary ''mode'' (VStr ''diff'')) (\<lambda>mode.
     Inr ([''## Verdict'', [], ''| | |'', ''|---|---|'',
           bold_row ''Decision'' (''**'' @ py_str (py_or verdict (VStr ''(unknown)'')) @ ''**''),
           bold_row ''Blocking'' (blocking_text counts)]
          @ (if description \<noteq> VNone \<and> description \<noteq> VStr [] \<and> description \<noteq> VList []
             then [bold_row ''Reviewed'' (md_cell description)] else [])
          @ [bold_row ''Range'' range_str,
             bold_row ''Files'' (py_str files @ '' files changed''),
             bold_row ''Stack'' (or_dash stack),
             bold_row ''Mode'' (py_str mode),
             bold_row ''Specialists'' (py_str dispatched @ '' of '' @ py_str total @ '' dispatched''),
             []])))))))))))))))"

definition render_methodology :: "pyval \<Rightarrow> string list res" where
  "render_methodology payload =
     bindE (pget payload ''methodology'') (\<lambda>m.
     bindE (mapE (\<lambda>p. bindE (pget_or (py_or m (VDict [])) p (VStr ''N/A'')) (\<lambda>v. Inr (md_row [p, py_str v, em_dash])))
              methodology_principles) (\<lambda>ls.
     Inr ([''## SOLID Compliance'', [], ''| Principle | Status | Finding |'', ''|-----------|--------|---------|'']
          @ ls @ [[]])))"

definition issue_cells :: "bool \<Rightarrow> dict \<Rightarrow> string list" where
  "issue_cells with_impact issue =
     [py_str (dget_or issue ''id'' (VStr [])), md_cell (dget issue ''specialist''),
      file_link (dget issue ''file'') (dget issue ''line''), md_cell (dget issue ''title'')]
     @ (if with_impact then [md_cell (dget issue ''impact'')] else []) @ [md_cell (dget issue ''fix'')]"

definition issue_section :: "string \<Rightarrow> bool \<Rightarrow> dict list \<Rightarrow> string list" where
  "issue_section title with_impact issues =
     (if issues = [] then []
      else [title, []]
        @ (if with_impact
           then [''| # | Specialist | Location | Title | Impact | Fix |'',
                 ''|---|-----------|----------|-------|--------|-----|'']
           else [''| # | Specialist | Location | Title | Fix |'', ''|---|-----------|----------|-------|-----|''])
        @ map (md_row \<circ> issue_cells with_impact) issues @ [[]])"

definition render_issues :: "pyval \<Rightarrow> string list res" where
  "render_issues issues =
     (if \<not> truthy issues then Inr []
      else bindE (py_iter issues) (\<lambda>xs.
           bindE (mapE (\<lambda>d. bindE (in_strings valid_severities (dget d ''severity'')) (\<lambda>_. Inr d)) (dicts_of xs)) (\<lambda>ds.
           Inr ([''## Issues'', []]
             @ issue_section (''### Critical '' @ em_dash @ '' Blocks Merge'') True (filter (has_severity ''critical'') ds)
             @ issue_section (''### Important '' @ em_dash @ '' Should Fix Before Merge'') True
                 (filter (has_severity ''important'') ds)
             @ issue_section (''### Minor '' @ em_dash @ '' Advisory'') False (filter (has_severity ''minor'') ds)))))"

text \<open>A section of one line for each dictionary of a list.\<close>

definition row_section :: "string list \<Rightarrow> (dict \<Rightarrow> string res) \<Rightarrow> pyval \<Rightarrow> string list res" where
  "row_section heading row v =
     (if \<not> truthy v then Inr []
      else bindE (py_iter v) (\<lambda>xs. bindE (mapE row (dicts_of xs)) (\<lambda>ls. Inr (heading @ ls @ [[]]))))"

definition render_strengths :: "pyval \<Rightarrow> string list res" where
  "render_strengths = row_section [''## Strengths'', []] (\<lambda>s.
     Inr (''- **['' @ py_str (py_or (dget s ''specialist'') (VStr em_dash)) @ '']** ''
          @ py_str (py_or (dget s ''description'') (VStr []))))"

text \<open>\<^verbatim>\<open>(v or "-").upper()\<close>.\<close>

definition upper_or_dash :: "pyval \<Rightarrow> string res" where
  "upper_or_dash v = (case py_or v (VStr em_dash) of VStr s \<Rightarrow> Inr (upper s) | _ \<Rightarrow> Inl AttributeError)"

definition tool_status :: "dict \<Rightarrow> string res" where
  "tool_status t = (if dget t ''status'' = VStr ''skipped'' \<and> truthy (dget t ''reason'')
     then Inr (''SKIP ('' @ py_str (dget t ''reason'') @ '')'') else upper_or_dash (dget t ''status''))"

definition render_tool_results :: "pyval \<Rightarrow> string list res" where
  "render_tool_results = row_section
     [''## Tool Results'', [], ''| Tool | Status | Findings | Specialist |'', ''|------|--------|----------|-----------|'']
     (\<lambda>t. bindE (tool_status t) (\<lambda>st. Inr (md_row [md_cell (dget t ''name''), md_cell (VStr st),
        (if dget t ''findings'' \<noteq> VNone then py_str (dget t ''findings'') else em_dash), md_cell (dget t ''specialist'')])))"

definition render_specialists :: "pyval \<Rightarrow> string list res" where
  "render_specialists = row_section
     [''## Specialist Results'', [], ''| Specialist | Status | C | I | M | Key Finding |'',
      ''|-----------|--------|---|---|---|-------------|'']
     (\<lambda>s. bindE (upper_or_dash (dget s ''status'')) (\<lambda>st. Inr (md_row [md_cell (dget s ''id''), st,
        py_str (dget_or s ''critical'' (VInt 0)), py_str (dget_or s ''important'' (VInt 0)),
        py_str (dget_or s ''minor'' (VInt 0)), md_cell (dget s ''key_finding'')])))"

definition render_gates :: "pyval \<Rightarrow> string list res" where
  "render_gates = row_section
     [''## Release Gates'', [], ''| # | Gate | Status | Blockers |'', ''|---|------|--------|----------|'']
     (\<lambda>g. Inr (md_row [py_str (dget g ''number''), py_str (dget g ''name''), py_str (dget g ''status''),
        py_str (dget_or g ''blockers'' (VInt 0))]))"

definition render_coverage :: "pyval \<Rightarrow> string list res" where
  "render_coverage = row_section
     [''## Coverage'', [], ''| File | Reviewed By |'', ''|------|-----------|'']
     (\<lambda>row. bindE (py_join '', '' (py_or (dget row ''reviewers'') (VList []))) (\<lambda>reviewers.
        Inr (md_row [md_cell (dget row ''file''), md_cell (VStr (or_dash reviewers))])))"

text \<open>\<^verbatim>\<open>payload.get(k) or []\<close>, rendered.\<close>

definition render_part :: "pyval \<Rightarrow> string \<Rightarrow> (pyval \<Rightarrow> string list res) \<Rightarrow> string list res" where
  "render_part payload k f = bindE (pget payload k) (\<lambda>v. f (py_or v (VList [])))"

definition render_report_markdown :: "pyval \<Rightarrow> string res" where
  "render_report_markdown payload =
     bindE (render_verdict_table payload) (\<lambda>verdict.
     bindE (render_methodology payload) (\<lambda>methodology.
     bindE (render_part payload ''issues'' render_issues) (\<lambda>issues.
     bindE (render_part payload ''strengths'' render_strengths) (\<lambda>strengths.
     bindE (render_part payload ''tool_results'' render_tool_results) (\<lambda>tools.
     bindE (render_part payload ''specialists'' render_specialists) (\<lambda>specialists.
     bindE (render_part payload ''gates'' render_gates) (\<lambda>gates.
     bindE (render_part payload ''coverage'' render_coverage) (\<lambda>coverage.
     Inr (join [newline] ([''# Code Review Report'', []] @ verdict @ methodology @ issues @ strengths @ tools
            @ specialists @ gates @ coverage) @ [newline])))))))))"

definition render_report_json :: "pyval \<Rightarrow> string" where
  "render_report_json payload = json_indented payload @ [newline]"

subsection \<open>Rows are read back\<close>

text \<open>
  A reader of table rows: cells end at a bar that no backslash precedes, and a backslash stands for
  the character after it.
\<close>

fun read_cells :: "string \<Rightarrow> string \<Rightarrow> string list" where
  "read_cells cur [] = [cur]"
| "read_cells cur (c # s) =
     (if c = CHR ''|'' then cur # read_cells [] s
      else if c = CHR 0x5C then (case s of [] \<Rightarrow> [cur @ [c]] | d # s' \<Rightarrow> read_cells (cur @ [d]) s')
      else read_cells (cur @ [c]) s)"

definition read_row :: "string \<Rightarrow> string list" where
  "read_row s = map (butlast \<circ> tl) (butlast (tl (read_cells [] s)))"

text \<open>The text of a cell with each line break replaced by a blank.\<close>

definition flat_text :: "pyval \<Rightarrow> string" where
  "flat_text v = (if v = VNone then em_dash else replace_char newline '' '' (replace_crlf (py_str v)))"

definition md_escape :: "string \<Rightarrow> string" where
  "md_escape s = concat (map (\<lambda>c. if c = CHR 0x5C \<or> c = CHR ''|'' then [CHR 0x5C, c] else [c]) s)"

lemma md_escape_simps [simp]:
  "md_escape [] = []"
  "md_escape (c # s) = (if c = CHR 0x5C \<or> c = CHR ''|'' then [CHR 0x5C, c] else [c]) @ md_escape s"
  by (simp_all add: md_escape_def)

lemma escapes_eq: "replace_char (CHR ''|'') [CHR 0x5C, CHR ''|''] (replace_char (CHR 0x5C) [CHR 0x5C, CHR 0x5C] s) = md_escape s"
  by (induction s) (auto simp: replace_char_def)

lemma replace_crlf_Cons: "c \<noteq> CHR 0x0D \<Longrightarrow> replace_crlf (c # s) = c # replace_crlf s"
  by (cases s) auto

lemma replace_crlf_CR: "hd (s @ '' '') \<noteq> CHR 0x0A \<Longrightarrow> replace_crlf (CHR 0x0D # s) = CHR 0x0D # replace_crlf s"
  by (cases s) auto

lemma replace_crlf_escape: "replace_crlf (md_escape s) = md_escape (replace_crlf s)"
proof (induction s rule: replace_crlf.induct)
  case (1 c d s)
  show ?case
  proof (cases "c = CHR 0x0D \<and> d = CHR 0x0A")
    case True
    with "1.IH"(1) show ?thesis by simp
  next
    case False
    define m where "m = md_escape (d # s)"
    have m: "replace_crlf m = md_escape (replace_crlf (d # s))" unfolding m_def by (rule "1.IH"(2) [OF False])
    have hd: "hd (m @ '' '') = (if d = CHR 0x5C \<or> d = CHR ''|'' then CHR 0x5C else d)" by (simp add: m_def)
    have "replace_crlf (md_escape [c] @ m) = md_escape [c] @ replace_crlf m"
      using False hd by (cases "c = CHR 0x0D") (auto simp: replace_crlf_Cons replace_crlf_CR)
    then have "replace_crlf (md_escape (c # d # s)) = md_escape [c] @ md_escape (replace_crlf (d # s))"
      unfolding m by (simp add: m_def)
    then show ?thesis using False by simp
  qed
qed auto

lemma replace_newline_escape: "replace_char newline '' '' (md_escape s) = md_escape (replace_char newline '' '' s)"
  by (induction s) (auto simp: replace_char_def)

lemma md_cell_escape: "md_cell v = md_escape (flat_text v)"
  by (simp add: md_cell_def flat_text_def escapes_eq replace_crlf_escape replace_newline_escape)

lemma read_cells_escape: "read_cells cur (md_escape s @ r) = read_cells (cur @ s) r"
  by (induction s arbitrary: cur) auto

lemma read_cells_join:
  assumes "ts \<noteq> []"
  shows "read_cells cur (join '' | '' (map md_escape ts) @ '' |'') =
    (cur @ hd ts @ '' '') # map (\<lambda>t. '' '' @ t @ '' '') (tl ts) @ [[]]"
  using assms
proof (induction ts arbitrary: cur)
  case Nil
  then show ?case by simp
next
  case (Cons t ts)
  show ?case
  proof (cases ts)
    case Nil
    then show ?thesis by (simp add: read_cells_escape)
  next
    case (Cons t' ts')
    then show ?thesis using Cons.IH [of "'' ''"] by (simp add: read_cells_escape)
  qed
qed

lemma read_row_md_row:
  assumes "ts \<noteq> []"
  shows "read_row (md_row (map md_escape ts)) = ts"
proof -
  have "read_cells [] (md_row (map md_escape ts)) = [] # map (\<lambda>t. '' '' @ t @ '' '') ts @ [[]]"
    using read_cells_join [OF assms, of "'' ''"] assms by (cases ts) (simp_all add: md_row_def)
  then show ?thesis by (simp add: read_row_def comp_def)
qed

lemma newline_escape: "newline \<in> set (md_escape s) \<longleftrightarrow> newline \<in> set s"
  by (induction s) auto

lemma flat_text_newline: "newline \<notin> set (flat_text v)"
  by (simp add: flat_text_def set_replace_char)

lemma newline_join: "newline \<in> set (join sep ws) \<Longrightarrow> newline \<in> set sep \<or> (\<exists>w\<in>set ws. newline \<in> set w)"
  by (induction sep ws rule: join.induct) auto

text \<open>A file name is not escaped: a bar in it adds a cell.\<close>

lemma file_link_bar: "length (read_row (md_row [file_link (VStr ''a|b'') VNone, md_cell VNone])) = 3"
  by (simp add: read_row_def md_row_def file_link_def md_cell_def)

text \<open>Text that needs no escape, on one line.\<close>

definition plain_text :: "string \<Rightarrow> bool" where
  "plain_text s \<longleftrightarrow> list_all (\<lambda>c. c \<noteq> CHR ''|'' \<and> c \<noteq> CHR 0x5C \<and> c \<noteq> newline) s"

lemma plain_append [simp]: "plain_text (s @ t) \<longleftrightarrow> plain_text s \<and> plain_text t"
  by (simp add: plain_text_def)

lemma plain_Cons [simp]: "plain_text (c # s) \<longleftrightarrow> c \<noteq> CHR ''|'' \<and> c \<noteq> CHR 0x5C \<and> c \<noteq> newline \<and> plain_text s"
  by (simp add: plain_text_def)

lemma plain_Nil [simp]: "plain_text []"
  by (simp add: plain_text_def)

lemma plain_escape: "plain_text s \<Longrightarrow> md_escape s = s"
  by (induction s) auto

lemma plain_newline: "plain_text s \<Longrightarrow> newline \<notin> set s"
  by (auto simp: plain_text_def list_all_iff)

lemma plain_show_int: "plain_text (show_int n)"
proof -
  have "plain_text (show_nat m)" for m
  proof -
    have "\<not> is_digit (CHR ''|'')" "\<not> is_digit (CHR 0x5C)" "\<not> is_digit newline" by code_simp+
    then show ?thesis unfolding plain_text_def list_all_iff using show_nat_digits [of _ m] by metis
  qed
  then show ?thesis by (simp add: show_int_def)
qed

lemma plain_url_quote: "plain_text (url_quote s)"
proof (induction s)
  case (Cons c s)
  have hex: "upper_hex n \<noteq> CHR ''|'' \<and> upper_hex n \<noteq> CHR 0x5C \<and> upper_hex n \<noteq> newline" if "n < 16" for n
  proof -
    have "list_all (\<lambda>n. upper_hex n \<noteq> CHR ''|'' \<and> upper_hex n \<noteq> CHR 0x5C \<and> upper_hex n \<noteq> newline) [0..<16]" by code_simp
    then show ?thesis using that by (simp add: list_all_iff)
  qed
  have "\<not> unreserved (CHR ''|'')" "\<not> unreserved (CHR 0x5C)" "\<not> unreserved newline" by code_simp+
  then have "unreserved c \<Longrightarrow> c \<noteq> CHR ''|'' \<and> c \<noteq> CHR 0x5C \<and> c \<noteq> newline" by auto
  moreover have "of_char c div 16 < (16 :: nat)" "of_char c mod 16 < (16 :: nat)" by (simp_all add: less_mult_imp_div_less)
  moreover have "url_quote (c # s) = (if unreserved c then [c]
      else [CHR ''%'', upper_hex (of_char c div 16), upper_hex (of_char c mod 16)]) @ url_quote s"
    by (simp add: url_quote_def)
  ultimately show ?case using Cons.IH hex by simp
qed (simp add: url_quote_def)

lemma plain_join: "plain_text sep \<Longrightarrow> \<forall>w\<in>set ws. plain_text w \<Longrightarrow> plain_text (join sep ws)"
  by (induction sep ws rule: join.induct) auto

text \<open>A location that can be printed as it is.\<close>

definition plain_place :: "dict \<Rightarrow> bool" where
  "plain_place issue \<longleftrightarrow> (case dget issue ''file'' of VStr f \<Rightarrow> plain_text f | _ \<Rightarrow> True) \<and> plain_text (py_str (dget issue ''line''))"

lemma plain_link: "plain_place issue \<Longrightarrow> plain_text (file_link (dget issue ''file'') (dget issue ''line''))"
  unfolding plain_place_def file_link_def
  by (cases "dget issue ''file''") (auto intro!: plain_join simp: plain_url_quote)

text \<open>The texts a row of the issue tables is meant to show.\<close>

definition issue_texts :: "bool \<Rightarrow> dict \<Rightarrow> string list" where
  "issue_texts with_impact issue =
     [py_str (dget issue ''id''), flat_text (dget issue ''specialist''),
      file_link (dget issue ''file'') (dget issue ''line''), flat_text (dget issue ''title'')]
     @ (if with_impact then [flat_text (dget issue ''impact'')] else []) @ [flat_text (dget issue ''fix'')]"

lemma issue_cells_escape:
  assumes "plain_place issue" "dget issue ''id'' = VInt n"
  shows "issue_cells b issue = map md_escape (issue_texts b issue)" "\<forall>t\<in>set (issue_texts b issue). newline \<notin> set t"
proof -
  have i: "dget_or issue ''id'' (VStr []) = VInt n" using assms(2) by (auto simp: dget_def dget_or_def split: option.splits)
  show "issue_cells b issue = map md_escape (issue_texts b issue)"
    by (simp add: issue_cells_def issue_texts_def i assms(2) plain_escape plain_show_int plain_link [OF assms(1)] md_cell_escape)
  show "\<forall>t\<in>set (issue_texts b issue). newline \<notin> set t"
    by (simp add: issue_texts_def assms(2) flat_text_newline plain_newline plain_show_int plain_link [OF assms(1)])
qed

lemma issue_row_read:
  assumes "plain_place issue" "dget issue ''id'' = VInt n"
  shows "read_row (md_row (issue_cells b issue)) = issue_texts b issue" "newline \<notin> set (md_row (issue_cells b issue))"
proof -
  note cells = issue_cells_escape [OF assms, of b]
  show "read_row (md_row (issue_cells b issue)) = issue_texts b issue"
    unfolding cells(1) by (rule read_row_md_row) (simp add: issue_texts_def)
  show "newline \<notin> set (md_row (issue_cells b issue))"
    using newline_join [of "'' | ''" "issue_cells b issue"] cells(2)
    by (auto simp: md_row_def cells(1) newline_escape)
qed

lemma issue_section_rows: "\<exists>pre post. issue_section t b xs = pre @ map (md_row \<circ> issue_cells b) xs @ post"
proof (cases "xs = []")
  case True
  then show ?thesis by (simp add: issue_section_def)
next
  case False
  then obtain heading where "issue_section t b xs = heading @ map (md_row \<circ> issue_cells b) xs @ [[]]"
    by (simp add: issue_section_def)
  then show ?thesis by blast
qed

lemma mapE_same: "mapE (\<lambda>d. bindE (g d) (\<lambda>_. Inr d)) xs = Inr ds \<Longrightarrow> ds = xs"
  by (induction xs arbitrary: ds) (auto simp: res_simps)

lemma render_issues_rows:
  assumes "render_issues (VList (map VDict issues)) = Inr ls" "s \<in> set valid_severities"
  shows "\<exists>pre post. ls = pre @ map (md_row \<circ> issue_cells (s \<noteq> ''minor'')) (filter (has_severity s) issues) @ post"
proof (cases "issues = []")
  case True
  then show ?thesis using assms(1) by (simp add: render_issues_def)
next
  case False
  let ?rows = "\<lambda>s. filter (has_severity s) issues"
  obtain t1 t2 t3 where ls: "ls = [''## Issues'', []] @ issue_section t1 True (?rows ''critical'')
      @ issue_section t2 True (?rows ''important'') @ issue_section t3 False (?rows ''minor'')"
    using assms(1) False by (auto simp: render_issues_def res_simps dest!: mapE_same)
  consider "s = ''critical''" | "s = ''important''" | "s = ''minor''"
    using assms(2) by (auto simp: valid_severities_def)
  then show ?thesis
  proof cases
    case 1
    obtain a b where "issue_section t1 True (?rows ''critical'') = a @ map (md_row \<circ> issue_cells True) (?rows ''critical'') @ b"
      using issue_section_rows by blast
    then show ?thesis
      by (intro exI [of _ "[''## Issues'', []] @ a"]
          exI [of _ "b @ issue_section t2 True (?rows ''important'') @ issue_section t3 False (?rows ''minor'')"]) (simp add: ls 1)
  next
    case 2
    obtain a b where "issue_section t2 True (?rows ''important'') = a @ map (md_row \<circ> issue_cells True) (?rows ''important'') @ b"
      using issue_section_rows by blast
    then show ?thesis
      by (intro exI [of _ "[''## Issues'', []] @ issue_section t1 True (?rows ''critical'') @ a"]
          exI [of _ "b @ issue_section t3 False (?rows ''minor'')"]) (simp add: ls 2)
  next
    case 3
    obtain a b where "issue_section t3 False (?rows ''minor'') = a @ map (md_row \<circ> issue_cells False) (?rows ''minor'') @ b"
      using issue_section_rows by blast
    then show ?thesis
      by (intro exI [of _ "[''## Issues'', []] @ issue_section t1 True (?rows ''critical'') @ issue_section t2 True (?rows ''important'') @ a"]
          exI [of _ b]) (simp add: ls 3)
  qed
qed

lemma built_issue_number:
  assumes "mapE (\<lambda>(i, f). build_issue f i) (numbered_dicts xs) = Inr issues" "d \<in> set issues"
  shows "\<exists>n. dget d ''id'' = VInt n"
proof -
  from assms(2) obtain k where k: "k < length issues" "d = issues ! k" by (auto simp: in_set_conv_nth)
  then have "build_issue (snd (numbered_dicts xs ! k)) (fst (numbered_dicts xs ! k)) = Inr d"
    using mapE_nth [OF assms(1)] mapE_length [OF assms(1)] by (simp add: split_beta)
  then show ?thesis by (auto simp: build_issue_def res_simps split: if_splits)
qed

text \<open>The lines of the rendered report that the section of the issues contributes.\<close>

lemma markdown_issue_lines:
  assumes "render_report_markdown (VDict p) = Inr md" "dget p ''issues'' = VList (map VDict issues)"
  obtains ls pre post where "render_issues (VList (map VDict issues)) = Inr ls" "md = join [newline] (pre @ ls @ post) @ [newline]"
proof -
  have "py_or (VList (map VDict issues)) (VList []) = VList (map VDict issues)" by (simp add: py_or_def)
  then obtain verdict methodology ls rest where ls: "render_issues (VList (map VDict issues)) = Inr ls"
      and md: "md = join [newline] ([''# Code Review Report'', []] @ verdict @ methodology @ ls @ rest) @ [newline]"
    using assms by (auto simp: render_report_markdown_def res_simps render_part_def pget_def pget_or_def dget_def [symmetric])
  show ?thesis
    by (rule that [OF ls, of "[''# Code Review Report'', []] @ verdict @ methodology" rest]) (simp add: md)
qed

subsection \<open>Property\<close>

text \<open>
  C35: the tables of issues in \<^verbatim>\<open>report.md\<close> say what the payload says. For each severity the rendered report has, in
  one piece, one line for each issue of that severity, in order. The line has no line feed in it and is read back, by the
  rules of Markdown tables (a cell ends at a bar that is not escaped), as the issue's number, specialist, location,
  title, impact (not for minor ones) and fix, each as its text with line feeds replaced by blanks, whatever
  characters these texts have. The location is the exception, for it is written unescaped: the property asks that
  file names and line numbers have no bar, backslash or line feed (lemma \<^verbatim>\<open>file_link_bar\<close> shows one with a bar). Two
  points are not as \<^verbatim>\<open>report-format.md\<close> has them: the link goes up three folders instead of being relative to the
  project, and the number is the position among all findings, not in the table. A lone carriage return,
  which CommonMark reads as a line end, stays in the cell.
\<close>

theorem issue_rows_read_back:
  assumes "build_report_payload wiki_total env = Inr p" "render_report_markdown (VDict p) = Inr md"
    and "\<forall>issue. VDict issue \<in> set (ensure_list (dget p ''issues'')) \<longrightarrow> plain_place issue"
  shows "\<exists>issues. dget p ''issues'' = VList (map VDict issues)
    \<and> (\<forall>s\<in>set valid_severities. \<exists>pre rows post. md = join [newline] (pre @ rows @ post) @ [newline]
         \<and> map read_row rows = map (issue_texts (s \<noteq> ''minor'')) (filter (has_severity s) issues)
         \<and> (\<forall>row\<in>set rows. newline \<notin> set row))"
proof -
  obtain methodology issues where iss: "mapE (\<lambda>(i, f). build_issue f i) (numbered_dicts (ensure_list (dget env ''findings''))) = Inr issues"
    and p: "dget p ''issues'' = VList (map VDict issues)"
    by (rule build_report_parts [OF assms(1)]) (rule that, assumption, simp)
  obtain ls pre post where ls: "render_issues (VList (map VDict issues)) = Inr ls" "md = join [newline] (pre @ ls @ post) @ [newline]"
    by (rule markdown_issue_lines [OF assms(2) p])
  have plain: "plain_place d" "\<exists>n. dget d ''id'' = VInt n" if "d \<in> set issues" for d
    using assms(3) that built_issue_number [OF iss that] by (auto simp: p ensure_list_def)
  have "\<exists>pre rows post. md = join [newline] (pre @ rows @ post) @ [newline]
         \<and> map read_row rows = map (issue_texts (s \<noteq> ''minor'')) (filter (has_severity s) issues)
         \<and> (\<forall>row\<in>set rows. newline \<notin> set row)" if s: "s \<in> set valid_severities" for s
  proof -
    let ?rows = "map (md_row \<circ> issue_cells (s \<noteq> ''minor'')) (filter (has_severity s) issues)"
    obtain a b where "ls = a @ ?rows @ b" using render_issues_rows [OF ls(1) s] by blast
    then have "md = join [newline] ((pre @ a) @ ?rows @ (b @ post)) @ [newline]" using ls(2) by simp
    moreover have "read_row (md_row (issue_cells b d)) = issue_texts b d \<and> newline \<notin> set (md_row (issue_cells b d))"
      if "d \<in> set issues" for d b
      using plain [OF that] issue_row_read by blast
    then have "map read_row ?rows = map (issue_texts (s \<noteq> ''minor'')) (filter (has_severity s) issues)"
      and "\<forall>row\<in>set ?rows. newline \<notin> set row" by auto
    ultimately show ?thesis by blast
  qed
  then show ?thesis using p by blast
qed

definition barred_env :: dict where
  "barred_env = [(''verdict'', VStr ''NO-GO''), (''findings'', VList [VDict [(''severity'', VStr ''critical''),
     (''title'', VStr [CHR ''a'', CHR ''|'', CHR 0x5C, newline, CHR ''b'']), (''file'', VStr ''x y.py''), (''line'', VInt 7)]])]"

theorem issue_rows_read_back_witness:
  "\<exists>p md pre row post. build_report_payload 476 barred_env = Inr p \<and> render_report_markdown (VDict p) = Inr md
     \<and> md = join [newline] (pre @ [row] @ post) @ [newline]
     \<and> read_row row = [''1'', em_dash, ''[x y.py:7](../../../x%20y.py#L7)'',
          [CHR ''a'', CHR ''|'', CHR 0x5C, CHR '' '', CHR ''b''], em_dash, em_dash]"
proof -
  let ?texts = "[''1'', em_dash, ''[x y.py:7](../../../x%20y.py#L7)'',
          [CHR ''a'', CHR ''|'', CHR 0x5C, CHR '' '', CHR ''b''], em_dash, em_dash]"
  have "case build_report_payload 476 barred_env of Inl e \<Rightarrow> False | Inr p \<Rightarrow>
      (case render_report_markdown (VDict p) of Inl e \<Rightarrow> False | Inr md \<Rightarrow>
        (let d = ensure_dict (hd (ensure_list (dget p ''issues''))) in
          dget p ''issues'' = VList [VDict d] \<and> plain_place d \<and> has_severity ''critical'' d \<and> issue_texts True d = ?texts))"
    by code_simp
  then obtain p md d where p: "build_report_payload 476 barred_env = Inr p" "render_report_markdown (VDict p) = Inr md"
      and d: "dget p ''issues'' = VList [VDict d]" "plain_place d" "has_severity ''critical'' d" "issue_texts True d = ?texts"
    by (auto simp: Let_def split: sum.splits)
  have "\<forall>issue. VDict issue \<in> set (ensure_list (dget p ''issues'')) \<longrightarrow> plain_place issue"
    using d(1,2) by (simp add: ensure_list_def)
  from issue_rows_read_back [OF p this] obtain issues where issues: "dget p ''issues'' = VList (map VDict issues)"
      and shown: "\<forall>s\<in>set valid_severities. \<exists>pre rows post. md = join [newline] (pre @ rows @ post) @ [newline]
         \<and> map read_row rows = map (issue_texts (s \<noteq> ''minor'')) (filter (has_severity s) issues)
         \<and> (\<forall>row\<in>set rows. newline \<notin> set row)" by blast
  have "issues = [d]" using issues d(1) by (auto simp: map_eq_Cons_conv)
  have "''critical'' \<in> set valid_severities" by (simp add: valid_severities_def)
  from bspec [OF shown this] obtain pre rows post where md: "md = join [newline] (pre @ rows @ post) @ [newline]"
      and rows: "map read_row rows = map (issue_texts (''critical'' \<noteq> ''minor'')) (filter (has_severity ''critical'') issues)"
    by blast
  have "map read_row rows = [?texts]" unfolding rows using d(3,4) by (simp add: \<open>issues = [d]\<close>)
  then obtain row where "rows = [row]" "read_row row = ?texts" by (auto simp: map_eq_Cons_conv)
  with p md show ?thesis by blast
qed

end
