(* ===== verification/RunDirectory.thy ===== *)
theory RunDirectory
  imports Markdown Gates
begin

section \<open>The run directory\<close>

text \<open>
  \<^verbatim>\<open>write_run_artefacts\<close> and \<^verbatim>\<open>handle_write_run_directory\<close> of \<^verbatim>\<open>code_review/handlers.py\<close>. A file is
  written to a temporary name and renamed over its target, so a list of writes is a list of
  complete files; \<open>atomic_write\<close> is one of them on a file system.
\<close>

type_synonym file_system = "string \<rightharpoonup> string"

text \<open>\<^verbatim>\<open>_atomic_write_text\<close>: the two states the file system goes through.\<close>

definition tmp_name :: "string \<Rightarrow> string \<Rightarrow> string" where
  "tmp_name token path = path @ ''.tmp.'' @ token"

definition atomic_write :: "string \<Rightarrow> string \<Rightarrow> string \<Rightarrow> file_system \<Rightarrow> file_system list" where
  "atomic_write token path contents fs =
     (let tmp = tmp_name token path; staged = fs(tmp \<mapsto> contents)
      in [staged, staged(tmp := None, path \<mapsto> contents)])"

subsection \<open>Manifest and timings\<close>

definition pget_list :: "pyval \<Rightarrow> pyval" where
  "pget_list v = VList (ensure_list v)"

definition manifest_of :: "string \<Rightarrow> string \<Rightarrow> dict \<Rightarrow> dict \<Rightarrow> dict" where
  "manifest_of legacy_run_id run_uuid env payload =
     [(''run_id'', VStr legacy_run_id), (''fsm_run_id'', VStr run_uuid), (''verdict'', dget payload ''verdict''),
      (''report_path'', VStr ''report.md''), (''report_json_path'', VStr ''report.json''),
      (''tier'', dget env ''tier''), (''tier_cap'', dget env ''cap''), (''tier_rationale'', dget env ''tier_rationale''),
      (''short_circuited'', VBool (truthy (dget env ''short_circuited''))),
      (''degraded_run'', VBool (truthy (dget env ''degraded_run''))),
      (''severity_counts'', py_or (dget env ''severity_counts'') zero_counts),
      (''coverage_gaps'', pget_list (dget env ''coverage_gaps'')),
      (''routing'', VDict
        [(''stage_a'', VDict [(''candidates'', py_or (dget env ''stage_a_candidates'') (VList []))]),
         (''stage_b'', VDict
           [(''picked'', py_or (dget env ''picked_leaves'') (VList [])),
            (''rejected'', py_or (dget env ''rejected_leaves'') (VList [])),
            (''coverage_rescues'', py_or (dget env ''coverage_rescues'') (VList []))])])]"

definition timings_doc :: "string \<Rightarrow> string \<Rightarrow> dict \<Rightarrow> dict" where
  "timings_doc legacy_run_id run_uuid timings =
     [(''run_id'', VStr legacy_run_id), (''fsm_run_id'', VStr run_uuid),
      (''whole_review_ms'', dget timings ''whole_review_ms''),
      (''stage_timings'', pget_list (dget timings ''stage_timings'')),
      (''specialists'', pget_list (dget timings ''specialists'')),
      (''cost'', VDict (ensure_dict (dget timings ''cost'')))]"

subsection \<open>The handler\<close>

definition json_file :: "dict \<Rightarrow> string" where
  "json_file d = json_indented (VDict d) @ [newline]"

definition timings_write :: "string \<Rightarrow> string \<Rightarrow> string \<Rightarrow> dict \<Rightarrow> (string \<times> string) list" where
  "timings_write run_dir legacy_run_id run_uuid env = (case dget env ''timings'' of
     VDict timings \<Rightarrow> [(path_join run_dir ''timings.json'', json_file (timings_doc legacy_run_id run_uuid timings))]
   | _ \<Rightarrow> [])"

text \<open>The writes in order and the run directory; an exception leaves the writes made before it.\<close>

definition write_run_artefacts ::
  "string \<Rightarrow> string \<Rightarrow> nat \<Rightarrow> string \<Rightarrow> dict \<Rightarrow> (string \<times> string) list \<times> string res" where
  "write_run_artefacts now skill_root wiki_total run_uuid env =
     (let args_bag = ensure_dict (dget env ''args'');
          project_root = coerce_absolute_project_root (dget args_bag ''project_root'') skill_root;
          storage_root = resolve_storage_root project_root (str_of (dget args_bag ''storage_root''));
          legacy_run_id = legacy_run_id_for now run_uuid
      in case run_dir_path legacy_run_id storage_root (Some run_uuid) of
           Inl e \<Rightarrow> ([], Inl e)
         | Inr run_dir \<Rightarrow>
             (case build_report_payload wiki_total env of
                Inl e \<Rightarrow> ([], Inl e)
              | Inr payload \<Rightarrow>
                  (let report_json = (path_join run_dir ''report.json'', render_report_json (VDict payload)) in
                   case render_report_markdown (VDict payload) of
                     Inl e \<Rightarrow> ([report_json], Inl e)
                   | Inr md \<Rightarrow>
                       ([report_json, (path_join run_dir ''report.md'', md),
                         (path_join run_dir ''manifest.json'',
                            json_file (manifest_of legacy_run_id run_uuid env payload))]
                        @ timings_write run_dir legacy_run_id run_uuid env,
                        Inr run_dir))))"

text \<open>\<^verbatim>\<open>str(run_dir.relative_to(Path.cwd()))\<close>, with the absolute path where it is not below.\<close>

definition relative_to :: "string \<Rightarrow> string \<Rightarrow> string" where
  "relative_to cwd path =
     (if path = cwd then ''.''
      else if cwd = ''/'' \<and> prefix ''/'' path then drop 1 path
      else if prefix (cwd @ ''/'') path then drop (length cwd + 1) path else path)"

definition handle_write_run_directory ::
  "string \<Rightarrow> string \<Rightarrow> nat \<Rightarrow> string \<Rightarrow> string \<Rightarrow> dict \<Rightarrow> (string \<times> string) list \<times> dict res" where
  "handle_write_run_directory now skill_root wiki_total cwd run_uuid env =
     (let (writes, result) = write_run_artefacts now skill_root wiki_total run_uuid env in
      (writes, bindE result (\<lambda>run_dir. Inr [(''run_dir_path'', VStr (relative_to cwd run_dir))])))"

subsection \<open>The report can be written\<close>

text \<open>What an environment must hold for its report to be built and rendered.\<close>

definition renderable :: "dict \<Rightarrow> bool" where
  "renderable env \<longleftrightarrow>
     (\<exists>v\<in>set valid_verdicts. dget env ''verdict'' = VStr v)
     \<and> list_all (\<lambda>p. hashable (dget (ensure_dict (dget env ''methodology'')) p)) methodology_principles
     \<and> list_all (\<lambda>f. (\<exists>s\<in>set valid_severities. dget f ''severity'' = VStr s)
          \<and> (map_of f ''corroboration'' = None \<or> int_of (dget f ''corroboration'') \<noteq> None))
         (dicts_of (ensure_list (dget env ''findings'')))
     \<and> list_all is_str (report_stack env)
     \<and> list_all (\<lambda>t. \<not> truthy (dget t ''status'') \<or> is_str (dget t ''status'')) (dicts_of (ensure_list (dget env ''tool_results'')))
     \<and> list_all (\<lambda>r. list_all is_str (ensure_list (dget r ''reviewers''))) (dicts_of (ensure_list (dget env ''coverage_matrix'')))"

lemma build_report_succeeds:
  assumes "renderable env"
  shows "succeeds (build_report_payload wiki_total env)"
proof -
  have m: "succeeds (build_methodology env)"
    unfolding build_methodology_def Let_def
    using assms by (intro succeeds_mapE) (auto simp: renderable_def list_all_iff in_strings_def)
  have "succeeds (build_issue f i)" if "(i, f) \<in> set (numbered_dicts (ensure_list (dget env ''findings'')))" for i f
  proof -
    have "f \<in> set (dicts_of (ensure_list (dget env ''findings'')))"
      unfolding numbered_dicts_snd [symmetric] using that by force
    then obtain s where "s \<in> set valid_severities" "dget f ''severity'' = VStr s"
        "map_of f ''corroboration'' = None \<or> int_of (dget f ''corroboration'') \<noteq> None"
      using assms by (auto simp: renderable_def list_all_iff)
    then have sev: "in_strings valid_severities (dget f ''severity'') = Inr True"
      and corro: "\<exists>c. py_int (dget_or f ''corroboration'' d) = Inr c" if "d = VInt n" for d n
      using that by (auto simp: in_strings_def hashable_def is_list_def is_dict_def dget_or_def dget_def
          int_of_def py_int_def split: option.splits pyval.splits)
    from corro [OF refl] obtain c where
      "py_int (dget_or f ''corroboration'' (VInt (int (length (sorted_flagged f))))) = Inr c" by blast
    then show ?thesis using sev by (simp add: build_issue_def)
  qed
  then have i: "succeeds (mapE (\<lambda>(i, f). build_issue f i) (numbered_dicts (ensure_list (dget env ''findings''))))"
    by (intro succeeds_mapE) auto
  have v: "in_strings valid_verdicts (dget env ''verdict'') = Inr True"
    using assms by (auto simp: renderable_def in_strings_def hashable_def is_list_def is_dict_def)
  show ?thesis
    unfolding build_report_payload_def v by (simp, intro succeeds_bindE m i) simp
qed

lemma row_section_succeeds:
  assumes "\<And>d. VDict d \<in> set xs \<Longrightarrow> succeeds (row d)"
  shows "succeeds (row_section heading row (VList xs))"
  using assms by (auto simp: row_section_def set_dicts_of intro!: succeeds_bindE succeeds_mapE)

lemma upper_or_dash_succeeds: "\<not> truthy v \<or> is_str v \<Longrightarrow> succeeds (upper_or_dash v)"
  by (cases v) (auto simp: upper_or_dash_def py_or_def is_str_def)

lemma py_join_succeeds: "list_all is_str xs \<Longrightarrow> succeeds (py_join sep (VList xs))"
  by (simp add: py_join_def)

lemma py_or_empty [simp]: "py_or (VList xs) (VList []) = VList xs" "py_or (VDict d) (VDict []) = VDict d"
  by (simp_all add: py_or_def)

lemma severity_known: "dget iss ''severity'' = VStr s \<Longrightarrow> succeeds (in_strings S (dget iss ''severity''))"
  by (simp add: in_strings_def hashable_def is_list_def is_dict_def)

lemma render_issues_succeeds:
  assumes "\<And>d. d \<in> set ds \<Longrightarrow> \<exists>s. dget d ''severity'' = VStr s"
  shows "succeeds (render_issues (VList (map VDict ds)))" "succeeds (severity_counts (map VDict ds))"
  using assms unfolding render_issues_def severity_counts_def
  by (auto intro!: succeeds_bindE succeeds_mapE dest!: severity_known)

lemma rows_list: "rows f v = VList (map (VDict \<circ> f) (dicts_of (ensure_list v)))"
  by (simp add: rows_def)

lemma build_methodology_dict:
  assumes "build_methodology env = Inr m"
  shows "map fst m = methodology_principles"
proof -
  have "map fst ys = xs" if "mapE (\<lambda>p. bindE (g p) (\<lambda>ok. Inr (p, h p ok))) xs = Inr ys"
    for g :: "string \<Rightarrow> bool res" and h :: "string \<Rightarrow> bool \<Rightarrow> pyval" and xs ys
    using that by (induction xs arbitrary: ys) (auto simp: res_simps)
  from this [of _ _ _ m] assms show ?thesis unfolding build_methodology_def Let_def .
qed

text \<open>The payload of a renderable environment, as the renderer reads it.\<close>

lemma render_verdict_succeeds:
  assumes "renderable env"
    and "p = [(''verdict'', dget env ''verdict''), (''summary'', VDict (report_summary wiki_total env)),
          (''methodology'', VDict methodology), (''issues'', VList (map VDict issues))] @ r"
    and "\<And>d. d \<in> set issues \<Longrightarrow> \<exists>s. dget d ''severity'' = VStr s"
  shows "succeeds (render_verdict_table (VDict p))"
proof -
  have fields: "dget (report_summary wiki_total env) ''range'' = VDict [(''base'', dget env ''base_sha''), (''head'', dget env ''head_sha'')]"
    "dget (report_summary wiki_total env) ''stack'' = VList (report_stack env)"
    by (simp_all add: report_summary_def Let_def)
  have stack: "succeeds (py_join '', '' (VList (report_stack env)))"
    using assms(1) by (intro py_join_succeeds) (simp add: renderable_def)
  have range: "succeeds (range_text (VDict [(''base'', x), (''head'', y)]))" for x y
    by (simp add: range_text_def pget_def pget_or_def)
  show ?thesis
    unfolding render_verdict_table_def Let_def
    using render_issues_succeeds(2) [of issues, OF assms(3)] stack range
    by (intro succeeds_bindE) (auto simp: assms(2) pget_def pget_or_def fields simp flip: dget_def)
qed

lemma row_fields:
  "dget (build_tool_row t) ''status'' = dget t ''status''"
  "is_str (dget (build_specialist_row t) ''status'')"
  "dget (coverage_row t) ''reviewers'' = VList (ensure_list (dget t ''reviewers''))"
  by (simp_all add: build_tool_row_def build_specialist_row_def coverage_row_def Let_def is_str_def)

lemma tool_status_succeeds: "\<not> truthy (dget t ''status'') \<or> is_str (dget t ''status'') \<Longrightarrow> succeeds (tool_status t)"
  by (auto simp: tool_status_def intro: upper_or_dash_succeeds)

lemma render_part_succeeds:
  assumes "map_of p k = Some (VList xs)" "succeeds (f (VList xs))"
  shows "succeeds (render_part (VDict p) k f)"
  using assms by (simp add: render_part_def pget_def pget_or_def dget_or_def)

lemma render_report_succeeds:
  assumes "renderable env" "build_report_payload wiki_total env = Inr p"
  shows "succeeds (render_report_markdown (VDict p))"
proof -
  obtain methodology issues where m: "build_methodology env = Inr methodology"
    and iss: "mapE (\<lambda>(i, f). build_issue f i) (numbered_dicts (ensure_list (dget env ''findings''))) = Inr issues"
    and p: "p = [(''verdict'', dget env ''verdict''), (''summary'', VDict (report_summary wiki_total env)),
          (''methodology'', VDict methodology), (''issues'', VList (map VDict issues)),
          (''strengths'', VList (ensure_list (dget env ''strengths''))),
          (''tool_results'', rows build_tool_row (dget env ''tool_results'')),
          (''specialists'', rows build_specialist_row (dget env ''specialist_outputs'')),
          (''gates'', rows build_gate_row (dget env ''gates'')),
          (''coverage'', rows coverage_row (dget env ''coverage_matrix''))]"
    by (rule build_report_parts [OF assms(2)])
  have sev: "\<exists>s. dget d ''severity'' = VStr s" if "d \<in> set issues" for d
    using built_issue_severity [OF iss that] by blast
  have verdict: "succeeds (render_verdict_table (VDict p))"
    by (rule render_verdict_succeeds [OF assms(1) _ sev]) (auto simp: p)
  have principles: "succeeds (render_methodology (VDict p))"
    unfolding render_methodology_def
    by (intro succeeds_bindE succeeds_mapE) (auto simp: p pget_def pget_or_def dget_or_def)
  have strengths: "succeeds (render_part (VDict p) ''strengths'' render_strengths)"
    by (auto simp: render_part_def pget_def pget_or_def p dget_or_def render_strengths_def intro!: row_section_succeeds)
  have "succeeds (render_tool_results (rows build_tool_row v))"
    if "list_all (\<lambda>t. \<not> truthy (dget t ''status'') \<or> is_str (dget t ''status'')) (dicts_of (ensure_list v))" for v
    unfolding render_tool_results_def rows_list using that
    by (intro row_section_succeeds succeeds_bindE)
      (auto simp: list_all_iff row_fields intro!: tool_status_succeeds)
  note tools = this
  have "succeeds (render_specialists (rows build_specialist_row v))" for v
    unfolding render_specialists_def rows_list
    by (intro row_section_succeeds succeeds_bindE) (auto simp: row_fields intro!: upper_or_dash_succeeds)
  note specialists = this
  have "succeeds (render_gates v)" if "is_list v" for v
    using that by (cases v) (auto simp: render_gates_def is_list_def intro!: row_section_succeeds)
  note gates = this
  have "succeeds (render_coverage (rows coverage_row v))"
    if "list_all (\<lambda>r. list_all is_str (ensure_list (dget r ''reviewers''))) (dicts_of (ensure_list v))" for v
    unfolding render_coverage_def rows_list using that
    by (intro row_section_succeeds succeeds_bindE) (auto simp: list_all_iff row_fields intro!: py_join_succeeds)
  note coverage = this
  have issues: "succeeds (render_part (VDict p) ''issues'' render_issues)"
    by (rule render_part_succeeds) (use render_issues_succeeds(1) [OF sev] in \<open>simp_all add: p\<close>)
  have lists: "list_all (\<lambda>t. \<not> truthy (dget t ''status'') \<or> is_str (dget t ''status''))
        (dicts_of (ensure_list (dget env ''tool_results'')))"
      "list_all (\<lambda>r. list_all is_str (ensure_list (dget r ''reviewers''))) (dicts_of (ensure_list (dget env ''coverage_matrix'')))"
    using assms(1) by (simp_all add: renderable_def)
  have "succeeds (render_part (VDict p) ''tool_results'' render_tool_results)"
    "succeeds (render_part (VDict p) ''specialists'' render_specialists)"
    "succeeds (render_part (VDict p) ''gates'' render_gates)"
    "succeeds (render_part (VDict p) ''coverage'' render_coverage)"
    using tools [OF lists(1)] specialists gates coverage [OF lists(2)]
    by (auto intro!: render_part_succeeds simp: p rows_list is_list_def)
  then show ?thesis
    unfolding render_report_markdown_def
    by (intro succeeds_bindE verdict principles issues strengths) simp_all
qed

lemma run_dir_exists:
  assumes "length now = 15" "list_all is_digit (take 8 now)" "now ! 8 = CHR ''-''" "list_all is_digit (drop 9 now)"
  shows "\<exists>dir. run_dir_path (legacy_run_id_for now uuid) storage (Some uuid) = Inr dir"
  using run_id_ok_legacy [OF assms] by (simp add: run_dir_path_def shard_segments_def hex_digest_len_def Let_def)

lemma path_join_nonempty: "part \<noteq> [] \<Longrightarrow> path_join base_dir part \<noteq> []"
  by (simp add: path_join_def)

lemma run_dir_nonempty:
  assumes "run_dir_path run_id storage (Some key) = Inr dir"
  shows "dir \<noteq> []"
proof -
  let ?d = "sha256_hexdigest key"
  have "length (take 5 (drop 2 ?d)) = 5" by (simp add: digest_length)
  then have "take 5 (drop 2 ?d) \<noteq> []" by (metis list.size(3) zero_neq_numeral)
  moreover from assms obtain b where "dir = path_join b (take 5 (drop 2 ?d))"
    unfolding run_dir_path_def Let_def by (auto simp: shard_segments_def hex_digest_len_def split: if_splits)
  ultimately show ?thesis by (simp only: path_join_nonempty not_False_eq_True)
qed

subsection \<open>Property\<close>

text \<open>
  C18: a run that can be reported leaves its report, whole: with a verdict, severities,
  counters and names of the types the renderer expects, nothing is raised, and the report, its
  Markdown text and the manifest, in this order, are written to the directory that the run id and
  the storage root determine, the manifest last but for the timings and with the verdict of the
  run; with an unknown verdict nothing is written. The directory is the one of \<^verbatim>\<open>sharding.py\<close>, by date and by
  the hash of the run's id; Step 10 of \<^verbatim>\<open>docs/code-reviewer-design.md\<close> describes another path and another
  hash.
\<close>

theorem report_written:
  assumes "length now = 15" "list_all is_digit (take 8 now)" "now ! 8 = CHR ''-''" "list_all is_digit (drop 9 now)"
  shows "(renderable env \<longrightarrow> (\<exists>dir p md.
      build_report_payload wiki_total env = Inr p \<and> render_report_markdown (VDict p) = Inr md
      \<and> run_dir_path (legacy_run_id_for now uuid)
          (resolve_storage_root (coerce_absolute_project_root (dget (ensure_dict (dget env ''args'')) ''project_root'') skill_root)
            (str_of (dget (ensure_dict (dget env ''args'')) ''storage_root''))) (Some uuid) = Inr dir
      \<and> write_run_artefacts now skill_root wiki_total uuid env =
          ([(path_join dir ''report.json'', render_report_json (VDict p)), (path_join dir ''report.md'', md),
            (path_join dir ''manifest.json'', json_file (manifest_of (legacy_run_id_for now uuid) uuid env p))]
           @ timings_write dir (legacy_run_id_for now uuid) uuid env, Inr dir)
      \<and> dget (manifest_of (legacy_run_id_for now uuid) uuid env p) ''verdict'' = dget env ''verdict''))
    \<and> (hashable (dget env ''verdict'') \<and> \<not> (\<exists>v\<in>set valid_verdicts. dget env ''verdict'' = VStr v)
        \<longrightarrow> write_run_artefacts now skill_root wiki_total uuid env = ([], Inl ValueError))"
proof -
  let ?storage = "resolve_storage_root (coerce_absolute_project_root (dget (ensure_dict (dget env ''args'')) ''project_root'') skill_root)
            (str_of (dget (ensure_dict (dget env ''args'')) ''storage_root''))"
  obtain dir where dir: "run_dir_path (legacy_run_id_for now uuid) ?storage (Some uuid) = Inr dir"
    using run_dir_exists [OF assms] by blast
  have "\<exists>p md. build_report_payload wiki_total env = Inr p \<and> render_report_markdown (VDict p) = Inr md
      \<and> dget p ''verdict'' = dget env ''verdict''" if r: "renderable env"
  proof -
    obtain p where p: "build_report_payload wiki_total env = Inr p"
      using build_report_succeeds [OF r] by (rule succeedsE)
    moreover obtain md where "render_report_markdown (VDict p) = Inr md"
      using render_report_succeeds [OF r p] by (rule succeedsE)
    moreover have "dget p ''verdict'' = dget env ''verdict''" by (rule build_report_parts [OF p]) simp
    ultimately show ?thesis by blast
  qed
  moreover have "build_report_payload wiki_total env = Inl ValueError"
    if "hashable (dget env ''verdict'')" "\<not> (\<exists>v\<in>set valid_verdicts. dget env ''verdict'' = VStr v)"
    using that by (simp add: build_report_payload_def in_strings_def)
  ultimately show ?thesis
    using dir by (fastforce simp: write_run_artefacts_def Let_def manifest_of_def)
qed

lemma reported_env_renderable: "renderable reported_env"
  by (simp add: renderable_def reported_env_def valid_verdicts_def valid_severities_def hashable_def is_list_def
      is_dict_def ensure_dict_def ensure_list_def report_stack_def Let_def list_all_iff)

theorem report_written_witness:
  "\<exists>writes dir. write_run_artefacts ''20250131-120000'' ''/skill'' 476 ''run'' reported_env = (writes, Inr dir)
     \<and> length writes = 3"
proof -
  have "renderable reported_env" by (rule reported_env_renderable)
  moreover have "dget reported_env ''timings'' = VNone" by (simp add: reported_env_def)
  ultimately show ?thesis
    using report_written [of "''20250131-120000''" reported_env 476 "''run''" "''/skill''"]
    by (auto simp: is_digit_def timings_write_def)
qed

end
