(* ===== verification/JsonParse.thy ===== *)
theory JsonParse
  imports Json
begin

section \<open>Reading JSON\<close>

text \<open>
  \<^verbatim>\<open>json.loads\<close> on the text of a model's answer or of a report: white space, the literals with
  \<^verbatim>\<open>NaN\<close> and the infinities that Python accepts, numbers, strings with their escapes and surrogate
  pairs, arrays and objects, where a repeated key keeps its place and takes the last value. \<open>None\<close>
  is \<^verbatim>\<open>JSONDecodeError\<close>. The parser has fuel; \<open>json_fuel_irrelevant\<close> shows that twice the length of the text
  is enough.
\<close>

subsection \<open>Strings\<close>

text \<open>The UTF-8 bytes of a code point; a lone surrogate has the three bytes of its number.\<close>

definition utf8_encode :: "nat \<Rightarrow> string" where
  "utf8_encode n =
     (if n < 128 then [char_of n]
      else if n < 2048 then [char_of (192 + n div 64), char_of (128 + n mod 64)]
      else if n < 65536 then [char_of (224 + n div 4096), char_of (128 + n div 64 mod 64), char_of (128 + n mod 64)]
      else [char_of (240 + n div 262144), char_of (128 + n div 4096 mod 64), char_of (128 + n div 64 mod 64),
            char_of (128 + n mod 64)])"

definition hex_val :: "char \<Rightarrow> nat option" where
  "hex_val c = (if is_digit c then Some (digit_val c)
     else if CHR ''a'' \<le> c \<and> c \<le> CHR ''f'' then Some (of_char c - 87)
     else if CHR ''A'' \<le> c \<and> c \<le> CHR ''F'' then Some (of_char c - 55)
     else None)"

definition read_hex4 :: "string \<Rightarrow> (nat \<times> string) option" where
  "read_hex4 s = (case s of
     a # b # c # d # r \<Rightarrow>
       (case (hex_val a, hex_val b, hex_val c, hex_val d) of
          (Some w, Some x, Some y, Some z) \<Rightarrow> Some (4096 * w + 256 * x + 16 * y + z, r)
        | _ \<Rightarrow> None)
   | _ \<Rightarrow> None)"

definition high_surrogate :: "nat \<Rightarrow> bool" where
  "high_surrogate n \<longleftrightarrow> 55296 \<le> n \<and> n \<le> 56319"

definition low_surrogate :: "nat \<Rightarrow> bool" where
  "low_surrogate n \<longleftrightarrow> 56320 \<le> n \<and> n \<le> 57343"

text \<open>The code point after \<^verbatim>\<open>\u\<close>: two escapes that make a surrogate pair are one point.\<close>

definition read_point :: "string \<Rightarrow> (nat \<times> string) option" where
  "read_point s = (case read_hex4 s of None \<Rightarrow> None
     | Some (hi, r) \<Rightarrow>
         (case r of
            b # u # r' \<Rightarrow>
              (if high_surrogate hi \<and> b = CHR 0x5C \<and> u = CHR ''u''
               then (case read_hex4 r' of
                       Some (lo, r'') \<Rightarrow>
                         if low_surrogate lo then Some (65536 + (hi - 55296) * 1024 + (lo - 56320), r'')
                         else Some (hi, r)
                     | None \<Rightarrow> Some (hi, r))
               else Some (hi, r))
          | _ \<Rightarrow> Some (hi, r)))"

definition json_escape :: "char \<Rightarrow> string option" where
  "json_escape c =
     (if c = CHR 0x22 \<or> c = CHR 0x5C \<or> c = CHR ''/'' then Some [c]
      else if c = CHR ''b'' then Some [CHR 0x08] else if c = CHR ''f'' then Some [CHR 0x0C]
      else if c = CHR ''n'' then Some [CHR 0x0A] else if c = CHR ''r'' then Some [CHR 0x0D]
      else if c = CHR ''t'' then Some [CHR 0x09] else None)"

lemma read_hex4_shorter: "read_hex4 s = Some (n, r) \<Longrightarrow> length r < length s"
  by (auto simp: read_hex4_def split: list.splits option.splits)

lemma read_point_shorter: "read_point s = Some (n, r) \<Longrightarrow> length r < length s"
  by (auto simp: read_point_def dest!: read_hex4_shorter split: list.splits option.splits if_splits)

text \<open>The rest of a string literal after its opening quote.\<close>

function json_chars :: "string \<Rightarrow> (string \<times> string) option" where
  "json_chars s = (case s of
     [] \<Rightarrow> None
   | c # r \<Rightarrow>
       if c = CHR 0x22 then Some ([], r)
       else if c = CHR 0x5C then
         (case r of
            [] \<Rightarrow> None
          | e # r' \<Rightarrow>
              if e = CHR ''u'' then
                (case read_point r' of None \<Rightarrow> None
                 | Some (n, r'') \<Rightarrow>
                     (case json_chars r'' of None \<Rightarrow> None | Some (t, z) \<Rightarrow> Some (utf8_encode n @ t, z)))
              else (case json_escape e of None \<Rightarrow> None
                 | Some x \<Rightarrow> (case json_chars r' of None \<Rightarrow> None | Some (t, z) \<Rightarrow> Some (x @ t, z))))
       else if of_char c < (32 :: nat) then None
       else (case json_chars r of None \<Rightarrow> None | Some (t, z) \<Rightarrow> Some (c # t, z)))"
  by pat_completeness auto
termination by (relation "measure length") (auto dest: read_point_shorter)

declare json_chars.simps [simp del]

subsection \<open>Numbers\<close>

definition json_frac :: "string \<Rightarrow> string \<times> string" where
  "json_frac s = (case s of c # r \<Rightarrow>
       if c = CHR ''.'' \<and> takeWhile is_digit r \<noteq> [] then (takeWhile is_digit r, dropWhile is_digit r) else ([], s)
     | [] \<Rightarrow> ([], s))"

definition json_exp :: "string \<Rightarrow> int option \<times> string" where
  "json_exp s = (case s of c # r \<Rightarrow>
       if c = CHR ''e'' \<or> c = CHR ''E''
       then (let (neg, t) = take_sign r; ds = takeWhile is_digit t in
             if ds = [] then (None, s)
             else (Some (if neg then - int (read_nat ds) else int (read_nat ds)), dropWhile is_digit t))
       else (None, s)
     | [] \<Rightarrow> (None, s))"

definition json_digits :: "string \<Rightarrow> (string \<times> string) option" where
  "json_digits s = (case s of [] \<Rightarrow> None
     | c # r \<Rightarrow> if c = CHR ''0'' then Some ([c], r)
        else if is_digit c then Some (takeWhile is_digit s, dropWhile is_digit s) else None)"

definition json_unsigned :: "bool \<Rightarrow> string \<Rightarrow> (pyval \<times> string) option" where
  "json_unsigned neg t = (case json_digits t of None \<Rightarrow> None
     | Some (ip, r) \<Rightarrow>
         (let (fp, r') = json_frac r; (ex, z) = json_exp r' in
          if fp = [] \<and> ex = None
          then Some (VInt (if neg then - int (read_nat ip) else int (read_nat ip)), z)
          else (let q = scale10 (read_nat (ip @ fp)) ((case ex of None \<Rightarrow> 0 | Some e \<Rightarrow> e) - int (length fp))
                in Some (VFloat (float_of_rat (if neg then - q else q)), z))))"

definition json_number :: "string \<Rightarrow> (pyval \<times> string) option" where
  "json_number s = (case s of [] \<Rightarrow> None
     | c # r \<Rightarrow> if c = CHR ''-'' then json_unsigned True r else json_unsigned False s)"

definition json_literal :: "string \<Rightarrow> (pyval \<times> string) option" where
  "json_literal s =
     (if prefix ''null'' s then Some (VNone, drop 4 s)
      else if prefix ''true'' s then Some (VBool True, drop 4 s)
      else if prefix ''false'' s then Some (VBool False, drop 5 s)
      else if prefix ''NaN'' s then Some (VFloat FNaN, drop 3 s)
      else if prefix ''Infinity'' s then Some (VFloat FPosInf, drop 8 s)
      else if prefix ''-Infinity'' s then Some (VFloat FNegInf, drop 9 s)
      else json_number s)"

subsection \<open>Values\<close>

definition json_ws :: "char \<Rightarrow> bool" where
  "json_ws c \<longleftrightarrow> c = CHR '' '' \<or> c = CHR 0x09 \<or> c = CHR 0x0A \<or> c = CHR 0x0D"

definition json_skip :: "string \<Rightarrow> string" where
  "json_skip s = dropWhile json_ws s"

fun json_value :: "nat \<Rightarrow> string \<Rightarrow> (pyval \<times> string) option"
  and json_elems :: "nat \<Rightarrow> pyval list \<Rightarrow> string \<Rightarrow> (pyval \<times> string) option"
  and json_members :: "nat \<Rightarrow> dict \<Rightarrow> string \<Rightarrow> (pyval \<times> string) option" where
  "json_value 0 s = None"
| "json_value (Suc n) s = (case s of
     [] \<Rightarrow> None
   | c # r \<Rightarrow>
       if c = CHR 0x22 then (case json_chars r of None \<Rightarrow> None | Some (t, z) \<Rightarrow> Some (VStr t, z))
       else if c = CHR ''['' then
         (case json_skip r of [] \<Rightarrow> None
          | d # z \<Rightarrow> if d = CHR '']'' then Some (VList [], z) else json_elems n [] (d # z))
       else if c = CHR ''{'' then
         (case json_skip r of [] \<Rightarrow> None
          | d # z \<Rightarrow> if d = CHR ''}'' then Some (VDict [], z) else json_members n [] (d # z))
       else json_literal s)"
| "json_elems 0 acc s = None"
| "json_elems (Suc n) acc s = (case json_value n s of None \<Rightarrow> None
     | Some (v, r) \<Rightarrow> (case json_skip r of [] \<Rightarrow> None
         | d # z \<Rightarrow> if d = CHR '']'' then Some (VList (acc @ [v]), z)
            else if d = CHR '','' then json_elems n (acc @ [v]) (json_skip z)
            else None))"
| "json_members 0 acc s = None"
| "json_members (Suc n) acc s = (case s of
     [] \<Rightarrow> None
   | c # r \<Rightarrow>
       if c \<noteq> CHR 0x22 then None
       else (case json_chars r of None \<Rightarrow> None
         | Some (k, r1) \<Rightarrow> (case json_skip r1 of [] \<Rightarrow> None
             | d # r2 \<Rightarrow>
                 if d \<noteq> CHR '':'' then None
                 else (case json_value n (json_skip r2) of None \<Rightarrow> None
                   | Some (v, r3) \<Rightarrow> (case json_skip r3 of [] \<Rightarrow> None
                       | e # z \<Rightarrow>
                           if e = CHR ''}'' then Some (VDict (dset k v acc), z)
                           else if e = CHR '','' then json_members n (dset k v acc) (json_skip z)
                           else None)))))"

definition json_loads :: "string \<Rightarrow> pyval option" where
  "json_loads s = (case json_value (Suc (2 * length s)) (json_skip s) of
     Some (v, r) \<Rightarrow> if json_skip r = [] then Some v else None
   | None \<Rightarrow> None)"

subsection \<open>Enough fuel\<close>

lemma json_chars_shorter: "json_chars s = Some (t, r) \<Longrightarrow> length r < length s"
proof (induction "length s" arbitrary: s t r rule: less_induct)
  case less
  have sub: "length z < length s" if "json_chars w = Some (u, z)" "length w < length s" for w u z
    using less.hyps [OF that(2) that(1)] that(2) by simp
  show ?case
    using less.prems
    by (subst (asm) json_chars.simps)
      (auto split: list.splits if_splits option.splits dest!: read_point_shorter dest: sub, drule sub, auto)
qed

lemma json_skip_le: "length (json_skip s) \<le> length s"
  by (simp add: json_skip_def length_dropWhile_le)

lemma json_digits_shorter: "json_digits s = Some (ip, r) \<Longrightarrow> length r < length s"
  by (auto simp: json_digits_def less_Suc_eq_le length_dropWhile_le split: list.splits if_splits)

lemma json_frac_le: "json_frac s = (fp, r) \<Longrightarrow> length r \<le> length s"
  using length_dropWhile_le [of is_digit "tl s"] by (auto simp: json_frac_def split: list.splits if_splits)

lemma take_sign_le: "length (snd (take_sign s)) \<le> length s"
  by (auto simp: take_sign_def split: list.splits)

lemma json_exp_le: "json_exp s = (e, r) \<Longrightarrow> length r \<le> length s"
  using take_sign_le [of "tl s"] length_dropWhile_le [of is_digit "snd (take_sign (tl s))"]
  by (auto simp: json_exp_def Let_def split: list.splits if_splits prod.splits)

lemma json_unsigned_shorter: "json_unsigned neg s = Some (v, r) \<Longrightarrow> length r < length s"
  by (auto simp: json_unsigned_def Let_def split: option.splits prod.splits if_splits
      dest!: json_digits_shorter json_frac_le json_exp_le)

lemma json_number_shorter: "json_number s = Some (v, r) \<Longrightarrow> length r < length s"
  by (auto simp: json_number_def split: list.splits if_splits dest!: json_unsigned_shorter)

lemma json_literal_shorter: "json_literal s = Some (v, r) \<Longrightarrow> length r < length s"
  by (auto simp: json_literal_def prefix_def split: if_splits dest: json_number_shorter)

lemma json_skip_tail: "json_skip w = d # z \<Longrightarrow> length z < length w"
  using json_skip_le [of w] by simp

lemma json_value_shorter:
  "(\<forall>s v r. json_value n s = Some (v, r) \<longrightarrow> length r < length s)
   \<and> (\<forall>acc s v r. json_elems n acc s = Some (v, r) \<longrightarrow> length r < length s)
   \<and> (\<forall>d s v r. json_members n d s = Some (v, r) \<longrightarrow> length r < length s)"
proof (induction n)
  case 0
  then show ?case by simp
next
  case (Suc n)
  have V: "length r < length s" if "json_value n s = Some (v, r)" for s v r using Suc that by blast
  have E: "length r < k" if "json_elems n acc s = Some (v, r)" "length s \<le> k" for acc s v r k
    using Suc that by (meson less_le_trans)
  have M: "length r < k" if "json_members n d s = Some (v, r)" "length s \<le> k" for d s v r k
    using Suc that by (meson less_le_trans)
  have "length r < length s" if "json_value (Suc n) s = Some (v, r)" for s v r
    using that
    by (auto split: list.splits if_splits option.splits dest!: json_chars_shorter json_literal_shorter json_skip_tail
        dest: E M intro: E M)
  moreover have "length r < length s" if "json_elems (Suc n) acc s = Some (v, r)" for acc s v r
  proof -
    from that obtain w z d z' where w: "json_value n s = Some (w, z)" and z: "json_skip z = d # z'"
      and rest: "r = z' \<or> json_elems n (acc @ [w]) (json_skip z') = Some (v, r)"
      by (auto split: option.splits list.splits if_splits)
    have "length r \<le> length z'" using rest E [OF _ json_skip_le] by (auto intro: less_imp_le)
    with V [OF w] json_skip_tail [OF z] show ?thesis by simp
  qed
  moreover have "length r < length s" if "json_members (Suc n) d s = Some (v, r)" for d s v r
  proof -
    from that obtain c s' k r1 c' r2 w r3 e z where s: "s = c # s'" and k: "json_chars s' = Some (k, r1)"
      and r2: "json_skip r1 = c' # r2" and w: "json_value n (json_skip r2) = Some (w, r3)"
      and z: "json_skip r3 = e # z" and rest: "r = z \<or> json_members n (dset k w d) (json_skip z) = Some (v, r)"
      by (auto split: option.splits list.splits if_splits)
    have "length r \<le> length z" using rest M [OF _ json_skip_le] by (auto intro: less_imp_le)
    moreover have "length z < length r3" by (rule json_skip_tail [OF z])
    moreover have "length r3 < length r2" using V [OF w] json_skip_le [of r2] by simp
    ultimately show ?thesis using json_skip_tail [OF r2] json_chars_shorter [OF k] s by simp
  qed
  ultimately show ?case by blast
qed

lemmas json_value_rest = json_value_shorter [THEN conjunct1, rule_format]

text \<open>Any two amounts of fuel beyond twice the length of the text give the same result.\<close>

lemma json_fuel_irrelevant:
  "(\<forall>m s. 2 * length s < n \<and> 2 * length s < m \<longrightarrow> json_value n s = json_value m s)
   \<and> (\<forall>m acc s. 2 * length s + 1 < n \<and> 2 * length s + 1 < m \<longrightarrow> json_elems n acc s = json_elems m acc s)
   \<and> (\<forall>m d s. 2 * length s + 1 < n \<and> 2 * length s + 1 < m \<longrightarrow> json_members n d s = json_members m d s)"
proof (induction n)
  case 0
  then show ?case by simp
next
  case (Suc n)
  have V: "json_value n s = json_value m s" if "2 * length s < n" "2 * length s < m" for m s
    using Suc that by blast
  have E: "json_elems n acc s = json_elems m acc s" if "2 * length s + 1 < n" "2 * length s + 1 < m" for m acc s
    using Suc that by blast
  have M: "json_members n d s = json_members m d s" if "2 * length s + 1 < n" "2 * length s + 1 < m" for m d s
    using Suc that by blast
  have "json_value (Suc n) s = json_value (Suc m) s" if "2 * length s < Suc n" "2 * length s < Suc m" for m s
  proof -
    have "json_elems n [] (d # z) = json_elems m [] (d # z)" "json_members n [] (d # z) = json_members m [] (d # z)"
      if "s = c # r" "json_skip r = d # z" for c r d z
      using that \<open>2 * length s < Suc n\<close> \<open>2 * length s < Suc m\<close> json_skip_tail [OF that(2)] by (auto intro!: E M)
    then show ?thesis by (auto split: list.split)
  qed
  moreover have "json_elems (Suc n) acc s = json_elems (Suc m) acc s"
    if len: "2 * length s + 1 < Suc n" "2 * length s + 1 < Suc m" for m acc s
  proof -
    have v: "json_value n s = json_value m s" using len by (intro V) simp_all
    have "json_elems n a (json_skip z') = json_elems m a (json_skip z')"
      if "json_value m s = Some (w, z)" "json_skip z = d # z'" for w z d z' a
      using json_value_rest [OF that(1)] json_skip_tail [OF that(2)] json_skip_le [of z'] len by (intro E) simp_all
    with v show ?thesis by (auto split: list.split option.split)
  qed
  moreover have "json_members (Suc n) d s = json_members (Suc m) d s"
    if len: "2 * length s + 1 < Suc n" "2 * length s + 1 < Suc m" for m d s
  proof -
    have r2: "length (json_skip r2) < length s" if "s = c # r" "json_chars r = Some (k, r1)" "json_skip r1 = e # r2"
      for c r k r1 e r2
      using that json_chars_shorter [OF that(2)] json_skip_tail [OF that(3)] json_skip_le [of r2] by simp
    have v: "json_value n (json_skip r2) = json_value m (json_skip r2)"
      if "s = c # r" "json_chars r = Some (k, r1)" "json_skip r1 = e # r2" for c r k r1 e r2
      using r2 [OF that] len by (intro V) simp_all
    have "json_members n a (json_skip z') = json_members m a (json_skip z')"
      if "s = c # r" "json_chars r = Some (k, r1)" "json_skip r1 = e # r2"
        "json_value m (json_skip r2) = Some (w, z)" "json_skip z = g # z'" for c r k r1 e r2 w z g z' a
      using r2 [OF that(1-3)] json_value_rest [OF that(4)] json_skip_tail [OF that(5)] json_skip_le [of z'] len
      by (intro M) simp_all
    with v show ?thesis by (auto split: list.split option.split)
  qed
  ultimately have "(\<forall>s. 2 * length s < Suc n \<and> 2 * length s < m \<longrightarrow> json_value (Suc n) s = json_value m s)
   \<and> (\<forall>acc s. 2 * length s + 1 < Suc n \<and> 2 * length s + 1 < m \<longrightarrow> json_elems (Suc n) acc s = json_elems m acc s)
   \<and> (\<forall>d s. 2 * length s + 1 < Suc n \<and> 2 * length s + 1 < m \<longrightarrow> json_members (Suc n) d s = json_members m d s)" for m
    by (cases m) (simp_all del: json_value.simps json_elems.simps json_members.simps)
  then show ?case by blast
qed

lemma json_loads_fuel:
  assumes "2 * length s < n"
  shows "json_loads s = (case json_value n (json_skip s) of
     Some (v, r) \<Rightarrow> if json_skip r = [] then Some v else None
   | None \<Rightarrow> None)"
proof -
  have "json_value (Suc (2 * length s)) (json_skip s) = json_value n (json_skip s)"
    using json_fuel_irrelevant assms json_skip_le [of s] by (metis (no_types, opaque_lifting) le_less_trans lessI mult_le_mono2)
  then show ?thesis by (simp add: json_loads_def)
qed

end
