(* ===== verification/JsonRoundtrip.thy ===== *)
theory JsonRoundtrip
  imports JsonParse
begin

section \<open>JSON round trip\<close>

text \<open>
  What the printer of theory \<open>Json\<close> writes, the reader of theory \<open>JsonParse\<close> reads back:
  \<open>reads_back_at\<close> for a value at any place of a text, \<open>json_loads_printed\<close> for a whole file. The value
  has valid UTF-8 strings, dictionaries without repeated keys and floats that are written
  exactly (\<open>json_ok\<close>).
\<close>

subsection \<open>The printed text is read back\<close>

lemma hex_val_hex_digit: "d < 16 \<Longrightarrow> hex_val (hex_digit d) = Some d"
proof -
  have "\<forall>d\<in>set [0..<16]. hex_val (hex_digit d) = Some d" by code_simp
  then show "d < 16 \<Longrightarrow> hex_val (hex_digit d) = Some d" by simp
qed

lemma read_hex4_hex4:
  assumes "n < 65536"
  shows "read_hex4 (hex4 n @ s) = Some (n, s)"
proof -
  have "4096 * (n div 4096 mod 16) + 256 * (n div 256 mod 16) + 16 * (n div 16 mod 16) + n mod 16 = n"
  proof -
    have d: "n div 256 = n div 16 div 16" "n div 4096 = n div 16 div 16 div 16"
      by (simp_all flip: div_mult2_eq)
    have "n = 16 * (n div 16) + n mod 16" "n div 16 = 16 * (n div 16 div 16) + n div 16 mod 16"
      "n div 16 div 16 = 16 * (n div 16 div 16 div 16) + n div 16 div 16 mod 16" by simp_all
    moreover have "n div 16 div 16 div 16 mod 16 = n div 16 div 16 div 16"
      using assms by (intro mod_less) (simp flip: div_mult2_eq)
    ultimately show ?thesis unfolding d by linarith
  qed
  moreover have "n div 4096 < 16" using assms by (simp add: less_mult_imp_div_less)
  ultimately show ?thesis by (simp add: read_hex4_def hex4_def hex_val_hex_digit)
qed

definition scalar :: "nat \<Rightarrow> bool" where
  "scalar n \<longleftrightarrow> n < 1114112 \<and> \<not> (55296 \<le> n \<and> n \<le> 57343)"

lemma escape_chars:
  "char_of (34 :: nat) = CHR 0x22" "char_of (92 :: nat) = CHR 0x5C" "char_of (10 :: nat) = CHR 0x0A"
  "char_of (13 :: nat) = CHR 0x0D" "char_of (9 :: nat) = CHR 0x09" "char_of (12 :: nat) = CHR 0x0C"
  "char_of (8 :: nat) = CHR 0x08"
  by code_simp+

lemma json_chars_point:
  assumes "scalar n"
  shows "json_chars (json_point n @ s) =
    (case json_chars s of None \<Rightarrow> None | Some (t, z) \<Rightarrow> Some (utf8_encode n @ t, z))"
proof -
  consider (esc) "n = 34 \<or> n = 92 \<or> n = 10 \<or> n = 13 \<or> n = 9 \<or> n = 12 \<or> n = 8"
    | (plain) "32 \<le> n" "n \<le> 126" "n \<noteq> 34" "n \<noteq> 92"
    | (bmp) "n \<notin> {34, 92, 10, 13, 9, 12, 8}" "\<not> (32 \<le> n \<and> n \<le> 126)" "n < 65536"
    | (astral) "65536 \<le> n"
    by fastforce
  then show ?thesis
  proof cases
    case esc
    then show ?thesis
      by (elim disjE) (simp_all add: json_point_def json_chars.simps [of "_ # _"] json_escape_def utf8_encode_def escape_chars
          split: option.split)
  next
    case plain
    have "of_char (char_of n :: char) = n" using plain by simp
    moreover have "of_char CHR 0x22 = (34 :: nat)" "of_char CHR 0x5C = (92 :: nat)" by code_simp+
    ultimately have "char_of n \<noteq> CHR 0x22" "char_of n \<noteq> CHR 0x5C" "\<not> of_char (char_of n :: char) < (32::nat)"
      using plain by (metis, metis, simp)
    with plain show ?thesis
      by (simp add: json_point_def json_chars.simps [of "_ # _"] utf8_encode_def split: option.split)
  next
    case bmp
    then have "read_point (hex4 n @ s) = Some (n, s)"
      using assms by (auto simp: read_point_def read_hex4_hex4 high_surrogate_def scalar_def split: list.split)
    moreover have "json_point n = [CHR 0x5C, CHR ''u''] @ hex4 n" using bmp by (auto simp: json_point_def)
    ultimately show ?thesis by (simp add: json_chars.simps [of "_ # _"])
  next
    case astral
    define m where "m = n - 65536"
    define hi where "hi = 55296 + m div 1024"
    define lo where "lo = 56320 + m mod 1024"
    have n: "n = 65536 + m" using astral by (simp add: m_def)
    have "m div 1024 < 1024" using assms n by (simp add: scalar_def less_mult_imp_div_less)
    then have hi: "hi < 65536" "high_surrogate hi" by (simp_all add: hi_def high_surrogate_def)
    have "m mod 1024 < 1024" by simp
    then have lo: "lo < 65536" "low_surrogate lo" by (simp_all add: lo_def low_surrogate_def)
    have "m div 1024 * 1024 + m mod 1024 = m" by simp
    then have pair: "65536 + (hi - 55296) * 1024 + (lo - 56320) = n"
      unfolding hi_def lo_def n add_diff_cancel_left' by simp
    have "read_point (hex4 hi @ CHR 0x5C # CHR ''u'' # hex4 lo @ s) = Some (n, s)"
      using pair by (simp add: read_point_def read_hex4_hex4 hi lo)
    moreover have "json_point n = [CHR 0x5C, CHR ''u''] @ hex4 hi @ [CHR 0x5C, CHR ''u''] @ hex4 lo"
      using astral by (simp add: json_point_def hi_def lo_def m_def)
    ultimately show ?thesis by (simp add: json_chars.simps [of "_ # _"])
  qed
qed

text \<open>Valid UTF-8: the bytes of code points that are not surrogates.\<close>

definition text_ok :: "string \<Rightarrow> bool" where
  "text_ok s \<longleftrightarrow> (let ps = utf8_points (map of_char s) in
     list_all scalar ps \<and> concat (map utf8_encode ps) = s)"

lemma json_chars_points:
  "list_all scalar ps \<Longrightarrow>
     json_chars (concat (map json_point ps) @ CHR 0x22 # r) = Some (concat (map utf8_encode ps), r)"
proof (induction ps)
  case Nil
  then show ?case by (simp add: json_chars.simps [of "_ # _"])
next
  case (Cons n ps)
  then show ?case by (simp add: json_chars_point)
qed

lemma json_chars_string:
  "text_ok s \<Longrightarrow> json_string s = CHR 0x22 # t \<Longrightarrow> json_chars (t @ r) = Some (s, r)"
  using json_chars_points by (auto simp: json_string_def text_ok_def Let_def)

text \<open>What may follow a number.\<close>

definition num_end :: "string \<Rightarrow> bool" where
  "num_end r \<longleftrightarrow> (case r of [] \<Rightarrow> True
     | c # _ \<Rightarrow> \<not> is_digit c \<and> c \<noteq> CHR ''.'' \<and> c \<noteq> CHR ''e'' \<and> c \<noteq> CHR ''E'')"

text \<open>A run of digits as a JSON number writes it: no zero in front of another digit.\<close>

definition int_part :: "string \<Rightarrow> bool" where
  "int_part ds \<longleftrightarrow> ds = ''0'' \<or> (ds \<noteq> [] \<and> hd ds \<noteq> CHR ''0'' \<and> list_all is_digit ds)"

lemma span_digits:
  "list_all is_digit ds \<Longrightarrow> r = [] \<or> \<not> is_digit (hd r) \<Longrightarrow>
     takeWhile is_digit (ds @ r) = ds \<and> dropWhile is_digit (ds @ r) = r"
  by (cases r) (auto simp: list_all_iff takeWhile_append2 dropWhile_append2)

lemma json_digits_int_part:
  assumes "int_part ds" "r = [] \<or> \<not> is_digit (hd r)"
  shows "json_digits (ds @ r) = Some (ds, r)"
proof (cases "ds = ''0''")
  case True
  then show ?thesis by (simp add: json_digits_def)
next
  case False
  with assms(1) have "list_all is_digit ds" "ds \<noteq> []" "hd ds \<noteq> CHR ''0''" by (auto simp: int_part_def)
  with span_digits [OF this(1) assms(2)] show ?thesis
    by (cases ds) (auto simp: json_digits_def)
qed

lemma show_nat_nonempty [simp]: "show_nat n \<noteq> []"
  by (simp add: show_nat.simps [of n])

lemma digit_char_zero: "d < 10 \<Longrightarrow> digit_char d = CHR ''0'' \<longleftrightarrow> d = 0"
proof -
  have "\<forall>d\<in>set [0..<10]. (digit_char d = CHR ''0'') = (d = 0)" by code_simp
  then show "d < 10 \<Longrightarrow> digit_char d = CHR ''0'' \<longleftrightarrow> d = 0" by simp
qed

lemma show_nat_hd: "n \<noteq> 0 \<Longrightarrow> hd (show_nat n) \<noteq> CHR ''0''"
proof (induction n rule: show_nat.induct)
  case (1 n)
  then show ?case
    by (cases "n < 10") (auto simp: show_nat.simps [of n] digit_char_zero hd_append)
qed

lemma show_nat_0: "show_nat 0 = ''0''"
  by code_simp

lemma show_nat_int_part: "int_part (show_nat n)"
  using show_nat_hd [of n] show_nat_digits [of _ n] by (cases "n = 0") (auto simp: int_part_def show_nat_0 list_all_iff)

lemma int_part_hd: "int_part ds \<Longrightarrow> ds \<noteq> [] \<and> is_digit (hd ds)"
  by (cases ds) (auto simp: int_part_def is_digit_def)

lemma num_end_frac: "num_end r \<Longrightarrow> json_frac r = ([], r)"
  by (auto simp: json_frac_def num_end_def split: list.splits)

lemma num_end_exp: "num_end r \<Longrightarrow> json_exp r = (None, r)"
  by (auto simp: json_exp_def num_end_def split: list.splits)

lemma num_end_digit: "num_end r \<Longrightarrow> r = [] \<or> \<not> is_digit (hd r)"
  by (cases r) (auto simp: num_end_def)

lemma json_literal_number:
  assumes "int_part ip"
  shows "json_literal ((if neg then ''-'' else []) @ ip @ r) = json_unsigned neg (ip @ r)"
proof -
  obtain c ds where ip: "ip = c # ds" using int_part_hd [OF assms] by (cases ip) auto
  with int_part_hd [OF assms] have "is_digit c" by simp
  then have "CHR ''n'' \<noteq> c" "CHR ''t'' \<noteq> c" "CHR ''f'' \<noteq> c" "CHR ''N'' \<noteq> c" "CHR ''I'' \<noteq> c" "c \<noteq> CHR ''-''"
    by (auto simp: is_digit_def)
  then show ?thesis by (simp add: json_literal_def json_number_def ip)
qed

lemma json_literal_int:
  assumes "num_end r"
  shows "json_literal (show_int i @ r) = Some (VInt i, r)"
proof -
  have s: "show_int i @ r = (if i < 0 then ''-'' else []) @ show_nat (nat \<bar>i\<bar>) @ r"
    by (simp add: show_int_def)
  show ?thesis
    unfolding s json_literal_number [OF show_nat_int_part] json_unsigned_def
      json_digits_int_part [OF show_nat_int_part num_end_digit [OF assms]]
    by (simp add: num_end_frac num_end_exp assms read_show_nat)
qed

text \<open>
  The floats that are written exactly: those with a decimal expansion of at most 340 places (all
  that the model meets; \<open>decimal_places\<close> looks no further).
\<close>

definition float_ok :: "pyfloat \<Rightarrow> bool" where
  "float_ok f \<longleftrightarrow> (case f of Fin q \<Rightarrow>
       (let k = decimal_places \<bar>q\<bar> in of_int \<lfloor>\<bar>q\<bar> * 10 ^ k\<rfloor> = \<bar>q\<bar> * 10 ^ k) \<and> \<bar>q\<bar> < float_limit
     | _ \<Rightarrow> True)"

lemma read_nat_zeros: "read_nat (replicate n (CHR ''0'') @ ds) = read_nat ds"
proof (induction n)
  case 0
  then show ?case by simp
next
  case (Suc n)
  then show ?case by (simp add: read_nat_def digit_val_def)
qed

lemma read_nat_append_zeros: "read_nat (ds @ replicate n (CHR ''0'')) = read_nat ds * 10 ^ n"
proof (induction n)
  case 0
  then show ?case by simp
next
  case (Suc n)
  have "ds @ replicate (Suc n) (CHR ''0'') = (ds @ replicate n (CHR ''0'')) @ ''0''"
    by (simp add: replicate_append_same)
  with Suc show ?case by (simp only: read_nat_snoc) (simp add: digit_val_def)
qed

lemma read_pad_left: "read_nat (pad_left n (show_nat m)) = m"
  by (simp add: pad_left_def read_nat_zeros read_show_nat)

lemma pad_left_digits: "list_all is_digit (pad_left n (show_nat m))"
  by (auto simp: pad_left_def list_all_iff is_digit_def dest: show_nat_digits)

lemma float_of_rat_small: "\<bar>q\<bar> < float_limit \<Longrightarrow> float_of_rat q = Fin q"
  by (auto simp: float_of_rat_def)

lemma json_frac_digits:
  assumes "list_all is_digit fp" "fp \<noteq> []" "r = [] \<or> \<not> is_digit (hd r)"
  shows "json_frac (CHR ''.'' # fp @ r) = (fp, r)"
  using span_digits [OF assms(1,3)] assms(2) by (simp add: json_frac_def)

text \<open>The two notations: with a point, and with an exponent.\<close>

lemma json_unsigned_point:
  assumes "int_part ip" "list_all is_digit fp" "fp \<noteq> []" "num_end r"
  shows "json_unsigned neg (ip @ CHR ''.'' # fp @ r) =
    Some (VFloat (float_of_rat (let q = of_nat (read_nat (ip @ fp)) / 10 ^ length fp in if neg then - q else q)), r)"
proof -
  have "json_digits (ip @ CHR ''.'' # fp @ r) = Some (ip, CHR ''.'' # fp @ r)"
    using assms(1) by (intro json_digits_int_part) (simp_all add: is_digit_def)
  then show ?thesis
    using assms(3) json_frac_digits [OF assms(2,3) num_end_digit [OF assms(4)]]
    by (simp add: json_unsigned_def num_end_exp [OF assms(4)] scale10_def Let_def)
qed

lemma json_exp_text:
  assumes "num_end r"
  shows "json_exp (CHR ''e'' # (if e < 0 then ''-'' else ''+'') @ pad_left 2 (show_nat (nat \<bar>e\<bar>)) @ r) = (Some e, r)"
proof -
  let ?ds = "pad_left 2 (show_nat (nat \<bar>e\<bar>))"
  have "takeWhile is_digit (?ds @ r) = ?ds \<and> dropWhile is_digit (?ds @ r) = r"
    by (rule span_digits [OF pad_left_digits num_end_digit [OF assms]])
  moreover have "?ds \<noteq> []" by (simp add: pad_left_def)
  ultimately show ?thesis
    by (cases "e < 0") (simp_all add: json_exp_def take_sign_def read_pad_left Let_def)
qed

lemma json_unsigned_exponent:
  assumes "int_part ip" "list_all is_digit fp" "num_end r"
    and x: "x = CHR ''e'' # (if e < 0 then ''-'' else ''+'') @ pad_left 2 (show_nat (nat \<bar>e\<bar>)) @ r"
  shows "json_unsigned neg (ip @ (if fp = [] then [] else CHR ''.'' # fp) @ x) =
    Some (VFloat (float_of_rat (let q = scale10 (read_nat (ip @ fp)) (e - int (length fp)) in if neg then - q else q)), r)"
proof -
  let ?y = "(if fp = [] then [] else CHR ''.'' # fp) @ x"
  have "json_digits (ip @ ?y) = Some (ip, ?y)"
    using assms(1) by (intro json_digits_int_part) (simp_all add: is_digit_def x)
  moreover have "json_frac ?y = (fp, x)"
  proof (cases "fp = []")
    case True
    then show ?thesis by (simp add: x json_frac_def)
  next
    case False
    then show ?thesis using json_frac_digits [OF assms(2) False, of x] by (simp add: x is_digit_def)
  qed
  moreover have "json_exp x = (Some e, r)" unfolding x by (rule json_exp_text [OF assms(3)])
  ultimately show ?thesis by (simp add: json_unsigned_def Let_def)
qed

text \<open>The digits of a number without its last zeros.\<close>

lemma strip_zeros:
  assumes "m = rev (dropWhile (\<lambda>c. c = CHR ''0'') (rev ds))"
  shows "ds = m @ replicate (length ds - length m) (CHR ''0'')"
proof -
  let ?P = "\<lambda>c. c = CHR ''0''"
  have "rev ds = takeWhile ?P (rev ds) @ dropWhile ?P (rev ds)" by simp
  moreover have "takeWhile ?P (rev ds) = replicate (length (takeWhile ?P (rev ds))) (CHR ''0'')"
    by (induction "rev ds" rule: rev_induct) (auto simp: takeWhile_eq_all_conv replicate_append_same dest: set_takeWhileD intro!: replicate_eqI)
  ultimately have "ds = m @ replicate (length (takeWhile ?P (rev ds))) (CHR ''0'')"
    using assms by (metis rev_append rev_replicate rev_rev_ident)
  then show ?thesis by (metis add_diff_cancel_left' length_append length_replicate)
qed

lemma show_float_point:
  assumes k: "k = decimal_places \<bar>q\<bar>" and M: "of_nat M = \<bar>q\<bar> * 10 ^ k" and r: "num_end r" and lim: "\<bar>q\<bar> < float_limit"
    and t: "t = pad_left (Suc k) (show_nat M)"
  shows "json_literal ((if q < 0 then ''-'' else []) @ take (length t - k) t
      @ CHR ''.'' # (if k = 0 then ''0'' else drop (length t - k) t) @ r) = Some (VFloat (Fin q), r)"
proof -
  let ?ip = "take (length t - k) t" and ?fp = "if k = 0 then ''0'' else drop (length t - k) t"
  have len: "Suc k \<le> length t" by (simp add: t pad_left_def)
  have dig: "list_all is_digit t" unfolding t by (rule pad_left_digits)
  have "int_part ?ip"
  proof (cases "length (show_nat M) \<le> k")
    case True
    then have "t = CHR ''0'' # replicate (k - length (show_nat M)) (CHR ''0'') @ show_nat M" "length t = Suc k"
      by (simp_all add: t pad_left_def Suc_diff_le)
    then show ?thesis by (simp add: int_part_def)
  next
    case False
    then have tt: "t = show_nat M" by (simp add: t pad_left_def)
    show ?thesis
    proof (cases "M = 0")
      case True
      then have "t = ''0''" "k = 0" using False by (simp_all add: tt show_nat_0)
      then show ?thesis by (simp add: int_part_def)
    next
      case False
      obtain n where n: "length t - k = Suc n" using len by (metis Suc_diff_le Suc_le_eq diff_Suc_Suc)
      from False have "hd t \<noteq> CHR ''0''" by (simp add: tt show_nat_hd)
      moreover have "t \<noteq> []" by (simp add: tt)
      ultimately show ?thesis using dig n
        by (cases t) (auto simp: int_part_def list_all_iff dest: in_set_takeD)
    qed
  qed
  moreover have "list_all is_digit ?fp" using dig by (auto simp: list_all_iff is_digit_def dest: in_set_dropD)
  moreover have "?fp \<noteq> []" using len by (simp, linarith)
  moreover have "of_nat (read_nat (?ip @ ?fp)) / 10 ^ length ?fp = \<bar>q\<bar>"
  proof (cases "k = 0")
    case True
    have "read_nat (t @ ''0'') = 10 * M" by (simp add: read_nat_snoc t read_pad_left digit_val_def)
    with True M show ?thesis by simp
  next
    case False
    with len have "length ?fp = k" "?ip @ ?fp = t" by simp_all
    moreover have "read_nat t = M" by (simp add: t read_pad_left)
    ultimately show ?thesis using M by simp
  qed
  ultimately show ?thesis
    using lim by (simp add: json_literal_number json_unsigned_point r Let_def float_of_rat_small)
qed

lemma show_float_exponent:
  assumes k: "k = decimal_places \<bar>q\<bar>" and M: "of_nat M = \<bar>q\<bar> * 10 ^ k" and r: "num_end r" and lim: "\<bar>q\<bar> < float_limit"
    and "q \<noteq> 0" and m: "m = rev (dropWhile (\<lambda>c. c = CHR ''0'') (rev (show_nat M)))"
    and e: "e = int (length (show_nat M)) - 1 - int k"
  shows "json_literal ((if q < 0 then ''-'' else []) @ take 1 m @ (if length m = 1 then [] else CHR ''.'' # drop 1 m)
      @ CHR ''e'' # (if e < 0 then ''-'' else ''+'') @ pad_left 2 (show_nat (nat \<bar>e\<bar>)) @ r) = Some (VFloat (Fin q), r)"
proof -
  let ?ds = "show_nat M"
  define z where "z = length ?ds - length m"
  have ds: "?ds = m @ replicate z (CHR ''0'')" unfolding z_def by (rule strip_zeros [OF m])
  have "of_nat M \<noteq> (0 :: rat)" unfolding M using \<open>q \<noteq> 0\<close> by simp
  then have "M \<noteq> 0" by (metis of_nat_0)
  then have hd: "hd ?ds \<noteq> CHR ''0''" by (rule show_nat_hd)
  have "m \<noteq> []"
  proof
    assume "m = []"
    then have "?ds = replicate z (CHR ''0'')" using ds by simp
    moreover have "?ds \<noteq> []" by simp
    ultimately show False using hd by (cases z) auto
  qed
  then obtain c fp where cm: "m = c # fp" by (cases m) auto
  have dig: "list_all is_digit ?ds" by (auto simp: list_all_iff dest: show_nat_digits)
  then have fp: "list_all is_digit fp" "is_digit c" using ds cm by auto
  have ip: "int_part [c]" using hd ds cm fp(2) by (auto simp: int_part_def)
  have "M = read_nat m * 10 ^ z" using read_show_nat [of M] by (subst (asm) ds) (simp add: read_nat_append_zeros)
  then have q: "\<bar>q\<bar> * 10 ^ k = of_nat (read_nat m) * 10 ^ z" using M by simp
  have len: "length ?ds = Suc (length fp) + z" using arg_cong [OF ds, of length] cm by simp
  then have ex: "e - int (length fp) = int z - int k" using e by simp
  have "scale10 (read_nat (c # fp)) (e - int (length fp)) = \<bar>q\<bar>"
  proof (cases "k \<le> z")
    case True
    then have "(10 :: rat) ^ z = 10 ^ nat (int z - int k) * 10 ^ k"
      by (simp add: nat_diff_distrib flip: power_add of_nat_diff)
    with q True show ?thesis unfolding ex scale10_def by (simp add: cm)
  next
    case False
    then have "(10 :: rat) ^ k = 10 ^ nat (int k - int z) * 10 ^ z"
      by (simp add: nat_diff_distrib flip: power_add of_nat_diff)
    with q False show ?thesis unfolding ex scale10_def by (simp add: cm field_simps)
  qed
  then show ?thesis
    using json_unsigned_exponent [OF ip fp(1) r refl, of "q < 0" e] lim
    by (cases "q < 0"; cases "fp = []"; cases "e < 0")
      (simp_all add: cm json_literal_number [OF ip, of True, simplified]
        json_literal_number [OF ip, of False, simplified] Let_def float_of_rat_small)
qed

lemma json_literal_float:
  assumes "float_ok f" "num_end r"
  shows "json_literal (json_float f @ r) = Some (VFloat f, r)"
proof (cases f)
  case (Fin q)
  define k where "k = decimal_places \<bar>q\<bar>"
  define M where "M = nat \<lfloor>\<bar>q\<bar> * 10 ^ k\<rfloor>"
  define t where "t = pad_left (Suc k) (show_nat M)"
  define m where "m = rev (dropWhile (\<lambda>c. c = CHR ''0'') (rev (show_nat M)))"
  define e where "e = int (length (show_nat M)) - 1 - int k"
  have lim: "\<bar>q\<bar> < float_limit" and fl: "of_int \<lfloor>\<bar>q\<bar> * 10 ^ k\<rfloor> = \<bar>q\<bar> * 10 ^ k"
    using assms(1) Fin by (simp_all add: float_ok_def k_def)
  then have M: "of_nat M = \<bar>q\<bar> * 10 ^ k" by (simp add: M_def)
  have shown: "json_float (Fin q) = (if \<bar>q\<bar> = 0 \<or> (- 4 \<le> e \<and> e < 16)
      then (if q < 0 then ''-'' else []) @ take (length t - k) t @ CHR ''.'' # (if k = 0 then ''0'' else drop (length t - k) t)
      else (if q < 0 then ''-'' else []) @ take 1 m @ (if length m = 1 then [] else CHR ''.'' # drop 1 m)
        @ CHR ''e'' # (if e < 0 then ''-'' else ''+'') @ pad_left 2 (show_nat (nat \<bar>e\<bar>)))"
    unfolding json_float_def show_float_def Let_def pyfloat.case t_def m_def e_def M_def k_def
    by (simp only: append_Cons append_Nil)
  show ?thesis
  proof (cases "\<bar>q\<bar> = 0 \<or> (- 4 \<le> e \<and> e < 16)")
    case True
    with show_float_point [OF k_def M assms(2) lim t_def] show ?thesis by (simp only: shown Fin append_assoc append_Cons if_True)
  next
    case False
    then have "q \<noteq> 0" by auto
    from show_float_exponent [OF k_def M assms(2) lim this m_def e_def] False
    show ?thesis by (simp only: shown Fin append_assoc append_Cons if_False)
  qed
qed (simp_all add: json_float_def json_literal_def)

fun json_ok :: "pyval \<Rightarrow> bool" where
  "json_ok (VFloat f) = float_ok f"
| "json_ok (VStr s) = text_ok s"
| "json_ok (VList xs) = list_all json_ok xs"
| "json_ok (VDict d) = (distinct (map fst d) \<and> list_all (\<lambda>(k, v). text_ok k \<and> json_ok v) d)"
| "json_ok v = True"

lemma json_items_map: "json_items p s lv xs = map (json_at p s lv) xs"
  by (induction xs) auto

lemma json_fields_map:
  "json_fields p s lv d = map (\<lambda>(k, v). (k, json_string k @ '': '' @ json_at p s lv v)) d"
  by (induction d) auto

lemma json_skip_ws:
  "list_all json_ws w \<Longrightarrow> \<not> json_ws c \<Longrightarrow> json_skip (w @ c # z) = c # z"
  by (induction w) (auto simp: json_skip_def)

lemma json_ws_end: "json_ws c \<Longrightarrow> num_end (c # z)"
  by (auto simp: json_ws_def num_end_def is_digit_def)

lemma num_end_ws: "list_all json_ws w \<Longrightarrow> num_end (c # z) \<Longrightarrow> num_end (w @ c # z)"
  by (cases w) (auto simp: json_ws_end)

text \<open>The text of a value starts with none of the characters that separate values.\<close>

definition opens :: "char \<Rightarrow> bool" where
  "opens c \<longleftrightarrow> \<not> json_ws c \<and> c \<noteq> CHR '']'' \<and> c \<noteq> CHR ''}''"

lemma digit_opens: "is_digit c \<Longrightarrow> opens c"
  by (auto simp: opens_def json_ws_def is_digit_def)

lemma json_digits_hd: "json_digits s = Some x \<Longrightarrow> \<exists>c t. s = c # t \<and> is_digit c"
  by (auto simp: json_digits_def is_digit_def split: list.splits if_splits)

lemma json_number_hd: "json_number s = Some x \<Longrightarrow> \<exists>c t. s = c # t \<and> (c = CHR ''-'' \<or> is_digit c)"
  by (auto simp: json_number_def json_unsigned_def split: list.splits if_splits option.splits
      dest!: json_digits_hd)

lemma json_literal_hd:
  assumes "json_literal s = Some x"
  shows "\<exists>c t. s = c # t \<and> opens c \<and> c \<noteq> CHR 0x22 \<and> c \<noteq> CHR ''['' \<and> c \<noteq> CHR ''{''"
proof -
  from assms obtain c t where s: "s = c # t" and "c \<in> set ''ntfNI-'' \<or> is_digit c"
    by (auto simp: json_literal_def prefix_def split: if_splits dest!: json_number_hd)
  then have "opens c \<and> c \<noteq> CHR 0x22 \<and> c \<noteq> CHR ''['' \<and> c \<noteq> CHR ''{''"
    by (auto simp: opens_def json_ws_def is_digit_def)
  with s show ?thesis by blast
qed

lemma json_value_literal: "json_literal s = Some x \<Longrightarrow> 0 < n \<Longrightarrow> json_value n s = Some x"
  using json_literal_hd [of s x] by (cases n) auto

text \<open>A value without parts is one token.\<close>

definition json_atom :: "pyval \<Rightarrow> bool" where
  "json_atom v \<longleftrightarrow> \<not> is_list v \<and> \<not> is_dict v \<and> \<not> is_str v"

lemma json_literal_atom:
  assumes "json_atom v" "json_ok v" "num_end r"
  shows "json_literal (json_at p s lv v @ r) = Some (v, r)"
proof (cases v)
  case (VInt i)
  with json_literal_int [OF assms(3)] show ?thesis by simp
next
  case (VFloat f)
  with json_literal_float [OF _ assms(3), of f] assms(2) show ?thesis by simp
qed (use assms(1) in \<open>simp_all add: json_literal_def json_atom_def is_list_def is_dict_def is_str_def\<close>)

lemma json_block_hd: "\<exists>t. json_block p lv l r items = l # t"
  by (simp add: json_block_def)

lemma json_at_hd:
  assumes "json_ok v"
  shows "\<exists>c t. json_at p s lv v = c # t \<and> opens c"
proof (cases "json_atom v")
  case True
  have "num_end []" by (simp add: num_end_def)
  from json_literal_hd [OF json_literal_atom [OF True assms this, of p s lv]] show ?thesis by auto
next
  case False
  have o: "opens (CHR 0x22)" "opens (CHR ''['')" "opens (CHR ''{'')" by (simp_all add: opens_def json_ws_def)
  from False consider x where "v = VStr x" | x where "v = VList x" | x where "v = VDict x"
    by (cases v) (auto simp: json_atom_def is_list_def is_dict_def is_str_def)
  then show ?thesis by cases (auto simp: json_string_def json_block_def Let_def o)
qed

lemma json_break_ws: "list_all json_ws (json_break lv)"
  by (simp add: json_break_def json_ws_def list_all_iff)

text \<open>A printed value is read back, with anything that can end it behind.\<close>

definition reads_back :: "string \<Rightarrow> pyval \<Rightarrow> bool" where
  "reads_back w v \<longleftrightarrow> (\<forall>n r. 2 * length w \<le> n \<and> num_end r \<longrightarrow> json_value n (w @ r) = Some (v, r))"

lemma num_end_marks:
  "num_end (CHR '','' # z)" "num_end (CHR '']'' # z)" "num_end (CHR ''}'' # z)" "num_end (CHR 0x22 # z)"
  by (simp_all add: num_end_def is_digit_def)

lemma json_skip_marks [simp]:
  "json_skip (CHR '','' # z) = CHR '','' # z" "json_skip (CHR '']'' # z) = CHR '']'' # z"
  "json_skip (CHR ''}'' # z) = CHR ''}'' # z" "json_skip (CHR '':'' # z) = CHR '':'' # z"
  by (simp_all add: json_skip_def json_ws_def)

lemma opens_skip: "w = c # t \<Longrightarrow> opens c \<Longrightarrow> list_all json_ws x \<Longrightarrow> json_skip (x @ w @ z) = w @ z"
  by (simp add: json_skip_ws opens_def)

lemma json_elems_join:
  assumes "xs \<noteq> []" "\<And>x. x \<in> set xs \<Longrightarrow> reads_back (w x) x"
    and "\<And>x. x \<in> set xs \<Longrightarrow> \<exists>c t. w x = c # t \<and> opens c"
    and "list_all json_ws g" "list_all json_ws e" "2 * length (join (CHR '','' # g) (map w xs)) + 1 \<le> n"
  shows "json_elems n acc (join (CHR '','' # g) (map w xs) @ e @ CHR '']'' # r) = Some (VList (acc @ xs), r)"
  using assms(1-3,6)
proof (induction xs arbitrary: n acc)
  case Nil
  then show ?case by simp
next
  case (Cons x xs)
  obtain m where n: "n = Suc m" using Cons.prems(4) by (cases n) auto
  have x: "json_value m (w x @ y) = Some (x, y)" if "num_end y" for y
    using Cons.prems(2) [of x] Cons.prems(4) that n
    by (cases xs) (auto simp: reads_back_def)
  show ?case
  proof (cases xs)
    case Nil
    have "num_end (e @ CHR '']'' # r)" by (rule num_end_ws [OF assms(5)]) (rule num_end_marks)
    then show ?thesis
      using x json_skip_ws [OF assms(5), of "CHR '']''" r] by (simp add: n Nil json_ws_def)
  next
    case (Cons x' xs')
    let ?j = "join (CHR '','' # g) (map w xs)"
    have j: "join (CHR '','' # g) (map w (x # xs)) = w x @ CHR '','' # g @ ?j" by (simp add: Cons)
    obtain c t where hd: "?j = c # t" "opens c"
      using Cons.prems(3) [of x'] by (cases xs') (auto simp: Cons)
    have "json_elems m (acc @ [x]) (?j @ e @ CHR '']'' # r) = Some (VList ((acc @ [x]) @ xs), r)"
      using Cons.prems n Cons j by (intro Cons.IH) auto
    then show ?thesis
      using x [OF num_end_marks(1)] opens_skip [OF hd assms(4)]
      by (simp only: j append_assoc append_Cons n json_elems.simps) simp
  qed
qed

lemma dset_new: "k \<notin> set (map fst d) \<Longrightarrow> dset k v d = d @ [(k, v)]"
  by (induction d) auto

lemma json_members_join:
  fixes w :: "pyval \<Rightarrow> string"
  defines "F \<equiv> \<lambda>(k, v). json_string k @ '': '' @ w v"
  assumes "d \<noteq> []" "\<And>k v. (k, v) \<in> set d \<Longrightarrow> reads_back (w v) v \<and> text_ok k"
    and "\<And>k v. (k, v) \<in> set d \<Longrightarrow> \<exists>c t. w v = c # t \<and> opens c"
    and "list_all json_ws g" "list_all json_ws e" "2 * length (join (CHR '','' # g) (map F d)) + 1 \<le> n"
    and "distinct (map fst (acc @ d))"
  shows "json_members n acc (join (CHR '','' # g) (map F d) @ e @ CHR ''}'' # r) = Some (VDict (acc @ d), r)"
  using assms(2-4,7,8)
proof (induction d arbitrary: n acc)
  case Nil
  then show ?case by simp
next
  case (Cons kv d)
  obtain k v where kv: "kv = (k, v)" by fastforce
  obtain m where n: "n = Suc m" using Cons.prems(4) by (cases n) auto
  obtain q where q: "json_string k = CHR 0x22 # q" by (simp add: json_string_def)
  have chars: "json_chars (q @ y) = Some (k, y)" for y
    using Cons.prems(2) [of k v] json_chars_string [OF _ q] by (simp add: kv)
  have len: "2 * length (w v) \<le> m" using Cons.prems(4) n by (cases d) (simp_all add: F_def kv)
  have v: "json_value m (w v @ y) = Some (v, y)" if "num_end y" for y
    using Cons.prems(2) [of k v] len that by (simp add: reads_back_def kv)
  obtain c t where hd: "w v = c # t" "opens c" using Cons.prems(3) [of k v] by (auto simp: kv)
  have skip: "json_skip (CHR '' '' # w v @ y) = w v @ y" for y
    using opens_skip [OF hd, of "'' ''" y] by (simp add: json_ws_def)
  have first: "F (k, v) @ y = CHR 0x22 # q @ CHR '':'' # CHR '' '' # w v @ y" for y by (simp add: F_def q)
  have new: "dset k v acc = acc @ [(k, v)]" using Cons.prems(5) by (simp add: kv dset_new)
  show ?case
  proof (cases d)
    case Nil
    have "num_end (e @ CHR ''}'' # r)" by (rule num_end_ws [OF assms(6)]) (rule num_end_marks)
    then show ?thesis
      using json_skip_ws [OF assms(6), of "CHR ''}''" r] new
      by (simp add: n Nil first chars skip v json_ws_def kv)
  next
    case (Cons kv' d')
    let ?j = "join (CHR '','' # g) (map F d)"
    have j: "join (CHR '','' # g) (map F (kv # d)) = F (k, v) @ CHR '','' # g @ ?j" by (simp add: Cons kv)
    obtain z where hd: "?j = CHR 0x22 # z"
      by (cases kv'; cases d') (auto simp: Cons F_def json_string_def)
    have "opens (CHR 0x22)" by (simp add: opens_def json_ws_def)
    from opens_skip [OF hd this assms(5)] have skip': "json_skip (g @ ?j @ y) = ?j @ y" for y .
    have "json_members m (acc @ [kv]) (?j @ e @ CHR ''}'' # r) = Some (VDict ((acc @ [kv]) @ d), r)"
    proof (rule Cons.IH)
      show "reads_back (w b) b \<and> text_ok a" if "(a, b) \<in> set d" for a b
        using Cons.prems(2) [of a b] that by simp
      show "\<exists>c t. w b = c # t \<and> opens c" if "(a, b) \<in> set d" for a b
        using Cons.prems(3) [of a b] that by simp
      show "2 * length ?j + 1 \<le> m" using Cons.prems(4) n j by simp
      show "distinct (map fst ((acc @ [kv]) @ d))" using Cons.prems(5) by simp
    qed (simp add: Cons)
    then show ?thesis
      unfolding j n append_assoc append_Cons first by (simp add: chars skip v [OF num_end_marks(1)] new skip' kv)
  qed
qed

lemma json_block_parts:
  obtains g b e where "list_all json_ws g" "list_all json_ws b" "list_all json_ws e"
    and "\<And>l r items. items \<noteq> [] \<Longrightarrow> json_block p lv l r items = l # b @ join (CHR '','' # g) items @ e @ [r]"
proof
  show "list_all json_ws (if p then json_break (Suc lv) else '' '')"
    "list_all json_ws (if p then json_break (Suc lv) else [])" "list_all json_ws (if p then json_break lv else [])"
    using json_break_ws by (simp_all add: json_ws_def)
qed (simp add: json_block_def)

text \<open>What is between the brackets of a block decides the block.\<close>

lemma reads_back_block:
  assumes "items \<noteq> []" "\<exists>c t. hd items = c # t \<and> opens c" "l = CHR ''['' \<or> l = CHR ''{''"
    and body: "\<And>g e m r. list_all json_ws g \<Longrightarrow> list_all json_ws e \<Longrightarrow>
      2 * length (join (CHR '','' # g) items) + 1 \<le> m \<Longrightarrow>
      (if l = CHR ''['' then json_elems m [] (join (CHR '','' # g) items @ e @ z # r)
       else json_members m [] (join (CHR '','' # g) items @ e @ z # r)) = Some (v, r)"
  shows "reads_back (json_block p lv l z items) v"
proof -
  obtain g b e where ws: "list_all json_ws g" "list_all json_ws b" "list_all json_ws e"
    and block: "json_block p lv l z items = l # b @ join (CHR '','' # g) items @ e @ [z]"
    by (rule json_block_parts [of p lv]) (rule that; use assms(1) in blast)
  let ?j = "join (CHR '','' # g) items"
  obtain i js where items: "items = i # js" using assms(1) by (cases items) auto
  obtain c t where j: "?j = c # t" "opens c" using assms(2) by (cases js) (auto simp: items)
  have "json_value n ((l # b @ ?j @ e @ [z]) @ r) = Some (v, r)" if le: "2 * length (l # b @ ?j @ e @ [z]) \<le> n" for n r
  proof -
    obtain m where n: "n = Suc m" using le by (cases n) auto
    have "(if l = CHR ''['' then json_elems m [] (?j @ e @ z # r) else json_members m [] (?j @ e @ z # r)) = Some (v, r)"
      using le n by (intro body ws) simp
    moreover have "c \<noteq> CHR '']''" "c \<noteq> CHR ''}''" using j(2) by (simp_all add: opens_def)
    ultimately show ?thesis using assms(3) opens_skip [OF j ws(2), of "e @ z # r"] j(1)
      by (auto simp: n)
  qed
  then show ?thesis unfolding reads_back_def block by blast
qed

lemma reads_back_empty: "reads_back ''[]'' (VList [])" "reads_back ''{}'' (VDict [])"
proof -
  have "json_value n (''[]'' @ r) = Some (VList [], r) \<and> json_value n (''{}'' @ r) = Some (VDict [], r)" if "0 < n" for n r
    using that by (cases n) auto
  then show "reads_back ''[]'' (VList [])" "reads_back ''{}'' (VDict [])" by (auto simp: reads_back_def)
qed

lemma reads_back_atom:
  assumes "json_atom v" "json_ok v"
  shows "reads_back (json_at p s lv v) v"
proof -
  obtain c t where "json_at p s lv v = c # t" using json_at_hd [OF assms(2), of p s lv] by blast
  then have "0 < n" if "2 * length (json_at p s lv v) \<le> n" for n using that by simp
  then show ?thesis
    unfolding reads_back_def by (auto intro!: json_value_literal json_literal_atom assms)
qed

theorem reads_back_at: "json_ok v \<Longrightarrow> reads_back (json_at p False lv v) v"
proof (induction v arbitrary: lv)
  case (VStr s)
  obtain q where q: "json_string s = CHR 0x22 # q" by (simp add: json_string_def)
  have "json_value n (json_string s @ r) = Some (VStr s, r)" if "0 < n" for n r
    using that json_chars_string [OF _ q] VStr by (cases n) (simp_all add: q)
  then show ?case by (auto simp: reads_back_def json_string_def)
next
  case (VList xs)
  let ?w = "json_at p False (Suc lv)"
  have rb: "reads_back (?w x) x" if "x \<in> set xs" for x using VList that by (auto simp: list_all_iff)
  have hd: "\<exists>c t. ?w x = c # t \<and> opens c" if "x \<in> set xs" for x
    using VList.prems that by (intro json_at_hd) (auto simp: list_all_iff)
  show ?case
  proof (cases "xs = []")
    case True
    then show ?thesis by (simp add: json_block_def reads_back_empty)
  next
    case False
    have "reads_back (json_block p lv (CHR ''['') (CHR '']'') (map ?w xs)) (VList xs)"
      using False hd [of "List.hd xs"] json_elems_join [OF False rb hd, of _ _ _ "[]"]
      by (intro reads_back_block) (simp_all add: hd_map)
    then show ?thesis by (simp add: json_items_map)
  qed
next
  case (VDict d)
  let ?w = "json_at p False (Suc lv)" and ?F = "\<lambda>(k, v). json_string k @ '': '' @ json_at p False (Suc lv) v"
  have rb: "reads_back (?w v) v \<and> text_ok k" if "(k, v) \<in> set d" for k v
    using VDict that by (fastforce simp: list_all_iff)
  have hd: "\<exists>c t. ?w v = c # t \<and> opens c" if "(k, v) \<in> set d" for k v
    using VDict.prems that by (intro json_at_hd) (auto simp: list_all_iff)
  have dist: "distinct (map fst ([] @ d))" using VDict.prems by simp
  show ?case
  proof (cases "d = []")
    case True
    then show ?thesis by (simp add: json_block_def reads_back_empty)
  next
    case False
    have "\<exists>c t. List.hd (map ?F d) = c # t \<and> opens c"
      using False by (cases d) (auto simp: json_string_def opens_def json_ws_def split: prod.split)
    then have "reads_back (json_block p lv (CHR ''{'') (CHR ''}'') (map ?F d)) (VDict d)"
      using False json_members_join [OF False rb hd _ _ _ dist] by (intro reads_back_block) simp_all
    moreover have "json_at p False lv (VDict d) = json_block p lv (CHR ''{'') (CHR ''}'') (map ?F d)"
      by (simp add: json_fields_map comp_def split_def)
    ultimately show ?thesis by simp
  qed
qed (rule reads_back_atom; simp add: json_atom_def is_list_def is_dict_def is_str_def)+

lemma json_loads_printed:
  assumes "json_ok v" "list_all json_ws e"
  shows "json_loads (json_at p False 0 v @ e) = Some v"
proof -
  let ?w = "json_at p False 0 v"
  obtain c t where w: "?w = c # t" "opens c" using json_at_hd [OF assms(1)] by blast
  have "num_end e" using assms(2) by (cases e) (auto simp: json_ws_end, simp add: num_end_def)
  then have "json_value (Suc (2 * length (?w @ e))) (?w @ e) = Some (v, e)"
    using reads_back_at [OF assms(1), of p 0, unfolded reads_back_def] by (auto simp del: json_value.simps)
  moreover have "json_skip (?w @ e) = ?w @ e" using opens_skip [OF w, of "[]" e] by simp
  moreover have "json_skip e = []" using assms(2) by (simp add: json_skip_def list_all_iff)
  ultimately show ?thesis by (simp add: json_loads_def)
qed

lemma json_ok_VDict: "json_ok (VDict d) \<longleftrightarrow> distinct (map fst d) \<and> (\<forall>(k, v)\<in>set d. text_ok k \<and> json_ok v)"
  by (simp add: list_all_iff)

lemma json_ok_dget: "json_ok (VDict d) \<Longrightarrow> json_ok (dget d k)"
  unfolding json_ok_VDict by (auto simp: dget_def dget_or_def split: option.split dest: map_of_SomeD)

lemma json_ok_dset:
  assumes "json_ok (VDict d)" "text_ok k" "json_ok v"
  shows "json_ok (VDict (dset k v d))"
  using assms set_dset_subset [of k v d] distinct_update [of d k v] unfolding json_ok_VDict by blast

lemma ascii_points: "list_all (\<lambda>c. of_char c < (128 :: nat)) s \<Longrightarrow> utf8_points (map of_char s) = map of_char s"
proof (induction s)
  case Nil
  then show ?case by (simp add: utf8_points.simps)
next
  case (Cons c s)
  then have "of_char c < (192 :: nat)" by simp
  with Cons show ?case by (subst utf8_points.simps) simp
qed

lemma text_ok_ascii:
  assumes "list_all (\<lambda>c. of_char c < (128 :: nat)) s"
  shows "text_ok s"
proof -
  have "concat (map utf8_encode (map of_char s)) = s"
    using assms by (induction s) (simp_all add: utf8_encode_def)
  moreover have "list_all scalar (map of_char s)" using assms by (auto simp: list_all_iff scalar_def)
  ultimately show ?thesis by (simp add: text_ok_def ascii_points [OF assms] Let_def)
qed

end
