(* ===== verification/EmitStdout.thy ===== *)
theory EmitStdout
  imports RunDirectory JsonRoundtrip
begin

section \<open>Printing the report\<close>

text \<open>
  Handler 7 of \<^verbatim>\<open>code_review/handlers.py\<close>: the report of a run read back from its directory, filtered
  by severity and gate where the arguments ask for it, and printed. Reading a file, the kind of
  the terminal and the working directory are arguments; what is printed is a pair of texts,
  standard output and standard error.
\<close>

subsection \<open>Arguments\<close>

definition valid_formats :: "string list" where
  "valid_formats = [''markdown'', ''json'']"

definition yaml_warning :: string where
  "yaml_warning = ''(emit_stdout: --format=yaml requested but no YAML serializer is bundled '' @ em_dash
     @ '' falling back to markdown)'' @ [newline]"

text \<open>The format, and what is written to standard error on the way.\<close>

definition resolve_format :: "dict \<Rightarrow> bool \<Rightarrow> string \<times> string" where
  "resolve_format args_bag is_tty =
     (let requested = (case dget args_bag ''format'' of VStr s \<Rightarrow> lower s | _ \<Rightarrow> ''auto'');
          auto_format = (if is_tty then ''markdown'' else ''json'') in
      if requested \<in> set valid_formats then (requested, [])
      else if requested = ''auto'' then (auto_format, [])
      else if requested = ''yaml'' then (''markdown'', yaml_warning)
      else (auto_format, []))"

definition severity_of_name :: "string \<Rightarrow> nat option" where
  "severity_of_name s = (if severity_value s = 0 then None else Some (severity_value s))"

definition parse_severity_threshold :: "pyval \<Rightarrow> nat option" where
  "parse_severity_threshold raw = (case raw of
     VStr s \<Rightarrow> if strip s = [] then None else severity_of_name (lower (strip s))
   | _ \<Rightarrow> None)"

definition gate_tokens :: "string \<Rightarrow> int list" where
  "gate_tokens s = filter (\<lambda>n. 1 \<le> n \<and> n \<le> 8) (List.map_filter (parse_int \<circ> strip) (split_on (CHR '','') s))"

definition parse_gate_filter :: "pyval \<Rightarrow> int list option" where
  "parse_gate_filter raw =
     (if raw = VNone then None
      else (let tokens = gate_tokens (py_str raw) in if tokens = [] then None else Some (remdups tokens)))"

subsection \<open>Filters\<close>

text \<open>\<^verbatim>\<open>_SEVERITY_RANK.get(f.get("severity", ""), 0)\<close>.\<close>

definition issue_rank :: "dict \<Rightarrow> nat res" where
  "issue_rank f = (let s = dget_or f ''severity'' (VStr []) in
     if \<not> hashable s then Inl TypeError else Inr (case s of VStr t \<Rightarrow> severity_value t | _ \<Rightarrow> 0))"

definition filterE :: "('a \<Rightarrow> bool res) \<Rightarrow> 'a list \<Rightarrow> 'a list res" where
  "filterE P xs = bindE (mapE (\<lambda>x. bindE (P x) (\<lambda>b. Inr (x, b))) xs) (\<lambda>ps. Inr (map fst (filter snd ps)))"

definition in_gates :: "int list \<Rightarrow> pyval \<Rightarrow> bool res" where
  "in_gates gates v =
     (if \<not> hashable v then Inl TypeError
      else Inr (\<exists>n\<in>set gates. py_eq v (VInt n)))"

text \<open>What \<^verbatim>\<open>dict(v)\<close> raises for a value that is no dictionary, or \<^verbatim>\<open>v.get\<close> after it.\<close>

definition pair_error :: "pyval \<Rightarrow> pyerr option" where
  "pair_error x = (case py_iter x of
     Inl e \<Rightarrow> Some e
   | Inr [k, _] \<Rightarrow> if hashable k then None else Some TypeError
   | Inr _ \<Rightarrow> Some ValueError)"

definition as_dict :: "pyval \<Rightarrow> dict res" where
  "as_dict v = (case v of
     VDict d \<Rightarrow> Inr d
   | _ \<Rightarrow> (case py_iter v of
       Inl e \<Rightarrow> Inl e
     | Inr xs \<Rightarrow> (case List.map_filter pair_error xs of e # _ \<Rightarrow> Inl e | [] \<Rightarrow> Inl AttributeError)))"

definition kept_issues :: "dict \<Rightarrow> nat \<Rightarrow> dict list res" where
  "kept_issues payload threshold =
     bindE (py_iter (py_or (dget payload ''issues'') (py_or (dget payload ''findings'') (VList [])))) (\<lambda>source.
       filterE (\<lambda>f. bindE (issue_rank f) (\<lambda>n. Inr (threshold \<le> n))) (dicts_of source))"

definition count_values :: "dict list \<Rightarrow> pyval" where
  "count_values kept = VDict (map (\<lambda>s. (s, VInt (int (count_if (has_severity s) kept)))) valid_severities)"

definition with_counts :: "dict \<Rightarrow> pyval \<Rightarrow> dict \<Rightarrow> dict" where
  "with_counts payload counts filtered =
     (let m = (case dget filtered ''_meta'' of VDict meta \<Rightarrow> dset ''_meta'' (VDict (dset ''severity_counts'' counts meta)) filtered
               | _ \<Rightarrow> filtered)
      in if map_of payload ''severity_counts'' \<noteq> None then dset ''severity_counts'' counts m else m)"

definition filter_severity :: "dict \<Rightarrow> nat \<Rightarrow> dict res" where
  "filter_severity payload threshold =
     bindE (kept_issues payload threshold) (\<lambda>kept.
       let v = VList (map VDict kept);
           a = (if is_list (dget payload ''issues'') then dset ''issues'' v payload else payload);
           b = (if is_list (dget payload ''findings'') then dset ''findings'' v a else a)
       in Inr (with_counts payload (count_values kept) b))"

definition filter_gates :: "dict \<Rightarrow> int list \<Rightarrow> dict \<Rightarrow> dict res" where
  "filter_gates payload gates filtered =
     bindE (py_iter (py_or (dget payload ''gates'') (VList []))) (\<lambda>gs.
     bindE (filterE (\<lambda>g. in_gates gates (dget g ''number'')) (dicts_of gs)) (\<lambda>kept.
       Inr (dset ''gates'' (VList (map VDict kept)) filtered)))"

definition apply_scope_filters :: "pyval \<Rightarrow> nat option \<Rightarrow> int list option \<Rightarrow> pyval res" where
  "apply_scope_filters v severity_threshold gate_filter =
     (if severity_threshold = None \<and> gate_filter \<in> {None, Some []} then Inr v
      else bindE (as_dict v) (\<lambda>payload.
           bindE (case severity_threshold of None \<Rightarrow> Inr payload | Some n \<Rightarrow> filter_severity payload n) (\<lambda>filtered.
           bindE (case gate_filter of None \<Rightarrow> Inr filtered | Some [] \<Rightarrow> Inr filtered
                  | Some gates \<Rightarrow> filter_gates payload gates filtered) (\<lambda>out. Inr (VDict out)))))"

subsection \<open>The handler\<close>

definition read_report_text :: "(string \<Rightarrow> string option) \<Rightarrow> string \<Rightarrow> string \<Rightarrow> string option" where
  "read_report_text read run_dir fmt =
     read (path_join run_dir (if fmt = ''markdown'' then ''report.md'' else ''report.json''))"

definition out_line :: "string \<Rightarrow> string" where
  "out_line s = s @ [newline]"

text \<open>The body that is printed, if any, and what is written to standard error.\<close>

definition report_body ::
  "(string \<Rightarrow> string option) \<Rightarrow> string \<Rightarrow> string \<Rightarrow> nat option \<Rightarrow> int list option \<Rightarrow> string \<times> string option res" where
  "report_body read run_dir fmt severity_threshold gate_filter =
     (if severity_threshold \<noteq> None \<or> gate_filter \<noteq> None then
        (case read_report_text read run_dir ''json'' of
           None \<Rightarrow> (out_line (''(emit_stdout: filtered output requested but report.json not found under '' @ run_dir @ '')''), Inr None)
         | Some json_raw \<Rightarrow>
             (case json_loads json_raw of
                None \<Rightarrow> (out_line ''(emit_stdout: report.json is malformed; falling back to unfiltered output)'',
                        Inr (read_report_text read run_dir fmt))
              | Some parsed \<Rightarrow>
                  ([], bindE (apply_scope_filters parsed severity_threshold gate_filter) (\<lambda>filtered.
                     if fmt = ''json'' then Inr (Some (json_indented filtered @ [newline]))
                     else bindE (render_report_markdown filtered) (\<lambda>md. Inr (Some md))))))
      else
        (case read_report_text read run_dir fmt of
           None \<Rightarrow> (out_line (''(emit_stdout: report file for format='' @ fmt @ '' not found under '' @ run_dir @ '')''), Inr None)
         | Some b \<Rightarrow> ([], Inr (Some b))))"

definition ends_line :: "string \<Rightarrow> bool" where
  "ends_line s \<longleftrightarrow> s \<noteq> [] \<and> last s = newline"

definition handle_emit_stdout ::
  "(string \<Rightarrow> string option) \<Rightarrow> bool \<Rightarrow> string \<Rightarrow> dict \<Rightarrow> (string \<times> string) \<times> dict res" where
  "handle_emit_stdout read is_tty cwd env = (case dget env ''run_dir_path'' of
     VStr run_dir \<Rightarrow>
       if run_dir = []
       then (([], out_line (''(emit_stdout: no run_dir_path in env '' @ em_dash @ '' write_run_directory may have been skipped)'')), Inr [])
       else
         (let args_bag = ensure_dict (dget env ''args'');
              (fmt, warning) = resolve_format args_bag is_tty;
              threshold = parse_severity_threshold (dget args_bag ''scope-severity'');
              gates = parse_gate_filter (dget args_bag ''scope-gate'');
              (err, body) = report_body read run_dir fmt threshold gates;
              manifest_line = out_line (''Manifest: '' @ relative_to cwd (path_join run_dir ''manifest.json''))
          in case body of
               Inl e \<Rightarrow> (([], warning @ err), Inl e)
             | Inr None \<Rightarrow> (([], warning @ err @ manifest_line), Inr [])
             | Inr (Some b) \<Rightarrow>
                 (let text = (if ends_line b then b else out_line b) in
                  if fmt = ''markdown'' then ((text @ manifest_line, warning @ err), Inr [])
                  else ((text, warning @ err @ manifest_line), Inr [])))
   | _ \<Rightarrow> (([], out_line (''(emit_stdout: no run_dir_path in env '' @ em_dash @ '' write_run_directory may have been skipped)'')), Inr []))"

subsection \<open>Lemmas\<close>

lemma filterE_total:
  assumes "\<And>x. x \<in> set xs \<Longrightarrow> P x = Inr (g x)"
  shows "filterE P xs = Inr (filter g xs)"
proof -
  have "mapE (\<lambda>x. bindE (P x) (\<lambda>b. Inr (x, b))) xs = Inr (map (\<lambda>x. (x, g x)) xs)"
    by (intro mapE_total) (simp add: assms)
  moreover have "map fst (filter snd (map (\<lambda>x. (x, g x)) xs)) = filter g xs" by (induction xs) auto
  ultimately show ?thesis by (simp add: filterE_def)
qed

definition rank_of :: "dict \<Rightarrow> nat" where
  "rank_of f = (case dget f ''severity'' of VStr s \<Rightarrow> severity_value s | _ \<Rightarrow> 0)"

lemma issue_rank_known: "dget f ''severity'' = VStr s \<Longrightarrow> issue_rank f = Inr (rank_of f)"
  by (auto simp: issue_rank_def rank_of_def hashable_def is_list_def is_dict_def dget_def dget_or_def split: option.splits)

lemma text_ok_issues: "text_ok ''issues''"
  by (rule text_ok_ascii) simp

text \<open>Filtering the payload of a report by severity.\<close>

lemma filter_severity_payload:
  assumes "dget p ''issues'' = VList (map VDict issues)" "\<And>d. d \<in> set issues \<Longrightarrow> \<exists>s. dget d ''severity'' = VStr s"
    and "map_of p ''findings'' = None" "map_of p ''_meta'' = None" "map_of p ''severity_counts'' = None"
  shows "filter_severity p n = Inr (dset ''issues'' (VList (map VDict (filter (\<lambda>f. n \<le> rank_of f) issues))) p)"
proof -
  have "dget p ''findings'' = VNone" using assms(3) by (simp add: dget_def dget_or_def)
  then have src: "py_or (dget p ''issues'') (py_or (dget p ''findings'') (VList [])) = VList (map VDict issues)"
    using assms(1) by (auto simp: py_or_def)
  have "filterE (\<lambda>f. bindE (issue_rank f) (\<lambda>r. Inr (n \<le> r))) issues = Inr (filter (\<lambda>f. n \<le> rank_of f) issues)"
  proof (rule filterE_total)
    fix x assume "x \<in> set issues"
    then obtain s where "dget x ''severity'' = VStr s" using assms(2) by blast
    then show "bindE (issue_rank x) (\<lambda>r. Inr (n \<le> r)) = Inr (n \<le> rank_of x)" by (simp add: issue_rank_known)
  qed
  then have "kept_issues p n = Inr (filter (\<lambda>f. n \<le> rank_of f) issues)"
    by (simp add: kept_issues_def src)
  then show ?thesis
    using assms by (simp add: filter_severity_def Let_def with_counts_def is_list_def dget_def dget_or_def)
qed

subsection \<open>From one handler to the next\<close>

text \<open>
  A path is opened below the working directory unless it is absolute, and the last write to a file
  counts: what a reader finds who opens a path after the writes.
\<close>

definition resolved :: "string \<Rightarrow> string \<Rightarrow> string" where
  "resolved cwd path = (if prefix ''/'' path then path else path_join cwd path)"

definition found_at :: "string \<Rightarrow> (string \<times> string) list \<Rightarrow> string \<Rightarrow> string option" where
  "found_at cwd writes path = map_of (rev (map (\<lambda>(p, c). (resolved cwd p, c)) writes)) (resolved cwd path)"

lemma hex_not_mark: "is_hex c \<Longrightarrow> c \<noteq> CHR ''/'' \<and> c \<noteq> CHR ''.''"
  by (auto simp: is_hex_def is_digit_def less_eq_char_def)

lemma run_dir_last:
  assumes "run_dir_path run_id storage (Some key) = Inr dir"
  shows "dir \<noteq> [] \<and> last dir \<noteq> CHR ''/'' \<and> last dir \<noteq> CHR ''.''"
proof -
  let ?s = "take 5 (drop 2 (sha256_hexdigest key))"
  have len: "length ?s = 5" by (simp add: digest_length)
  then have s: "?s \<noteq> []" by (metis list.size(3) zero_neq_numeral)
  then have hex: "is_hex (last ?s)" "is_hex (hd ?s)"
    using digest_hex in_set_dropD in_set_takeD last_in_set hd_in_set by metis+
  from assms obtain b where dir: "dir = path_join b ?s"
    unfolding run_dir_path_def Let_def by (auto simp: shard_segments_def hex_digest_len_def split: if_splits)
  have "last dir = last ?s" "dir \<noteq> []" unfolding dir using s by (auto simp: path_join_def)
  then show ?thesis using hex_not_mark [OF hex(1)] by simp
qed

lemma joined_below:
  assumes "\<And>p. p \<in> set ps \<Longrightarrow> \<exists>c r. p = c # r \<and> c \<noteq> CHR ''/''" "ps \<noteq> []" "b \<notin> {[], ''.'', ''/''}"
  shows "\<exists>r. foldl path_join b ps = b @ ''/'' @ r"
  using assms
proof (induction ps arbitrary: b)
  case (Cons p ps)
  have join: "path_join b p = b @ ''/'' @ p" using Cons.prems(1) [of p] Cons.prems(3) by (auto simp: path_join_def)
  show ?case
  proof (cases "ps = []")
    case True
    then show ?thesis by (simp add: join)
  next
    case False
    have "b @ ''/'' @ p \<notin> {[], ''.'', ''/''}" using Cons.prems(3) by (cases b) auto
    then show ?thesis using Cons.IH [of "b @ ''/'' @ p"] Cons.prems(1) False by (auto simp: join)
  qed
qed simp

lemma run_dir_below:
  assumes "run_dir_path run_id storage (Some key) = Inr dir" "storage \<notin> {[], ''.'', ''/''}"
  obtains r where "dir = storage @ ''/'' @ r"
proof -
  have ok: "run_id_ok run_id" using assms(1) by (auto simp: run_dir_path_def split: if_splits)
  have hex: "\<exists>c r. p = c # r \<and> c \<noteq> CHR ''/''" if "p \<noteq> []" "\<And>c. c \<in> set p \<Longrightarrow> is_hex c" for p :: string
    using that by (cases p) (auto dest: hex_not_mark)
  have digit: "is_hex c" if "c \<in> set (take 8 run_id)" for c
    using ok that by (auto simp: run_id_ok_def list_all_iff is_hex_def)
  have len: "length run_id = 23" using ok by (simp add: run_id_ok_def)
  have part: "set (take k (drop m run_id)) \<subseteq> set (take 8 run_id)" if "m + k \<le> 8" for m k
    using set_take_subset_set_take [of "k + m" 8 run_id] set_drop_subset [of m "take (k + m) run_id"] that
    by (simp add: take_drop add.commute)
  have parts: "\<exists>c r. p = c # r \<and> c \<noteq> CHR ''/''"
    if "p \<in> set [take 4 run_id, take 2 (drop 4 run_id), take 2 (drop 6 run_id),
      take 2 (sha256_hexdigest key), take 5 (drop 2 (sha256_hexdigest key))]" for p
  proof (rule hex)
    have n: "length run_id = 23" "length (sha256_hexdigest key) = 64" by (simp_all add: len digest_length)
    have "0 < length p" using that n by auto
    then show "p \<noteq> []" by simp
    show "is_hex c" if "c \<in> set p" for c
      using \<open>p \<in> set _\<close> that part [of 0 4] part [of 4 2] part [of 6 2] digit
      by (auto dest: in_set_takeD in_set_dropD digest_hex)
  qed
  have dir: "dir = foldl path_join storage [take 4 run_id, take 2 (drop 4 run_id), take 2 (drop 6 run_id),
      take 2 (sha256_hexdigest key), take 5 (drop 2 (sha256_hexdigest key))]"
    using assms(1) ok by (simp add: run_dir_path_def shard_segments_def hex_digest_len_def Let_def numeral_2_eq_2)
  obtain r where "dir = storage @ ''/'' @ r"
    unfolding dir using joined_below [OF parts _ assms(2)] by blast
  then show ?thesis by (rule that)
qed

text \<open>The path that is committed leads to the directory that was written.\<close>

lemma resolved_relative:
  assumes cwd: "prefix ''/'' cwd" "last cwd \<noteq> CHR ''/''" and dir: "dir \<noteq> []" "last dir \<noteq> CHR ''/''" "last dir \<noteq> CHR ''.''"
    and below: "\<not> prefix (cwd @ ''//'') dir" and name: "name \<noteq> []" "\<not> prefix ''/'' name"
  shows "resolved cwd (path_join (relative_to cwd dir) name) = resolved cwd (path_join dir name)"
proof -
  have c: "cwd \<noteq> []" "cwd \<noteq> ''.''" "cwd \<noteq> ''/''" "hd cwd = CHR ''/''" using cwd by (cases cwd; auto)+
  show ?thesis
  proof (cases "dir = cwd")
    case True
    then show ?thesis using c name by (cases cwd) (auto simp: relative_to_def resolved_def path_join_def)
  next
    case not_cwd: False
    show ?thesis
    proof (cases "prefix (cwd @ ''/'') dir")
      case True
      then obtain r where r: "dir = cwd @ ''/'' @ r" by (auto simp: prefix_def)
      have "r \<noteq> []" "r \<noteq> ''.''" "\<not> prefix ''/'' r" using dir(2,3) below by (auto simp: r prefix_def)
      moreover have "relative_to cwd dir = r" using c by (simp add: relative_to_def r)
      moreover have "\<not> prefix ''/'' (r @ ''/'' @ name)" using \<open>r \<noteq> []\<close> \<open>\<not> prefix ''/'' r\<close> by (cases r) auto
      ultimately show ?thesis using c name cwd(1) by (cases cwd) (auto simp: resolved_def path_join_def r)
    next
      case False
      then show ?thesis using not_cwd c by (simp add: relative_to_def)
    qed
  qed
qed

lemma join_apart: "a \<noteq> b \<Longrightarrow> a \<noteq> [] \<Longrightarrow> b \<noteq> [] \<Longrightarrow> \<not> prefix ''/'' a \<Longrightarrow> \<not> prefix ''/'' b \<Longrightarrow> path_join d a \<noteq> path_join d b"
  by (auto simp: path_join_def)

lemma resolved_apart:
  assumes "prefix ''/'' cwd" "d \<noteq> []" "path_join d a \<noteq> path_join d b" "prefix ''/'' d"
  shows "resolved cwd (path_join d a) \<noteq> resolved cwd (path_join d b)"
  using assms by (auto simp: resolved_def path_join_def split: if_splits)

text \<open>The directory of the writes, and the report in it as the next handler finds it.\<close>

lemma run_dir_of_writes:
  assumes "write_run_artefacts now skill_root wiki_total uuid env = (writes, Inr dir)"
  shows "dir \<noteq> [] \<and> last dir \<noteq> CHR ''/'' \<and> last dir \<noteq> CHR ''.''"
  using assms run_dir_last by (auto simp: write_run_artefacts_def Let_def split: sum.splits)

lemma report_found:
  assumes "write_run_artefacts now skill_root wiki_total uuid env = (writes, Inr dir)" "build_report_payload wiki_total env = Inr p"
    and "prefix ''/'' cwd" "last cwd \<noteq> CHR ''/''" "prefix ''/'' dir" "\<not> prefix (cwd @ ''//'') dir"
  shows "found_at cwd writes (path_join (relative_to cwd dir) ''report.json'') = Some (render_report_json (VDict p))"
proof -
  have d: "dir \<noteq> []" "last dir \<noteq> CHR ''/''" "last dir \<noteq> CHR ''.''" using run_dir_of_writes [OF assms(1)] by simp_all
  have same: "resolved cwd (path_join (relative_to cwd dir) ''report.json'') = resolved cwd (path_join dir ''report.json'')"
    by (rule resolved_relative [OF assms(3,4) d assms(6)]) simp_all
  have apart: "resolved cwd (path_join dir ''report.json'') \<noteq> resolved cwd (path_join dir b)"
    if "b \<in> {''report.md'', ''manifest.json'', ''timings.json''}" for b
    using that by (intro resolved_apart [OF assms(3) d(1) _ assms(5)] join_apart) auto
  obtain md where "writes = [(path_join dir ''report.json'', render_report_json (VDict p)), (path_join dir ''report.md'', md),
        (path_join dir ''manifest.json'', json_file (manifest_of (legacy_run_id_for now uuid) uuid env p))]
       @ timings_write dir (legacy_run_id_for now uuid) uuid env"
    using assms(1,2) by (auto simp: write_run_artefacts_def Let_def split: sum.splits)
  then show ?thesis
    using apart by (auto simp: found_at_def same timings_write_def split: pyval.split)
qed

text \<open>Filtering the report that was read, and reading it back.\<close>

lemma filtered_body:
  assumes "json_ok (VDict p)" "dget p ''issues'' = VList (map VDict issues)" "\<And>d. d \<in> set issues \<Longrightarrow> \<exists>s. dget d ''severity'' = VStr s"
    and "q = dset ''issues'' (VList (map VDict (filter (\<lambda>f. n \<le> rank_of f) issues))) p"
    and "map_of p ''findings'' = None" "map_of p ''_meta'' = None" "map_of p ''severity_counts'' = None"
  shows "json_loads (json_indented (VDict q) @ [newline]) = Some (VDict q)"
    and "read_report_text read d ''json'' = Some (render_report_json (VDict p)) \<Longrightarrow>
      report_body read d ''json'' (Some n) None = ([], Inr (Some (json_indented (VDict q) @ [newline])))"
proof -
  have loaded: "json_loads (render_report_json (VDict p)) = Some (VDict p)"
    unfolding render_report_json_def json_indented_def
    by (rule json_loads_printed [OF assms(1)]) (simp add: json_ws_def)
  have filt: "filter_severity p n = Inr q"
    unfolding assms(4) by (rule filter_severity_payload [OF assms(2,3,5-7)])
  have "json_ok (VList (map VDict issues))" using json_ok_dget [OF assms(1), of "''issues''"] assms(2) by simp
  then have "json_ok (VList (map VDict (filter (\<lambda>f. n \<le> rank_of f) issues)))" by (auto simp: list_all_iff)
  then have "json_ok (VDict q)"
    unfolding assms(4) by (intro json_ok_dset assms(1)) (simp_all add: text_ok_issues)
  then show "json_loads (json_indented (VDict q) @ [newline]) = Some (VDict q)"
    unfolding json_indented_def by (rule json_loads_printed) (simp add: json_ws_def)
  show "report_body read d ''json'' (Some n) None = ([], Inr (Some (json_indented (VDict q) @ [newline])))"
    if "read_report_text read d ''json'' = Some (render_report_json (VDict p))"
    by (simp add: report_body_def that loaded apply_scope_filters_def as_dict_def filt)
qed

subsection \<open>Properties\<close>

text \<open>
  C16: what a run writes, the next step reads: from the files that the write handler left, and from
  the path it committed, relative to the working directory where the run lies below it, the
  print handler, asked for the findings of a severity and above in JSON, prints a text that parses to the payload
  of the report with exactly the issues of at least that severity, in order, and everything else as it was.
  The working directory is absolute and not the root, and the run directory is not spelled with a doubled
  slash after it. The filter is applied whatever the mode of the run is: \<^verbatim>\<open>report-format.md\<close> says that
  \<^verbatim>\<open>mode=thorough\<close> ignores \<^verbatim>\<open>scope-severity\<close>, and the handler does not look at the mode.
\<close>

theorem filtered_report_is_the_run:
  assumes "write_run_artefacts now skill_root wiki_total uuid env = (writes, Inr dir)"
    and "handle_write_run_directory now skill_root wiki_total cwd uuid env = (writes, Inr committed)"
    and "build_report_payload wiki_total env = Inr p" "json_ok (VDict p)"
    and "prefix ''/'' cwd" "last cwd \<noteq> CHR ''/''" "prefix ''/'' dir" "\<not> prefix (cwd @ ''//'') dir"
    and "dget env' ''run_dir_path'' = dget committed ''run_dir_path''"
    and "resolve_format (ensure_dict (dget env' ''args'')) is_tty = (''json'', warning)"
    and "parse_severity_threshold (dget (ensure_dict (dget env' ''args'')) ''scope-severity'') = Some n"
    and "parse_gate_filter (dget (ensure_dict (dget env' ''args'')) ''scope-gate'') = None"
  shows "\<exists>out err q issues. handle_emit_stdout (found_at cwd writes) is_tty cwd env' = ((out, err), Inr [])
    \<and> json_loads out = Some (VDict q) \<and> dget p ''issues'' = VList (map VDict issues)
    \<and> dget q ''issues'' = VList (map VDict (filter (\<lambda>f. n \<le> rank_of f) issues))
    \<and> (\<forall>k. k \<noteq> ''issues'' \<longrightarrow> dget q k = dget p k)"
proof -
  obtain methodology issues where iss: "mapE (\<lambda>(i, f). build_issue f i) (numbered_dicts (ensure_list (dget env ''findings''))) = Inr issues"
    and p: "p = [(''verdict'', dget env ''verdict''), (''summary'', VDict (report_summary wiki_total env)),
          (''methodology'', VDict methodology), (''issues'', VList (map VDict issues)),
          (''strengths'', VList (ensure_list (dget env ''strengths''))),
          (''tool_results'', rows build_tool_row (dget env ''tool_results'')),
          (''specialists'', rows build_specialist_row (dget env ''specialist_outputs'')),
          (''gates'', rows build_gate_row (dget env ''gates'')),
          (''coverage'', rows coverage_row (dget env ''coverage_matrix''))]"
    by (rule build_report_parts [OF assms(3)]) (rule that)
  define q where "q = dset ''issues'' (VList (map VDict (filter (\<lambda>f. n \<le> rank_of f) issues))) p"
  have pi: "dget p ''issues'' = VList (map VDict issues)" by (simp add: p)
  have stored: "found_at cwd writes (path_join (relative_to cwd dir) ''report.json'') = Some (render_report_json (VDict p))"
    by (rule report_found [OF assms(1,3,5-8)])
  have sev: "\<exists>s. dget d ''severity'' = VStr s" if "d \<in> set issues" for d
    using built_issue_severity [OF iss that] by blast
  have none: "map_of p ''findings'' = None" "map_of p ''_meta'' = None" "map_of p ''severity_counts'' = None"
    by (simp_all add: p)
  note kept = filtered_body [OF assms(4) pi sev q_def none]
  have out: "json_loads (json_indented (VDict q) @ [newline]) = Some (VDict q)" by (rule kept(1))
  have body: "report_body (found_at cwd writes) (relative_to cwd dir) ''json'' (Some n) None
      = ([], Inr (Some (json_indented (VDict q) @ [newline])))"
    by (rule kept(2)) (simp_all add: read_report_text_def stored)
  have c: "committed = [(''run_dir_path'', VStr (relative_to cwd dir))]"
    using assms(1,2) by (simp add: handle_write_run_directory_def)
  have "relative_to cwd dir \<noteq> []"
    using run_dir_of_writes [OF assms(1)] by (auto simp: relative_to_def prefix_def split: if_splits)
  then have "\<exists>err. handle_emit_stdout (found_at cwd writes) is_tty cwd env' = ((json_indented (VDict q) @ [newline], err), Inr [])"
    using assms(9-12) body
    by (simp add: handle_emit_stdout_def Let_def ends_line_def c)
  then show ?thesis
    using out pi by (auto simp: q_def)
qed

definition minor_args :: dict where
  "minor_args = [(''format'', VStr ''json''), (''scope-severity'', VStr ''Important'')]"

theorem filtered_report_is_the_run_witness:
  "\<exists>writes committed out err q.
      handle_write_run_directory ''20250131-120000'' ''/skill'' 476 ''/skill'' ''run'' reported_env = (writes, Inr committed)
    \<and> handle_emit_stdout (found_at ''/skill'' writes) True ''/skill'' (dset ''args'' (VDict minor_args) committed)
        = ((out, err), Inr [])
    \<and> json_loads out = Some (VDict q) \<and> dget q ''verdict'' = VStr ''NO-GO''"
proof -
  have fs: "numbered_dicts (ensure_list (dget reported_env ''findings''))
      = [(1, [(''severity'', VStr ''critical''), (''title'', VStr ''leak'')])]"
    by (simp add: reported_env_def ensure_list_def numbered_dicts_def List.map_filter_def dict_of_def)
  have m: "build_methodology reported_env = Inr (map (\<lambda>p. (p, VStr ''N/A'')) methodology_principles)"
    by (simp add: build_methodology_def reported_env_def ensure_dict_def in_strings_def hashable_def is_list_def
        is_dict_def methodology_principles_def)
  have fields: "dget reported_env ''verdict'' = VStr ''NO-GO''"
    "k \<notin> {''verdict'', ''findings''} \<Longrightarrow> dget reported_env k = VNone" for k
    by (auto simp: reported_env_def)
  obtain p where p: "build_report_payload 476 reported_env = Inr p"
    using build_report_succeeds [OF reported_env_renderable] by (rule succeedsE)
  obtain issue where i: "build_issue [(''severity'', VStr ''critical''), (''title'', VStr ''leak'')] 1 = Inr issue"
    and iok: "json_ok (VDict issue)"
    by (simp add: build_issue_def in_strings_def hashable_def is_list_def is_dict_def valid_severities_def
        sorted_flagged_def py_or_def py_int_def ensure_list_def text_ok_ascii)
  have summary: "json_ok (VDict (report_summary 476 reported_env))"
    by (simp add: report_summary_def report_stack_def list_count_def build_scope_def split_or_null_def ensure_dict_def
        ensure_list_def fields py_or_def text_ok_ascii Let_def)
  have principles: "json_ok (VDict (map (\<lambda>p. (p, VStr ''N/A'')) methodology_principles))"
    by (simp add: methodology_principles_def text_ok_ascii)
  have "build_report_payload 476 reported_env = Inr
      [(''verdict'', VStr ''NO-GO''), (''summary'', VDict (report_summary 476 reported_env)),
       (''methodology'', VDict (map (\<lambda>p. (p, VStr ''N/A'')) methodology_principles)), (''issues'', VList [VDict issue]),
       (''strengths'', VList []), (''tool_results'', VList []), (''specialists'', VList []), (''gates'', VList []),
       (''coverage'', VList [])]"
    by (simp add: build_report_payload_def m fs i [simplified] fields in_strings_def valid_verdicts_def rows_def hashable_def
        is_list_def is_dict_def) (simp add: ensure_list_def)
  then have ok: "json_ok (VDict p)"
    using p summary iok principles by (auto simp: text_ok_ascii simp del: json_ok.simps) (simp add: text_ok_ascii)
  obtain md where md: "render_report_markdown (VDict p) = Inr md"
    using render_report_succeeds [OF reported_env_renderable p] by (rule succeedsE)
  obtain dir where dir: "run_dir_path (legacy_run_id_for ''20250131-120000'' ''run'') ''/skill/.skill-code-review'' (Some ''run'') = Inr dir"
    using run_dir_exists [of "''20250131-120000''" "''run''"] by (auto simp: is_digit_def)
  have "\<exists>writes. write_run_artefacts ''20250131-120000'' ''/skill'' 476 ''run'' reported_env = (writes, Inr dir)"
  proof -
    have "resolve_storage_root (coerce_absolute_project_root VNone ''/skill'') (str_of VNone) = ''/skill/.skill-code-review''"
      by (simp add: coerce_absolute_project_root_def resolve_storage_root_def path_join_def str_of_def)
    then show ?thesis
      unfolding write_run_artefacts_def Let_def
      by (simp add: fields ensure_dict_def dir p md)
  qed
  then obtain writes where w: "write_run_artefacts ''20250131-120000'' ''/skill'' 476 ''run'' reported_env = (writes, Inr dir)"
    by blast
  obtain b where "dir = ''/skill/.skill-code-review'' @ ''/'' @ b"
    by (rule run_dir_below [OF dir]) simp_all
  then have below: "prefix ''/'' dir" "\<not> prefix (''/skill'' @ ''//'') dir" by simp_all
  let ?c = "[(''run_dir_path'', VStr (relative_to ''/skill'' dir))]"
  let ?env = "dset ''args'' (VDict minor_args) ?c"
  have h: "handle_write_run_directory ''20250131-120000'' ''/skill'' 476 ''/skill'' ''run'' reported_env = (writes, Inr ?c)"
    by (simp add: handle_write_run_directory_def w)
  have args: "ensure_dict (dget ?env ''args'') = minor_args" by (simp add: ensure_dict_def)
  have "resolve_format minor_args True = (''json'', []) \<and> parse_severity_threshold (dget minor_args ''scope-severity'') = Some 2
      \<and> parse_gate_filter (dget minor_args ''scope-gate'') = None"
    by code_simp
  moreover have "dget p ''verdict'' = VStr ''NO-GO''"
    by (rule build_report_parts [OF p]) (simp add: fields)
  moreover have "dget ?env ''run_dir_path'' = dget ?c ''run_dir_path''" by simp
  ultimately show ?thesis
    using filtered_report_is_the_run [OF w h p ok _ _ below, of ?env True "[]" 2] h
    unfolding args by auto
qed

text \<open>The handler reads no mode: with \<^verbatim>\<open>mode=thorough\<close> it prints what it prints without.\<close>

lemma thorough_still_filters:
  "handle_emit_stdout read is_tty cwd (dset ''args'' (VDict (dset ''mode'' v args)) env)
     = handle_emit_stdout read is_tty cwd (dset ''args'' (VDict args) env)"
  by (simp add: handle_emit_stdout_def resolve_format_def ensure_dict_def Let_def split: pyval.split)

end
