(* ===== verification/Panel.thy ===== *)
theory Panel
  imports JsonParse
begin

section \<open>The verifier panel\<close>

text \<open>
  \<^verbatim>\<open>code_review/verifier_handler.py\<close>: how the dispatcher of the panel is found, how its votes are
  cast and parsed, and how the handler is installed. The model behind the dispatcher is a hook
  that takes the world, a prompt and a context to a text or an exception, and a new world; the
  import of a module and the text of a parser's message are arguments.
\<close>

datatype verdict = Passed | Rejected

record vote =
  v_verdict :: verdict
  v_reason :: string

text \<open>An exception of the dispatcher: the name of its type and its text.\<close>

type_synonym 'w dispatcher = "'w \<Rightarrow> string \<Rightarrow> dict \<Rightarrow> ((string \<times> string) + string) \<times> 'w"

subsection \<open>Finding the dispatcher\<close>

text \<open>\<^verbatim>\<open>path.partition(":")\<close>: what is before the first colon and what is after it.\<close>

definition partition_colon :: "string \<Rightarrow> string \<times> string" where
  "partition_colon path =
     (takeWhile (\<lambda>c. c \<noteq> CHR '':'') path, drop 1 (dropWhile (\<lambda>c. c \<noteq> CHR '':'') path))"

text \<open>What an imported attribute is: something to call, or not.\<close>

datatype 'w attribute = Callable "'w dispatcher" | Other

definition resolve_dotted :: "(string \<Rightarrow> string \<Rightarrow> 'w attribute res) \<Rightarrow> string \<Rightarrow> 'w attribute res" where
  "resolve_dotted import_attr path =
     (let (module_path, attr) = partition_colon path in
      if module_path = [] \<or> attr = [] then Inl ValueError else import_attr module_path attr)"

definition get_dispatcher ::
  "'w dispatcher option \<Rightarrow> string option \<Rightarrow> (string \<Rightarrow> string \<Rightarrow> 'w attribute res) \<Rightarrow> 'w dispatcher option res" where
  "get_dispatcher wired env import_attr =
     (case wired of Some d \<Rightarrow> Inr (Some d)
      | None \<Rightarrow> (case env of
            None \<Rightarrow> Inr None
          | Some path \<Rightarrow>
              if path = [] then Inr None
              else bindE (resolve_dotted import_attr path) (\<lambda>candidate.
                     Inr (case candidate of Callable d \<Rightarrow> Some d | Other \<Rightarrow> None))))"

subsection \<open>Votes\<close>

definition type_name :: "pyval \<Rightarrow> string" where
  "type_name v = (case v of VNone \<Rightarrow> ''NoneType'' | VBool _ \<Rightarrow> ''bool'' | VInt _ \<Rightarrow> ''int'' | VFloat _ \<Rightarrow> ''float''
     | VStr _ \<Rightarrow> ''str'' | VList _ \<Rightarrow> ''list'' | VDict _ \<Rightarrow> ''dict'')"

definition reject :: "string \<Rightarrow> vote" where
  "reject reason = \<lparr>v_verdict = Rejected, v_reason = reason\<rparr>"

text \<open>\<open>explain\<close> is the message of \<^verbatim>\<open>JSONDecodeError\<close> for a text.\<close>

definition parse_vote :: "(string \<Rightarrow> string) \<Rightarrow> string \<Rightarrow> vote" where
  "parse_vote explain raw = (case json_loads raw of
     None \<Rightarrow> reject (''verifier_response_not_json: '' @ explain raw)
   | Some payload \<Rightarrow>
       (case payload of
          VDict d \<Rightarrow>
            (let verdict_raw = dget d ''verdict''; reason = str_take 280 (py_str (dget_or d ''reason'' (VStr []))) in
             if verdict_raw = VStr ''passed'' then \<lparr>v_verdict = Passed, v_reason = reason\<rparr>
             else if verdict_raw = VStr ''rejected'' then reject reason
             else reject (''unknown_verdict: '' @ py_repr verdict_raw))
        | _ \<Rightarrow> reject (''verifier_response_not_object: '' @ type_name payload)))"

subsection \<open>The panel\<close>

record brief =
  b_state :: string
  b_run_id :: string

definition slot_context :: "string \<Rightarrow> brief \<Rightarrow> nat \<Rightarrow> dict" where
  "slot_context role brief slot =
     [(''role'', VStr role), (''slot'', VInt (int slot)), (''state_id'', VStr (b_state brief)),
      (''run_id'', VStr (b_run_id brief))]"

definition cast_vote ::
  "(string \<Rightarrow> string) \<Rightarrow> 'w dispatcher \<Rightarrow> string \<Rightarrow> string \<Rightarrow> brief \<Rightarrow> nat \<Rightarrow> 'w \<Rightarrow> vote \<times> 'w" where
  "cast_vote explain dispatch prompt role brief slot w =
     (case dispatch w prompt (slot_context role brief slot) of
        (Inl (name, message), w') \<Rightarrow> (reject (str_take 280 (''dispatcher_raised: '' @ name @ '': '' @ message)), w')
      | (Inr raw, w') \<Rightarrow> (parse_vote explain raw, w'))"

fun cast_votes ::
  "(string \<Rightarrow> string) \<Rightarrow> 'w dispatcher \<Rightarrow> string \<Rightarrow> string \<Rightarrow> brief \<Rightarrow> nat list \<Rightarrow> 'w \<Rightarrow> vote list \<times> 'w" where
  "cast_votes explain dispatch prompt role brief [] w = ([], w)"
| "cast_votes explain dispatch prompt role brief (slot # slots) w =
     (let (v, w') = cast_vote explain dispatch prompt role brief slot w;
          (vs, w'') = cast_votes explain dispatch prompt role brief slots w'
      in (v # vs, w''))"

text \<open>The handler, with the prompt that the renderer made of the brief and the outputs.\<close>

definition llm_verifier_handler ::
  "(string \<Rightarrow> string) \<Rightarrow> 'w dispatcher option \<Rightarrow> string \<Rightarrow> string \<Rightarrow> int \<Rightarrow> brief \<Rightarrow> 'w \<Rightarrow> vote list \<times> 'w" where
  "llm_verifier_handler explain dispatcher prompt role parallel_count brief w =
     (case dispatcher of
        None \<Rightarrow> (replicate (nat parallel_count) (reject ''no_llm_dispatcher_registered''), w)
      | Some dispatch \<Rightarrow> cast_votes explain dispatch prompt role brief [0..<nat parallel_count] w)"

subsection \<open>Installation\<close>

text \<open>
  The flag of the module and whether the engine has the handler; the result is whether a handler
  is installed.
\<close>

record install_state =
  is_installed :: bool
  handler_set :: bool

definition install_verifier_handler :: "'w dispatcher option res \<Rightarrow> install_state \<Rightarrow> bool res \<times> install_state" where
  "install_verifier_handler found st =
     (if is_installed st then (Inr True, st)
      else (case found of
              Inl e \<Rightarrow> (Inl e, st)
            | Inr None \<Rightarrow> (Inr False, st)
            | Inr (Some _) \<Rightarrow> (Inr True, st\<lparr>handler_set := True, is_installed := True\<rparr>)))"

subsection \<open>Lemmas\<close>

lemma parse_vote_passed:
  "v_verdict (parse_vote explain raw) = Passed \<longleftrightarrow>
     (\<exists>d. json_loads raw = Some (VDict d) \<and> dget d ''verdict'' = VStr ''passed'')"
  by (auto simp: parse_vote_def reject_def Let_def split: option.splits pyval.splits)

lemma cast_vote_passed:
  "v_verdict (fst (cast_vote explain dispatch prompt role brief slot w)) = Passed \<longleftrightarrow>
     (\<exists>raw w' d. dispatch w prompt (slot_context role brief slot) = (Inr raw, w')
        \<and> json_loads raw = Some (VDict d) \<and> dget d ''verdict'' = VStr ''passed'')"
  by (cases "dispatch w prompt (slot_context role brief slot)")
    (auto simp: cast_vote_def parse_vote_passed reject_def split: sum.splits)

text \<open>The worlds the slots are called in.\<close>

fun slot_world ::
  "(string \<Rightarrow> string) \<Rightarrow> 'w dispatcher \<Rightarrow> string \<Rightarrow> string \<Rightarrow> brief \<Rightarrow> 'w \<Rightarrow> nat \<Rightarrow> 'w" where
  "slot_world explain dispatch prompt role brief w 0 = w"
| "slot_world explain dispatch prompt role brief w (Suc k) =
     snd (cast_vote explain dispatch prompt role brief k (slot_world explain dispatch prompt role brief w k))"

lemma cast_votes_append:
  "cast_votes explain dispatch prompt role brief (ks @ ls) w =
     (let (vs, w') = cast_votes explain dispatch prompt role brief ks w;
          (us, w'') = cast_votes explain dispatch prompt role brief ls w'
      in (vs @ us, w''))"
  by (induction ks arbitrary: w) (auto simp: Let_def split: prod.splits)

lemma cast_votes_slots:
  "cast_votes explain dispatch prompt role brief [0..<n] w =
     (map (\<lambda>k. fst (cast_vote explain dispatch prompt role brief k (slot_world explain dispatch prompt role brief w k))) [0..<n],
      slot_world explain dispatch prompt role brief w n)"
  by (induction n) (auto simp: cast_votes_append Let_def split: prod.splits)

subsection \<open>Property\<close>

text \<open>
  C17: the panel fails closed: it has as many votes as it was asked for, whatever the
  dispatcher does, and a vote passes only where the dispatcher, called in the slot's turn, returned
  a JSON object whose verdict is \<^verbatim>\<open>passed\<close>; an exception, a text that is no JSON object or an unknown
  verdict rejects. Without a dispatcher every slot still votes, and rejects: so \<^verbatim>\<open>docs/verifier-panel.md\<close>,
  while the docstring of \<^verbatim>\<open>llm_verifier_handler\<close> speaks of one single rejected vote there.
\<close>

theorem panel_fails_closed:
  "length (fst (llm_verifier_handler explain dispatcher prompt role parallel_count brief w)) = nat parallel_count
   \<and> (\<forall>k<nat parallel_count.
        v_verdict (fst (llm_verifier_handler explain dispatcher prompt role parallel_count brief w) ! k) = Passed \<longleftrightarrow>
        (\<exists>dispatch raw w' d. dispatcher = Some dispatch
           \<and> dispatch (slot_world explain dispatch prompt role brief w k) prompt (slot_context role brief k) = (Inr raw, w')
           \<and> json_loads raw = Some (VDict d) \<and> dget d ''verdict'' = VStr ''passed''))"
proof (cases dispatcher)
  case None
  then show ?thesis by (simp add: llm_verifier_handler_def reject_def)
next
  case (Some dispatch)
  then show ?thesis
    by (simp add: llm_verifier_handler_def cast_votes_slots cast_vote_passed)
qed

text \<open>A dispatcher that passes once and fails afterwards.\<close>

definition flaky_dispatcher :: "nat dispatcher" where
  "flaky_dispatcher w prompt ctx =
     (if w = 0 then (Inr (''{'' @ [CHR 0x22] @ ''verdict'' @ [CHR 0x22] @ '':'' @ [CHR 0x22] @ ''passed'' @ [CHR 0x22] @ ''}''), 1)
      else (Inl (''TimeoutError'', ''late''), w))"

theorem panel_fails_closed_witness:
  "map v_verdict (fst (llm_verifier_handler (\<lambda>_. []) (Some flaky_dispatcher) ''p'' ''critic'' 2
      \<lparr>b_state = ''scan_project'', b_run_id = ''r''\<rparr> 0)) = [Passed, Rejected]"
proof -
  let ?votes = "fst (llm_verifier_handler (\<lambda>_. []) (Some flaky_dispatcher) ''p'' ''critic'' 2
      \<lparr>b_state = ''scan_project'', b_run_id = ''r''\<rparr> 0)"
  note spec = panel_fails_closed [of "\<lambda>_. []" "Some flaky_dispatcher" "''p''" "''critic''" 2
      "\<lparr>b_state = ''scan_project'', b_run_id = ''r''\<rparr>" 0]
  have "json_loads (''{'' @ [CHR 0x22] @ ''verdict'' @ [CHR 0x22] @ '':'' @ [CHR 0x22] @ ''passed'' @ [CHR 0x22] @ ''}'')
      = Some (VDict [(''verdict'', VStr ''passed'')])" by code_simp
  then have "v_verdict (?votes ! 0) = Passed" using spec by (auto simp: flaky_dispatcher_def)
  moreover have "v_verdict (?votes ! 1) \<noteq> Passed"
    using spec by (auto simp: flaky_dispatcher_def cast_vote_def numeral_2_eq_2)
  moreover have "length ?votes = 2" using spec by simp
  ultimately show ?thesis
    by (cases ?votes; cases "tl ?votes") (auto intro: verdict.exhaust)
qed

end
