(* ===== verification/Backends.thy ===== *)
theory Backends
  imports Dispatch JsonParse
begin

section \<open>Backends\<close>

text \<open>
  The agent backends of \<^verbatim>\<open>code_review/dispatch.py\<close>: the command line of each, what is made of the
  process that ran it, and how an agent's text becomes a JSON object. Running the process, the
  environment variables and the SDKs are arguments.
\<close>

subsection \<open>Failures\<close>

text \<open>A call ends in one of the two signals the runner knows, or in another exception.\<close>

datatype failure = Signal signal | Failed pyerr

type_synonym 'a attempt = "failure + 'a"

fun bindF :: "'a attempt \<Rightarrow> ('a \<Rightarrow> 'b attempt) \<Rightarrow> 'b attempt" where
  "bindF (Inl e) f = Inl e"
| "bindF (Inr x) f = f x"

definition lift_res :: "'a res \<Rightarrow> 'a attempt" where
  "lift_res r = (case r of Inl e \<Rightarrow> Inl (Failed e) | Inr x \<Rightarrow> Inr x)"

lemma bindF_Inr_iff [res_simps]: "bindF m f = Inr y \<longleftrightarrow> (\<exists>x. m = Inr x \<and> f x = Inr y)"
  by (cases m) auto

lemma lift_res_Inr [res_simps]: "lift_res r = Inr y \<longleftrightarrow> r = Inr y"
  by (cases r) (auto simp: lift_res_def)

text \<open>\<^verbatim>\<open>_raise_for_signal(text)\<close> before another exception.\<close>

definition signal_or :: "string \<Rightarrow> failure \<Rightarrow> failure" where
  "signal_or text e = (case raise_for_signal text of Some s \<Rightarrow> Signal s | None \<Rightarrow> e)"

subsection \<open>Commands\<close>

definition claude_model :: "string \<Rightarrow> string" where
  "claude_model tier = (if tier = ''strong'' then ''opus'' else ''sonnet'')"

definition claude_cmd :: "string \<Rightarrow> string \<Rightarrow> string list" where
  "claude_cmd prompt tier = [''claude'', ''-p'', prompt, ''--output-format'', ''json'',
     ''--permission-mode'', ''bypassPermissions'', ''--model'', claude_model tier]"

definition env_model :: "(string \<Rightarrow> string option) \<Rightarrow> string \<Rightarrow> string \<Rightarrow> string option" where
  "env_model getenv pre tier = (case getenv (pre @ upper tier) of
     Some m \<Rightarrow> if m = [] then None else Some m | None \<Rightarrow> None)"

definition codex_cmd :: "(string \<Rightarrow> string option) \<Rightarrow> string \<Rightarrow> string \<Rightarrow> string \<Rightarrow> string \<Rightarrow> string list" where
  "codex_cmd getenv cwd last_file prompt tier =
     [''codex'', ''exec'', ''-C'', cwd, ''-s'', ''read-only'', ''--skip-git-repo-check'', ''-o'', last_file]
     @ (case env_model getenv ''CTXR_CODEX_MODEL_'' tier of Some m \<Rightarrow> [''-m'', m] | None \<Rightarrow> []) @ [prompt]"

definition cursor_cmd :: "(string \<Rightarrow> string option) \<Rightarrow> string \<Rightarrow> string \<Rightarrow> string list" where
  "cursor_cmd getenv prompt tier =
     [''cursor-agent'', ''-p'', prompt, ''--output-format'', ''json'']
     @ (case env_model getenv ''CTXR_CURSOR_MODEL_'' tier of Some m \<Rightarrow> [''--model'', m] | None \<Rightarrow> [])"

subsection \<open>Outcomes of a process\<close>

datatype proc = TimedOut | Exited int string string

definition exit_error :: "string \<Rightarrow> int \<Rightarrow> string \<Rightarrow> string \<Rightarrow> failure" where
  "exit_error name code out err = signal_or (out @ err) (Failed (Raised ''RuntimeError''))"

definition claude_run :: "proc \<Rightarrow> (string \<times> dict option) attempt" where
  "claude_run p = (case p of
     TimedOut \<Rightarrow> Inl (Signal (SignalRateLimit ''claude timeout''))
   | Exited code out err \<Rightarrow>
       if code \<noteq> 0 then Inl (exit_error ''claude'' code out err)
       else (case json_loads out of
               None \<Rightarrow> Inl (Failed (Raised ''JSONDecodeError''))
             | Some (VDict env) \<Rightarrow>
                 if truthy (dget env ''is_error'') \<or> truthy (dget env ''api_error_status'')
                 then Inl (signal_or (py_str (dget_or env ''api_error_status'' (VStr []))
                        @ py_str (dget_or env ''subtype'' (VStr []))) (Failed (Raised ''RuntimeError'')))
                 else bindF (lift_res (usage_from_envelope (VDict env))) (\<lambda>usage.
                        Inr (py_str (dget_or env ''result'' (VStr [])), usage))
             | Some _ \<Rightarrow> Inl (Failed AttributeError)))"

definition codex_run :: "proc \<Rightarrow> string option \<Rightarrow> (string \<times> dict option) attempt" where
  "codex_run p last_text = (case p of
     TimedOut \<Rightarrow> Inl (Signal (SignalRateLimit ''codex timeout''))
   | Exited code out err \<Rightarrow>
       if code \<noteq> 0 then Inl (exit_error ''codex'' code out err)
       else Inr ((case last_text of Some t \<Rightarrow> t | None \<Rightarrow> out), None))"

definition cursor_run :: "proc \<Rightarrow> (string \<times> dict option) attempt" where
  "cursor_run p = (case p of
     TimedOut \<Rightarrow> Inl (Signal (SignalRateLimit ''cursor timeout''))
   | Exited code out err \<Rightarrow>
       if code \<noteq> 0 then Inl (exit_error ''cursor-agent'' code out err)
       else (case json_loads out of
               None \<Rightarrow> Inr (out, None)
             | Some (VDict env) \<Rightarrow> Inr (py_str (dget_or env ''result'' (dget_or env ''response'' (VStr out))), None)
             | Some _ \<Rightarrow> Inl (Failed AttributeError)))"

text \<open>
  \<^verbatim>\<open>_api_run\<close>: the SDK call is an argument, an exception by its class and text or the answer's text
  and usage object.
\<close>

datatype sdk_outcome = SdkRaised string string | SdkText string "dict option"

definition api_model :: "(string \<Rightarrow> string option) \<Rightarrow> string \<Rightarrow> string \<Rightarrow> string" where
  "api_model getenv provider tier =
     (if provider = ''anthropic''
      then (case getenv (''CTXR_ANTHROPIC_MODEL_'' @ upper tier) of Some m \<Rightarrow> m
            | None \<Rightarrow> if tier = ''strong'' then ''claude-opus-4-8'' else ''claude-sonnet-4-6'')
      else (case getenv (''CTXR_OPENAI_MODEL_'' @ upper tier) of Some m \<Rightarrow> m
            | None \<Rightarrow> if tier = ''strong'' then ''gpt-5.2'' else ''gpt-5.2-mini''))"

definition api_run :: "string \<Rightarrow> sdk_outcome \<Rightarrow> (string \<times> dict option) attempt" where
  "api_run provider r = (case r of
     SdkRaised name text \<Rightarrow> Inl (signal_or text (Failed (Raised name)))
   | SdkText text usage \<Rightarrow>
       (case (if provider = ''anthropic'' then usage_from_sdk usage else openai_usage_from_sdk usage) of
          Inl e \<Rightarrow> Inl (Failed e) | Inr u \<Rightarrow> Inr (text, u)))"

subsection \<open>The JSON object of an answer\<close>

definition is_letter :: "char \<Rightarrow> bool" where
  "is_letter c \<longleftrightarrow> (CHR ''a'' \<le> c \<and> c \<le> CHR ''z'') \<or> (CHR ''A'' \<le> c \<and> c \<le> CHR ''Z'')"

abbreviation fence :: string where "fence \<equiv> [CHR 0x60, CHR 0x60, CHR 0x60]"

text \<open>\<^verbatim>\<open>s.rsplit(sep, 1)[0]\<close>: what is before the last \<open>sep\<close>, or all.\<close>

fun before_last :: "string \<Rightarrow> string \<Rightarrow> string" where
  "before_last sep [] = []"
| "before_last sep (c # s) =
     (if contains sep s then c # before_last sep s
      else if prefix sep (c # s) then [] else c # s)"

definition open_fence :: "string \<Rightarrow> string" where
  "open_fence t = (case dropWhile is_letter (drop 3 t) of
     c # r \<Rightarrow> if c = newline then r else c # r | [] \<Rightarrow> [])"

definition strip_fence :: "string \<Rightarrow> string" where
  "strip_fence t = (if prefix fence t then before_last fence (open_fence t) else t)"

text \<open>\<^verbatim>\<open>t[a:b + 1]\<close> from the first opening to the last closing brace, where both are, in order.\<close>

definition braces :: "string \<Rightarrow> string" where
  "braces t =
     (let r = dropWhile (\<lambda>c. c \<noteq> CHR ''{'') t; k = rev (dropWhile (\<lambda>c. c \<noteq> CHR ''}'') (rev r))
      in if r = [] \<or> k = [] then t else k)"

definition parse_json :: "string \<Rightarrow> dict attempt" where
  "parse_json text =
     (let t = strip text in
      if t = [] then Inl (Signal (SignalRateLimit ''empty agent response''))
      else (case json_loads (braces (strip_fence t)) of
              None \<Rightarrow> Inl (signal_or text (Signal (SignalRateLimit
                        (''unparseable agent response: '' @ repr_str (str_take 160 t)))))
            | Some (VDict d) \<Rightarrow> Inr d
            | Some v \<Rightarrow> Inr [(''_raw'', v)]))"

end
