(* ===== verification/Dispatchers.thy ===== *)
theory Dispatchers
  imports Backends Runner JsonRoundtrip
begin

section \<open>The dispatchers\<close>

text \<open>
  \<^verbatim>\<open>make_dispatchers\<close> of \<^verbatim>\<open>code_review/dispatch.py\<close>: the two hooks that the runner calls, built over a
  backend. They are hooks in the sense of theory \<open>Runner\<close>, so its results apply to them. The
  texts of the prompts, the leaves of the wiki, the backend and the time between two worlds are
  the fields of \<open>agent\<close>.
\<close>

text \<open>The backend as the dispatchers call it: a prompt and a tier to a result or a failure.\<close>

record 'w agent =
  ag_run :: "string \<Rightarrow> string \<Rightarrow> 'w \<Rightarrow> backend_result attempt \<times> 'w"
  ag_prompt :: "string \<Rightarrow> string"
  ag_leaf :: "string \<Rightarrow> string option"
  ag_wall_ms :: "'w \<Rightarrow> 'w \<Rightarrow> int"
  ag_base :: string
  ag_head :: string

definition role_by_state :: "(string \<times> string) list" where
  "role_by_state = [(''scan_project'', ''project-scanner''), (''tree_descend'', ''tree-descender''),
     (''llm_trim'', ''trim-candidates''), (''tool_discovery'', ''tool-runner''), (''rank_findings'', ''finding-ranker'')]"

definition worker_input_cap :: nat where "worker_input_cap = 160000"

definition output_rule :: string where
  "output_rule = [newline, newline] @ ''## OUTPUT CONTRACT'' @ [newline]
     @ ''Return ONLY a single raw JSON object matching this worker's response schema as your final message ''
     @ em_dash @ '' no prose, no markdown fences, no file writes.'' @ [newline]"

definition json_fenced :: "nat \<Rightarrow> pyval \<Rightarrow> string" where
  "json_fenced cap v = fence @ ''json'' @ [newline] @ str_take cap (json_compact v) @ [newline] @ fence"

subsection \<open>The ranker\<close>

text \<open>\<^verbatim>\<open>v[:240]\<close>.\<close>

definition slice_240 :: "pyval \<Rightarrow> pyval res" where
  "slice_240 v = (case v of VStr s \<Rightarrow> Inr (VStr (str_take 240 s)) | VList xs \<Rightarrow> Inr (VList (take 240 xs))
     | _ \<Rightarrow> Inl TypeError)"

definition indexed_finding :: "nat \<times> pyval \<Rightarrow> dict res" where
  "indexed_finding p = (case snd p of
     VDict f \<Rightarrow>
       bindE (slice_240 (py_or (dget f ''description'') (VStr []))) (\<lambda>description.
       Inr [(''i'', VInt (int (fst p))), (''severity'', dget f ''severity''), (''file'', dget f ''file''),
            (''line'', dget f ''line''), (''title'', dget f ''title''), (''description'', description),
            (''flagged_by'', py_or (dget f ''flagged_by'') (VList [])), (''corroboration'', dget f ''corroboration'')])
   | _ \<Rightarrow> Inl AttributeError)"

definition rank_prompt :: "'w agent \<Rightarrow> dict \<Rightarrow> dict list \<Rightarrow> string" where
  "rank_prompt ag inputs indexed =
     ag_prompt ag ''finding-ranker'' @ [newline, newline] @ ''## RUN INPUTS'' @ [newline]
     @ json_fenced worker_input_cap (VDict
         [(''findings'', VList (map VDict indexed)), (''changed_paths'', py_or (dget inputs ''changed_paths'') (VList [])),
          (''args'', py_or (dget inputs ''args'') (VDict []))])
     @ [newline, newline] @ ''## OUTPUT CONTRACT'' @ [newline]
     @ ''Return ONLY {'' @ [CHR 0x22] @ ''decisions'' @ [CHR 0x22] @ '':[...]} as described above '' @ em_dash
     @ '' no prose, no markdown fences, no file writes.'' @ [newline]"

text \<open>One call of the backend and the object in its text, with the tier, the usage and the time.\<close>

definition call_agent :: "'w agent \<Rightarrow> string \<Rightarrow> string \<Rightarrow> 'w \<Rightarrow> (dict \<times> string \<times> dict option \<times> int) attempt \<times> 'w" where
  "call_agent ag prompt tier w =
     (let (r, w') = ag_run ag prompt tier w in
      (bindF r (\<lambda>out. let (text, usage) = call_backend out in
         bindF (parse_json text) (\<lambda>d. Inr (d, text, usage, ag_wall_ms ag w w'))), w'))"

definition args_dict :: "pyval \<Rightarrow> dict res" where
  "args_dict v = (case py_or v (VDict []) of VDict d \<Rightarrow> Inr d | _ \<Rightarrow> Inl AttributeError)"

definition dispatch_ranker :: "'w agent \<Rightarrow> dict \<Rightarrow> 'w \<Rightarrow> dict attempt \<times> 'w" where
  "dispatch_ranker ag inputs w =
     (case bindE (py_iter (py_or (dget inputs ''findings'') (VList []))) (\<lambda>xs.
           bindE (mapE indexed_finding (enumerate 0 xs)) (\<lambda>indexed. Inr (dicts_of xs, indexed))) of
        Inl e \<Rightarrow> (Inl (Failed e), w)
      | Inr (findings, indexed) \<Rightarrow>
          (let prompt = rank_prompt ag inputs indexed;
               (answer, w') = call_agent ag prompt ''cheap'' w
           in (bindF answer (\<lambda>(parsed, text, usage, wall).
                 lift_res (bindE (args_dict (dget inputs ''args'')) (\<lambda>args.
                   bindE (apply_rank_decisions findings (dget parsed ''decisions'') args) (\<lambda>ranked.
                   stamp_cost (dset ''wall_ms'' (VInt wall) ranked) ''cheap'' usage prompt text)))), w')))"

subsection \<open>Workers\<close>

definition rehydrated :: "string \<Rightarrow> dict \<Rightarrow> dict \<Rightarrow> dict res" where
  "rehydrated state_id inputs out =
     (let again = (\<lambda>key source.
            if is_list (dget out key)
            then bindE (rehydrate (dget out key) (index_by_id (dget inputs source))) (\<lambda>leaves.
                   Inr (dset key (VList (map VDict leaves)) out))
            else Inr out) in
      if state_id = ''tree_descend'' then again ''stage_a_candidates'' ''activated_leaves''
      else if state_id = ''llm_trim'' then again ''picked_leaves'' ''stage_a_candidates''
      else Inr out)"

definition worker_prompt :: "'w agent \<Rightarrow> string \<Rightarrow> dict \<Rightarrow> string" where
  "worker_prompt ag role inputs =
     ag_prompt ag role @ [newline, newline] @ ''## RUN INPUTS (review base '' @ ag_base ag @ ''..head '' @ ag_head ag
     @ '' in this repo)'' @ [newline] @ json_fenced worker_input_cap (VDict (compact_inputs inputs)) @ output_rule"

definition dispatch_plain_worker :: "'w agent \<Rightarrow> string \<Rightarrow> dict \<Rightarrow> 'w \<Rightarrow> dict attempt \<times> 'w" where
  "dispatch_plain_worker ag state_id inputs w = (case map_of role_by_state state_id of
     None \<Rightarrow> (Inl (Failed KeyError), w)
   | Some role \<Rightarrow>
       (let prompt = worker_prompt ag role inputs;
            (answer, w') = call_agent ag prompt ''cheap'' w
        in (bindF answer (\<lambda>(out, text, usage, wall).
              lift_res (bindE (stamp_cost (dset ''wall_ms'' (VInt wall) out) ''cheap'' usage prompt text)
                (rehydrated state_id inputs))), w')))"

definition dispatch_worker :: "'w agent \<Rightarrow> string \<Rightarrow> dict \<Rightarrow> 'w \<Rightarrow> dict attempt \<times> 'w" where
  "dispatch_worker ag state_id inputs w =
     (if state_id = ''rank_findings'' then dispatch_ranker ag inputs w
      else dispatch_plain_worker ag state_id inputs w)"

subsection \<open>Specialists\<close>

text \<open>\<^verbatim>\<open>{lf.get("id"): lf for lf in leaves}.get(leaf_id, {})\<close>: the last leaf with the id.\<close>

definition picked_leaf :: "pyval \<Rightarrow> pyval \<Rightarrow> dict res" where
  "picked_leaf leaves leaf_id =
     bindE (py_iter (py_or leaves (VList []))) (\<lambda>xs.
     bindE (mapE (\<lambda>x. case x of VDict d \<Rightarrow> if hashable (dget d ''id'') then Inr d else Inl TypeError
                      | _ \<Rightarrow> Inl AttributeError) xs) (\<lambda>ds.
     if \<not> hashable leaf_id then Inl TypeError
     else Inr (case List.find (\<lambda>d. py_eq (dget d ''id'') leaf_id) (rev ds) of None \<Rightarrow> [] | Some d \<Rightarrow> d)))"

definition leaf_body :: "'w agent \<Rightarrow> dict \<Rightarrow> string res" where
  "leaf_body ag leaf = (let wiki_path = dget leaf ''path'' in
     if \<not> truthy wiki_path then Inr []
     else (case wiki_path of VStr p \<Rightarrow> Inr (case ag_leaf ag p of None \<Rightarrow> [] | Some body \<Rightarrow> body)
           | _ \<Rightarrow> Inl TypeError))"

definition specialist_prompt :: "'w agent \<Rightarrow> pyval \<Rightarrow> string \<Rightarrow> dict \<Rightarrow> dict \<Rightarrow> string" where
  "specialist_prompt ag leaf_id body unit shared =
     ag_prompt ag ''specialist'' @ [newline, newline] @ ''## YOUR LEAF: '' @ py_str leaf_id @ [newline] @ body
     @ [newline, newline] @ ''## REVIEW TARGET'' @ [newline] @ ''Run `git diff '' @ ag_base ag @ ''..'' @ ag_head ag
     @ ''` here; your files: '' @ json_compact (py_or (dget unit ''files'') (VList []))
     @ ''. Read import-connected files to verify.'' @ [newline] @ ''## PROJECT'' @ [newline]
     @ json_fenced 4000 (py_or (dget shared ''project_profile'') (VDict [])) @ output_rule
     @ ''Return {'' @ [CHR 0x22] @ ''id'' @ [CHR 0x22] @ '':'' @ [CHR 0x22] @ py_str leaf_id @ [CHR 0x22] @ '',''
     @ [CHR 0x22] @ ''status'' @ [CHR 0x22] @ '':'' @ [CHR 0x22] @ ''completed'' @ [CHR 0x22] @ '',''
     @ [CHR 0x22] @ ''findings'' @ [CHR 0x22] @ '':[...]}.''"

definition finish_specialist :: "pyval \<Rightarrow> string \<Rightarrow> string \<Rightarrow> dict \<times> string \<times> dict option \<times> int \<Rightarrow> dict res" where
  "finish_specialist leaf_id tier prompt answer =
     (let (out, text, usage, wall) = answer in
      bindE (stamp_cost (dset ''wall_ms'' (VInt wall) out) tier usage prompt text) (\<lambda>stamped.
      Inr (strip_fields (dsetdefault ''id'' leaf_id stamped))))"

definition dispatch_specialist :: "'w agent \<Rightarrow> dict \<Rightarrow> dict \<Rightarrow> 'w \<Rightarrow> dict attempt \<times> 'w" where
  "dispatch_specialist ag unit shared w =
     (let leaf_id = dget_or unit ''leaf_id'' (VStr []) in
      case bindE (picked_leaf (dget shared ''picked_leaves'') leaf_id) (\<lambda>leaf.
           bindE (leaf_body ag leaf) (\<lambda>body.
           bindE (route_tier leaf_id (dget leaf ''dimensions'')) (\<lambda>tier. Inr (body, tier)))) of
        Inl e \<Rightarrow> (Inl (Failed e), w)
      | Inr (body, tier) \<Rightarrow>
          (let prompt = specialist_prompt ag leaf_id body unit shared;
               (answer, w') = call_agent ag prompt tier w
           in (bindF answer (\<lambda>a. lift_res (finish_specialist leaf_id tier prompt a)), w')))"

subsection \<open>The hooks of the runner\<close>

definition error_name :: "pyerr \<Rightarrow> string" where
  "error_name e = (case e of TypeError \<Rightarrow> ''TypeError'' | ValueError \<Rightarrow> ''ValueError'' | KeyError \<Rightarrow> ''KeyError''
     | AttributeError \<Rightarrow> ''AttributeError'' | OverflowError \<Rightarrow> ''OverflowError'' | IndexError \<Rightarrow> ''IndexError''
     | Raised name \<Rightarrow> name | MissedFileError _ _ \<Rightarrow> ''MissedFileError''
     | DispatchLoopExitedEarlyError _ _ \<Rightarrow> ''DispatchLoopExitedEarlyError'')"

definition answer_of :: "dict attempt \<Rightarrow> answer" where
  "answer_of r = (case r of Inr out \<Rightarrow> Answer out
     | Inl (Signal (SignalRateLimit _)) \<Rightarrow> RaiseRateLimit
     | Inl (Signal (SignalOverflow _)) \<Rightarrow> RaiseOverflow
     | Inl (Failed e) \<Rightarrow> RaiseOther (error_name e))"

definition specialist_hook :: "'w agent \<Rightarrow> 'w specialist_hook" where
  "specialist_hook ag unit shared w = map_prod answer_of id (dispatch_specialist ag unit shared w)"

definition worker_hook :: "'w agent \<Rightarrow> 'w worker_hook" where
  "worker_hook ag state_id inputs w = map_prod answer_of id (dispatch_worker ag state_id inputs w)"

subsection \<open>Keys of what is read\<close>

lemma json_members_dict:
  "json_members n d s = Some (v, r) \<Longrightarrow> distinct (map fst d) \<Longrightarrow> \<exists>d'. v = VDict d' \<and> distinct (map fst d')"
proof (induction n arbitrary: d s)
  case 0
  then show ?case by simp
next
  case (Suc n)
  from Suc.prems(1) obtain c s' k r1 c' r2 w r3 e z where "s = c # s'" "json_chars s' = Some (k, r1)"
      "json_skip r1 = c' # r2" "json_value n (json_skip r2) = Some (w, r3)" "json_skip r3 = e # z"
      and rest: "v = VDict (dset k w d) \<or> json_members n (dset k w d) (json_skip z) = Some (v, r)"
    by (auto simp del: json_value.simps split: list.splits option.splits if_splits)
  moreover have "distinct (map fst (dset k w d))" using Suc.prems(2) by (rule distinct_update)
  ultimately show ?case using Suc.IH by blast
qed

lemma json_elems_list: "json_elems n acc s = Some (v, r) \<Longrightarrow> is_list v"
  by (induction n arbitrary: acc s) (auto simp: is_list_def split: list.splits option.splits if_splits)

lemma json_literal_atoms: "json_literal s = Some (v, r) \<Longrightarrow> json_atom v"
  by (auto simp: json_literal_def json_number_def json_unsigned_def json_atom_def is_list_def is_dict_def is_str_def Let_def
      split: if_splits list.splits option.splits prod.splits)

lemma json_value_dict: "json_value n s = Some (VDict d, r) \<Longrightarrow> distinct (map fst d)"
proof (cases n)
  case (Suc m)
  assume "json_value n s = Some (VDict d, r)"
  then show ?thesis
    by (auto simp: Suc json_atom_def is_list_def is_dict_def split: list.splits if_splits option.splits
        dest!: json_elems_list json_literal_atoms json_members_dict)
qed simp

lemma json_loads_dict: "json_loads s = Some (VDict d) \<Longrightarrow> distinct (map fst d)"
  by (auto simp: json_loads_def simp del: json_value.simps split: option.splits prod.splits if_splits dest: json_value_dict)

lemma parse_json_keys: "parse_json text = Inr d \<Longrightarrow> distinct (map fst d)"
  by (auto simp: parse_json_def Let_def split: if_splits option.splits pyval.splits dest: json_loads_dict)

subsection \<open>A JSON object is found in the text around it\<close>

lemma json_block_shape: "\<exists>t. json_block p lv l r items = l # t @ [r]"
  by (auto simp: json_block_def)

lemma json_object_shape:
  obtains t where "json_at p s lv (VDict d) = CHR ''{'' # t @ ''}''"
  using json_block_shape [of p lv "CHR ''{''" "CHR ''}''"] by (auto simp: Let_def)

lemma braces_around:
  assumes "CHR ''{'' \<notin> set pre" "CHR ''}'' \<notin> set post"
  shows "braces (pre @ (CHR ''{'' # t @ ''}'') @ post) = CHR ''{'' # t @ ''}''"
proof -
  have "dropWhile (\<lambda>c. c \<noteq> CHR ''{'') (pre @ CHR ''{'' # x) = CHR ''{'' # x" for x
    using assms(1) by (induction pre) auto
  moreover have "dropWhile (\<lambda>c. c \<noteq> CHR ''}'') (rev post @ CHR ''}'' # x) = CHR ''}'' # x" for x
    using assms(2) by (induction post rule: rev_induct) auto
  ultimately show ?thesis by (simp add: braces_def Let_def)
qed

lemma contains_length: "contains p s \<Longrightarrow> length p \<le> length s"
  by (induction p s rule: contains.induct) (auto dest: prefix_length_le)

lemma contains_append: "contains p (x @ p)"
  by (induction x) (auto, metis contains.elims(3) list.discI prefix_order.refl)

lemma before_last_end: "sep \<noteq> [] \<Longrightarrow> before_last sep (x @ sep) = x"
proof (induction x)
  case Nil
  then obtain c s where "sep = c # s" by (cases sep) auto
  then show ?case by (auto dest: contains_length)
next
  case (Cons c x)
  then show ?case by (simp add: contains_append)
qed

lemma strip_between:
  assumes "\<not> is_space c" "\<not> is_space e"
  shows "strip (pre @ (c # t @ [e]) @ post) = lstrip pre @ (c # t @ [e]) @ rstrip post"
proof -
  have "lstrip (pre @ (c # t @ [e]) @ post) = lstrip pre @ (c # t @ [e]) @ post"
    using assms(1) by (induction pre) (auto simp: lstrip_def)
  moreover have "rstrip ((y @ [e]) @ post) = (y @ [e]) @ rstrip post" for y
    using assms(2) by (induction post rule: rev_induct) (auto simp: rstrip_def)
  from this [of "lstrip pre @ c # t"] have "rstrip (lstrip pre @ (c # t @ [e]) @ post) = lstrip pre @ (c # t @ [e]) @ rstrip post"
    by simp
  ultimately show ?thesis by (simp add: strip_def)
qed

lemma brace_not_space: "\<not> is_space CHR ''{''" "\<not> is_space CHR ''}''" "\<not> is_space CHR 0x60"
  by code_simp+

lemma parse_json_in_prose:
  assumes "json_ok (VDict d)" "CHR ''{'' \<notin> set pre" "CHR ''}'' \<notin> set post" "\<not> prefix fence (lstrip pre)"
  shows "parse_json (pre @ json_at p False 0 (VDict d) @ post) = Inr d"
proof -
  obtain t where t: "json_at p False 0 (VDict d) = CHR ''{'' # t @ ''}''" by (rule json_object_shape)
  have s: "strip (pre @ (CHR ''{'' # t @ ''}'') @ post) = lstrip pre @ (CHR ''{'' # t @ ''}'') @ rstrip post"
    by (rule strip_between) (rule brace_not_space)+
  have "\<not> prefix fence (lstrip pre @ (CHR ''{'' # t @ ''}'') @ rstrip post)"
    using assms(4) by (cases "lstrip pre"; cases "tl (lstrip pre)"; cases "tl (tl (lstrip pre))") auto
  then have f: "strip_fence (strip (pre @ (CHR ''{'' # t @ ''}'') @ post)) = lstrip pre @ (CHR ''{'' # t @ ''}'') @ rstrip post"
    unfolding s strip_fence_def by simp
  have "CHR ''{'' \<notin> set (lstrip pre)" "CHR ''}'' \<notin> set (rstrip post)"
    using assms(2,3) by (auto simp: lstrip_def rstrip_def dest: set_dropWhileD)
  then have b: "braces (strip_fence (strip (pre @ (CHR ''{'' # t @ ''}'') @ post))) = CHR ''{'' # t @ ''}''"
    unfolding f by (rule braces_around)
  have "json_loads (CHR ''{'' # t @ ''}'') = Some (VDict d)"
    using json_loads_printed [OF assms(1), of "[]" p] t by simp
  then show ?thesis unfolding t unfolding parse_json_def Let_def b by (simp add: strip_between [OF brace_not_space(1,2), simplified])
qed

lemma parse_json_in_fence:
  assumes "json_ok (VDict d)" "list_all is_letter lang"
  shows "parse_json (fence @ lang @ [newline] @ json_at p False 0 (VDict d) @ [newline] @ fence) = Inr d"
proof -
  obtain t where t: "json_at p False 0 (VDict d) = CHR ''{'' # t @ ''}''" by (rule json_object_shape)
  let ?x = "CHR ''{'' # t @ ''}''"
  have s: "strip (fence @ lang @ [newline] @ ?x @ [newline] @ fence) = fence @ lang @ [newline] @ ?x @ [newline] @ fence"
    using strip_between [OF brace_not_space(3,3), of "[]" "[CHR 0x60, CHR 0x60] @ lang @ [newline] @ ?x @ [newline, CHR 0x60, CHR 0x60]" "[]"]
    by (simp add: lstrip_def rstrip_def)
  have "\<not> is_letter newline" by code_simp
  then have "dropWhile is_letter (lang @ [newline] @ r) = [newline] @ r" for r
    using assms(2) by (induction lang) auto
  then have "open_fence (fence @ lang @ [newline] @ ?x @ [newline] @ fence) = (?x @ [newline]) @ fence"
    unfolding open_fence_def by simp
  then have "strip_fence (fence @ lang @ [newline] @ ?x @ [newline] @ fence) = ?x @ [newline]"
    using before_last_end [of fence "?x @ [newline]"] by (simp add: strip_fence_def)
  moreover have "braces (?x @ [newline]) = ?x" using braces_around [of "[]" "[newline]" t] by simp
  moreover have "json_loads ?x = Some (VDict d)"
    using json_loads_printed [OF assms(1), of "[]" p] t by simp
  ultimately show ?thesis unfolding t parse_json_def Let_def s by simp
qed

subsection \<open>What a specialist's answer carries\<close>

definition stamp_keys :: "string list" where
  "stamp_keys = [''wall_ms'', ''tier'', ''tokens_in'', ''tokens_out'', ''cache_create'', ''cache_read'',
     ''cost_usd'', ''est_cost'']"

lemma stamp_cost_fields:
  assumes "stamp_cost d tier usage prompt text = Inr st" "distinct (map fst d)"
  shows "distinct (map fst st)" "map_of st ''tier'' = Some (VStr tier)" "map_of st ''wall_ms'' = map_of d ''wall_ms''"
    and "k \<notin> set stamp_keys \<Longrightarrow> map_of st k = map_of d k"
proof -
  from assms(1) obtain i t cw cr usd c where st: "st = dmerge d [(''tier'', VStr tier), (''tokens_in'', VInt i),
      (''tokens_out'', VInt t), (''cache_create'', VInt cw), (''cache_read'', VInt cr), (''cost_usd'', usd),
      (''est_cost'', VFloat (Fin c))]"
    by (auto simp: stamp_cost_def call_cost_fields_def res_simps)
  show "distinct (map fst st)" unfolding st by (rule dkeys_dmerge(1)) (simp add: assms(2))
  show "map_of st ''tier'' = Some (VStr tier)" "map_of st ''wall_ms'' = map_of d ''wall_ms''"
    "k \<notin> set stamp_keys \<Longrightarrow> map_of st k = map_of d k"
    unfolding st by (subst map_of_dmerge, simp, simp add: stamp_keys_def)+
qed

lemma dget_map_of: "dget d k = (case map_of d k of None \<Rightarrow> VNone | Some v \<Rightarrow> v)"
  by (simp add: dget_def dget_or_def split: option.split)

lemma finish_specialist_fields:
  assumes "finish_specialist leaf_id tier prompt (d, text, usage, wall) = Inr out" "distinct (map fst d)"
  shows "dget out ''tier'' = VStr tier \<and> dget out ''wall_ms'' = VInt wall
    \<and> (\<forall>k. k \<notin> set stamp_keys \<longrightarrow>
         dget out k = strip_nulls (if k = ''id'' \<and> ''id'' \<notin> fst ` set d then leaf_id else dget d k))"
proof -
  from assms(1) obtain st where st: "stamp_cost (dset ''wall_ms'' (VInt wall) d) tier usage prompt text = Inr st"
      and out: "out = strip_fields (dsetdefault ''id'' leaf_id st)"
    by (auto simp: finish_specialist_def res_simps)
  note f = stamp_cost_fields [OF st distinct_update [OF assms(2)]]
  have "distinct (map fst (dsetdefault ''id'' leaf_id st))"
    using f(1) by (auto simp: dsetdefault_def intro: distinct_update)
  then have get: "dget out k = strip_nulls (dget (dsetdefault ''id'' leaf_id st) k)" for k
    unfolding out by (rule dget_strip_fields)
  have "k \<noteq> ''wall_ms'' \<Longrightarrow> k \<notin> set stamp_keys \<Longrightarrow> map_of st k = map_of d k" for k using f(4) [of k] by simp
  then have "map_of st k = map_of d k" if "k \<notin> set stamp_keys" for k
    using that by (auto simp: stamp_keys_def)
  then have "dget out k = strip_nulls (if k = ''id'' \<and> ''id'' \<notin> fst ` set d then leaf_id else dget d k)"
    if "k \<notin> set stamp_keys" for k
    using that unfolding get dsetdefault_def by (auto simp: dget_map_of map_of_eq_None_iff stamp_keys_def)
  moreover have "dget out ''tier'' = VStr tier" "dget out ''wall_ms'' = VInt wall"
    unfolding get dsetdefault_def using f(2,3) by (auto simp: dget_map_of)
  ultimately show ?thesis by blast
qed

text \<open>
  C34: an agent's answer is understood however it wraps it: a JSON object that it writes, pretty or
  compact, is read back exactly whether prose without braces stands around it (and does not
  open with a fence) or the object is the content of a code fence with any language tag.
\<close>

theorem parse_json_extracts:
  assumes "json_ok (VDict d)"
  shows "(CHR ''{'' \<notin> set pre \<and> CHR ''}'' \<notin> set post \<and> \<not> prefix fence (lstrip pre) \<longrightarrow>
       parse_json (pre @ json_at pretty False 0 (VDict d) @ post) = Inr d)
    \<and> (list_all is_letter lang \<longrightarrow>
       parse_json (fence @ lang @ [newline] @ json_at pretty False 0 (VDict d) @ [newline] @ fence) = Inr d)"
  using parse_json_in_prose [OF assms] parse_json_in_fence [OF assms] by blast

theorem parse_json_extracts_witness:
  "parse_json (''Done: '' @ json_at True False 0 (VDict [(''id'', VStr ''sec-xss'')]) @ '' Bye.'')
      = Inr [(''id'', VStr ''sec-xss'')]
   \<and> parse_json (fence @ ''json'' @ [newline] @ json_at True False 0 (VDict [(''id'', VStr ''sec-xss'')]) @ [newline] @ fence)
      = Inr [(''id'', VStr ''sec-xss'')]"
proof -
  have ok: "json_ok (VDict [(''id'', VStr ''sec-xss'')])" by (simp add: json_ok_VDict text_ok_ascii)
  have "\<not> is_space CHR ''D''" "list_all is_letter ''json''" by code_simp+
  then show ?thesis
    using parse_json_extracts [OF ok, of "''Done: ''" "'' Bye.''" True "''json''"] by (simp add: lstrip_def)
qed


definition quiet_agent :: "unit agent" where
  "quiet_agent = \<lparr>ag_run = (\<lambda>prompt tier w. (Inr (Tuple [VStr (json_compact (VDict
       [(''status'', VStr ''completed''), (''skip_reason'', VNone), (''findings'', VList [])])),
       VDict [(''in_tokens'', VInt 1)]]), w)), ag_prompt = (\<lambda>_. []), ag_leaf = (\<lambda>_. None),
     ag_wall_ms = (\<lambda>_ _. 7), ag_base = ''main'', ag_head = ''HEAD''\<rparr>"



end
