(* ===== verification/Wiki.thy ===== *)
theory Wiki
  imports Activation Coverage Sharding
begin

section \<open>The walk over the wiki\<close>

text \<open>
  The two walks over \<^verbatim>\<open>reviewers.wiki/\<close> of \<^verbatim>\<open>code_review/handlers.py\<close>, \<^verbatim>\<open>_enumerate_wiki_leaves\<close> and
  \<^verbatim>\<open>_count_wiki_leaves\<close>, over a tree in which links may lead anywhere, also back or out of the wiki.
  The loop may run for ever on an infinite tree, so \<open>walk\<close> is a partial function; it returns exactly
  when finitely many directories can be reached.
\<close>

subsection \<open>Trees\<close>

text \<open>
  A path is the list of its parts. An entry of a directory has a name and, where
  \<^verbatim>\<open>resolve(strict=True)\<close> succeeds, the real path behind it.
\<close>

type_synonym path = "string list"

datatype kind = Directory | Regular | Special

record entry =
  e_name :: string
  e_real :: "path option"

record tree =
  t_entries :: "path \<Rightarrow> entry list option"
  t_kind :: "path \<Rightarrow> kind"

definition entries_of :: "tree \<Rightarrow> path \<Rightarrow> entry list" where
  "entries_of fs d = (case t_entries fs d of None \<Rightarrow> [] | Some es \<Rightarrow> es)"

subsection \<open>The loop\<close>

text \<open>The variables of the loop; the end of the source's stack is the head of the list.\<close>

record 'a walk_state =
  w_stack :: "path list"
  w_visited :: "path list"
  w_found :: "'a list"

text \<open>The real path of an entry that is neither hidden nor dangling nor outside the wiki.\<close>

definition real_inside :: "path \<Rightarrow> entry \<Rightarrow> path option" where
  "real_inside wiki e =
     (if prefix ''.'' (e_name e) then None
      else (case e_real e of None \<Rightarrow> None | Some p \<Rightarrow> if prefix wiki p then Some p else None))"

definition visit :: "tree \<Rightarrow> path \<Rightarrow> (entry \<Rightarrow> path \<Rightarrow> 'a list) \<Rightarrow> entry \<Rightarrow> 'a walk_state \<Rightarrow> 'a walk_state" where
  "visit fs wiki leaf e w = (case real_inside wiki e of
     None \<Rightarrow> w
   | Some p \<Rightarrow>
       if t_kind fs p = Directory
       then (if p \<in> set (w_visited w) then w
             else w\<lparr>w_stack := p # w_stack w, w_visited := p # w_visited w\<rparr>)
       else w\<lparr>w_found := w_found w @ leaf e p\<rparr>)"

definition expand ::
  "tree \<Rightarrow> path \<Rightarrow> (entry list \<Rightarrow> entry list) \<Rightarrow> (entry \<Rightarrow> path \<Rightarrow> 'a list) \<Rightarrow> 'a walk_state \<Rightarrow> 'a walk_state" where
  "expand fs wiki ord leaf w = (case w_stack w of
     [] \<Rightarrow> w
   | d # ds \<Rightarrow> fold (visit fs wiki leaf) (ord (entries_of fs d)) (w\<lparr>w_stack := ds\<rparr>))"

partial_function (option) walk ::
  "tree \<Rightarrow> path \<Rightarrow> (entry list \<Rightarrow> entry list) \<Rightarrow> (entry \<Rightarrow> path \<Rightarrow> 'a list) \<Rightarrow> 'a walk_state \<Rightarrow> 'a walk_state option" where
  "walk fs wiki ord leaf w =
     (if w_stack w = [] then Some w else walk fs wiki ord leaf (expand fs wiki ord leaf w))"

definition walk_from :: "path \<Rightarrow> 'a walk_state" where
  "walk_from wiki = \<lparr>w_stack = [wiki], w_visited = [wiki], w_found = []\<rparr>"

subsection \<open>The two walks\<close>

definition is_leaf_name :: "string \<Rightarrow> bool" where
  "is_leaf_name name \<longleftrightarrow> suffix ''.md'' name \<and> name \<noteq> ''index.md''"

definition leaf_mark :: "tree \<Rightarrow> entry \<Rightarrow> path \<Rightarrow> unit list" where
  "leaf_mark fs e p = (if is_leaf_name (e_name e) \<and> t_kind fs p = Regular then [()] else [])"

text \<open>\<^verbatim>\<open>_count_wiki_leaves\<close>; the root is \<open>None\<close> where the directory does not exist or resolve.\<close>

definition count_wiki_leaves :: "tree \<Rightarrow> path option \<Rightarrow> nat option" where
  "count_wiki_leaves fs wiki_root = (case wiki_root of
     None \<Rightarrow> Some 0
   | Some wiki \<Rightarrow> map_option (\<lambda>w. length (w_found w)) (walk fs wiki id (leaf_mark fs) (walk_from wiki)))"

definition specialists_total :: "nat option \<Rightarrow> tree \<Rightarrow> path option \<Rightarrow> (nat \<times> nat option) option" where
  "specialists_total cache fs wiki_root = (case cache of
     Some n \<Rightarrow> Some (n, cache)
   | None \<Rightarrow> map_option (\<lambda>n. (n, Some n)) (count_wiki_leaves fs wiki_root))"

definition leaf_file :: "(path \<Rightarrow> dict option) \<Rightarrow> path \<Rightarrow> entry \<Rightarrow> path \<Rightarrow> wiki_file list" where
  "leaf_file load wiki e p =
     (if is_leaf_name (e_name e)
      then [\<lparr>rel_path = join ''/'' (drop (length wiki) p), file_name = e_name e, metadata = load p\<rparr>] else [])"

definition enumerate_wiki_leaves :: "(path \<Rightarrow> dict option) \<Rightarrow> tree \<Rightarrow> path option \<Rightarrow> dict list option" where
  "enumerate_wiki_leaves load fs wiki_root = (case wiki_root of
     None \<Rightarrow> Some []
   | Some wiki \<Rightarrow> map_option (\<lambda>w. wiki_leaves (w_found w))
       (walk fs wiki (sort_key e_name) (leaf_file load wiki) (walk_from wiki)))"

subsection \<open>The leaf a path names\<close>

text \<open>
  \<^verbatim>\<open>_read_leaf_globs\<close>: the first of two candidates that exists and leads strictly inside the wiki,
  and the cache of what was read; \<open>resolve\<close> is \<^verbatim>\<open>Path.resolve(strict=True)\<close>.
\<close>

definition leaf_real :: "(string \<Rightarrow> path option) \<Rightarrow> string \<Rightarrow> string \<Rightarrow> path option" where
  "leaf_real resolve skill_root leaf_path =
     (let wiki_root = path_join skill_root ''reviewers.wiki'' in
      case resolve wiki_root of None \<Rightarrow> None
      | Some wiki \<Rightarrow> List.find (\<lambda>p. prefix wiki p \<and> p \<noteq> wiki)
          (List.map_filter resolve [path_join wiki_root leaf_path, path_join skill_root leaf_path]))"

definition leaf_reader :: "(string \<Rightarrow> path option) \<Rightarrow> (path \<Rightarrow> dict option) \<Rightarrow> string \<Rightarrow> frontmatter_reader" where
  "leaf_reader resolve load skill_root leaf_path =
     (case leaf_real resolve skill_root leaf_path of None \<Rightarrow> None | Some p \<Rightarrow> load p)"

definition globs_of :: "dict option \<Rightarrow> string list option" where
  "globs_of data = (case data of None \<Rightarrow> None
     | Some d \<Rightarrow> (case dget d ''activation'' of
          VDict activation \<Rightarrow> Some (strs_of (ensure_list (dget activation ''file_globs''))) | _ \<Rightarrow> None))"

type_synonym globs_cache = "(path \<times> string list option) list"

definition read_cached ::
  "(string \<Rightarrow> path option) \<Rightarrow> (path \<Rightarrow> dict option) \<Rightarrow> string \<Rightarrow> pyval \<Rightarrow> globs_cache \<Rightarrow> string list option \<times> globs_cache" where
  "read_cached resolve load skill_root leaf_path cache = (case leaf_path of
     VStr s \<Rightarrow>
       if s = [] then (None, cache)
       else (case leaf_real resolve skill_root s of
               None \<Rightarrow> (None, cache)
             | Some p \<Rightarrow> (case map_of cache p of
                   Some globs \<Rightarrow> (globs, cache)
                 | None \<Rightarrow> (globs_of (load p), dset p (globs_of (load p)) cache)))
   | _ \<Rightarrow> (None, cache))"

definition cache_ok :: "(path \<Rightarrow> dict option) \<Rightarrow> globs_cache \<Rightarrow> bool" where
  "cache_ok load cache \<longleftrightarrow> (\<forall>p globs. map_of cache p = Some globs \<longrightarrow> globs = globs_of (load p))"

subsection \<open>What can be reached\<close>

definition subdirs :: "tree \<Rightarrow> path \<Rightarrow> entry list \<Rightarrow> path set" where
  "subdirs fs wiki es = {p. \<exists>e\<in>set es. real_inside wiki e = Some p \<and> t_kind fs p = Directory}"

inductive reaches :: "tree \<Rightarrow> path \<Rightarrow> path \<Rightarrow> bool" for fs wiki where
  top: "reaches fs wiki wiki"
| sub: "reaches fs wiki d \<Longrightarrow> p \<in> subdirs fs wiki (entries_of fs d) \<Longrightarrow> reaches fs wiki p"

definition items :: "tree \<Rightarrow> path \<Rightarrow> (entry \<Rightarrow> path \<Rightarrow> 'a list) \<Rightarrow> entry list \<Rightarrow> 'a list" where
  "items fs wiki leaf es = concat (map (\<lambda>e. case real_inside wiki e of
     None \<Rightarrow> [] | Some p \<Rightarrow> if t_kind fs p = Directory then [] else leaf e p) es)"

subsection \<open>One directory\<close>

lemma fold_visit:
  "\<exists>new. w_visited (fold (visit fs wiki leaf) es w) = new @ w_visited w
     \<and> w_stack (fold (visit fs wiki leaf) es w) = new @ w_stack w
     \<and> set new = subdirs fs wiki es - set (w_visited w) \<and> distinct new
     \<and> w_found (fold (visit fs wiki leaf) es w) = w_found w @ items fs wiki leaf es"
proof (induction es arbitrary: w)
  case Nil
  then show ?case by (simp add: subdirs_def items_def)
next
  case (Cons e es)
  show ?case
  proof (cases "\<exists>p. real_inside wiki e = Some p \<and> t_kind fs p = Directory \<and> p \<notin> set (w_visited w)")
    case True
    then obtain p where p: "real_inside wiki e = Some p" "t_kind fs p = Directory" "p \<notin> set (w_visited w)" by blast
    let ?w = "w\<lparr>w_stack := p # w_stack w, w_visited := p # w_visited w\<rparr>"
    have v: "visit fs wiki leaf e w = ?w" using p by (simp add: visit_def)
    obtain new where new: "w_visited (fold (visit fs wiki leaf) es ?w) = new @ p # w_visited w"
        "w_stack (fold (visit fs wiki leaf) es ?w) = new @ p # w_stack w"
        "set new = subdirs fs wiki es - insert p (set (w_visited w))" "distinct new"
        "w_found (fold (visit fs wiki leaf) es ?w) = w_found w @ items fs wiki leaf es"
      using Cons.IH [of ?w] by auto
    have "subdirs fs wiki (e # es) = insert p (subdirs fs wiki es)" using p by (auto simp: subdirs_def)
    then show ?thesis
      using new p by (intro exI [of _ "new @ [p]"]) (auto simp: v items_def)
  next
    case False
    let ?w = "visit fs wiki leaf e w"
    have "w_visited ?w = w_visited w" "w_stack ?w = w_stack w" "w_found ?w = w_found w @ items fs wiki leaf [e]"
      using False by (auto simp: visit_def items_def split: option.split)
    moreover have "subdirs fs wiki (e # es) - set (w_visited w) = subdirs fs wiki es - set (w_visited w)"
      using False by (auto simp: subdirs_def)
    moreover have "items fs wiki leaf (e # es) = items fs wiki leaf [e] @ items fs wiki leaf es"
      by (simp add: items_def)
    ultimately show ?thesis using Cons.IH [of ?w] by auto
  qed
qed

subsection \<open>The invariant of the loop\<close>

definition walk_inv ::
  "tree \<Rightarrow> path \<Rightarrow> (entry \<Rightarrow> path \<Rightarrow> 'a list) \<Rightarrow> 'a walk_state \<Rightarrow> bool" where
  "walk_inv fs wiki leaf w \<longleftrightarrow>
     distinct (w_stack w) \<and> distinct (w_visited w) \<and> set (w_stack w) \<subseteq> set (w_visited w) \<and> wiki \<in> set (w_visited w)
     \<and> (\<forall>d\<in>set (w_visited w). reaches fs wiki d)
     \<and> (\<forall>d\<in>set (w_visited w) - set (w_stack w). subdirs fs wiki (entries_of fs d) \<subseteq> set (w_visited w))
     \<and> mset (w_found w) =
         (\<Sum>d\<in>set (w_visited w) - set (w_stack w). mset (items fs wiki leaf (entries_of fs d)))"

lemma walk_inv_start: "walk_inv fs wiki leaf (walk_from wiki)"
  by (simp add: walk_inv_def walk_from_def reaches.top)

lemma mset_items:
  assumes "mset es = mset es'"
  shows "mset (items fs wiki leaf es) = mset (items fs wiki leaf es')"
proof -
  have *: "mset (items fs wiki leaf es) = (\<Sum>e\<in>#mset es. mset (items fs wiki leaf [e]))" for es
  proof (induction es)
    case (Cons e es)
    have "items fs wiki leaf (e # es) = items fs wiki leaf [e] @ items fs wiki leaf es" by (simp add: items_def)
    with Cons show ?case by simp
  qed (simp add: items_def)
  show ?thesis unfolding * [of es] * [of es'] assms ..
qed

lemma walk_inv_expand:
  assumes "walk_inv fs wiki leaf w" "w_stack w = d # ds" "\<And>es. mset (ord es) = mset es"
  obtains new where "walk_inv fs wiki leaf (expand fs wiki ord leaf w)"
    and "w_visited (expand fs wiki ord leaf w) = new @ w_visited w" "w_stack (expand fs wiki ord leaf w) = new @ ds"
    and "distinct new" "set new \<inter> set (w_visited w) = {}"
proof -
  let ?w = "expand fs wiki ord leaf w" and ?es = "ord (entries_of fs d)"
  have ord: "set ?es = set (entries_of fs d)" using assms(3) [of "entries_of fs d"] by (rule mset_eq_setD)
  then have dirs: "subdirs fs wiki ?es = subdirs fs wiki (entries_of fs d)" by (simp add: subdirs_def)
  obtain new where new: "w_visited ?w = new @ w_visited w" "w_stack ?w = new @ ds"
      "set new = subdirs fs wiki (entries_of fs d) - set (w_visited w)" "distinct new"
      "w_found ?w = w_found w @ items fs wiki leaf ?es"
    using fold_visit [of fs wiki leaf ?es "w\<lparr>w_stack := ds\<rparr>"] by (auto simp: expand_def assms(2) dirs)
  note inv = assms(1) [unfolded walk_inv_def assms(2)]
  let ?old = "set (w_visited w) - set (d # ds)"
  have settled: "set (w_visited ?w) - set (w_stack ?w) = insert d ?old" using inv new by auto
  let ?F = "\<lambda>d. mset (items fs wiki leaf (entries_of fs d))"
  have "sum ?F (insert d ?old) = ?F d + sum ?F ?old" by (rule sum.insert) simp_all
  then have "mset (w_found ?w) = sum ?F (insert d ?old)"
    using inv mset_items [OF assms(3)] by (simp add: new(5) add.commute)
  moreover have "reaches fs wiki p" if "p \<in> set new" for p
    using that new(3) inv by (auto intro: reaches.sub)
  moreover have "subdirs fs wiki (entries_of fs e) \<subseteq> set (w_visited ?w)" if "e \<in> insert d ?old" for e
    using that new(1,3) inv by auto
  ultimately have "walk_inv fs wiki leaf ?w"
    using inv new(1-4) unfolding walk_inv_def settled by auto
  with new show ?thesis by (intro that [of new]) auto
qed

lemma walk_inv_done:
  assumes "walk_inv fs wiki leaf w" "w_stack w = []"
  shows "set (w_visited w) = {d. reaches fs wiki d}"
    and "mset (w_found w) = (\<Sum>d | reaches fs wiki d. mset (items fs wiki leaf (entries_of fs d)))"
proof -
  have "d \<in> set (w_visited w)" if "reaches fs wiki d" for d
    using that assms by (induction rule: reaches.induct) (auto simp: walk_inv_def)
  with assms show *: "set (w_visited w) = {d. reaches fs wiki d}" by (auto simp: walk_inv_def)
  show "mset (w_found w) = (\<Sum>d | reaches fs wiki d. mset (items fs wiki leaf (entries_of fs d)))"
    using assms unfolding walk_inv_def * by simp
qed

lemma walk_total:
  assumes "finite {d. reaches fs wiki d}" "\<And>es. mset (ord es) = mset es" "walk_inv fs wiki leaf w"
  shows "\<exists>w'. walk fs wiki ord leaf w = Some w' \<and> walk_inv fs wiki leaf w' \<and> w_stack w' = []"
  using assms(3)
proof (induction "card ({d. reaches fs wiki d} - set (w_visited w)) + length (w_stack w)" arbitrary: w rule: less_induct)
  case less
  show ?case
  proof (cases "w_stack w")
    case Nil
    with less.prems show ?thesis by (simp add: walk.simps)
  next
    case (Cons d ds)
    let ?w = "expand fs wiki ord leaf w" and ?R = "{d. reaches fs wiki d}"
    obtain new where new: "walk_inv fs wiki leaf ?w" "w_visited ?w = new @ w_visited w" "w_stack ?w = new @ ds"
        "distinct new" "set new \<inter> set (w_visited w) = {}"
      using walk_inv_expand [OF less.prems Cons assms(2)] by blast
    have "set new \<subseteq> ?R - set (w_visited w)" using new(1,2,5) by (auto simp: walk_inv_def)
    then have "card (?R - set (w_visited w) - set new) + length new = card (?R - set (w_visited w))"
      using assms(1) new(4) by (metis card_Diff_subset card_mono distinct_card finite_Diff finite_set le_add_diff_inverse2)
    moreover have "?R - set (w_visited ?w) = ?R - set (w_visited w) - set new" using new(2) by auto
    ultimately have "card (?R - set (w_visited ?w)) + length (w_stack ?w)
        < card (?R - set (w_visited w)) + length (w_stack w)" using new(3) Cons by simp
    from less.hyps [OF this new(1)] show ?thesis using Cons by (simp add: walk.simps [of fs wiki ord leaf w])
  qed
qed

lemma walk_sound:
  assumes "walk fs wiki ord leaf w = Some w'" "\<And>es. mset (ord es) = mset es" "walk_inv fs wiki leaf w"
  shows "walk_inv fs wiki leaf w' \<and> w_stack w' = []"
proof -
  let ?P = "\<lambda>fs wiki ord leaf w w'. (\<forall>es. mset (ord es) = mset es) \<longrightarrow> walk_inv fs wiki leaf w \<longrightarrow>
     walk_inv fs wiki leaf w' \<and> w_stack w' = []"
  have "?P fs wiki ord leaf w w'"
  proof (rule walk.raw_induct [of ?P, OF _ assms(1)])
    fix walk' fs wiki ord leaf w w'
    assume IH: "\<And>fs wiki ord leaf w w'. walk' fs wiki ord leaf w = Some w' \<Longrightarrow> ?P fs wiki ord leaf w w'"
      and step: "(if w_stack w = [] then Some w else walk' fs wiki ord leaf (expand fs wiki ord leaf w)) = Some w'"
    show "?P fs wiki ord leaf w w'"
    proof (cases "w_stack w")
      case (Cons d ds)
      then have "?P fs wiki ord leaf (expand fs wiki ord leaf w) w'" using step IH by simp
      then show ?thesis using walk_inv_expand [OF _ Cons] by blast
    qed (use step in simp)
  qed
  with assms(2,3) show ?thesis by blast
qed


subsection \<open>A wiki with links\<close>

text \<open>A wiki with a leaf, an index, a directory with a second leaf, a link back and a link out.\<close>

definition linked_wiki :: tree where
  "linked_wiki = \<lparr>
     t_entries = (\<lambda>d.
       if d = [''w''] then Some
         [\<lparr>e_name = ''index.md'', e_real = Some [''w'', ''index.md'']\<rparr>,
          \<lparr>e_name = ''a.md'', e_real = Some [''w'', ''a.md'']\<rparr>,
          \<lparr>e_name = ''sub'', e_real = Some [''w'', ''sub'']\<rparr>,
          \<lparr>e_name = ''out.md'', e_real = Some [''etc'', ''out.md'']\<rparr>,
          \<lparr>e_name = ''.git'', e_real = Some [''w'', ''.git'']\<rparr>]
       else if d = [''w'', ''sub''] then Some
         [\<lparr>e_name = ''b.md'', e_real = Some [''w'', ''sub'', ''b.md'']\<rparr>, \<lparr>e_name = ''up'', e_real = Some [''w'']\<rparr>]
       else None),
     t_kind = (\<lambda>p. if p \<in> {[''w''], [''w'', ''sub''], [''w'', ''.git'']} then Directory else Regular)\<rparr>"

lemma linked_wiki_walk:
  "\<exists>w. walk linked_wiki [''w''] id (leaf_mark linked_wiki) (walk_from [''w'']) = Some w \<and> length (w_found w) = 2"
  by (simp add: walk.simps walk_from_def expand_def visit_def real_inside_def entries_of_def linked_wiki_def
      leaf_mark_def is_leaf_name_def suffix_def)

definition linked_load :: "path \<Rightarrow> dict option" where
  "linked_load p = (if p = [''w'', ''a.md''] then Some [(''id'', VStr ''a'')] else None)"

lemma linked_wiki_enumerated: "\<exists>leaves. enumerate_wiki_leaves linked_load linked_wiki (Some [''w'']) = Some leaves"
  by (simp add: enumerate_wiki_leaves_def walk.simps walk_from_def expand_def visit_def real_inside_def entries_of_def
      linked_wiki_def leaf_file_def is_leaf_name_def suffix_def)

subsection \<open>Properties\<close>

lemma sum_sizes: "finite A \<Longrightarrow> size (\<Sum>d\<in>A. mset (f d)) = (\<Sum>d\<in>A. length (f d))"
  by (induction A rule: finite_induct) auto

lemma length_items_mark:
  "length (items fs wiki (leaf_mark fs) es) =
     count_if (\<lambda>e. is_leaf_name (e_name e) \<and> (\<exists>p. real_inside wiki e = Some p \<and> t_kind fs p = Regular)) es"
  by (induction es) (auto simp: items_def leaf_mark_def split: option.split)

text \<open>
  C24: the count of the wiki's reviewers returns exactly when finitely many directories can be
  reached, however links lead back or across, and then it counts, in each directory that can be
  reached inside the wiki once, the entries that are not hidden, name a leaf and lead to a
  regular file of the wiki. A second call answers from the cache.
\<close>

theorem count_wiki_leaves_spec:
  "(count_wiki_leaves fs (Some wiki) \<noteq> None \<longleftrightarrow> finite {d. reaches fs wiki d})
   \<and> (\<forall>n. count_wiki_leaves fs (Some wiki) = Some n \<longrightarrow>
       n = (\<Sum>d | reaches fs wiki d. count_if (\<lambda>e. is_leaf_name (e_name e)
              \<and> (\<exists>p. real_inside wiki e = Some p \<and> t_kind fs p = Regular)) (entries_of fs d))
     \<and> specialists_total None fs (Some wiki) = Some (n, Some n)
     \<and> specialists_total (Some n) fs' wiki' = Some (n, Some n))"
proof -
  let ?R = "{d. reaches fs wiki d}"
  have fin: "finite ?R" and cnt: "n = (\<Sum>d\<in>?R. count_if (\<lambda>e. is_leaf_name (e_name e)
      \<and> (\<exists>p. real_inside wiki e = Some p \<and> t_kind fs p = Regular)) (entries_of fs d))"
    if "count_wiki_leaves fs (Some wiki) = Some n" for n
  proof -
    from that obtain w where w: "walk fs wiki id (leaf_mark fs) (walk_from wiki) = Some w" "n = length (w_found w)"
      by (auto simp: count_wiki_leaves_def)
    from walk_sound [OF w(1) _ walk_inv_start] have inv: "walk_inv fs wiki (leaf_mark fs) w" "w_stack w = []" by auto
    show fin: "finite ?R" using walk_inv_done(1) [OF inv] by (metis finite_set)
    have "n = size (mset (w_found w))" using w(2) by simp
    also have "\<dots> = (\<Sum>d\<in>?R. length (items fs wiki (leaf_mark fs) (entries_of fs d)))"
      unfolding walk_inv_done(2) [OF inv] by (rule sum_sizes [OF fin])
    finally show "n = (\<Sum>d\<in>?R. count_if (\<lambda>e. is_leaf_name (e_name e)
      \<and> (\<exists>p. real_inside wiki e = Some p \<and> t_kind fs p = Regular)) (entries_of fs d))"
      by (simp add: length_items_mark)
  qed
  moreover have "count_wiki_leaves fs (Some wiki) \<noteq> None" if "finite ?R"
    using walk_total [OF that, of id, OF _ walk_inv_start] by (auto simp: count_wiki_leaves_def)
  ultimately show ?thesis by (auto simp: specialists_total_def)
qed


theorem count_wiki_leaves_spec_witness:
  "finite {d. reaches linked_wiki [''w''] d}
   \<and> (\<Sum>d | reaches linked_wiki [''w''] d. count_if (\<lambda>e. is_leaf_name (e_name e)
        \<and> (\<exists>p. real_inside [''w''] e = Some p \<and> t_kind linked_wiki p = Regular)) (entries_of linked_wiki d)) = 2"
proof -
  have "count_wiki_leaves linked_wiki (Some [''w'']) = Some 2"
    using linked_wiki_walk by (auto simp: count_wiki_leaves_def)
  then show ?thesis using count_wiki_leaves_spec [of linked_wiki "[''w'']"] by auto
qed

lemma length_map_filter: "length (List.map_filter g xs) = size (filter_mset (\<lambda>x. g x \<noteq> None) (mset xs))"
  by (induction xs) (auto simp: List.map_filter_def)

lemma sum_filter_sizes:
  "finite A \<Longrightarrow> size (filter_mset P (\<Sum>d\<in>A. mset (f d))) = (\<Sum>d\<in>A. size (filter_mset P (mset (f d))))"
  by (induction A rule: finite_induct) auto

lemma items_Cons: "items fs wiki leaf (e # es) = (case real_inside wiki e of None \<Rightarrow> []
     | Some p \<Rightarrow> if t_kind fs p = Directory then [] else leaf e p) @ items fs wiki leaf es"
  by (simp add: items_def)

lemma set_map_filter: "set (List.map_filter g xs) = {y. \<exists>x\<in>set xs. g x = Some y}"
  by (induction xs) (auto simp: List.map_filter_def)

lemma map_filter_append: "List.map_filter g (xs @ ys) = List.map_filter g xs @ List.map_filter g ys"
  by (simp add: List.map_filter_def)

lemma fewer_leaves_than_marks:
  assumes "\<And>p m. load p = Some m \<Longrightarrow> t_kind fs p = Regular"
  shows "length (List.map_filter wiki_leaf (items fs wiki (leaf_file load wiki) es)) \<le> length (items fs wiki (leaf_mark fs) es)"
proof (induction es)
  case (Cons e es)
  have "length (List.map_filter wiki_leaf (leaf_file load wiki e p)) \<le> length (leaf_mark fs e p)" for p
    using assms [of p] by (auto simp: leaf_file_def leaf_mark_def wiki_leaf_def List.map_filter_def split: option.splits)
  from this Cons.IH show ?case
    by (cases "real_inside wiki e") (simp_all add: items_Cons map_filter_append add_mono)
qed (simp add: items_def List.map_filter_def)

lemma mem_items: "x \<in> set (items fs wiki leaf es) \<longleftrightarrow>
    (\<exists>e p. e \<in> set es \<and> real_inside wiki e = Some p \<and> t_kind fs p \<noteq> Directory \<and> x \<in> set (leaf e p))"
proof -
  have "x \<in> set (items fs wiki leaf es) \<longleftrightarrow> (\<exists>e\<in>set es. x \<in> set (case real_inside wiki e of None \<Rightarrow> []
     | Some p \<Rightarrow> if t_kind fs p = Directory then [] else leaf e p))" by (simp add: items_def)
  moreover have "x \<in> set (case real_inside wiki e of None \<Rightarrow> [] | Some p \<Rightarrow> if t_kind fs p = Directory then [] else leaf e p)
     \<longleftrightarrow> (\<exists>p. real_inside wiki e = Some p \<and> t_kind fs p \<noteq> Directory \<and> x \<in> set (leaf e p))" for e
    by (cases "real_inside wiki e") auto
  ultimately show ?thesis by blast
qed

lemma mem_sum_mset: "finite A \<Longrightarrow> x \<in># (\<Sum>d\<in>A. mset (f d)) \<longleftrightarrow> (\<exists>d\<in>A. x \<in> set (f d))"
  by (induction A rule: finite_induct) auto

lemma enumerate_found:
  assumes "enumerate_wiki_leaves load fs (Some wiki) = Some leaves"
  obtains found where "finite {d. reaches fs wiki d}" "leaves = wiki_leaves found"
    and "mset found = (\<Sum>d | reaches fs wiki d. mset (items fs wiki (leaf_file load wiki) (entries_of fs d)))"
proof -
  from assms obtain w where w: "walk fs wiki (sort_key e_name) (leaf_file load wiki) (walk_from wiki) = Some w"
      "leaves = wiki_leaves (w_found w)"
    by (auto simp: enumerate_wiki_leaves_def)
  from walk_sound [OF w(1) _ walk_inv_start]
  have inv: "walk_inv fs wiki (leaf_file load wiki) w" "w_stack w = []" by auto
  show ?thesis
    by (rule that [OF _ w(2) walk_inv_done(2) [OF inv]]) (metis walk_inv_done(1) [OF inv] finite_set)
qed

text \<open>
  What the enumeration of the wiki finds: where it returns, the leaves are those of the files in the
  directories that can be reached from the root inside the wiki, each directory read once, each
  with the fields that \<open>wiki_leaf\<close> reads, sorted by id; and if only regular files can be loaded, there
  are no more of them than \<open>count_wiki_leaves\<close> counts.
\<close>

theorem enumerate_wiki_leaves_spec:
  assumes "enumerate_wiki_leaves load fs (Some wiki) = Some leaves"
  shows "sorted (map (\<lambda>leaf. ensure_str (dget leaf ''id'') []) leaves)
    \<and> set leaves = {leaf. \<exists>d e p f. reaches fs wiki d \<and> e \<in> set (entries_of fs d) \<and> real_inside wiki e = Some p
         \<and> t_kind fs p \<noteq> Directory \<and> f \<in> set (leaf_file load wiki e p) \<and> wiki_leaf f = Some leaf}
    \<and> ((\<forall>p m. load p = Some m \<longrightarrow> t_kind fs p = Regular) \<longrightarrow>
         (\<exists>n. count_wiki_leaves fs (Some wiki) = Some n \<and> length leaves \<le> n))"
proof -
  obtain found where fin: "finite {d. reaches fs wiki d}" and leaves: "leaves = wiki_leaves found"
    and found: "mset found = (\<Sum>d | reaches fs wiki d. mset (items fs wiki (leaf_file load wiki) (entries_of fs d)))"
    by (rule enumerate_found [OF assms])
  have "f \<in> set found \<longleftrightarrow> (\<exists>d e p. reaches fs wiki d \<and> e \<in> set (entries_of fs d) \<and> real_inside wiki e = Some p
      \<and> t_kind fs p \<noteq> Directory \<and> f \<in> set (leaf_file load wiki e p))" for f
  proof -
    have "f \<in> set found \<longleftrightarrow> f \<in># mset found" by simp
    also have "\<dots> \<longleftrightarrow> (\<exists>d\<in>{d. reaches fs wiki d}. f \<in> set (items fs wiki (leaf_file load wiki) (entries_of fs d)))"
      unfolding found by (rule mem_sum_mset [OF fin])
    finally show ?thesis by (auto simp: mem_items)
  qed
  moreover have "set leaves = {leaf. \<exists>f\<in>set found. wiki_leaf f = Some leaf}"
    unfolding leaves wiki_leaves_def set_sort by (rule set_map_filter)
  ultimately have "set leaves = {leaf. \<exists>d e p f. reaches fs wiki d \<and> e \<in> set (entries_of fs d) \<and> real_inside wiki e = Some p
         \<and> t_kind fs p \<noteq> Directory \<and> f \<in> set (leaf_file load wiki e p) \<and> wiki_leaf f = Some leaf}"
    by blast
  moreover have "\<exists>n. count_wiki_leaves fs (Some wiki) = Some n \<and> length leaves \<le> n"
    if reg: "\<forall>p m. load p = Some m \<longrightarrow> t_kind fs p = Regular"
  proof -
    obtain w where w: "walk fs wiki id (leaf_mark fs) (walk_from wiki) = Some w"
        "walk_inv fs wiki (leaf_mark fs) w" "w_stack w = []"
      using walk_total [OF fin, of id, OF _ walk_inv_start] by auto
    have "length (w_found w) = size (mset (w_found w))" by simp
    also have "\<dots> = (\<Sum>d | reaches fs wiki d. length (items fs wiki (leaf_mark fs) (entries_of fs d)))"
      unfolding walk_inv_done(2) [OF w(2,3)] by (rule sum_sizes [OF fin])
    also have "\<dots> \<ge> (\<Sum>d | reaches fs wiki d. length (List.map_filter wiki_leaf (items fs wiki (leaf_file load wiki) (entries_of fs d))))"
      using reg by (intro sum_mono fewer_leaves_than_marks) auto
    finally have "length leaves \<le> length (w_found w)"
      by (simp add: leaves wiki_leaves_def length_map_filter found sum_filter_sizes [OF fin])
    then show ?thesis using w(1) by (simp add: count_wiki_leaves_def)
  qed
  ultimately show ?thesis by (simp add: leaves wiki_leaves_def)
qed

theorem enumerate_wiki_leaves_spec_witness:
  "\<exists>leaves n. enumerate_wiki_leaves linked_load linked_wiki (Some [''w'']) = Some leaves
     \<and> count_wiki_leaves linked_wiki (Some [''w'']) = Some n \<and> length leaves \<le> n"
proof -
  obtain leaves where leaves: "enumerate_wiki_leaves linked_load linked_wiki (Some [''w'']) = Some leaves"
    using linked_wiki_enumerated by blast
  have "\<forall>p m. linked_load p = Some m \<longrightarrow> t_kind linked_wiki p = Regular"
    by (simp add: linked_load_def linked_wiki_def)
  with enumerate_wiki_leaves_spec [OF leaves] leaves show ?thesis by blast
qed

subsection \<open>The cache of leaf globs\<close>

lemma leaf_real_inside:
  "leaf_real resolve skill_root s = Some p \<Longrightarrow>
     \<exists>wiki. resolve (path_join skill_root ''reviewers.wiki'') = Some wiki \<and> strict_prefix wiki p"
  by (auto simp: leaf_real_def Let_def strict_prefix_def find_Some_iff split: option.splits)

text \<open>The cache changes nothing: reading through it answers what the uncached reader answers.\<close>

theorem leaf_globs_cached:
  assumes "cache_ok load cache" "read_cached resolve load skill_root leaf_path cache = (globs, cache')"
  shows "globs = read_leaf_globs (leaf_reader resolve load skill_root) leaf_path \<and> cache_ok load cache'
    \<and> (\<forall>p. map_of cache' p \<noteq> map_of cache p \<longrightarrow>
         (\<exists>wiki. resolve (path_join skill_root ''reviewers.wiki'') = Some wiki \<and> strict_prefix wiki p))"
proof -
  consider (none) "globs = None" "cache' = cache" "read_leaf_globs (leaf_reader resolve load skill_root) leaf_path = None"
    | (leaf) s p where "leaf_path = VStr s" "s \<noteq> []" "leaf_real resolve skill_root s = Some p"
    using assms(2) by (auto simp: read_cached_def read_leaf_globs_def leaf_reader_def split: pyval.splits if_splits option.splits)
  then show ?thesis
  proof cases
    case none
    with assms(1) show ?thesis by simp
  next
    case leaf
    have "read_leaf_globs (leaf_reader resolve load skill_root) leaf_path = globs_of (load p)"
      using leaf by (simp add: read_leaf_globs_def leaf_reader_def globs_of_def)
    moreover have "(globs = globs_of (load p) \<and> cache' = cache) \<or> (globs = globs_of (load p) \<and> cache' = dset p globs cache)"
      using assms leaf by (auto simp: read_cached_def cache_ok_def split: option.splits)
    ultimately show ?thesis using assms(1) leaf_real_inside [OF leaf(3)] by (auto simp: cache_ok_def split: if_splits)
  qed
qed

theorem leaf_globs_cached_witness:
  "fst (read_cached (\<lambda>s. if s = ''/s/reviewers.wiki'' then Some [''w''] else if s = ''/s/reviewers.wiki/a.md'' then Some [''w'', ''a.md'']
      else None) linked_load ''/s'' (VStr ''a.md'') []) = None"
proof -
  let ?resolve = "\<lambda>s. if s = ''/s/reviewers.wiki'' then Some [''w'']
    else if s = ''/s/reviewers.wiki/a.md'' then Some [''w'', ''a.md''] else None"
  have ok: "cache_ok linked_load []" by (simp add: cache_ok_def)
  obtain globs cache' where r: "read_cached ?resolve linked_load ''/s'' (VStr ''a.md'') [] = (globs, cache')" by fastforce
  from leaf_globs_cached [OF ok r] have "globs = read_leaf_globs (leaf_reader ?resolve linked_load ''/s'') (VStr ''a.md'')" by simp
  then show ?thesis
    using r by (simp add: read_leaf_globs_def leaf_reader_def leaf_real_def path_join_def List.map_filter_def linked_load_def)
qed

end
