(* ===== verification/Telemetry.thy ===== *)
theory Telemetry
  imports RunDirectory Review JsonRoundtrip
begin

section \<open>Timing telemetry\<close>

text \<open>
  \<^verbatim>\<open>scripts/ingest_timings.py\<close> and the timings table of \<^verbatim>\<open>benchmarks/experiments.py\<close>: how the \<^verbatim>\<open>timings.json\<close>
  that a run writes becomes rows of the experiment tracker, and the mean cost of a review. The
  files below the directory of a run are an argument, each with the id of its pull request and
  its text where it can be read; the table is the list of its rows with their primary keys.
\<close>

subsection \<open>Numbers\<close>

text \<open>\<^verbatim>\<open>isinstance(v, int | float) and not isinstance(v, bool)\<close>.\<close>

definition is_number :: "pyval \<Rightarrow> bool" where
  "is_number v = (case v of VInt _ \<Rightarrow> True | VFloat _ \<Rightarrow> True | _ \<Rightarrow> False)"

definition is_positive :: "pyval \<Rightarrow> bool" where
  "is_positive v = (is_number v \<and> (case num_of v of None \<Rightarrow> False | Some f \<Rightarrow> float_lt (Fin 0) f))"

definition int_or_none :: "pyval \<Rightarrow> pyval res" where
  "int_or_none v = (if is_number v then bindE (py_int v) (\<lambda>i. Inr (VInt i)) else Inr VNone)"

definition float_if :: "bool \<Rightarrow> pyval \<Rightarrow> pyval res" where
  "float_if b v = (if b then bindE (py_float v) (\<lambda>f. Inr (VFloat f)) else Inr VNone)"

subsection \<open>Rows\<close>

definition total_est_cost :: "dict \<Rightarrow> pyval" where
  "total_est_cost doc = (case dget doc ''cost'' of VDict block \<Rightarrow> dget block ''total_est_cost'' | _ \<Rightarrow> VNone)"

definition process_rows :: "string \<Rightarrow> string \<Rightarrow> dict \<Rightarrow> dict list res" where
  "process_rows run_id pr_id doc =
     (let cost = total_est_cost doc; whole = dget doc ''whole_review_ms'' in
      bindE (float_if (is_positive cost) cost) (\<lambda>review_cost.
      if num_of whole = None then Inr []
      else bindE (py_int whole) (\<lambda>ms.
        Inr [[(''run_id'', VStr run_id), (''pr_id'', VStr pr_id), (''scope'', VStr ''process''),
              (''name'', VStr ''whole_review''), (''wall_ms'', VInt ms), (''cost'', review_cost),
              (''n_calls'', VInt 1), (''status'', VStr ''measured''), (''source'', VStr ''runner'')]])))"

text \<open>The bucket of a state: the sum of its times and their number.\<close>

type_synonym buckets = "(string \<times> int \<times> int) list"

definition add_stage :: "buckets \<Rightarrow> dict \<Rightarrow> buckets res" where
  "add_stage agg st = (case dget st ''name'' of
     VStr name \<Rightarrow>
       if num_of (dget st ''wall_ms'') = None then Inr agg
       else bindE (py_int (dget st ''wall_ms'')) (\<lambda>ms.
         let (wall, n) = (case map_of agg name of None \<Rightarrow> (0, 0) | Some b \<Rightarrow> b)
         in Inr (dset name (wall + ms, n + 1) agg))
   | _ \<Rightarrow> Inr agg)"

definition stage_row :: "string \<Rightarrow> string \<Rightarrow> string \<times> int \<times> int \<Rightarrow> dict" where
  "stage_row run_id pr_id b = (case b of (name, wall, n) \<Rightarrow>
     [(''run_id'', VStr run_id), (''pr_id'', VStr pr_id), (''scope'', VStr ''fsm_state''), (''name'', VStr name),
      (''wall_ms'', VInt wall), (''n_calls'', VInt n), (''status'', VStr ''measured''), (''source'', VStr ''runner'')])"

definition stage_rows :: "string \<Rightarrow> string \<Rightarrow> dict \<Rightarrow> dict list res" where
  "stage_rows run_id pr_id doc =
     bindE (py_iter (py_or (dget doc ''stage_timings'') (VList []))) (\<lambda>xs.
     bindE (foldE add_stage [] (dicts_of xs)) (\<lambda>agg. Inr (map (stage_row run_id pr_id) (sort_key fst agg))))"

definition agent_rows_of :: "string \<Rightarrow> string \<Rightarrow> dict \<Rightarrow> dict list res" where
  "agent_rows_of run_id pr_id sp = (case dget sp ''leaf_id'' of
     VStr leaf \<Rightarrow>
       if num_of (dget sp ''wall_ms'') = None then Inr []
       else
         bindE (py_int (dget sp ''wall_ms'')) (\<lambda>ms.
         bindE (int_or_none (dget sp ''tokens_in'')) (\<lambda>tin.
         bindE (int_or_none (dget sp ''tokens_out'')) (\<lambda>tout.
         bindE (float_if (is_number (dget sp ''est_cost'')) (dget sp ''est_cost'')) (\<lambda>cost.
         Inr [[(''run_id'', VStr run_id), (''pr_id'', VStr pr_id), (''scope'', VStr ''agent''), (''name'', VStr leaf),
               (''wall_ms'', VInt ms), (''tokens_in'', tin), (''tokens_out'', tout), (''cost'', cost),
               (''n_calls'', VInt 1), (''status'', VStr ''measured''), (''source'', VStr ''runner'')]]))))
   | _ \<Rightarrow> Inr [])"

definition agent_rows :: "string \<Rightarrow> string \<Rightarrow> dict \<Rightarrow> dict list res" where
  "agent_rows run_id pr_id doc =
     bindE (py_iter (py_or (dget doc ''specialists'') (VList []))) (\<lambda>xs.
     bindE (mapE (agent_rows_of run_id pr_id) (dicts_of xs)) (\<lambda>rs. Inr (concat rs)))"

definition measured_rows :: "string \<Rightarrow> string \<Rightarrow> dict \<Rightarrow> dict list res" where
  "measured_rows run_id pr_id doc =
     bindE (process_rows run_id pr_id doc) (\<lambda>p. bindE (stage_rows run_id pr_id doc) (\<lambda>s.
     bindE (agent_rows run_id pr_id doc) (\<lambda>a. Inr (p @ s @ a))))"

definition self_reported_of :: "string \<Rightarrow> string \<Rightarrow> dict \<Rightarrow> dict list res" where
  "self_reported_of run_id pr_id sp = (case dget sp ''leaf_id'' of
     VStr leaf \<Rightarrow>
       if num_of (dget sp ''runtime_ms'') = None then Inr []
       else bindE (py_int (dget sp ''runtime_ms'')) (\<lambda>ms.
         Inr [[(''run_id'', VStr run_id), (''pr_id'', VStr pr_id), (''scope'', VStr ''agent''),
               (''name'', VStr (leaf @ ''#self_reported'')), (''wall_ms'', VInt ms), (''n_calls'', VInt 1),
               (''status'', VStr ''self_reported''), (''source'', VStr ''specialist_json'')]])
   | _ \<Rightarrow> Inr [])"

definition self_reported_rows :: "string \<Rightarrow> string \<Rightarrow> dict \<Rightarrow> dict list res" where
  "self_reported_rows run_id pr_id doc =
     bindE (py_iter (py_or (dget doc ''specialists'') (VList []))) (\<lambda>xs.
     bindE (mapE (self_reported_of run_id pr_id) (dicts_of xs)) (\<lambda>rs. Inr (concat rs)))"

subsection \<open>Files\<close>

type_synonym timing_files = "string \<Rightarrow> (string \<times> string option) list"

definition read_doc :: "string option \<Rightarrow> dict option" where
  "read_doc contents = (case contents of None \<Rightarrow> None
     | Some s \<Rightarrow> (case json_loads s of Some (VDict doc) \<Rightarrow> Some doc | _ \<Rightarrow> None))"

definition files_of :: "timing_files \<Rightarrow> string list \<Rightarrow> (string \<times> string \<times> string option) list" where
  "files_of files run_ids = concat (map (\<lambda>r. map (Pair r) (files r)) run_ids)"

text \<open>\<^verbatim>\<open>collect\<close>: the rows and the number of files that could not be read.\<close>

definition collect_file ::
  "bool \<Rightarrow> dict list \<times> nat \<Rightarrow> string \<times> string \<times> string option \<Rightarrow> (dict list \<times> nat) res" where
  "collect_file self_reported acc f = (case (acc, f) of ((got, skipped), (run_id, pr_id, contents)) \<Rightarrow>
     (case read_doc contents of
        None \<Rightarrow> Inr (got, skipped + 1)
      | Some doc \<Rightarrow>
          bindE (measured_rows run_id pr_id doc) (\<lambda>m.
          bindE (if self_reported then self_reported_rows run_id pr_id doc else Inr []) (\<lambda>s.
          Inr (got @ m @ s, skipped)))))"

definition collect :: "timing_files \<Rightarrow> string list \<Rightarrow> bool \<Rightarrow> (dict list \<times> nat) res" where
  "collect files run_ids self_reported = foldE (collect_file self_reported) ([], 0) (files_of files run_ids)"

text \<open>\<^verbatim>\<open>per_review_cost\<close>: the mean over the documents that recorded a positive cost.\<close>

fun add_cost :: "pyfloat \<Rightarrow> pyfloat \<Rightarrow> pyfloat" where
  "add_cost (Fin a) (Fin b) = float_of_rat (a + b)"
| "add_cost a b = FPosInf"

definition mean_cost :: "pyfloat list \<Rightarrow> pyfloat" where
  "mean_cost costs = (case foldl add_cost (Fin 0) costs of
     Fin q \<Rightarrow> Fin (q / of_nat (length costs)) | f \<Rightarrow> f)"

definition priced :: "dict list \<Rightarrow> pyfloat list res" where
  "priced docs = mapE py_float (filter is_positive (map total_est_cost docs))"

definition per_review_cost :: "timing_files \<Rightarrow> string list \<Rightarrow> (pyfloat option \<times> nat \<times> nat) res" where
  "per_review_cost files run_ids =
     (let docs = map (\<lambda>(_, _, c). read_doc c) (files_of files run_ids);
          skipped = count_if (\<lambda>d. d = None) docs in
      bindE (priced (List.map_filter id docs)) (\<lambda>costs.
      Inr (if costs = [] then None else Some (mean_cost costs), length costs, skipped)))"

subsection \<open>The table\<close>

definition timing_columns :: "string list" where
  "timing_columns = [''run_id'', ''pr_id'', ''scope'', ''name'', ''wall_ms'', ''tokens_in'', ''tokens_out'', ''cost'',
     ''started_at'', ''ended_at'', ''n_calls'', ''status'', ''source'']"

definition timing_payload :: "dict \<Rightarrow> dict" where
  "timing_payload row =
     (let p = map (\<lambda>c. (c, dget row c)) timing_columns;
          q = (if dget p ''n_calls'' = VNone then dset ''n_calls'' (VInt 1) p else p)
      in if dget q ''status'' = VNone then dset ''status'' (VStr ''measured'') q else q)"

text \<open>The primary key of a row, and \<^verbatim>\<open>INSERT OR REPLACE\<close>: the old row goes, the new one comes last.\<close>

definition timing_key :: "dict \<Rightarrow> pyval list" where
  "timing_key row = map (dget row) [''run_id'', ''pr_id'', ''scope'', ''name'']"

type_synonym timings_table = "dict list"

definition upsert_timing :: "dict \<Rightarrow> timings_table \<Rightarrow> timings_table" where
  "upsert_timing row table = filter (\<lambda>r. timing_key r \<noteq> timing_key row) table @ [timing_payload row]"

definition write_rows :: "dict list \<Rightarrow> timings_table \<Rightarrow> timings_table" where
  "write_rows new_rows table = fold upsert_timing new_rows table"

subsection \<open>Stages are grouped by name\<close>

definition timed :: "dict \<Rightarrow> bool" where
  "timed d \<longleftrightarrow> is_str (dget d ''name'') \<and> num_of (dget d ''wall_ms'') \<noteq> None"

definition ms_of :: "dict \<Rightarrow> int" where
  "ms_of d = (case py_int (dget d ''wall_ms'') of Inr i \<Rightarrow> i | Inl _ \<Rightarrow> 0)"

definition named :: "string \<Rightarrow> dict list \<Rightarrow> dict list" where
  "named name ds = filter (\<lambda>d. timed d \<and> dget d ''name'' = VStr name) ds"

definition bucket_of :: "string \<Rightarrow> dict list \<Rightarrow> (int \<times> int) option" where
  "bucket_of name ds = (if named name ds = [] then None
     else Some (sum_list (map ms_of (named name ds)), int (length (named name ds))))"

lemma add_stage_bucket:
  assumes "add_stage agg st = Inr agg'"
  shows "map_of agg' name = (if timed st \<and> dget st ''name'' = VStr name
     then (case map_of agg name of None \<Rightarrow> Some (ms_of st, 1) | Some (w, n) \<Rightarrow> Some (w + ms_of st, n + 1))
     else map_of agg name)"
    and "distinct (map fst agg) \<Longrightarrow> distinct (map fst agg')"
  using assms
  by (auto simp: add_stage_def timed_def ms_of_def is_str_def res_simps Let_def distinct_update
      split: pyval.splits if_splits option.splits prod.splits)

lemma stage_buckets:
  assumes "foldE add_stage agg ds = Inr agg'" "distinct (map fst agg)"
    and "\<And>name. map_of agg name = bucket_of name es"
  shows "distinct (map fst agg') \<and> (\<forall>name. map_of agg' name = bucket_of name (es @ ds))"
  using assms
proof (induction ds arbitrary: agg es)
  case Nil
  then show ?case by simp
next
  case (Cons d ds)
  from Cons.prems(1) obtain a where a: "add_stage agg d = Inr a" "foldE add_stage a ds = Inr agg'"
    by (auto simp: res_simps)
  have "map_of a name = bucket_of name (es @ [d])" for name
    unfolding add_stage_bucket(1) [OF a(1)] Cons.prems(3)
    by (auto simp: bucket_of_def named_def)
  from Cons.IH [OF a(2) add_stage_bucket(2) [OF a(1) Cons.prems(2)] this] show ?case by simp
qed

lemma stage_rows_grouped:
  assumes "stage_rows run pr doc = Inr rs" "py_iter (py_or (dget doc ''stage_timings'') (VList [])) = Inr xs"
  obtains names where "sorted_wrt (<) names" "set names = {name. named name (dicts_of xs) \<noteq> []}"
    and "rs = map (\<lambda>name. stage_row run pr (name, sum_list (map ms_of (named name (dicts_of xs))),
           int (length (named name (dicts_of xs))))) names"
proof -
  from assms obtain agg where agg: "foldE add_stage [] (dicts_of xs) = Inr agg"
      and rs: "rs = map (stage_row run pr) (sort_key fst agg)"
    by (auto simp: stage_rows_def res_simps)
  have b: "distinct (map fst agg)" "map_of agg name = bucket_of name (dicts_of xs)" for name
    using stage_buckets [OF agg, of "[]"] by (auto simp: bucket_of_def named_def)
  let ?names = "map fst (sort_key fst agg)"
  have d: "distinct ?names" using b(1) mset_map [of fst "sort_key fst agg"] by (metis mset_eq_imp_distinct_iff mset_map mset_sort)
  show ?thesis
  proof (rule that [of ?names])
    show "sorted_wrt (<) ?names" using d by (simp add: strict_sorted_iff)
    show "set ?names = {name. named name (dicts_of xs) \<noteq> []}"
    proof -
      have "name \<in> set ?names \<longleftrightarrow> named name (dicts_of xs) \<noteq> []" for name
      proof -
        have "name \<in> set ?names \<longleftrightarrow> \<not> map_of agg name = None" by (simp only: map_of_eq_None_iff) simp
        then show ?thesis unfolding b(2) by (simp add: bucket_of_def)
      qed
      then show ?thesis by blast
    qed
    show "rs = map (\<lambda>name. stage_row run pr (name, sum_list (map ms_of (named name (dicts_of xs))),
           int (length (named name (dicts_of xs))))) ?names"
    proof -
      have "b = (fst b, sum_list (map ms_of (named (fst b) (dicts_of xs))), int (length (named (fst b) (dicts_of xs))))"
        if "b \<in> set agg" for b
        using map_of_is_SomeI [OF b(1), of "fst b" "snd b"] that b(2) [of "fst b"]
        by (cases b) (auto simp: bucket_of_def split: if_splits)
      then show ?thesis unfolding rs map_map comp_def by (intro map_cong) auto
    qed
  qed
qed

lemma agent_rows_listed:
  assumes "agent_rows run pr doc = Inr rs" "py_iter (py_or (dget doc ''specialists'') (VList [])) = Inr xs"
  shows "map (\<lambda>r. (dget r ''name'', dget r ''wall_ms'')) rs = map (\<lambda>d. (dget d ''leaf_id'', VInt (ms_of d)))
       (filter (\<lambda>d. is_str (dget d ''leaf_id'') \<and> num_of (dget d ''wall_ms'') \<noteq> None) (dicts_of xs))
     \<and> list_all (\<lambda>r. dget r ''scope'' = VStr ''agent'' \<and> dget r ''run_id'' = VStr run \<and> dget r ''pr_id'' = VStr pr) rs"
proof -
  from assms obtain rss where rss: "mapE (agent_rows_of run pr) (dicts_of xs) = Inr rss" "rs = concat rss"
    by (auto simp: agent_rows_def res_simps)
  have "mapE (agent_rows_of run pr) ds = Inr rss \<Longrightarrow>
      map (\<lambda>r. (dget r ''name'', dget r ''wall_ms'')) (concat rss) = map (\<lambda>d. (dget d ''leaf_id'', VInt (ms_of d)))
       (filter (\<lambda>d. is_str (dget d ''leaf_id'') \<and> num_of (dget d ''wall_ms'') \<noteq> None) ds)
     \<and> list_all (\<lambda>r. dget r ''scope'' = VStr ''agent'' \<and> dget r ''run_id'' = VStr run \<and> dget r ''pr_id'' = VStr pr) (concat rss)" for ds rss
  proof (induction ds arbitrary: rss)
    case (Cons d ds)
    from Cons.prems obtain r rest where r: "agent_rows_of run pr d = Inr r" "mapE (agent_rows_of run pr) ds = Inr rest"
        "rss = r # rest" by (auto simp: res_simps)
    from r(1) have "map (\<lambda>r. (dget r ''name'', dget r ''wall_ms'')) r = (if is_str (dget d ''leaf_id'') \<and> num_of (dget d ''wall_ms'') \<noteq> None
        then [(dget d ''leaf_id'', VInt (ms_of d))] else [])
      \<and> list_all (\<lambda>r. dget r ''scope'' = VStr ''agent'' \<and> dget r ''run_id'' = VStr run \<and> dget r ''pr_id'' = VStr pr) r"
      by (auto simp: agent_rows_of_def is_str_def ms_of_def res_simps split: pyval.splits if_splits)
    with Cons.IH [OF r(2)] r(3) show ?case by auto
  qed simp
  from this [OF rss(1)] show ?thesis by (simp add: rss(2))
qed


lemma float_if_positive:
  "float_if (is_positive c) c = Inr r \<Longrightarrow> r = VNone \<or> is_positive r"
  by (cases c) (auto simp: float_if_def py_float_def is_positive_def is_number_def num_of_def split: if_splits)

lemma process_rows_of:
  assumes "process_rows run pr doc = Inr rs" "r \<in> set rs"
  shows "dget r ''scope'' = VStr ''process'' \<and> (dget r ''cost'' = VNone \<or> is_positive (dget r ''cost''))"
proof -
  from assms obtain c where "float_if (is_positive (total_est_cost doc)) (total_est_cost doc) = Inr c"
      "dget r ''scope'' = VStr ''process''" "dget r ''cost'' = c"
    by (auto simp: process_rows_def res_simps Let_def split: if_splits)
  with float_if_positive show ?thesis by blast
qed

text \<open>
  What one timing document becomes: a single row for each state, in the order of the names,
  with the sum of the times recorded under the name and their number; a row for each
  specialist with an id and a measured time, in the order of the document; and no cost that is
  not a positive number.
\<close>

theorem measured_rows_spec:
  assumes "measured_rows run pr doc = Inr rs"
    and "py_iter (py_or (dget doc ''stage_timings'') (VList [])) = Inr stages"
    and "py_iter (py_or (dget doc ''specialists'') (VList [])) = Inr specialists"
  shows "\<exists>names.
      sorted_wrt (<) names \<and> set names = {name. named name (dicts_of stages) \<noteq> []}
    \<and> filter (\<lambda>r. dget r ''scope'' = VStr ''fsm_state'') rs
        = map (\<lambda>name. stage_row run pr (name, sum_list (map ms_of (named name (dicts_of stages))),
            int (length (named name (dicts_of stages))))) names
    \<and> map (\<lambda>r. (dget r ''name'', dget r ''wall_ms'')) (filter (\<lambda>r. dget r ''scope'' = VStr ''agent'') rs)
        = map (\<lambda>d. (dget d ''leaf_id'', VInt (ms_of d)))
            (filter (\<lambda>d. is_str (dget d ''leaf_id'') \<and> num_of (dget d ''wall_ms'') \<noteq> None) (dicts_of specialists))
    \<and> (\<forall>r\<in>set rs. dget r ''scope'' = VStr ''process'' \<longrightarrow>
          dget r ''cost'' = VNone \<or> is_positive (dget r ''cost''))"
proof -
  from assms(1) obtain p s a where p: "process_rows run pr doc = Inr p" and s: "stage_rows run pr doc = Inr s"
      and a: "agent_rows run pr doc = Inr a" and rs: "rs = p @ s @ a"
    by (auto simp: measured_rows_def res_simps)
  obtain names where n: "sorted_wrt (<) names" "set names = {name. named name (dicts_of stages) \<noteq> []}"
      "s = map (\<lambda>name. stage_row run pr (name, sum_list (map ms_of (named name (dicts_of stages))),
           int (length (named name (dicts_of stages))))) names"
    by (rule stage_rows_grouped [OF s assms(2)])
  have ps: "dget r ''scope'' = VStr ''process'' \<and> (dget r ''cost'' = VNone \<or> is_positive (dget r ''cost''))"
    if "r \<in> set p" for r by (rule process_rows_of [OF p that])
  have ss: "\<forall>r\<in>set s. dget r ''scope'' = VStr ''fsm_state''" unfolding n(3) by (auto simp: stage_row_def)
  have as: "\<forall>r\<in>set a. dget r ''scope'' = VStr ''agent''"
    using agent_rows_listed [OF a assms(3)] by (auto simp: list_all_iff)
  have "filter (\<lambda>r. dget r ''scope'' = VStr ''fsm_state'') rs = s"
    using ps ss as by (simp add: rs filter_empty_conv filter_id_conv)
  moreover have "filter (\<lambda>r. dget r ''scope'' = VStr ''agent'') rs = a"
    using ps ss as by (simp add: rs filter_empty_conv filter_id_conv)
  moreover have "\<forall>r\<in>set rs. dget r ''scope'' = VStr ''process'' \<longrightarrow>
          dget r ''cost'' = VNone \<or> is_positive (dget r ''cost'')"
    using ps ss as by (auto simp: rs)
  ultimately show ?thesis using n agent_rows_listed [OF a assms(3)] by blast
qed


subsection \<open>The cost of a review\<close>

lemma add_cost_positive: "float_lt (Fin 0) b \<Longrightarrow> a = Fin 0 \<or> float_lt (Fin 0) a \<Longrightarrow> float_lt (Fin 0) (add_cost a b)"
  by (cases a; cases b) (auto simp: float_lt_def float_of_rat_def float_limit_def)

lemma sum_costs_positive:
  "list_all (float_lt (Fin 0)) costs \<Longrightarrow> a = Fin 0 \<or> float_lt (Fin 0) a \<Longrightarrow>
     (costs = [] \<and> foldl add_cost a costs = a) \<or> float_lt (Fin 0) (foldl add_cost a costs)"
proof (induction costs arbitrary: a)
  case (Cons c costs)
  then have "float_lt (Fin 0) (add_cost a c)" by (intro add_cost_positive) auto
  with Cons.IH [of "add_cost a c"] Cons.prems show ?case by auto
qed simp

lemma mean_cost_positive:
  assumes "costs \<noteq> []" "list_all (float_lt (Fin 0)) costs"
  shows "float_lt (Fin 0) (mean_cost costs)"
proof -
  from assms have "float_lt (Fin 0) (foldl add_cost (Fin 0) costs)"
    using sum_costs_positive [OF assms(2), of "Fin 0"] by blast
  with assms(1) show ?thesis by (auto simp: mean_cost_def float_lt_def split: pyfloat.split)
qed

lemma priced_positive:
  assumes "priced docs = Inr costs"
  shows "list_all (float_lt (Fin 0)) costs \<and> length costs = length (filter is_positive (map total_est_cost docs))"
proof -
  have "mapE py_float vs = Inr cs \<Longrightarrow> list_all is_positive vs \<Longrightarrow> list_all (float_lt (Fin 0)) cs" for vs cs
  proof (induction vs arbitrary: cs)
    case (Cons v vs)
    then obtain c cs' where c: "py_float v = Inr c" "cs = c # cs'" "mapE py_float vs = Inr cs'" by (auto simp: res_simps)
    with Cons.prems have "float_lt (Fin 0) c"
      by (cases v) (auto simp: is_positive_def is_number_def num_of_def py_float_def split: if_splits)
    with Cons c show ?case by auto
  qed simp
  with assms show ?thesis by (auto simp: priced_def list_all_iff dest: mapE_length)
qed

lemma count_None_map_filter: "count_if (\<lambda>d. d = None) ds + length (List.map_filter id ds) = length ds"
  by (induction ds) (auto simp: List.map_filter_def)

text \<open>
  The mean cost of a review is taken over the documents that recorded a positive cost and
  over no other: it is absent exactly when there is none, positive when there is one, and each
  file is counted at most once, as priced or as skipped.
\<close>

theorem per_review_cost_spec:
  assumes "per_review_cost files run_ids = Inr (mean, n, skipped)"
  shows "(mean = None \<longleftrightarrow> n = 0) \<and> (\<forall>m. mean = Some m \<longrightarrow> float_lt (Fin 0) m)
    \<and> n + skipped \<le> length (files_of files run_ids)
    \<and> n = length (filter is_positive (map total_est_cost
         (List.map_filter (\<lambda>(_, _, c). read_doc c) (files_of files run_ids))))"
proof -
  let ?docs = "map (\<lambda>(_, _, c). read_doc c) (files_of files run_ids)"
  from assms obtain costs where costs: "priced (List.map_filter id ?docs) = Inr costs"
      and out: "mean = (if costs = [] then None else Some (mean_cost costs))" "n = length costs"
      "skipped = count_if (\<lambda>d. d = None) ?docs"
    by (auto simp: per_review_cost_def res_simps Let_def)
  note pos = priced_positive [OF costs]
  have docs: "List.map_filter id ?docs = List.map_filter (\<lambda>(_, _, c). read_doc c) (files_of files run_ids)"
    by (simp add: List.map_filter_def comp_def filter_map split_def)
  have "n \<le> length (List.map_filter id ?docs)" using pos out(2) length_filter_le [of is_positive] by (metis length_map)
  then have "n + skipped \<le> length ?docs" using count_None_map_filter [of ?docs] out(3) by simp
  moreover have "\<forall>m. mean = Some m \<longrightarrow> float_lt (Fin 0) m" using mean_cost_positive pos out(1) by auto
  ultimately show ?thesis using pos out unfolding docs by auto
qed

subsection \<open>The table keeps the last row of each key\<close>

lemma timing_key_payload [simp]: "timing_key (timing_payload row) = timing_key row"
  by (simp add: timing_key_def timing_payload_def timing_columns_def Let_def)

lemma upsert_keys:
  "distinct (map timing_key table) \<Longrightarrow> distinct (map timing_key (upsert_timing row table))"
  by (auto simp: upsert_timing_def distinct_map inj_on_def)

definition last_with_key :: "pyval list \<Rightarrow> dict list \<Rightarrow> dict option" where
  "last_with_key k rs = List.find (\<lambda>r. timing_key r = k) (rev rs)"

text \<open>
  Writing rows to the table keeps its primary key, and afterwards the only row with a key is
  the last one that was written with it, or what was there before.
\<close>

theorem write_rows_last_wins:
  "distinct (map timing_key table) \<Longrightarrow>
     distinct (map timing_key (write_rows rs table))
   \<and> (\<forall>k. filter (\<lambda>r. timing_key r = k) (write_rows rs table) =
        (case last_with_key k rs of Some r \<Rightarrow> [timing_payload r] | None \<Rightarrow> filter (\<lambda>r. timing_key r = k) table))"
proof (induction rs rule: rev_induct)
  case Nil
  then show ?case by (simp add: write_rows_def last_with_key_def)
next
  case (snoc r rs)
  have w: "write_rows (rs @ [r]) table = upsert_timing r (write_rows rs table)" by (simp add: write_rows_def)
  have "filter (\<lambda>q. timing_key q = k) (upsert_timing r t) =
      (if timing_key r = k then [timing_payload r] else filter (\<lambda>q. timing_key q = k) t)" for k t
    by (cases "timing_key r = k") (auto simp: upsert_timing_def filter_empty_conv intro!: filter_cong)
  moreover have "last_with_key k (rs @ [r]) = (if timing_key r = k then Some r else last_with_key k rs)" for k
    by (simp add: last_with_key_def)
  ultimately show ?case using snoc upsert_keys [of "write_rows rs table" r] unfolding w by auto
qed


subsection \<open>From the run to the tracker\<close>

lemma read_doc_written: "json_ok (VDict d) \<Longrightarrow> read_doc (Some (json_file d)) = Some d"
  using json_loads_printed [of "VDict d" "[newline]" True] by (simp add: read_doc_def json_file_def json_indented_def json_ws_def)

lemma measured_rows_doc:
  assumes "is_list (dget timings ''stage_timings'')" "is_list (dget timings ''specialists'')" "is_dict (dget timings ''cost'')"
  shows "measured_rows run pr (timings_doc legacy uuid timings) = measured_rows run pr timings"
proof -
  have "total_est_cost (timings_doc legacy uuid timings) = total_est_cost timings"
    using assms(3) by (auto simp: total_est_cost_def timings_doc_def is_dict_def ensure_dict_def split: pyval.splits)
  moreover have "pget_list v = v" if "is_list v" for v
    using that by (cases v) (auto simp: pget_list_def ensure_list_def is_list_def)
  ultimately show ?thesis
    using assms by (simp add: measured_rows_def process_rows_def stage_rows_def agent_rows_def timings_doc_def)
qed

lemma collect_written:
  assumes "json_ok (VDict (timings_doc legacy uuid timings))"
    and "is_list (dget timings ''stage_timings'')" "is_list (dget timings ''specialists'')" "is_dict (dget timings ''cost'')"
  shows "collect (\<lambda>_. [(pr, Some (json_file (timings_doc legacy uuid timings)))]) [run] False =
    bindE (measured_rows run pr timings) (\<lambda>rs. Inr (rs, 0))"
  unfolding collect_def files_of_def
  by (cases "measured_rows run pr timings") (simp_all add: collect_file_def read_doc_written [OF assms(1)] measured_rows_doc [OF assms(2-4)])

lemma keys_of_table: "distinct (map timing_key table) \<Longrightarrow>
    timing_key ` set (write_rows rs table) = timing_key ` set rs \<union> timing_key ` set table"
proof (induction rs rule: rev_induct)
  case (snoc r rs)
  have w: "write_rows (rs @ [r]) table = upsert_timing r (write_rows rs table)" by (simp add: write_rows_def)
  have "timing_key ` set (upsert_timing r t) = insert (timing_key r) (timing_key ` set t)" for t
    by (auto simp: upsert_timing_def)
  with snoc show ?case unfolding w by auto
qed (simp add: write_rows_def)

lemma write_rows_distinct: "distinct (map timing_key table) \<Longrightarrow> distinct (map timing_key (write_rows rs table))"
  by (induction rs arbitrary: table) (simp_all add: write_rows_def upsert_keys)

text \<open>A result that makes a row: its leaf is named and its time was measured.\<close>

definition measured :: "(pyval \<times> int) \<times> dict \<Rightarrow> bool" where
  "measured r \<longleftrightarrow> is_str (fst (fst r)) \<and> num_of (dget (snd r) ''wall_ms'') \<noteq> None"

text \<open>The record of a unit that was given up has no time.\<close>

lemma failed_unmeasured: "\<not> measured (key, failed_output leaf reason)"
  by (simp add: measured_def failed_output_def num_of_def)

lemma specialists_of_results:
  "map (\<lambda>d. (dget d ''leaf_id'', VInt (ms_of d)))
       (filter (\<lambda>d. is_str (dget d ''leaf_id'') \<and> num_of (dget d ''wall_ms'') \<noteq> None) (dicts_of (per_specialist_timings results)))
     = map (\<lambda>((leaf, sub), result). (leaf, VInt (ms_of result))) (filter measured (sort_key result_order results))"
proof -
  let ?g = "\<lambda>((leaf, sub), result). (''leaf_id'', leaf) #
        map (\<lambda>k. (k, dget result k)) [''wall_ms'', ''tokens_in'', ''tokens_out'', ''cost_usd'', ''est_cost'', ''tier'']"
  have "per_specialist_timings results = map VDict (map ?g (sort_key result_order results))"
    unfolding per_specialist_timings_def map_map by (rule map_cong) auto
  then have "dicts_of (per_specialist_timings results) = map ?g (sort_key result_order results)"
    by (simp only: dicts_of_VDict)
  moreover have "is_str (dget (?g p) ''leaf_id'') \<and> num_of (dget (?g p) ''wall_ms'') \<noteq> None \<longleftrightarrow> measured p" for p
    by (simp add: measured_def split: prod.splits)
  ultimately show ?thesis by (auto simp: filter_map comp_def ms_of_def intro!: map_cong)
qed

lemma scope_of_key: "dget r ''scope'' = timing_key r ! 2" by (simp add: timing_key_def)

text \<open>
  C36: from the results of a run to the tracker. The timing file that the run writes is read back
  without loss: when its rows can be collected, there is one row for each result with a measured time, sorted as the
  file is, with the id of its leaf and that time. A unit that was given up has no time and no row
  (lemma \<^verbatim>\<open>failed_unmeasured\<close>). The key of the table is the leaf, though: written to it, the rows of a leaf
  that was cut in several units leave one row, so there are as many as leaves with a measured time.
\<close>

theorem tracker_agent_rows:
  assumes "json_ok (VDict (timings_doc legacy uuid timings))"
    and "dget timings ''specialists'' = VList (per_specialist_timings results)"
    and "is_list (dget timings ''stage_timings'')" "is_dict (dget timings ''cost'')"
    and "collect (\<lambda>_. [(pr, Some (json_file (timings_doc legacy uuid timings)))]) [run] False = Inr (rs, skipped)"
  shows "skipped = 0
    \<and> map (\<lambda>r. (dget r ''name'', dget r ''wall_ms'')) (filter (\<lambda>r. dget r ''scope'' = VStr ''agent'') rs)
        = map (\<lambda>((leaf, sub), result). (leaf, VInt (ms_of result))) (filter measured (sort_key result_order results))
    \<and> length (filter (\<lambda>r. dget r ''scope'' = VStr ''agent'') (write_rows rs []))
        = card ((fst \<circ> fst) ` {r \<in> set results. measured r})"
proof -
  have specs: "is_list (dget timings ''specialists'')" by (simp add: assms(2) is_list_def)
  have m: "measured_rows run pr timings = Inr rs" "skipped = 0"
    using assms(5) unfolding collect_written [OF assms(1,3) specs assms(4)] by (auto simp: res_simps)
  obtain a p s where a: "agent_rows run pr timings = Inr a" and p: "process_rows run pr timings = Inr p"
      and s: "stage_rows run pr timings = Inr s" and rs: "rs = p @ s @ a"
    using m(1) by (auto simp: measured_rows_def res_simps)
  have xs: "py_iter (py_or (dget timings ''specialists'') (VList [])) = Inr (per_specialist_timings results)"
    by (simp add: assms(2) py_or_def py_iter_def)
  obtain stages where "dget timings ''stage_timings'' = VList stages" using assms(3) by (auto simp: is_list_def split: pyval.splits)
  then have st: "py_iter (py_or (dget timings ''stage_timings'') (VList [])) = Inr stages" by (simp add: py_or_def py_iter_def)
  note agents = agent_rows_listed [OF a xs]
  obtain names where "s = map (\<lambda>name. stage_row run pr (name, sum_list (map ms_of (named name (dicts_of stages))),
           int (length (named name (dicts_of stages))))) names" by (rule stage_rows_grouped [OF s st])
  then have "filter (\<lambda>r. dget r ''scope'' = VStr ''agent'') s = []" by (auto simp: filter_empty_conv stage_row_def)
  moreover have "filter (\<lambda>r. dget r ''scope'' = VStr ''agent'') p = []"
    using process_rows_of [OF p] by (auto simp: filter_empty_conv)
  ultimately have fa: "filter (\<lambda>r. dget r ''scope'' = VStr ''agent'') rs = a"
    using agents by (simp add: rs list_all_iff filter_id_conv)
  let ?T = "write_rows rs []" and ?agent = "\<lambda>r. dget r ''scope'' = VStr ''agent''"
  have nw: "map (\<lambda>r. (dget r ''name'', dget r ''wall_ms'')) a =
      map (\<lambda>((leaf, sub), result). (leaf, VInt (ms_of result))) (filter measured (sort_key result_order results))"
    using agents specialists_of_results [of results] by simp
  have "timing_key ` set (filter ?agent ?T) = {k \<in> timing_key ` set ?T. k ! 2 = VStr ''agent''}"
    by (auto simp: scope_of_key)
  also have "\<dots> = timing_key ` set (filter ?agent rs)" using keys_of_table [of "[]" rs] by (auto simp: scope_of_key)
  also have "\<dots> = (\<lambda>n. [VStr run, VStr pr, VStr ''agent'', n]) ` (\<lambda>r. dget r ''name'') ` set a"
    unfolding fa image_image using agents by (intro image_cong) (auto simp: timing_key_def list_all_iff)
  also have "(\<lambda>r. dget r ''name'') ` set a = (fst \<circ> fst) ` {r \<in> set results. measured r}"
    using arg_cong [OF nw, of "\<lambda>xs. fst ` set xs"] by (simp add: image_image comp_def split_def)
  finally have keys: "timing_key ` set (filter ?agent ?T) = (\<lambda>n. [VStr run, VStr pr, VStr ''agent'', n]) ` (fst \<circ> fst) ` {r \<in> set results. measured r}" .
  have "distinct (map timing_key (filter ?agent ?T))" using write_rows_distinct [of "[]" rs] by (simp add: distinct_map_filter)
  then have "length (filter ?agent ?T) = card (timing_key ` set (filter ?agent ?T))"
    using distinct_card [of "map timing_key (filter ?agent ?T)"] by (simp only: length_map set_map)
  moreover have "inj_on (\<lambda>n. [VStr run, VStr pr, VStr ''agent'', n]) A" for A by (simp add: inj_on_def)
  ultimately have "length (filter ?agent ?T) = card ((fst \<circ> fst) ` {r \<in> set results. measured r})" unfolding keys by (simp only: card_image)
  with m(2) nw fa show ?thesis by simp
qed


definition sample_doc :: dict where
  "sample_doc = [(''whole_review_ms'', VInt 90),
     (''stage_timings'', VList [VDict [(''name'', VStr ''scan''), (''wall_ms'', VInt 5)],
        VDict [(''name'', VStr ''plan''), (''wall_ms'', VInt 2)], VDict [(''name'', VStr ''scan''), (''wall_ms'', VInt 4)]]),
     (''specialists'', VList [VDict [(''leaf_id'', VStr ''sec-xss''), (''wall_ms'', VInt 30)]]),
     (''cost'', VDict [(''total_est_cost'', VInt 2)])]"

lemma sample_rows: "\<exists>rs. measured_rows ''r'' ''p'' sample_doc = Inr rs"
  by (simp add: measured_rows_def process_rows_def stage_rows_def agent_rows_def agent_rows_of_def sample_doc_def
      total_est_cost_def float_if_def is_positive_def is_number_def num_of_def py_float_def py_or_def py_iter_def
      add_stage_def py_int_def int_or_none_def float_limit_def float_lt_def Let_def)

theorem measured_rows_spec_witness:
  "\<exists>rs. measured_rows ''r'' ''p'' sample_doc = Inr rs
     \<and> map (\<lambda>r. (dget r ''name'', dget r ''wall_ms'')) (filter (\<lambda>r. dget r ''scope'' = VStr ''agent'') rs)
        = [(VStr ''sec-xss'', VInt 30)]"
proof -
  obtain rs where rs: "measured_rows ''r'' ''p'' sample_doc = Inr rs" using sample_rows by blast
  have it: "py_iter (py_or (dget sample_doc ''stage_timings'') (VList [])) = Inr (ensure_list (dget sample_doc ''stage_timings''))"
    "py_iter (py_or (dget sample_doc ''specialists'') (VList [])) = Inr (ensure_list (dget sample_doc ''specialists''))"
    by (simp_all add: sample_doc_def py_or_def py_iter_def ensure_list_def)
  have one: "map (\<lambda>d. (dget d ''leaf_id'', VInt (ms_of d)))
      (filter (\<lambda>d. is_str (dget d ''leaf_id'') \<and> num_of (dget d ''wall_ms'') \<noteq> None)
         (dicts_of (ensure_list (dget sample_doc ''specialists'')))) = [(VStr ''sec-xss'', VInt 30)]"
    by (simp add: sample_doc_def ensure_list_def is_str_def num_of_def ms_of_def py_int_def)
  from measured_rows_spec [OF rs it] have "map (\<lambda>r. (dget r ''name'', dget r ''wall_ms'')) (filter (\<lambda>r. dget r ''scope'' = VStr ''agent'') rs)
        = [(VStr ''sec-xss'', VInt 30)]" unfolding one by (elim exE conjE)
  with rs show ?thesis by (intro exI [of _ rs] conjI)
qed

theorem per_review_cost_spec_witness:
  "\<exists>mean n skipped. per_review_cost (\<lambda>_. [(''p'', Some (json_file sample_doc)), (''q'', None)]) [''r''] = Inr (mean, n, skipped)
     \<and> n = 1 \<and> n + skipped \<le> 2"
proof -
  let ?files = "\<lambda>_. [(''p'', Some (json_file sample_doc)), (''q'', None)]"
  have "json_ok (VDict sample_doc)" by (simp add: sample_doc_def list_all_iff text_ok_ascii)
  then have doc: "read_doc (Some (json_file sample_doc)) = Some sample_doc" by (rule read_doc_written)
  have none: "read_doc None = None" by (simp add: read_doc_def)
  have files: "files_of ?files [''r''] = [(''r'', ''p'', Some (json_file sample_doc)), (''r'', ''q'', None)]"
    by (simp add: files_of_def)
  have pos: "is_positive (total_est_cost sample_doc)" "py_float (total_est_cost sample_doc) = Inr (Fin 2)"
    by (simp_all add: total_est_cost_def sample_doc_def is_positive_def is_number_def num_of_def float_lt_def
        py_float_def float_limit_def)
  obtain mean n skipped where r: "per_review_cost ?files [''r''] = Inr (mean, n, skipped)"
    unfolding per_review_cost_def files by (auto simp: doc none priced_def List.map_filter_def pos)
  from per_review_cost_spec [OF r] show ?thesis unfolding files r
    by (simp add: doc none List.map_filter_def pos)
qed

definition unit_row :: "int \<Rightarrow> dict" where
  "unit_row ms = [(''run_id'', VStr ''r''), (''pr_id'', VStr ''p''), (''scope'', VStr ''agent''), (''name'', VStr ''sec-xss''),
     (''wall_ms'', VInt ms)]"

theorem write_rows_last_wins_witness:
  "filter (\<lambda>r. timing_key r = timing_key (unit_row 1)) (write_rows [unit_row 30, unit_row 4] []) = [timing_payload (unit_row 4)]"
proof -
  have "last_with_key (timing_key (unit_row 1)) [unit_row 30, unit_row 4] = Some (unit_row 4)"
    by (simp add: last_with_key_def timing_key_def unit_row_def)
  moreover have "distinct (map timing_key [])" by simp
  ultimately show ?thesis using write_rows_last_wins [of "[]" "[unit_row 30, unit_row 4]"] by (simp only: option.case)
qed

definition split_results :: results where
  "split_results = [((VStr ''sec-xss'', 1), [(''wall_ms'', VInt 30)]), ((VStr ''sec-xss'', 2), [(''wall_ms'', VInt 4)]),
     ((VStr ''sec-xss'', 3), failed_output (VStr ''sec-xss'') ''rate-limited after retries'')]"

definition split_timings :: dict where
  "split_timings = [(''stage_timings'', VList []), (''specialists'', VList (per_specialist_timings split_results)), (''cost'', VDict [])]"

theorem tracker_agent_rows_witness:
  "\<exists>rs. collect (\<lambda>_. [(''p'', Some (json_file (timings_doc ''l'' ''u'' split_timings)))]) [''r''] False = Inr (rs, 0)
     \<and> length (filter (\<lambda>r. dget r ''scope'' = VStr ''agent'') rs) = 2
     \<and> length (filter (\<lambda>r. dget r ''scope'' = VStr ''agent'') (write_rows rs [])) = 1"
proof -
  have sorted: "sort_key result_order split_results = split_results"
    by (simp add: split_results_def result_order_def)
  have ok: "json_ok (VDict (timings_doc ''l'' ''u'' split_timings))"
    by (simp add: timings_doc_def split_timings_def pget_list_def ensure_list_def ensure_dict_def per_specialist_timings_def
        sorted list_all_iff text_ok_ascii) (simp add: split_results_def failed_output_def text_ok_ascii)
  have sp: "dget split_timings ''specialists'' = VList (per_specialist_timings split_results)"
    "is_list (dget split_timings ''stage_timings'')" "is_dict (dget split_timings ''cost'')"
    by (simp_all add: split_timings_def is_list_def is_dict_def)
  have timed: "filter measured split_results = take 2 split_results" "length (filter measured split_results) = 2"
    "{r \<in> set split_results. measured r} = set (take 2 split_results)"
    using failed_unmeasured by (auto simp: split_results_def measured_def is_str_def num_of_def failed_output_def)
  have "\<exists>rs. measured_rows ''r'' ''p'' split_timings = Inr rs"
    by (simp add: measured_rows_def process_rows_def stage_rows_def agent_rows_def agent_rows_of_def split_timings_def
        per_specialist_timings_def sorted total_est_cost_def float_if_def is_positive_def is_number_def num_of_def py_float_def
        py_or_def py_iter_def py_int_def int_or_none_def float_limit_def float_lt_def Let_def)
      (simp add: split_results_def failed_output_def agent_rows_of_def float_if_def is_number_def num_of_def py_int_def int_or_none_def)
  then obtain rs where rs: "collect (\<lambda>_. [(''p'', Some (json_file (timings_doc ''l'' ''u'' split_timings)))]) [''r''] False = Inr (rs, 0)"
    using collect_written [OF ok sp(2) _ sp(3), of "''p''" "''r''"] sp(1) by (auto simp: is_list_def)
  from tracker_agent_rows [OF ok sp rs] have t:
      "map (\<lambda>r. (dget r ''name'', dget r ''wall_ms'')) (filter (\<lambda>r. dget r ''scope'' = VStr ''agent'') rs)
        = map (\<lambda>((leaf, sub), result). (leaf, VInt (ms_of result))) (filter measured (sort_key result_order split_results))"
      "length (filter (\<lambda>r. dget r ''scope'' = VStr ''agent'') (write_rows rs [])) = card ((fst \<circ> fst) ` {r \<in> set split_results. measured r})"
    by auto
  have "length (filter (\<lambda>r. dget r ''scope'' = VStr ''agent'') rs) = 2"
    using arg_cong [OF t(1), of length] by (simp only: length_map sorted timed(2))
  moreover have "card ((fst \<circ> fst) ` {r \<in> set split_results. measured r}) = 1" unfolding timed(3) by (simp add: split_results_def)
  ultimately show ?thesis using rs t(2) by (intro exI [of _ rs]) simp
qed

end
