(* ===== verification/Promotion.thy ===== *)
theory Promotion
  imports Prelude Complex_Main
begin

section \<open>The promotion gate\<close>

text \<open>
  \<^verbatim>\<open>scripts/stats.py\<close>: the metrics of a measurement, the bootstrap intervals and the five gates that a
  candidate must pass. Counts and metrics are exact real numbers. The generator of random
  indices and \<^verbatim>\<open>numpy.quantile\<close> are arguments; what the properties use of them is that a quantile lies
  between the least and the greatest value.
\<close>

subsection \<open>Metrics\<close>

definition safe_div :: "real \<Rightarrow> real \<Rightarrow> real" where
  "safe_div a b = (if b \<noteq> 0 then a / b else 0)"

definition recall_from_counts :: "real \<Rightarrow> real \<Rightarrow> real \<Rightarrow> real" where
  "recall_from_counts tp fp fn = safe_div tp (tp + fn)"

definition precision_from_counts :: "real \<Rightarrow> real \<Rightarrow> real \<Rightarrow> real" where
  "precision_from_counts tp fp fn = safe_div tp (tp + fp)"

definition f1_from_counts :: "real \<Rightarrow> real \<Rightarrow> real \<Rightarrow> real" where
  "f1_from_counts tp fp fn =
     (let p = precision_from_counts tp fp fn; r = recall_from_counts tp fp fn in safe_div (2 * p * r) (p + r))"

datatype metric = Recall | Precision | F1

fun metric_fn :: "metric \<Rightarrow> real \<Rightarrow> real \<Rightarrow> real \<Rightarrow> real" where
  "metric_fn Recall = recall_from_counts"
| "metric_fn Precision = precision_from_counts"
| "metric_fn F1 = f1_from_counts"

subsection \<open>Rounds\<close>

text \<open>A round maps the ids of pull requests to counts; a missing one counts as zeros.\<close>

record counts =
  c_tp :: real
  c_fp :: real
  c_fn :: real

type_synonym round_counts = "(string \<times> counts) list"

definition no_counts :: counts where "no_counts = \<lparr>c_tp = 0, c_fp = 0, c_fn = 0\<rparr>"

definition counts_of :: "round_counts \<Rightarrow> string \<Rightarrow> counts" where
  "counts_of r pid = (case map_of r pid of None \<Rightarrow> no_counts | Some c \<Rightarrow> c)"

definition ordered_prs :: "round_counts \<Rightarrow> string list" where
  "ordered_prs r = sort (remdups (map fst r))"

definition ordered_prs_union :: "round_counts list \<Rightarrow> string list" where
  "ordered_prs_union rounds = sort (remdups (concat (map (map fst) rounds)))"

definition mean_of :: "real list \<Rightarrow> real" where
  "mean_of xs = sum_list xs / real (length xs)"

definition pooled :: "round_counts list \<Rightarrow> string \<Rightarrow> counts" where
  "pooled rounds pid =
     (if rounds = [] then no_counts
      else \<lparr>c_tp = mean_of (map (\<lambda>r. c_tp (counts_of r pid)) rounds),
            c_fp = mean_of (map (\<lambda>r. c_fp (counts_of r pid)) rounds),
            c_fn = mean_of (map (\<lambda>r. c_fn (counts_of r pid)) rounds)\<rparr>)"

definition pool_rounds :: "round_counts list \<Rightarrow> string list \<Rightarrow> counts list" where
  "pool_rounds rounds pr_ids = map (pooled rounds) pr_ids"

definition metric_over :: "metric \<Rightarrow> counts list \<Rightarrow> real" where
  "metric_over m cs = metric_fn m (sum_list (map c_tp cs)) (sum_list (map c_fp cs)) (sum_list (map c_fn cs))"

subsection \<open>Intervals\<close>

record ci =
  ci_point :: real
  ci_lo :: real
  ci_hi :: real

text \<open>
  \<open>draws b n\<close> is the matrix \<^verbatim>\<open>default_rng(0).integers(0, n, size=(b, n))\<close>; every estimate has a
  generator of its own with the same seed. \<open>quantile\<close> is \<^verbatim>\<open>numpy.quantile\<close>.
\<close>

record sampler =
  draws :: "nat \<Rightarrow> nat \<Rightarrow> nat list list"
  quantile :: "real list \<Rightarrow> real \<Rightarrow> real"

definition percentile_ci :: "sampler \<Rightarrow> real \<Rightarrow> real \<Rightarrow> real list \<Rightarrow> ci" where
  "percentile_ci s alpha point reps =
     \<lparr>ci_point = point, ci_lo = quantile s reps (alpha / 2), ci_hi = quantile s reps (1 - alpha / 2)\<rparr>"

definition bootstrap_ci :: "sampler \<Rightarrow> nat \<Rightarrow> round_counts list \<Rightarrow> metric \<Rightarrow> ci" where
  "bootstrap_ci s b rounds m =
     (let mat = pool_rounds rounds (ordered_prs_union rounds); n = length mat; point = metric_over m mat in
      if n = 0 then \<lparr>ci_point = point, ci_lo = point, ci_hi = point\<rparr>
      else percentile_ci s (5 / 100) point (map (\<lambda>idx. metric_over m (map ((!) mat) idx)) (draws s b n)))"

definition fp_per_pr_mean :: "round_counts list \<Rightarrow> real" where
  "fp_per_pr_mean rounds =
     (let mat = pool_rounds rounds (ordered_prs_union rounds) in
      if mat = [] then 0 else sum_list (map c_fp mat) / real (length mat))"

definition shared_prs :: "round_counts list \<Rightarrow> round_counts list \<Rightarrow> string list" where
  "shared_prs baseline candidate =
     sort (filter (\<lambda>p. p \<in> set (ordered_prs_union candidate)) (ordered_prs_union baseline))"

definition metric_of :: "metric \<Rightarrow> counts \<Rightarrow> real" where
  "metric_of m c = metric_fn m (c_tp c) (c_fp c) (c_fn c)"

definition per_pr_deltas :: "(counts \<Rightarrow> real) \<Rightarrow> round_counts list \<Rightarrow> round_counts list \<Rightarrow> real list" where
  "per_pr_deltas f baseline candidate =
     (let shared = shared_prs baseline candidate in
      map2 (\<lambda>c b. f c - f b) (pool_rounds candidate shared) (pool_rounds baseline shared))"

definition paired_bootstrap_ci :: "sampler \<Rightarrow> nat \<Rightarrow> real list \<Rightarrow> ci" where
  "paired_bootstrap_ci s b delta =
     (let n = length delta; point = (if n = 0 then 0 else mean_of delta) in
      if n = 0 then \<lparr>ci_point = point, ci_lo = point, ci_hi = point\<rparr>
      else percentile_ci s (5 / 100) point (map (\<lambda>idx. mean_of (map ((!) delta) idx)) (draws s b n)))"

definition paired_delta_ci :: "sampler \<Rightarrow> nat \<Rightarrow> round_counts list \<Rightarrow> round_counts list \<Rightarrow> metric \<Rightarrow> ci" where
  "paired_delta_ci s b baseline candidate m = paired_bootstrap_ci s b (per_pr_deltas (metric_of m) baseline candidate)"

definition fp_per_pr_delta_ci :: "sampler \<Rightarrow> nat \<Rightarrow> round_counts list \<Rightarrow> round_counts list \<Rightarrow> ci" where
  "fp_per_pr_delta_ci s b baseline candidate = paired_bootstrap_ci s b (per_pr_deltas c_fp baseline candidate)"

definition f1_per_round :: "round_counts list \<Rightarrow> real list" where
  "f1_per_round rounds = map (\<lambda>r. metric_over F1 (map (counts_of r) (ordered_prs r))) rounds"

definition stdev :: "real list \<Rightarrow> real" where
  "stdev xs = (if length xs < 2 then 0 else sqrt (mean_of (map (\<lambda>x. (x - mean_of xs)\<^sup>2) xs)))"

text \<open>The mean of the recorded costs; \<^verbatim>\<open>None\<close> where the list is missing or empty.\<close>

definition mean_review_cost :: "real list option \<Rightarrow> real option" where
  "mean_review_cost costs = (case costs of None \<Rightarrow> None | Some xs \<Rightarrow> if xs = [] then None else Some (mean_of xs))"

subsection \<open>The five gates\<close>

definition min_prs_for_promote :: nat where "min_prs_for_promote = 12"
definition gate1_recall_delta_floor :: real where "gate1_recall_delta_floor = - 3 / 100"
definition gate2_fp_delta_ceiling :: real where "gate2_fp_delta_ceiling = 30 / 100"
definition gate4_stdev_slack :: real where "gate4_stdev_slack = 2 / 100"
definition gate5_cost_multiplier :: real where "gate5_cost_multiplier = 125 / 100"

datatype gate_verdict = Promote | Revert | Inconclusive

record gates =
  gate_1_recall :: bool
  gate_2_noise :: bool
  gate_3_progress :: bool
  gate_4_stability :: bool
  gate_5_cost :: bool

record gate_result =
  g_verdict :: gate_verdict
  g_shared :: nat
  g_underpowered :: bool
  g_gates :: gates

definition gate_booleans ::
  "sampler \<Rightarrow> nat \<Rightarrow> round_counts list \<Rightarrow> round_counts list \<Rightarrow> real list option \<Rightarrow> real list option \<Rightarrow> gates" where
  "gate_booleans s b baseline candidate baseline_cost candidate_cost =
     \<lparr>gate_1_recall = ci_point (bootstrap_ci s b baseline Recall) \<le> ci_point (bootstrap_ci s b candidate Recall)
        \<and> gate1_recall_delta_floor \<le> ci_lo (paired_delta_ci s b baseline candidate Recall),
      gate_2_noise = fp_per_pr_mean candidate \<le> fp_per_pr_mean baseline
        \<and> ci_hi (fp_per_pr_delta_ci s b baseline candidate) \<le> gate2_fp_delta_ceiling,
      gate_3_progress = 0 < ci_lo (paired_delta_ci s b baseline candidate F1),
      gate_4_stability = stdev (f1_per_round candidate) \<le> stdev (f1_per_round baseline) + gate4_stdev_slack,
      gate_5_cost = (case (mean_review_cost baseline_cost, mean_review_cost candidate_cost) of
        (Some cost_b, Some cost_c) \<Rightarrow> cost_c \<le> gate5_cost_multiplier * cost_b | _ \<Rightarrow> True)\<rparr>"

definition gate_predicate ::
  "sampler \<Rightarrow> nat \<Rightarrow> nat \<Rightarrow> round_counts list \<Rightarrow> round_counts list \<Rightarrow> real list option \<Rightarrow> real list option \<Rightarrow> gate_result" where
  "gate_predicate s b min_prs baseline candidate baseline_cost candidate_cost =
     (let g = gate_booleans s b baseline candidate baseline_cost candidate_cost;
          n_shared = length (shared_prs baseline candidate);
          underpowered = n_shared < min_prs;
          no_regression = gate_1_recall g \<and> gate_2_noise g \<and> gate_4_stability g \<and> gate_5_cost g
      in \<lparr>g_verdict = (if underpowered then Inconclusive
             else if no_regression \<and> gate_3_progress g then Promote
             else if no_regression \<and> \<not> gate_3_progress g then Inconclusive
             else Revert),
          g_shared = n_shared, g_underpowered = underpowered, g_gates = g\<rparr>)"

subsection \<open>Metrics are between 0 and 1\<close>

lemma safe_div_le_1: "0 \<le> a \<Longrightarrow> a \<le> b \<Longrightarrow> 0 \<le> safe_div a b \<and> safe_div a b \<le> 1"
  by (auto simp: safe_div_def divide_simps)

lemma precision_recall_bounds:
  assumes "0 \<le> tp" "0 \<le> fp" "0 \<le> fn"
  shows "0 \<le> precision_from_counts tp fp fn" "precision_from_counts tp fp fn \<le> 1"
    "0 \<le> recall_from_counts tp fp fn" "recall_from_counts tp fp fn \<le> 1"
  using safe_div_le_1 [of tp "tp + fp"] safe_div_le_1 [of tp "tp + fn"] assms
  by (auto simp: precision_from_counts_def recall_from_counts_def)

lemma f1_closed_form:
  assumes "0 \<le> tp" "0 \<le> fp" "0 \<le> fn"
  shows "f1_from_counts tp fp fn = safe_div (2 * tp) (2 * tp + fp + fn)"
proof (cases "tp = 0")
  case True
  then show ?thesis by (simp add: f1_from_counts_def precision_from_counts_def recall_from_counts_def safe_div_def Let_def)
next
  case False
  with assms have pos: "0 < tp" "0 < tp + fp" "0 < tp + fn" "0 < 2 * tp + fp + fn" by auto
  let ?p = "tp / (tp + fp)" and ?r = "tp / (tp + fn)"
  have "?p + ?r = tp * (2 * tp + fp + fn) / ((tp + fp) * (tp + fn))" using pos by (simp add: field_simps)
  moreover have "2 * ?p * ?r = tp * (2 * tp) / ((tp + fp) * (tp + fn))" by simp
  ultimately have "2 * ?p * ?r / (?p + ?r) = 2 * tp / (2 * tp + fp + fn)" using pos by simp
  moreover have "0 < ?p" "0 < ?r" using pos by simp_all
  then have "?p + ?r \<noteq> 0" by linarith
  ultimately show ?thesis
    using pos by (simp add: f1_from_counts_def precision_from_counts_def recall_from_counts_def safe_div_def Let_def)
qed


lemma f1_between:
  assumes "0 \<le> tp" "0 \<le> fp" "0 \<le> fn"
  shows "min (precision_from_counts tp fp fn) (recall_from_counts tp fp fn) \<le> f1_from_counts tp fp fn"
    and "f1_from_counts tp fp fn \<le> max (precision_from_counts tp fp fn) (recall_from_counts tp fp fn)"
proof -
  let ?p = "precision_from_counts tp fp fn" and ?r = "recall_from_counts tp fp fn"
  note b = precision_recall_bounds [OF assms]
  have f: "f1_from_counts tp fp fn = safe_div (2 * ?p * ?r) (?p + ?r)" by (simp add: f1_from_counts_def Let_def)
  have h: "min p r \<le> safe_div (2 * p * r) (p + r) \<and> safe_div (2 * p * r) (p + r) \<le> max p r" if "0 \<le> p" "0 \<le> r" for p r
  proof (cases "p + r = 0")
    case False
    with that have "0 < p + r" by simp
    moreover have "min p r * (p + r) \<le> 2 * p * r" "2 * p * r \<le> max p r * (p + r)"
      using that by (auto simp: min_def max_def algebra_simps mult_left_mono mult_mono)
    ultimately show ?thesis by (simp add: safe_div_def pos_le_divide_eq pos_divide_le_eq)
  qed (use that in \<open>auto simp: safe_div_def\<close>)
  show "min ?p ?r \<le> f1_from_counts tp fp fn" "f1_from_counts tp fp fn \<le> max ?p ?r"
    unfolding f using h [OF b(1) b(3)] by auto
qed

subsection \<open>Samples\<close>

text \<open>What the properties use of the two libraries.\<close>

definition fair_sampler :: "sampler \<Rightarrow> bool" where
  "fair_sampler s \<longleftrightarrow>
     (\<forall>b n. length (draws s b n) = b \<and> (\<forall>idx\<in>set (draws s b n). length idx = n \<and> (\<forall>i\<in>set idx. i < n)))
   \<and> (\<forall>xs q. xs \<noteq> [] \<longrightarrow> 0 \<le> q \<longrightarrow> q \<le> 1 \<longrightarrow> Min (set xs) \<le> quantile s xs q \<and> quantile s xs q \<le> Max (set xs))"

lemma mean_of_bounds:
  assumes "xs \<noteq> []" "\<forall>x\<in>set xs. lo \<le> x \<and> x \<le> hi"
  shows "lo \<le> mean_of xs \<and> mean_of xs \<le> hi"
proof -
  have "lo * real (length xs) \<le> sum_list xs \<and> sum_list xs \<le> hi * real (length xs)"
    using assms(2) by (induction xs) (auto simp: algebra_simps)
  with assms(1) show ?thesis by (simp add: mean_of_def pos_le_divide_eq pos_divide_le_eq)
qed

lemma paired_ci_within:
  assumes "fair_sampler s" "0 < b" "\<forall>d\<in>set delta. lo \<le> d \<and> d \<le> hi" "delta \<noteq> []"
  shows "lo \<le> ci_lo (paired_bootstrap_ci s b delta) \<and> ci_lo (paired_bootstrap_ci s b delta) \<le> hi
    \<and> lo \<le> ci_hi (paired_bootstrap_ci s b delta) \<and> ci_hi (paired_bootstrap_ci s b delta) \<le> hi"
proof -
  let ?n = "length delta" and ?reps = "map (\<lambda>idx. mean_of (map ((!) delta) idx)) (draws s b (length delta))"
  have rows: "length (draws s b ?n) = b" "\<forall>idx\<in>set (draws s b ?n). length idx = ?n \<and> (\<forall>i\<in>set idx. i < ?n)"
    using assms(1) by (auto simp: fair_sampler_def)
  have "lo \<le> x \<and> x \<le> hi" if "x \<in> set ?reps" for x
  proof -
    from that obtain idx where "idx \<in> set (draws s b ?n)" "x = mean_of (map ((!) delta) idx)" by auto
    with rows(2) assms(3,4) show ?thesis by (auto intro!: mean_of_bounds)
  qed
  moreover have "?reps \<noteq> []" using rows(1) assms(2) by (auto simp flip: length_greater_0_conv)
  ultimately have "lo \<le> quantile s ?reps q \<and> quantile s ?reps q \<le> hi" if "0 \<le> q" "q \<le> 1" for q
    using assms(1) that unfolding fair_sampler_def
    by (meson List.finite_set Max_le_iff Min_ge_iff order_trans set_empty)
  then show ?thesis using assms(4) by (simp add: paired_bootstrap_ci_def percentile_ci_def Let_def)
qed

lemma paired_ci_Nil [simp]: "ci_lo (paired_bootstrap_ci s b []) = 0" "ci_hi (paired_bootstrap_ci s b []) = 0"
  by (simp_all add: paired_bootstrap_ci_def)

lemma deltas_map:
  "per_pr_deltas f baseline candidate = map (\<lambda>p. f (pooled candidate p) - f (pooled baseline p)) (shared_prs baseline candidate)"
  by (simp add: per_pr_deltas_def pool_rounds_def map2_map_map Let_def)

subsection \<open>Properties\<close>

text \<open>The metrics are shares, and the F1 value lies between precision and recall.\<close>

theorem metrics_bounds:
  assumes "0 \<le> tp" "0 \<le> fp" "0 \<le> fn"
  shows "(\<forall>m. 0 \<le> metric_fn m tp fp fn \<and> metric_fn m tp fp fn \<le> 1)
    \<and> f1_from_counts tp fp fn = safe_div (2 * tp) (2 * tp + fp + fn)
    \<and> min (precision_from_counts tp fp fn) (recall_from_counts tp fp fn) \<le> f1_from_counts tp fp fn
    \<and> f1_from_counts tp fp fn \<le> max (precision_from_counts tp fp fn) (recall_from_counts tp fp fn)"
proof -
  have "0 \<le> metric_fn m tp fp fn \<and> metric_fn m tp fp fn \<le> 1" for m
    using precision_recall_bounds [OF assms] f1_between [OF assms] by (cases m) auto
  then show ?thesis using f1_closed_form [OF assms] f1_between [OF assms] by blast
qed

theorem metrics_bounds_witness: "f1_from_counts 3 1 2 = 2 / 3 \<and> metric_fn Recall 3 1 2 \<le> 1"
proof -
  have nonneg: "0 \<le> (3 :: real)" "0 \<le> (1 :: real)" "0 \<le> (2 :: real)" by simp_all
  have "metric_fn Recall 3 1 2 \<le> 1" "f1_from_counts 3 1 2 = safe_div (2 * 3) (2 * 3 + 1 + 2)"
    using metrics_bounds [OF nonneg] by blast+
  then show ?thesis by (simp add: safe_div_def del: metric_fn.simps)
qed

text \<open>
  C26: a promotion is earned: when the predicate promotes a candidate, at least the minimal number of
  pull requests is shared, on one of them the candidate's F1 is really above the baseline's, recall
  has not dropped, there is no more noise, and the cost is within the limit where both costs
  are recorded, whatever indices are drawn and however the quantile interpolates.
\<close>

theorem promotion_needs_progress:
  assumes "fair_sampler s" "0 < b"
    and "g_verdict (gate_predicate s b min_prs baseline candidate baseline_cost candidate_cost) = Promote"
  shows "min_prs \<le> length (shared_prs baseline candidate)
    \<and> (\<exists>p\<in>set (shared_prs baseline candidate). metric_of F1 (pooled baseline p) < metric_of F1 (pooled candidate p))
    \<and> ci_point (bootstrap_ci s b baseline Recall) \<le> ci_point (bootstrap_ci s b candidate Recall)
    \<and> fp_per_pr_mean candidate \<le> fp_per_pr_mean baseline
    \<and> (\<forall>cb cc. mean_review_cost baseline_cost = Some cb \<longrightarrow> mean_review_cost candidate_cost = Some cc \<longrightarrow>
          cc \<le> gate5_cost_multiplier * cb)"
proof -
  let ?g = "gate_booleans s b baseline candidate baseline_cost candidate_cost"
  from assms(3) have g: "min_prs \<le> length (shared_prs baseline candidate)" "gate_1_recall ?g" "gate_2_noise ?g"
      "gate_3_progress ?g" "gate_5_cost ?g"
    by (auto simp: gate_predicate_def Let_def split: if_splits)
  let ?delta = "per_pr_deltas (metric_of F1) baseline candidate"
  have pos: "0 < ci_lo (paired_bootstrap_ci s b ?delta)" using g(4) by (simp add: gate_booleans_def paired_delta_ci_def)
  have "\<exists>d\<in>set ?delta. 0 < d"
  proof (rule ccontr)
    assume "\<not> (\<exists>d\<in>set ?delta. 0 < d)"
    then have "\<forall>d\<in>set ?delta. Min (set ?delta) \<le> d \<and> d \<le> 0" by (auto simp: not_less)
    moreover have "?delta \<noteq> []" using pos by (cases ?delta) auto
    ultimately show False using paired_ci_within [OF assms(1,2), of ?delta "Min (set ?delta)" 0] pos by auto
  qed
  then have "\<exists>p\<in>set (shared_prs baseline candidate). metric_of F1 (pooled baseline p) < metric_of F1 (pooled candidate p)"
    by (auto simp: deltas_map)
  with g show ?thesis by (auto simp: gate_booleans_def)
qed

text \<open>A sampler that always draws the first pull request and answers with the first value.\<close>

definition first_sampler :: sampler where
  "first_sampler = \<lparr>draws = (\<lambda>b n. replicate b (replicate n 0)), quantile = (\<lambda>xs q. hd xs)\<rparr>"

lemma first_sampler_fair: "fair_sampler first_sampler"
  by (auto simp: fair_sampler_def first_sampler_def)

definition one_pr :: "real \<Rightarrow> real \<Rightarrow> real \<Rightarrow> round_counts list" where
  "one_pr tp fp fn = [[(''pr1'', \<lparr>c_tp = tp, c_fp = fp, c_fn = fn\<rparr>)]]"

lemma one_pr_simps:
  "shared_prs (one_pr a b c) (one_pr d e f) = [''pr1'']" "ordered_prs_union (one_pr a b c) = [''pr1'']"
  "pooled (one_pr a b c) ''pr1'' = \<lparr>c_tp = a, c_fp = b, c_fn = c\<rparr>"
  "f1_per_round (one_pr a b c) = [f1_from_counts a b c]"
  by (simp_all add: shared_prs_def ordered_prs_union_def ordered_prs_def one_pr_def pooled_def counts_of_def mean_of_def
      f1_per_round_def metric_over_def)

lemma one_pr_promotes:
  "g_verdict (gate_predicate first_sampler 1 1 (one_pr 1 1 1) (one_pr 2 0 0) (Some [4]) (Some [5])) = Promote"
  by (simp add: gate_predicate_def gate_booleans_def one_pr_simps bootstrap_ci_def paired_delta_ci_def fp_per_pr_delta_ci_def
      paired_bootstrap_ci_def percentile_ci_def deltas_map pool_rounds_def metric_over_def metric_of_def first_sampler_def
      mean_of_def stdev_def fp_per_pr_mean_def mean_review_cost_def recall_from_counts_def precision_from_counts_def
      f1_from_counts_def safe_div_def gate1_recall_delta_floor_def gate2_fp_delta_ceiling_def gate4_stdev_slack_def
      gate5_cost_multiplier_def Let_def)

theorem promotion_needs_progress_witness:
  "fp_per_pr_mean (one_pr 2 0 0) \<le> fp_per_pr_mean (one_pr 1 1 1)
   \<and> (\<exists>p\<in>{''pr1''}. metric_of F1 (pooled (one_pr 1 1 1) p) < metric_of F1 (pooled (one_pr 2 0 0) p))"
  using promotion_needs_progress [OF first_sampler_fair _ one_pr_promotes] by (simp add: one_pr_simps)

text \<open>A measurement against itself is never promoted and never reverted.\<close>

theorem same_measurement_inconclusive:
  assumes "fair_sampler s" "0 < b" "\<forall>c\<in>set costs. 0 \<le> c"
  shows "g_verdict (gate_predicate s b min_prs rounds rounds (Some costs) (Some costs)) = Inconclusive"
proof -
  have zero: "\<forall>d\<in>set (per_pr_deltas f rounds rounds). 0 \<le> d \<and> d \<le> 0" for f by (auto simp: deltas_map)
  have ci: "ci_lo (paired_bootstrap_ci s b (per_pr_deltas f rounds rounds)) = 0"
    "ci_hi (paired_bootstrap_ci s b (per_pr_deltas f rounds rounds)) = 0" for f
    using paired_ci_within [OF assms(1,2) zero, of f] by (cases "per_pr_deltas f rounds rounds = []"; force)+
  have cost: "c \<le> gate5_cost_multiplier * c" if "mean_review_cost (Some costs) = Some c" for c
  proof -
    from that have "costs \<noteq> []" "c = mean_of costs" by (auto simp: mean_review_cost_def split: if_splits)
    moreover have "0 \<le> sum_list costs" using assms(3) by (induction costs) auto
    ultimately have "0 \<le> c" by (simp add: mean_of_def)
    then show ?thesis by (simp add: gate5_cost_multiplier_def)
  qed
  let ?g = "gate_booleans s b rounds rounds (Some costs) (Some costs)"
  have "gate_1_recall ?g" "gate_2_noise ?g" "\<not> gate_3_progress ?g" "gate_4_stability ?g" "gate_5_cost ?g"
    using ci cost by (auto simp: gate_booleans_def paired_delta_ci_def fp_per_pr_delta_ci_def gate1_recall_delta_floor_def
        gate2_fp_delta_ceiling_def gate4_stdev_slack_def split: option.split)
  then show ?thesis by (simp add: gate_predicate_def Let_def)
qed


theorem same_measurement_inconclusive_witness:
  "g_verdict (gate_predicate first_sampler 1 1 (one_pr 2 0 0) (one_pr 2 0 0) (Some [4]) (Some [4])) = Inconclusive"
  using same_measurement_inconclusive [OF first_sampler_fair, of 1 "[4]" 1 "one_pr 2 0 0"] by simp

end
