(* ===== verification/Tracker.thy ===== *)
theory Tracker
  imports Promotion Json PyValue
begin

section \<open>The experiment tracker\<close>

text \<open>
  \<^verbatim>\<open>benchmarks/experiments.py\<close> and the row-based gate of \<^verbatim>\<open>scripts/stats.py\<close>: the table of experiments, the
  gate over their summary statistics, the choice between the two engines, and the commands
  \<^verbatim>\<open>record\<close>, \<^verbatim>\<open>ci\<close> and \<^verbatim>\<open>gate\<close> that change the table. A table is the list of its rows; a command that raises
  has not committed and leaves it as it was. The clock, git and the paired engine are arguments.
\<close>

subsection \<open>Numbers\<close>

fun fadd :: "pyfloat \<Rightarrow> pyfloat \<Rightarrow> pyfloat" where
  "fadd FNaN b = FNaN"
| "fadd a FNaN = FNaN"
| "fadd (Fin a) (Fin b) = float_of_rat (a + b)"
| "fadd FPosInf FNegInf = FNaN"
| "fadd FNegInf FPosInf = FNaN"
| "fadd FPosInf b = FPosInf"
| "fadd FNegInf b = FNegInf"
| "fadd a FPosInf = FPosInf"
| "fadd a FNegInf = FNegInf"

fun fneg :: "pyfloat \<Rightarrow> pyfloat" where
  "fneg FNaN = FNaN"
| "fneg FPosInf = FNegInf"
| "fneg FNegInf = FPosInf"
| "fneg (Fin q) = Fin (- q)"

definition fsub :: "pyfloat \<Rightarrow> pyfloat \<Rightarrow> pyfloat" where
  "fsub a b = fadd a (fneg b)"

text \<open>Multiplication by a positive constant.\<close>

definition fscale :: "rat \<Rightarrow> pyfloat \<Rightarrow> pyfloat" where
  "fscale k a = (case a of Fin q \<Rightarrow> float_of_rat (k * q) | _ \<Rightarrow> a)"

text \<open>\<^verbatim>\<open>round(x, 4)\<close>: ties go to the even digit.\<close>

definition round_even :: "rat \<Rightarrow> int" where
  "round_even s = (let f = \<lfloor>s\<rfloor>; d = s - of_int f in
     if d < 1 / 2 then f else if 1 / 2 < d then f + 1 else if even f then f else f + 1)"

definition round4 :: "pyfloat \<Rightarrow> pyfloat" where
  "round4 a = (case a of Fin q \<Rightarrow> Fin (of_int (round_even (q * 10000)) / 10000) | _ \<Rightarrow> a)"

text \<open>The quotient of two costs, the second positive.\<close>

definition fdiv :: "pyfloat \<Rightarrow> pyfloat \<Rightarrow> pyfloat" where
  "fdiv a b = (case (a, b) of
     (Fin x, Fin y) \<Rightarrow> float_of_rat (x / y) | (Fin x, FPosInf) \<Rightarrow> Fin 0 | (FPosInf, Fin y) \<Rightarrow> FPosInf | _ \<Rightarrow> FNaN)"

subsection \<open>The gate over summary statistics\<close>

definition stat :: "dict \<Rightarrow> string \<Rightarrow> pyfloat res" where
  "stat row key = (if dget row key = VNone then Inr (Fin 0) else py_float (dget row key))"

definition cost_of :: "dict \<Rightarrow> pyfloat option res" where
  "cost_of row = (case dget row ''cost_mean'' of
     VInt i \<Rightarrow> bindE (py_float (VInt i)) (\<lambda>f. Inr (Some f)) | VFloat f \<Rightarrow> Inr (Some f) | _ \<Rightarrow> Inr None)"

definition pr_set_rung :: "pyval \<Rightarrow> nat option res" where
  "pr_set_rung v = (case v of
     VStr s \<Rightarrow> (let digits = filter is_digit s in Inr (if digits = [] then None else Some (read_nat digits)))
   | _ \<Rightarrow> if truthy v then Inl TypeError else Inr None)"

definition cost_missing :: "pyfloat option \<Rightarrow> bool" where
  "cost_missing c = (case c of None \<Rightarrow> True | Some f \<Rightarrow> float_le f (Fin 0))"

definition gate_keys :: "string list" where
  "gate_keys = [''gate_1_recall'', ''gate_2_noise'', ''gate_3_progress'', ''gate_4_stability'', ''gate_5_cost'']"

definition gate_value :: "string \<Rightarrow> bool list \<Rightarrow> dict \<Rightarrow> dict" where
  "gate_value verdict bs detail =
     [(''verdict'', VStr verdict), (''gates'', VDict (zip gate_keys (map VBool bs))), (''detail'', VDict detail)]"

definition opt_nat :: "nat option \<Rightarrow> pyval" where
  "opt_nat n = (case n of None \<Rightarrow> VNone | Some k \<Rightarrow> VInt (int k))"

record stats_pair =
  s_recall :: "pyfloat \<times> pyfloat"
  s_fp :: "pyfloat \<times> pyfloat"
  s_f1 :: "pyfloat \<times> pyfloat"
  s_f1_ci :: "pyfloat \<times> pyfloat \<times> pyfloat"
  s_stdev :: "pyfloat \<times> pyfloat"
  s_cost :: "pyfloat option \<times> pyfloat option"
  s_rung :: "nat option"

text \<open>The statistics of the two rows, read in the order of the source.\<close>

definition read_stats :: "dict \<Rightarrow> dict \<Rightarrow> stats_pair res" where
  "read_stats baseline candidate =
     bindE (stat baseline ''recall_mean'') (\<lambda>rec_b. bindE (stat candidate ''recall_mean'') (\<lambda>rec_c.
     bindE (stat baseline ''fp_per_pr_mean'') (\<lambda>fp_b. bindE (stat candidate ''fp_per_pr_mean'') (\<lambda>fp_c.
     bindE (stat baseline ''f1_mean'') (\<lambda>f1_b. bindE (stat candidate ''f1_mean'') (\<lambda>f1_c.
     bindE (stat baseline ''f1_ci_lo'') (\<lambda>lo_b. bindE (stat baseline ''f1_ci_hi'') (\<lambda>hi_b.
     bindE (stat candidate ''f1_ci_lo'') (\<lambda>lo_c.
     bindE (stat baseline ''f1_stdev'') (\<lambda>std_b. bindE (stat candidate ''f1_stdev'') (\<lambda>std_c.
     bindE (cost_of baseline) (\<lambda>cost_b. bindE (cost_of candidate) (\<lambda>cost_c.
     bindE (pr_set_rung (dget candidate ''pr_set_id'')) (\<lambda>n_prs.
     Inr \<lparr>s_recall = (rec_b, rec_c), s_fp = (fp_b, fp_c), s_f1 = (f1_b, f1_c), s_f1_ci = (lo_b, hi_b, lo_c),
          s_stdev = (std_b, std_c), s_cost = (cost_b, cost_c), s_rung = n_prs\<rparr>))))))))))))))"

definition costs_missing :: "stats_pair \<Rightarrow> bool" where
  "costs_missing s \<longleftrightarrow> cost_missing (fst (s_cost s)) \<or> cost_missing (snd (s_cost s))"

definition cost_within :: "stats_pair \<Rightarrow> bool" where
  "cost_within s = (case s_cost s of
     (Some b, Some c) \<Rightarrow> float_le c (fscale (125 / 100) b) | _ \<Rightarrow> False)"

definition summary_gates :: "stats_pair \<Rightarrow> gates" where
  "summary_gates s = \<lparr>
     gate_1_recall = float_le (Fin (- 3 / 100)) (fsub (snd (s_recall s)) (fst (s_recall s))),
     gate_2_noise = float_le (fsub (snd (s_fp s)) (fst (s_fp s))) (Fin (30 / 100)),
     gate_3_progress = float_lt (fst (s_f1 s)) (snd (s_f1 s)) \<and> float_lt (fst (snd (s_f1_ci s))) (snd (snd (s_f1_ci s))),
     gate_4_stability = float_le (snd (s_stdev s)) (fadd (fst (s_stdev s)) (Fin (2 / 100))),
     gate_5_cost = \<not> costs_missing s \<and> cost_within s\<rparr>"

definition gate_list :: "gates \<Rightarrow> bool list" where
  "gate_list g = [gate_1_recall g, gate_2_noise g, gate_3_progress g, gate_4_stability g, gate_5_cost g]"

definition rung_underpowered :: "stats_pair \<Rightarrow> bool" where
  "rung_underpowered s = (case s_rung s of None \<Rightarrow> False | Some n \<Rightarrow> n < min_prs_for_promote)"

definition summary_verdict :: "stats_pair \<Rightarrow> string" where
  "summary_verdict s =
     (let g = summary_gates s;
          hard_gates_ok = gate_1_recall g \<and> gate_2_noise g \<and> gate_4_stability g \<and> gate_5_cost g;
          cost_blocked = costs_missing s \<and> gate_1_recall g \<and> gate_2_noise g \<and> gate_4_stability g;
          progress_only_red = hard_gates_ok \<and> \<not> gate_3_progress g
      in if rung_underpowered s then ''inconclusive''
         else if list_all id (gate_list g) then ''promote''
         else if cost_blocked \<or> progress_only_red then ''inconclusive''
         else ''revert'')"

definition summary_detail :: "stats_pair \<Rightarrow> dict" where
  "summary_detail s =
     [(''recall_delta'', VFloat (round4 (fsub (snd (s_recall s)) (fst (s_recall s))))),
      (''fp_per_pr_delta'', VFloat (round4 (fsub (snd (s_fp s)) (fst (s_fp s))))),
      (''f1_delta'', VFloat (round4 (fsub (snd (s_f1 s)) (fst (s_f1 s))))),
      (''f1_ci_separated'', VBool (float_lt (fst (snd (s_f1_ci s))) (snd (snd (s_f1_ci s))))),
      (''baseline_f1_ci'', VList [VFloat (fst (s_f1_ci s)), VFloat (fst (snd (s_f1_ci s)))]),
      (''candidate_f1_ci_lo'', VFloat (snd (snd (s_f1_ci s)))),
      (''stdev_delta'', VFloat (round4 (fsub (snd (s_stdev s)) (fst (s_stdev s))))),
      (''cost_ratio'', (if costs_missing s then VNone
         else (case s_cost s of (Some b, Some c) \<Rightarrow> VFloat (round4 (fdiv c b)) | _ \<Rightarrow> VNone))),
      (''n_prs'', opt_nat (s_rung s)), (''engine'', VStr ''fallback-stdlib''),
      (''underpowered'', VBool (rung_underpowered s)),
      (''notes'', VList ((if cost_missing (fst (s_cost s)) then [VStr ''cost_baseline_missing''] else [])
         @ (if cost_missing (snd (s_cost s)) then [VStr ''cost_candidate_missing''] else [])))]"

definition summary_stat_gate :: "dict \<Rightarrow> dict \<Rightarrow> dict res" where
  "summary_stat_gate baseline candidate = bindE (read_stats baseline candidate) (\<lambda>s.
     Inr (gate_value (summary_verdict s) (gate_list (summary_gates s)) (summary_detail s)))"

subsection \<open>The row-based gate\<close>

text \<open>Rounds embedded in a row: for each pull request the floats of its three counts.\<close>

type_synonym float_rounds = "(string \<times> pyfloat \<times> pyfloat \<times> pyfloat) list list"

definition coerce_counts :: "string \<times> pyval \<Rightarrow> (string \<times> pyfloat \<times> pyfloat \<times> pyfloat) option res" where
  "coerce_counts kv = (case snd kv of
     VDict c \<Rightarrow>
       bindE (py_float (dget_or c ''tp'' (VFloat (Fin 0)))) (\<lambda>tp.
       bindE (py_float (dget_or c ''fp'' (VFloat (Fin 0)))) (\<lambda>fp.
       bindE (py_float (dget_or c ''fn'' (VFloat (Fin 0)))) (\<lambda>fn. Inr (Some (fst kv, tp, fp, fn)))))
   | _ \<Rightarrow> Inr None)"

text \<open>A loop that ends with \<^verbatim>\<open>None\<close> at the first element that is not recognised.\<close>

fun all_someE :: "('a \<Rightarrow> 'b option res) \<Rightarrow> 'a list \<Rightarrow> 'b list option res" where
  "all_someE f [] = Inr (Some [])"
| "all_someE f (x # xs) = bindE (f x) (\<lambda>r. case r of None \<Rightarrow> Inr None
     | Some y \<Rightarrow> bindE (all_someE f xs) (\<lambda>rs. Inr (map_option ((#) y) rs)))"

definition coerce_rounds :: "pyval \<Rightarrow> float_rounds option res" where
  "coerce_rounds v = (case v of
     VList xs \<Rightarrow> if xs = [] then Inr None
       else all_someE (\<lambda>r. case r of VDict d \<Rightarrow> all_someE coerce_counts d | _ \<Rightarrow> Inr None) xs
   | _ \<Rightarrow> Inr None)"

definition rounds_keys :: "string list" where
  "rounds_keys = [''rounds'', ''per_pr_rounds'', ''per_pr'']"

definition cost_keys :: "string list" where
  "cost_keys = [''per_round_cost'', ''round_costs'', ''costs'']"

fun first_rounds :: "dict \<Rightarrow> string list \<Rightarrow> float_rounds option res" where
  "first_rounds row [] = Inr None"
| "first_rounds row (k # ks) =
     (if map_of row k = None then first_rounds row ks
      else bindE (coerce_rounds (dget row k)) (\<lambda>r. case r of None \<Rightarrow> first_rounds row ks | Some x \<Rightarrow> Inr (Some x)))"

definition embedded_rounds :: "dict \<Rightarrow> float_rounds option res" where
  "embedded_rounds row = first_rounds row rounds_keys"

definition embedded_cost :: "dict \<Rightarrow> pyfloat list option res" where
  "embedded_cost row = (case List.find (\<lambda>k. is_list (dget row k) \<and> truthy (dget row k)) cost_keys of
     None \<Rightarrow> Inr None
   | Some k \<Rightarrow> (case mapE py_float (ensure_list (dget row k)) of
        Inr xs \<Rightarrow> Inr (Some xs)
      | Inl e \<Rightarrow> if e = TypeError \<or> e = ValueError then Inr None else Inl e))"

type_synonym paired_engine =
  "float_rounds \<Rightarrow> float_rounds \<Rightarrow> pyfloat list option \<Rightarrow> pyfloat list option \<Rightarrow> gate_result \<times> string list"

definition verdict_name :: "gate_verdict \<Rightarrow> string" where
  "verdict_name v = (case v of Promote \<Rightarrow> ''promote'' | Revert \<Rightarrow> ''revert'' | Inconclusive \<Rightarrow> ''inconclusive'')"

definition promote_gate :: "paired_engine \<Rightarrow> dict \<Rightarrow> dict \<Rightarrow> dict res" where
  "promote_gate engine baseline candidate =
     bindE (embedded_rounds baseline) (\<lambda>base_rounds. bindE (embedded_rounds candidate) (\<lambda>cand_rounds.
     case (base_rounds, cand_rounds) of
       (Some rb, Some rc) \<Rightarrow>
         bindE (embedded_cost baseline) (\<lambda>cb. bindE (embedded_cost candidate) (\<lambda>cc.
         let (raw, notes) = engine rb rc cb cc in
         Inr (gate_value (verdict_name (g_verdict raw)) (gate_list (g_gates raw))
           [(''engine'', VStr ''scripts.stats.gate_predicate''), (''n_shared_prs'', VInt (int (g_shared raw))),
            (''underpowered'', VBool (g_underpowered raw)), (''notes'', VList (map VStr notes))])))
     | _ \<Rightarrow> summary_stat_gate baseline candidate))"

subsection \<open>The tables\<close>

definition experiment_columns :: "string list" where
  "experiment_columns = [''run_id'', ''ts'', ''git_sha'', ''pr_set_id'', ''baseline_tag'', ''backend'', ''config_json'',
     ''lever'', ''hypothesis'', ''diff_stat'', ''n_rounds'', ''recall_mean'', ''recall_ci_lo'', ''recall_ci_hi'',
     ''precision_mean'', ''f1_mean'', ''f1_ci_lo'', ''f1_ci_hi'', ''fp_per_pr_mean'', ''cost_mean'', ''f1_stdev'',
     ''verdict'', ''gate_detail_json'', ''calibration_tag'', ''notes'']"

definition metric_columns :: "string list" where
  "metric_columns = [''run_id'', ''tool'', ''recall'', ''precision'', ''f1'', ''tp'', ''fp'', ''fn'', ''fp_per_pr'',
     ''ci_low'', ''ci_high'', ''usd_per_review'']"

definition finding_columns :: "string list" where
  "finding_columns = [''run_id'', ''pr_id'', ''tool'', ''finding_idx'', ''defect_confidence'', ''severity'', ''matched'',
     ''golden_count'']"

record tracker =
  experiments :: "dict list"
  metrics :: "dict list"
  findings :: "dict list"

definition json_text :: "pyval \<Rightarrow> string" where
  "json_text v = json_at False True 0 v"

definition experiment_payload :: "dict \<Rightarrow> dict" where
  "experiment_payload row = map (\<lambda>col. (col,
     if col \<in> {''config_json'', ''gate_detail_json''} \<and> (is_dict (dget row col) \<or> is_list (dget row col))
     then VStr (json_text (dget row col)) else dget row col)) experiment_columns"

text \<open>What SQLite stores for a parameter: a NaN becomes null, a truth value a number.\<close>

definition stored :: "pyval \<Rightarrow> pyval" where
  "stored v = (case v of VFloat FNaN \<Rightarrow> VNone | VBool b \<Rightarrow> VInt (if b then 1 else 0) | _ \<Rightarrow> v)"

definition stored_row :: "dict \<Rightarrow> dict" where
  "stored_row payload = map (\<lambda>(k, v). (k, stored v)) payload"

definition bind_error :: "pyval \<Rightarrow> bool" where
  "bind_error v = (case v of VInt i \<Rightarrow> i < - (2 ^ 63) \<or> 2 ^ 63 \<le> i | _ \<Rightarrow> False)"

text \<open>
  \<^verbatim>\<open>INSERT OR REPLACE\<close> of a row of parameters into a table with a primary key: a parameter that is no
  scalar or no 64-bit number cannot be bound, and a required column must not be null.
\<close>

definition insert_row :: "string list \<Rightarrow> string list \<Rightarrow> dict \<Rightarrow> dict list \<Rightarrow> dict list res" where
  "insert_row key required payload table =
     (if list_ex (\<lambda>(_, v). is_dict v \<or> is_list v) payload then Inl (Raised ''ProgrammingError'')
      else if list_ex (\<lambda>(_, v). bind_error v) payload then Inl OverflowError
      else let new = stored_row payload in
        if list_ex (\<lambda>c. dget new c = VNone) required then Inl (Raised ''IntegrityError'')
        else Inr (filter (\<lambda>r. map (dget r) key \<noteq> map (dget new) key \<or> list_ex (\<lambda>k. dget r k = VNone) key) table @ [new]))"

definition upsert_experiment :: "dict \<Rightarrow> tracker \<Rightarrow> tracker res" where
  "upsert_experiment row t =
     bindE (insert_row [''run_id''] [''ts''] (experiment_payload row) (experiments t)) (\<lambda>es. Inr (t\<lparr>experiments := es\<rparr>))"

definition upsert_metric :: "dict \<Rightarrow> tracker \<Rightarrow> tracker res" where
  "upsert_metric row t =
     bindE (insert_row [''run_id'', ''tool''] [''run_id'', ''tool''] (map (\<lambda>c. (c, dget row c)) metric_columns) (metrics t))
       (\<lambda>ms. Inr (t\<lparr>metrics := ms\<rparr>))"

definition upsert_finding :: "dict \<Rightarrow> tracker \<Rightarrow> tracker res" where
  "upsert_finding row t =
     bindE (insert_row [''run_id'', ''pr_id'', ''tool'', ''finding_idx''] [''run_id'', ''pr_id'', ''tool'', ''finding_idx'']
        (map (\<lambda>c. (c, dget row c)) finding_columns) (findings t)) (\<lambda>fs. Inr (t\<lparr>findings := fs\<rparr>))"

definition get_experiment :: "tracker \<Rightarrow> string \<Rightarrow> dict option" where
  "get_experiment t run_id = List.find (\<lambda>r. dget r ''run_id'' = VStr run_id) (experiments t)"

definition proven_verdicts :: "string list" where
  "proven_verdicts = [''promote'', ''ramp'']"

definition is_proven :: "dict \<Rightarrow> bool" where
  "is_proven r \<longleftrightarrow> (\<exists>v\<in>set proven_verdicts. dget r ''verdict'' = VStr v)"

text \<open>\<^verbatim>\<open>ORDER BY ts DESC, run_id DESC LIMIT 1\<close>.\<close>

definition latest_proven :: "tracker \<Rightarrow> dict option" where
  "latest_proven t = (case sort_key (\<lambda>r. (ensure_str (dget r ''ts'') [], ensure_str (dget r ''run_id'') []))
       (filter is_proven (experiments t)) of [] \<Rightarrow> None | rs \<Rightarrow> Some (last rs))"

subsection \<open>The gate of two recorded runs\<close>

text \<open>\<open>engine\<close> is \<open>None\<close> where \<^verbatim>\<open>scripts.stats\<close> cannot be imported.\<close>

definition run_gate :: "paired_engine option \<Rightarrow> tracker \<Rightarrow> string \<Rightarrow> string \<Rightarrow> dict res" where
  "run_gate engine t candidate_run baseline_run =
     (case (get_experiment t baseline_run, get_experiment t candidate_run) of
        (Some baseline, Some candidate) \<Rightarrow>
          (case engine of
             None \<Rightarrow> summary_stat_gate baseline candidate
           | Some e \<Rightarrow> bindE (promote_gate e baseline candidate) (\<lambda>raw.
               Inr (dset ''detail'' (VDict (dsetdefault ''engine'' (VStr ''scripts.stats.promote_gate'')
                 (ensure_dict (dget raw ''detail'')))) raw)))
      | _ \<Rightarrow> Inl (Raised ''SystemExit''))"

subsection \<open>Commands\<close>

text \<open>The arguments of \<^verbatim>\<open>record\<close> that become columns, in the order of the source.\<close>

definition record_arguments :: "(string \<times> string) list" where
  "record_arguments = [(''pr_set_id'', ''pr_set''), (''baseline_tag'', ''baseline_tag''), (''backend'', ''backend''),
     (''config_json'', ''config''), (''lever'', ''lever''), (''hypothesis'', ''hypothesis''), (''diff_stat'', ''diff_stat''),
     (''n_rounds'', ''n_rounds''), (''recall_mean'', ''recall''), (''recall_ci_lo'', ''recall_ci_lo''),
     (''recall_ci_hi'', ''recall_ci_hi''), (''precision_mean'', ''precision''), (''f1_mean'', ''f1''), (''f1_ci_lo'', ''f1_ci_lo''),
     (''f1_ci_hi'', ''f1_ci_hi''), (''fp_per_pr_mean'', ''fp_per_pr''), (''cost_mean'', ''cost''), (''f1_stdev'', ''f1_stdev''),
     (''verdict'', ''verdict''), (''calibration_tag'', ''calibration_tag''), (''notes'', ''notes'')]"

definition record_row :: "string \<Rightarrow> pyval \<Rightarrow> dict \<Rightarrow> dict" where
  "record_row now git_sha args =
     [(''run_id'', dget args ''run_id''), (''ts'', VStr now), (''git_sha'', py_or (dget args ''git_sha'') git_sha)]
     @ map (\<lambda>(column, argument). (column, dget args argument)) record_arguments"

definition with_run :: "pyval \<Rightarrow> pyval \<Rightarrow> dict res" where
  "with_run run_id v = (case v of VDict d \<Rightarrow> Inr (dset ''run_id'' run_id d) | _ \<Rightarrow> Inl TypeError)"

definition finding_of :: "pyval \<Rightarrow> pyval \<Rightarrow> dict res" where
  "finding_of run_id v = (case v of VDict d \<Rightarrow> Inr (dset ''run_id'' run_id d) | _ \<Rightarrow> Inl AttributeError)"

definition cmd_record :: "string \<Rightarrow> pyval \<Rightarrow> dict \<Rightarrow> bool \<Rightarrow> tracker \<Rightarrow> tracker res" where
  "cmd_record now git_sha args apply_it t =
     (if \<exists>v\<in>set proven_verdicts. dget args ''verdict'' = VStr v then Inl (Raised ''SystemExit'')
      else if \<not> apply_it then Inr t
      else bindE (upsert_experiment (record_row now git_sha args) t) (\<lambda>t1.
           bindE (py_iter (py_or (dget args ''metrics'') (VList []))) (\<lambda>ms.
           bindE (foldE (\<lambda>t m. bindE (with_run (dget args ''run_id'') m) (\<lambda>row. upsert_metric row t)) t1 ms) (\<lambda>t2.
           bindE (py_iter (py_or (dget args ''findings'') (VList []))) (\<lambda>fs.
           foldE (\<lambda>t f. bindE (finding_of (dget args ''run_id'') f) (\<lambda>row. upsert_finding row t)) t2 fs)))))"

definition ci_columns :: "string list" where
  "ci_columns = [''recall_ci_lo'', ''recall_ci_hi'', ''f1_ci_lo'', ''f1_ci_hi'']"

text \<open>\<^verbatim>\<open>UPDATE experiments SET ... WHERE run_id = ?\<close>.\<close>

definition update_run :: "string \<Rightarrow> dict \<Rightarrow> tracker \<Rightarrow> tracker" where
  "update_run run_id updates t =
     t\<lparr>experiments := map (\<lambda>r. if dget r ''run_id'' = VStr run_id then dmerge r (stored_row updates) else r) (experiments t)\<rparr>"

definition cmd_ci :: "string \<Rightarrow> dict \<Rightarrow> bool \<Rightarrow> tracker \<Rightarrow> tracker res" where
  "cmd_ci run_id args apply_it t = (case get_experiment t run_id of
     None \<Rightarrow> Inl (Raised ''SystemExit'')
   | Some _ \<Rightarrow>
       (let updates = filter (\<lambda>(k, v). v \<noteq> VNone) (map (\<lambda>c. (c, dget args c)) ci_columns) in
        Inr (if updates = [] \<or> \<not> apply_it then t else update_run run_id updates t)))"

definition cmd_gate :: "paired_engine option \<Rightarrow> string \<Rightarrow> string \<Rightarrow> bool \<Rightarrow> tracker \<Rightarrow> tracker res" where
  "cmd_gate engine run_id baseline apply_it t =
     bindE (run_gate engine t run_id baseline) (\<lambda>result.
     Inr (if apply_it
          then update_run run_id [(''verdict'', dget result ''verdict''),
                 (''gate_detail_json'', VStr (json_text (VDict result)))] t
          else t))"

datatype command =
    Record string pyval dict bool
  | SetCi string dict bool
  | Gate string string bool

fun run_command :: "paired_engine option \<Rightarrow> command \<Rightarrow> tracker \<Rightarrow> tracker res" where
  "run_command engine (Record now git_sha args apply_it) t = cmd_record now git_sha args apply_it t"
| "run_command engine (SetCi run_id args apply_it) t = cmd_ci run_id args apply_it t"
| "run_command engine (Gate run_id baseline apply_it) t = cmd_gate engine run_id baseline apply_it t"

definition execute :: "paired_engine option \<Rightarrow> command \<Rightarrow> tracker \<Rightarrow> tracker" where
  "execute engine c t = (case run_command engine c t of Inl _ \<Rightarrow> t | Inr t' \<Rightarrow> t')"

definition empty_tracker :: tracker where
  "empty_tracker = \<lparr>experiments = [], metrics = [], findings = []\<rparr>"

definition history :: "paired_engine option \<Rightarrow> command list \<Rightarrow> tracker" where
  "history engine cs = fold (execute engine) cs empty_tracker"

subsection \<open>What the commands keep\<close>

definition well_formed :: "tracker \<Rightarrow> bool" where
  "well_formed t \<longleftrightarrow> (\<forall>r\<in>set (experiments t). set (map fst r) = set experiment_columns \<and> distinct (map fst r))"

lemma map_fst_payload: "map fst (experiment_payload row) = experiment_columns"
  by (simp add: experiment_payload_def comp_def)

lemma dkeys_stored_row [simp]: "map fst (stored_row d) = map fst d"
  by (simp add: stored_row_def comp_def split_beta)

lemma fst_stored_row [simp]: "fst ` set (stored_row d) = fst ` set d"
  by (simp add: stored_row_def image_image split_beta)

lemma map_of_stored_row: "map_of (stored_row d) k = map_option stored (map_of d k)"
  by (induction d) (auto simp: stored_row_def)

lemma dget_stored_row [simp]: "dget (stored_row d) k = stored (dget d k)"
  by (simp add: dget_def dget_or_def map_of_stored_row stored_def [of VNone] split: option.split)

lemma stored_VStr [simp]: "stored v = VStr s \<longleftrightarrow> v = VStr s"
  by (auto simp: stored_def split: pyval.splits pyfloat.splits)

lemma upsert_experiment_rows:
  "upsert_experiment row t = Inr t' \<Longrightarrow> r \<in> set (experiments t') \<Longrightarrow> r \<in> set (experiments t) \<or> r = stored_row (experiment_payload row)"
  by (auto simp: upsert_experiment_def insert_row_def res_simps Let_def split: if_splits)

lemma upsert_metric_experiments: "upsert_metric row t = Inr t' \<Longrightarrow> experiments t' = experiments t"
  by (auto simp: upsert_metric_def res_simps)

lemma upsert_finding_experiments: "upsert_finding row t = Inr t' \<Longrightarrow> experiments t' = experiments t"
  by (auto simp: upsert_finding_def res_simps)

lemma cmd_record_rows:
  assumes "cmd_record now git_sha args apply_it t = Inr t'" "r \<in> set (experiments t')"
  shows "r \<in> set (experiments t) \<or> (r = stored_row (experiment_payload (record_row now git_sha args))
    \<and> \<not> (\<exists>v\<in>set proven_verdicts. dget args ''verdict'' = VStr v))"
proof (cases apply_it)
  case True
  with assms(1) obtain t1 t2 ms fs where 1: "upsert_experiment (record_row now git_sha args) t = Inr t1"
      and 2: "foldE (\<lambda>t m. bindE (with_run (dget args ''run_id'') m) (\<lambda>row. upsert_metric row t)) t1 ms = Inr t2"
      and 3: "foldE (\<lambda>t f. bindE (finding_of (dget args ''run_id'') f) (\<lambda>row. upsert_finding row t)) t2 fs = Inr t'"
      and not_proven: "\<not> (\<exists>v\<in>set proven_verdicts. dget args ''verdict'' = VStr v)"
    by (auto simp: cmd_record_def res_simps split: if_splits)
  have "experiments t2 = experiments t1"
    by (rule foldE_invariant [OF 2]) (auto simp: res_simps dest: upsert_metric_experiments)
  moreover have "experiments t' = experiments t2"
    by (rule foldE_invariant [OF 3]) (auto simp: res_simps dest: upsert_finding_experiments)
  ultimately show ?thesis using upsert_experiment_rows [OF 1] assms(2) not_proven by auto
next
  case False
  with assms show ?thesis by (auto simp: cmd_record_def split: if_splits)
qed

lemma map_of_dmerge_absent: "distinct (dkeys b) \<Longrightarrow> k \<notin> set (dkeys b) \<Longrightarrow> dget (dmerge a b) k = dget a k"
  by (simp add: dget_def dget_or_def map_of_dmerge map_of_eq_None_iff [THEN iffD2])

lemma update_run_rows:
  "r \<in> set (experiments (update_run run_id updates t)) \<Longrightarrow> r \<in> set (experiments t) \<or>
     (\<exists>r0\<in>set (experiments t). dget r0 ''run_id'' = VStr run_id \<and> r = dmerge r0 (stored_row updates))"
  by (auto simp: update_run_def split: if_splits)

lemma well_formed_update:
  assumes "well_formed t" "set (map fst updates) \<subseteq> set experiment_columns"
  shows "well_formed (update_run run_id updates t)"
  unfolding well_formed_def
proof
  fix r assume "r \<in> set (experiments (update_run run_id updates t))"
  from update_run_rows [OF this] show "set (map fst r) = set experiment_columns \<and> distinct (map fst r)"
  proof
    assume "r \<in> set (experiments t)"
    then show ?thesis using assms(1) by (simp add: well_formed_def)
  next
    assume "\<exists>r0\<in>set (experiments t). dget r0 ''run_id'' = VStr run_id \<and> r = dmerge r0 (stored_row updates)"
    then obtain r0 where "r0 \<in> set (experiments t)" and r: "r = dmerge r0 (stored_row updates)" by blast
    then have "set (map fst r0) = set experiment_columns" "distinct (map fst r0)"
      using assms(1) by (auto simp: well_formed_def)
    then show ?thesis unfolding r using assms(2) dkeys_dmerge [of r0 "stored_row updates"] by auto
  qed
qed

lemma ci_updates:
  assumes "updates = filter (\<lambda>(k, v). v \<noteq> VNone) (map (\<lambda>c. (c, dget args c)) ci_columns)"
  shows "distinct (dkeys updates)" "set (dkeys updates) \<subseteq> set ci_columns"
proof -
  have "map fst (map (\<lambda>c. (c, dget args c)) ci_columns) = ci_columns" by (simp add: comp_def)
  moreover have "distinct ci_columns" by (simp add: ci_columns_def)
  ultimately show "distinct (dkeys updates)" unfolding assms by (metis distinct_dkeys_filter)
  show "set (dkeys updates) \<subseteq> set ci_columns" unfolding assms by auto
qed

lemma execute_rows:
  assumes "r \<in> set (experiments (execute engine c t))"
  obtains (old) "r \<in> set (experiments t)"
    | (recorded) now git_sha args where "r = stored_row (experiment_payload (record_row now git_sha args))"
        "\<not> (\<exists>v\<in>set proven_verdicts. dget args ''verdict'' = VStr v)"
    | (ci) r0 updates where "r0 \<in> set (experiments t)" "r = dmerge r0 (stored_row updates)"
        "distinct (dkeys updates)" "set (dkeys updates) \<subseteq> set ci_columns"
    | (gate) r0 run_id baseline result where "c = Gate run_id baseline True" "r0 \<in> set (experiments t)"
        "dget r0 ''run_id'' = VStr run_id" "run_gate engine t run_id baseline = Inr result"
        "r = dmerge r0 (stored_row [(''verdict'', dget result ''verdict''), (''gate_detail_json'', VStr (json_text (VDict result)))])"
proof (cases "run_command engine c t")
  case (Inl e)
  with assms old show ?thesis by (simp add: execute_def)
next
  case (Inr t')
  with assms have r: "r \<in> set (experiments t')" by (simp add: execute_def)
  show ?thesis
  proof (cases c)
    case (Record now git_sha args apply_it)
    from Inr Record have "cmd_record now git_sha args apply_it t = Inr t'" by simp
    from cmd_record_rows [OF this r] show ?thesis using old recorded by blast
  next
    case (SetCi run_id args apply_it)
    let ?u = "filter (\<lambda>(k, v). v \<noteq> VNone) (map (\<lambda>c. (c, dget args c)) ci_columns)"
    from Inr SetCi have "t' = t \<or> t' = update_run run_id ?u t"
      by (auto simp: cmd_ci_def Let_def split: option.splits if_splits)
    then show ?thesis using r old ci [OF _ _ ci_updates [OF refl]] update_run_rows by blast
  next
    case (Gate run_id baseline apply_it)
    with Inr obtain result where g: "run_gate engine t run_id baseline = Inr result"
        and t': "t' = (if apply_it then update_run run_id [(''verdict'', dget result ''verdict''),
                 (''gate_detail_json'', VStr (json_text (VDict result)))] t else t)"
      by (auto simp: cmd_gate_def res_simps)
    show ?thesis
    proof (cases apply_it)
      case True
      with t' r have "r \<in> set (experiments (update_run run_id [(''verdict'', dget result ''verdict''),
                 (''gate_detail_json'', VStr (json_text (VDict result)))] t))" by simp
      from update_run_rows [OF this] show ?thesis using old gate [OF _ _ _ g] Gate True by blast
    qed (use t' r old in simp)
  qed
qed

lemma experiment_columns_distinct: "distinct experiment_columns"
  by (simp add: experiment_columns_def)

lemma well_formed_execute:
  assumes "well_formed t"
  shows "well_formed (execute engine c t)"
  unfolding well_formed_def
proof
  fix r assume "r \<in> set (experiments (execute engine c t))"
  then show "set (map fst r) = set experiment_columns \<and> distinct (map fst r)"
  proof (cases rule: execute_rows)
    case old
    with assms show ?thesis by (simp add: well_formed_def)
  next
    case (recorded now git_sha args)
    then show ?thesis using experiment_columns_distinct by (simp add: map_fst_payload)
  next
    case (ci r0 updates)
    have "set ci_columns \<subseteq> set experiment_columns" by (simp add: ci_columns_def experiment_columns_def)
    moreover have "set (map fst r0) = set experiment_columns" "distinct (map fst r0)"
      using assms ci(1) by (auto simp: well_formed_def)
    ultimately show ?thesis unfolding ci(2) using ci(4) dkeys_dmerge [of r0 "stored_row updates"] by auto
  next
    case (gate r0 run_id baseline result)
    have "set (map fst r0) = set experiment_columns" "distinct (map fst r0)"
      using assms gate(2) by (auto simp: well_formed_def)
    moreover have "''verdict'' \<in> set experiment_columns" "''gate_detail_json'' \<in> set experiment_columns"
      by (simp_all add: experiment_columns_def)
    ultimately show ?thesis unfolding gate(5)
      using dkeys_dmerge [of r0 "stored_row [(''verdict'', dget result ''verdict''),
        (''gate_detail_json'', VStr (json_text (VDict result)))]"] by auto
  qed
qed

lemma history_snoc: "history engine (cs @ [c]) = execute engine c (history engine cs)"
  by (simp add: history_def)

lemma well_formed_history: "well_formed (history engine cs)"
proof (induction cs rule: rev_induct)
  case Nil
  show ?case by (simp add: history_def empty_tracker_def well_formed_def)
next
  case (snoc c cs)
  then show ?case by (simp add: history_snoc well_formed_execute)
qed

lemma get_experiment_in: "get_experiment t run_id = Some r \<Longrightarrow> r \<in> set (experiments t)"
  by (auto simp: get_experiment_def find_Some_iff)

lemma no_embedded_rounds:
  assumes "well_formed t" "r \<in> set (experiments t)"
  shows "embedded_rounds r = Inr None"
proof -
  have "set (map fst r) = set experiment_columns" using assms by (simp add: well_formed_def)
  then have "map_of r k = None" if "k \<in> set rounds_keys" for k
    using that by (auto simp: map_of_eq_None_iff rounds_keys_def experiment_columns_def)
  then show ?thesis by (simp add: embedded_rounds_def rounds_keys_def)
qed

lemma summary_gate_detail:
  assumes "summary_stat_gate b c = Inr raw"
  shows "dset ''detail'' (VDict (dsetdefault ''engine'' e (ensure_dict (dget raw ''detail'')))) raw = raw"
proof -
  from assms obtain s where raw: "raw = gate_value (summary_verdict s) (gate_list (summary_gates s)) (summary_detail s)"
    by (auto simp: summary_stat_gate_def res_simps)
  have "dsetdefault ''engine'' e (summary_detail s) = summary_detail s"
    by (simp add: dsetdefault_def summary_detail_def)
  then show ?thesis by (simp add: raw gate_value_def dget_def dget_or_def ensure_dict_def)
qed

lemma engine_unused:
  assumes "well_formed t"
  shows "run_gate engine t candidate_run baseline_run = run_gate None t candidate_run baseline_run"
proof (cases engine)
  case (Some e)
  show ?thesis
  proof (cases "get_experiment t baseline_run = None \<or> get_experiment t candidate_run = None")
    case True
    then show ?thesis by (auto simp: run_gate_def split: option.split)
  next
    case False
    then obtain b c where rows: "get_experiment t baseline_run = Some b" "get_experiment t candidate_run = Some c" by auto
    then have "embedded_rounds b = Inr None" "embedded_rounds c = Inr None"
      using no_embedded_rounds [OF assms] get_experiment_in by blast+
    then have "promote_gate e b c = summary_stat_gate b c" by (simp add: promote_gate_def)
    then show ?thesis using summary_gate_detail [of b c]
      by (cases "summary_stat_gate b c") (simp_all add: run_gate_def rows Some)
  qed
qed simp

text \<open>
  The paired engine is never used: in a tracker that was filled by its own commands, whatever they
  were, the gate of any two runs has the answer of the gate over summary statistics, verdict, gates and
  detail, whichever paired engine is installed. The reason is that a row has the columns of
  the table only and none of them can hold rounds.
\<close>

theorem paired_engine_unused:
  "run_gate engine (history engine' cs) candidate_run baseline_run = run_gate None (history engine' cs) candidate_run baseline_run"
  by (rule engine_unused [OF well_formed_history])


lemma float_lt_irrefl [simp]: "\<not> float_lt a a"
  by (simp add: float_lt_def)

lemma is_proven_verdict:
  assumes "summary_stat_gate b c = Inr raw" "dget raw ''verdict'' = VStr v" "v \<in> set proven_verdicts"
  shows "v = ''promote'' \<and> (\<exists>s. read_stats b c = Inr s \<and> \<not> rung_underpowered s \<and> list_all id (gate_list (summary_gates s)))"
proof -
  from assms(1) obtain s where s: "read_stats b c = Inr s"
      and raw: "raw = gate_value (summary_verdict s) (gate_list (summary_gates s)) (summary_detail s)"
    by (auto simp: summary_stat_gate_def res_simps)
  have "dget raw ''verdict'' = VStr (summary_verdict s)" by (simp add: raw gate_value_def dget_def dget_or_def)
  with assms(2) have v: "v = summary_verdict s" by simp
  have "v = ''promote'' \<and> \<not> rung_underpowered s \<and> list_all id (gate_list (summary_gates s))"
    using assms(3) unfolding v summary_verdict_def Let_def proven_verdicts_def by (simp split: if_splits)
  with s show ?thesis by blast
qed

lemma promote_costs:
  assumes "list_all id (gate_list (summary_gates s))"
  shows "\<exists>cb cc. s_cost s = (Some cb, Some cc) \<and> \<not> float_le cb (Fin 0) \<and> \<not> float_le cc (Fin 0)
    \<and> float_le cc (fscale (125 / 100) cb)" "float_lt (fst (s_f1 s)) (snd (s_f1 s))"
  using assms
  by (auto simp: gate_list_def summary_gates_def costs_missing_def cost_missing_def cost_within_def
      split: option.splits prod.splits)

lemma read_stats_same_f1: "read_stats r r = Inr s \<Longrightarrow> fst (s_f1 s) = snd (s_f1 s)"
  by (auto simp: read_stats_def res_simps)

lemma run_id_after_gate: "dget (dmerge r0 (stored_row [(''verdict'', v), (''gate_detail_json'', w)])) ''run_id'' = dget r0 ''run_id''"
  by (rule map_of_dmerge_absent) simp_all

lemma dget_map_pair: "dget (map (\<lambda>c. (c, f c)) cs) k = (if k \<in> set cs then f k else VNone)"
  by (induction cs) (auto simp: dget_def dget_or_def)

lemma recorded_verdict: "dget (experiment_payload (record_row now git_sha args)) ''verdict'' = dget args ''verdict''"
proof -
  have "dget (record_row now git_sha args) ''verdict'' = dget args ''verdict''"
    unfolding record_row_def record_arguments_def by (simp add: dget_def [of "_ # _"] dget_or_def [of "_ # _"])
  then show ?thesis by (simp add: experiment_payload_def dget_map_pair experiment_columns_def)
qed

text \<open>How a row came to be proven: the gate that was applied to it, and what that gate saw.\<close>

definition gated :: "paired_engine option \<Rightarrow> command list \<Rightarrow> dict \<Rightarrow> bool" where
  "gated engine cs r \<longleftrightarrow> (\<exists>cs1 cs2 run_id baseline_run b c s.
     cs = cs1 @ Gate run_id baseline_run True # cs2 \<and> dget r ''run_id'' = VStr run_id \<and> baseline_run \<noteq> run_id
   \<and> get_experiment (history engine cs1) baseline_run = Some b \<and> get_experiment (history engine cs1) run_id = Some c
   \<and> read_stats b c = Inr s \<and> \<not> rung_underpowered s \<and> list_all id (gate_list (summary_gates s)))"

lemma gated_snoc: "gated engine cs r0 \<Longrightarrow> dget r ''run_id'' = dget r0 ''run_id'' \<Longrightarrow> gated engine (cs @ [c]) r"
  unfolding gated_def by fastforce

lemma gate_proves:
  assumes "run_gate engine t run_id baseline_run = Inr result" "well_formed t"
    and "dget result ''verdict'' = VStr v" "v \<in> set proven_verdicts"
  obtains b c s where "v = ''promote''" "baseline_run \<noteq> run_id" "get_experiment t baseline_run = Some b"
    "get_experiment t run_id = Some c" "read_stats b c = Inr s" "\<not> rung_underpowered s"
    "list_all id (gate_list (summary_gates s))"
proof -
  have "run_gate None t run_id baseline_run = Inr result" using assms(1) engine_unused [OF assms(2)] by metis
  then obtain b c where rows: "get_experiment t baseline_run = Some b" "get_experiment t run_id = Some c"
      and g: "summary_stat_gate b c = Inr result"
    by (auto simp: run_gate_def split: option.splits)
  from is_proven_verdict [OF g assms(3,4)] obtain s where s: "v = ''promote''" "read_stats b c = Inr s"
      "\<not> rung_underpowered s" "list_all id (gate_list (summary_gates s))" by blast
  have "baseline_run \<noteq> run_id"
  proof
    assume "baseline_run = run_id"
    with rows s(2) have "fst (s_f1 s) = snd (s_f1 s)" by (simp add: read_stats_same_f1)
    with promote_costs(2) [OF s(4)] show False by simp
  qed
  with that rows s show thesis by blast
qed

lemma proven_history:
  "r \<in> set (experiments (history engine cs)) \<Longrightarrow> is_proven r \<Longrightarrow> dget r ''verdict'' = VStr ''promote'' \<and> gated engine cs r"
proof (induction cs arbitrary: r rule: rev_induct)
  case Nil
  then show ?case by (simp add: history_def empty_tracker_def)
next
  case (snoc c cs)
  from snoc.prems(1) have "r \<in> set (experiments (execute engine c (history engine cs)))" by (simp add: history_snoc)
  then show ?case
  proof (cases rule: execute_rows)
    case old
    with snoc show ?thesis using gated_snoc by blast
  next
    case (recorded now git_sha args)
    have "dget r ''verdict'' = stored (dget args ''verdict'')" by (simp add: recorded(1) recorded_verdict)
    with recorded(2) snoc.prems(2) show ?thesis by (auto simp: is_proven_def)
  next
    case (ci r0 updates)
    have same: "dget r k = dget r0 k" if "k \<notin> set ci_columns" for k
      unfolding ci(2) by (rule map_of_dmerge_absent) (use that ci(3,4) in auto)
    have "dget r ''verdict'' = dget r0 ''verdict''" "dget r ''run_id'' = dget r0 ''run_id''"
      by (rule same; simp add: ci_columns_def)+
    moreover from this(1) snoc.prems(2) have "is_proven r0" by (simp add: is_proven_def)
    ultimately show ?thesis using snoc.IH [OF ci(1)] gated_snoc [of engine cs r0 r] by simp
  next
    case (gate r0 run_id baseline_run result)
    have run: "dget r ''run_id'' = VStr run_id" using gate(3,5) run_id_after_gate by simp
    have "dget r ''verdict'' = stored (dget result ''verdict'')"
      unfolding gate(5) dget_def dget_or_def by (simp add: map_of_dmerge map_of_stored_row dget_def dget_or_def)
    with snoc.prems(2) obtain v where v: "v \<in> set proven_verdicts" "dget result ''verdict'' = VStr v" "dget r ''verdict'' = VStr v"
      by (auto simp: is_proven_def)
    from gate_proves [OF gate(4) well_formed_history v(2,1)] obtain b c' s where
      "v = ''promote''" "baseline_run \<noteq> run_id" "get_experiment (history engine cs) baseline_run = Some b"
      "get_experiment (history engine cs) run_id = Some c'" "read_stats b c' = Inr s" "\<not> rung_underpowered s"
      "list_all id (gate_list (summary_gates s))" .
    then show ?thesis unfolding gated_def gate(1) using run v(3) by blast
  qed
qed


lemma gate_records:
  assumes "run_gate engine t run_id baseline_run = Inr result" "dget result ''verdict'' = VStr v" "v \<in> set proven_verdicts"
  shows "\<exists>r\<in>set (experiments (execute engine (Gate run_id baseline_run True) t)). is_proven r"
proof -
  let ?u = "stored_row [(''verdict'', dget result ''verdict''), (''gate_detail_json'', VStr (json_text (VDict result)))]"
  from assms(1) obtain c where c: "get_experiment t run_id = Some c" by (auto simp: run_gate_def split: option.splits)
  have run: "dget c ''run_id'' = VStr run_id" using c by (auto simp: get_experiment_def find_Some_iff)
  have "dget (dmerge c ?u) ''verdict'' = VStr v"
    unfolding dget_def [of "dmerge _ _"] dget_or_def [of "dmerge _ _"]
    by (simp add: map_of_dmerge map_of_stored_row assms(2) stored_def [of "VStr v"])
  then have "is_proven (dmerge c ?u)" using assms(3) by (auto simp: is_proven_def)
  moreover have "dmerge c ?u \<in> set (experiments (execute engine (Gate run_id baseline_run True) t))"
    using get_experiment_in [OF c] run
    by (force simp: execute_def cmd_gate_def assms(1) update_run_def res_simps)
  ultimately show ?thesis by blast
qed

text \<open>
  C25: a proven run has passed the gate: in every tracker that a sequence of commands leads to, from the
  empty one, a row with a proven verdict has the verdict promote, and the sequence has a gate command
  applied to this run against another one, at which both runs were recorded, the five gates over
  their statistics were all green, the sample was not known to be too small, and both costs were
  recorded, positive and within the limit of 1.25. So neither a hand-written verdict nor a run compared
  with itself becomes the baseline.
\<close>

theorem proven_only_by_gate:
  assumes "r \<in> set (experiments (history engine cs))" "is_proven r"
  shows "dget r ''verdict'' = VStr ''promote'' \<and> (\<exists>cs1 cs2 run_id baseline_run b c s cost_b cost_c.
     cs = cs1 @ Gate run_id baseline_run True # cs2 \<and> dget r ''run_id'' = VStr run_id \<and> baseline_run \<noteq> run_id
   \<and> get_experiment (history engine cs1) baseline_run = Some b \<and> get_experiment (history engine cs1) run_id = Some c
   \<and> read_stats b c = Inr s \<and> \<not> rung_underpowered s \<and> list_all id (gate_list (summary_gates s))
   \<and> s_cost s = (Some cost_b, Some cost_c) \<and> \<not> float_le cost_b (Fin 0) \<and> \<not> float_le cost_c (Fin 0)
   \<and> float_le cost_c (fscale (125 / 100) cost_b))"
proof -
  from proven_history [OF assms] have v: "dget r ''verdict'' = VStr ''promote''" and "gated engine cs r" by auto
  then obtain cs1 cs2 run_id baseline_run b c s where h: "cs = cs1 @ Gate run_id baseline_run True # cs2"
      "dget r ''run_id'' = VStr run_id" "baseline_run \<noteq> run_id"
      "get_experiment (history engine cs1) baseline_run = Some b" "get_experiment (history engine cs1) run_id = Some c"
      "read_stats b c = Inr s" "\<not> rung_underpowered s" "list_all id (gate_list (summary_gates s))"
    unfolding gated_def by blast
  from promote_costs(1) [OF h(8)] v h show ?thesis by blast
qed

definition demo_run :: "string \<Rightarrow> int \<Rightarrow> int \<Rightarrow> command" where
  "demo_run run_id f1 cost = Record ''2025-01-01'' VNone
     [(''run_id'', VStr run_id), (''pr_set'', VStr ''rung-12''), (''recall'', VInt 0), (''fp_per_pr'', VInt 1),
      (''f1'', VInt f1), (''f1_ci_lo'', VInt f1), (''f1_ci_hi'', VInt f1), (''f1_stdev'', VInt 0), (''cost'', VInt cost)] True"

definition demo_history :: "command list" where
  "demo_history = [demo_run ''a'' 0 5, demo_run ''b'' 1 6, Gate ''b'' ''a'' True]"

theorem proven_only_by_gate_witness:
  "\<exists>r. dget r ''verdict'' = VStr ''promote'' \<and> r \<in> set (experiments (history None demo_history))"
proof -
  have g: "case run_gate None (history None (take 2 demo_history)) ''b'' ''a'' of
      Inr d \<Rightarrow> dget d ''verdict'' = VStr ''promote'' | _ \<Rightarrow> False" by code_simp
  then obtain d where d: "run_gate None (history None (take 2 demo_history)) ''b'' ''a'' = Inr d"
      "dget d ''verdict'' = VStr ''promote''" by (auto split: sum.splits)
  have split: "demo_history = take 2 demo_history @ [Gate ''b'' ''a'' True]" by (simp add: demo_history_def)
  obtain r where r: "r \<in> set (experiments (history None (take 2 demo_history @ [Gate ''b'' ''a'' True])))" "is_proven r"
    using gate_records [OF d] by (auto simp: history_snoc proven_verdicts_def)
  have r': "r \<in> set (experiments (history None demo_history))" using r(1) by (subst split)
  from proven_only_by_gate [OF r' r(2)] have "dget r ''verdict'' = VStr ''promote''" by (rule conjunct1)
  with r' show ?thesis by blast
qed

end
