(* ===== verification/Judging.thy ===== *)
theory Judging
  imports Tracker Sharding JsonRoundtrip
begin

section \<open>Judge files\<close>

text \<open>
  The scripts around the judge of the benchmark: the paths of \<^verbatim>\<open>scripts/paths.py\<close>, the judge input that
  \<^verbatim>\<open>build_judge_input_prod.py\<close> makes of a report, the labels that \<^verbatim>\<open>ingest_verdicts.py\<close> joins back to the
  findings, and the leaderboard of \<^verbatim>\<open>score.py\<close> with its paired inputs for \<^verbatim>\<open>stats.py\<close>. The files are a
  store from paths to texts; the judge itself, the bench index and the listing of a directory are
  arguments. The counts of a verdict are integers; a float among them is not modelled.
\<close>

subsection \<open>Paths\<close>

definition shard :: "string \<Rightarrow> string" where
  "shard pr_id = take 2 (sha256_hexdigest pr_id)"

definition judge_dir :: "string \<Rightarrow> string \<Rightarrow> string \<Rightarrow> string" where
  "judge_dir tmp run_id pr_id = path_join (path_join (path_join tmp ''judge'') run_id) (shard pr_id)"

definition judge_path :: "string \<Rightarrow> string \<Rightarrow> string \<Rightarrow> string" where
  "judge_path tmp run_id pr_id = path_join (judge_dir tmp run_id pr_id) (pr_id @ ''.json'')"

definition judge_input_path :: "string \<Rightarrow> string \<Rightarrow> string \<Rightarrow> string" where
  "judge_input_path tmp run_id pr_id = path_join (judge_dir tmp run_id pr_id) (''_input_'' @ pr_id @ ''.json'')"

type_synonym store = "string \<Rightarrow> string option"

text \<open>\<open>found\<close> lists the names of the files under the directory of a run, with their paths, in order.\<close>

definition stem :: "string \<Rightarrow> string" where
  "stem name = (if name = ''.json'' then name else take (length name - 5) name)"

definition iter_judge_files :: "(string \<times> string) list \<Rightarrow> (string \<times> string) list" where
  "iter_judge_files found =
     map (\<lambda>(name, p). (stem name, p)) (filter (\<lambda>(name, p). \<not> prefix ''_input_'' name) found)"

definition judged_of :: "(string \<times> string) list \<Rightarrow> (string \<times> string) list" where
  "judged_of found = dmerge [] (iter_judge_files found)"

definition load_json :: "string \<Rightarrow> pyval res" where
  "load_json contents = (case json_loads contents of None \<Rightarrow> Inl ValueError | Some v \<Rightarrow> Inr v)"

text \<open>\<^verbatim>\<open>v.get(k, {})\<close> and \<^verbatim>\<open>v.items()\<close> of a parsed value.\<close>

definition parsed_dict :: "pyval \<Rightarrow> dict res" where
  "parsed_dict v = (case v of VDict d \<Rightarrow> Inr d | _ \<Rightarrow> Inl AttributeError)"

definition get_dict :: "pyval \<Rightarrow> string \<Rightarrow> dict res" where
  "get_dict v k = bindE (parsed_dict v) (\<lambda>d. parsed_dict (dget_or d k (VDict [])))"

subsection \<open>The input of the judge\<close>

definition competitors :: "string list" where
  "competitors = [''coderabbit'', ''greptile-v4-1'', ''bugbot'', ''copilot'', ''graphite'', ''macroscope'', ''cubic-v2'']"

definition correctness_prefixes :: "string list" where
  "correctness_prefixes = [''sec-'', ''lang-'', ''fw-'', ''orm-'', ''footgun-'', ''reliability-'', ''data-'']"

text \<open>\<^verbatim>\<open>x in dims\<close> for a list or a text.\<close>

definition has_dim :: "string \<Rightarrow> pyval \<Rightarrow> bool res" where
  "has_dim x dims = (case dims of
     VList ds \<Rightarrow> Inr (py_in (VStr x) ds) | VStr s \<Rightarrow> Inr (contains x s)
   | VDict d \<Rightarrow> Inr (x \<in> set (dkeys d)) | _ \<Rightarrow> Inl TypeError)"

definition is_correctness :: "dict \<Rightarrow> bool res" where
  "is_correctness issue =
     (let spec = py_or (dget_or issue ''reviewer_id'' (VStr [])) (dget_or issue ''specialist'' (VStr []));
          dims = py_or (dget issue ''dimensions'') (VList [])
      in case spec of
        VStr s \<Rightarrow>
          if list_ex (\<lambda>p. prefix p s) correctness_prefixes \<or> s = ''principle-fail-fast'' then Inr True
          else bindE (has_dim ''security'' dims) (\<lambda>b. if b then Inr True else has_dim ''correctness'' dims)
      | _ \<Rightarrow> Inl TypeError)"

definition issue_text :: "dict \<Rightarrow> string res" where
  "issue_text i = (case (py_or (dget i ''title'') (VStr []), py_or (dget i ''description'') (VStr [])) of
     (VStr t, VStr d) \<Rightarrow> Inr (strip (t @ ''. '' @ d)) | _ \<Rightarrow> Inl TypeError)"

definition skill_candidates :: "dict list \<Rightarrow> pyval res" where
  "skill_candidates issues = bindE (mapE issue_text issues) (\<lambda>ts. Inr (VList (map VStr ts)))"

definition meta_entry :: "nat \<Rightarrow> dict \<Rightarrow> pyval" where
  "meta_entry idx i = VDict [(''defect_confidence'', dget i ''confidence''), (''severity'', dget i ''severity''),
     (''idx'', VInt (int idx))]"

definition skill_meta :: "dict list \<Rightarrow> pyval" where
  "skill_meta issues = VList (map2 meta_entry [0..<length issues] issues)"

fun filterE :: "('a \<Rightarrow> bool res) \<Rightarrow> 'a list \<Rightarrow> 'a list res" where
  "filterE p [] = Inr []"
| "filterE p (x # xs) = bindE (p x) (\<lambda>b. bindE (filterE p xs) (\<lambda>ys. Inr (if b then x # ys else ys)))"

definition scoped :: "dict \<Rightarrow> bool res" where
  "scoped i = (if py_in (dget i ''severity'') [VStr ''critical'', VStr ''important''] then is_correctness i else Inr False)"

text \<open>The three tools that stand for the product: all issues, the primary and the scoped ones.\<close>

definition issue_sets :: "dict list \<Rightarrow> (string \<times> dict list) list res" where
  "issue_sets issues = bindE (filterE scoped issues) (\<lambda>sc. Inr
     [(''skill-prod'', issues), (''skill-prod-primary'', filter (\<lambda>i. truthy (dget i ''primary'')) issues),
      (''skill-prod-scoped'', sc)])"

definition competitor_texts :: "dict list \<Rightarrow> pyval" where
  "competitor_texts cs = VList (map (\<lambda>c. dget c ''text'') (filter (\<lambda>c. truthy (dget c ''text'')) cs))"

definition add_competitors :: "(string \<times> dict list) list \<Rightarrow> dict \<Rightarrow> dict" where
  "add_competitors cands tools =
     foldl (\<lambda>ts t. case map_of cands t of None \<Rightarrow> ts | Some cs \<Rightarrow> dset t (competitor_texts cs) ts) tools competitors"

record bench_entry =
  be_key :: string
  be_lang :: pyval
  be_golden :: "pyval list"

definition judge_input ::
  "(string \<Rightarrow> (string \<times> dict list) list) \<Rightarrow> string \<Rightarrow> bench_entry \<Rightarrow> dict list \<Rightarrow> dict res" where
  "judge_input candidates pr_id e issues =
     bindE (issue_sets issues) (\<lambda>sets.
     bindE (mapE (\<lambda>(name, iss). bindE (skill_candidates iss) (\<lambda>c. Inr (name, c))) sets) (\<lambda>tools.
     Inr [(''pr_id'', VStr pr_id), (''original_key'', VStr (be_key e)), (''lang'', be_lang e),
          (''n_issues_prod'', VInt (int (length issues))), (''golden'', VList (be_golden e)),
          (''tools'', VDict (add_competitors (candidates (be_key e)) tools)),
          (''skill_meta'', VDict (map (\<lambda>(name, iss). (name, skill_meta iss)) sets))]))"

subsection \<open>The labels of the findings\<close>

definition skill_tool_prefix :: string where "skill_tool_prefix = ''skill-''"

definition is_skill_tool :: "string \<Rightarrow> dict \<Rightarrow> bool" where
  "is_skill_tool name verdict \<longleftrightarrow> prefix skill_tool_prefix name \<or> ''matched'' \<in> set (dkeys verdict)"

definition label_from_meta :: "pyval \<Rightarrow> (pyval \<times> pyval) res" where
  "label_from_meta m = (case m of
     VDict d \<Rightarrow>
       (let sev = (if dget d ''severity'' = VNone then VNone else VStr (py_str (dget d ''severity''))) in
        if num_of (dget d ''defect_confidence'') = None then Inr (VNone, sev)
        else bindE (py_float (dget d ''defect_confidence'')) (\<lambda>f. Inr (VFloat f, sev)))
   | _ \<Rightarrow> Inr (VNone, VNone))"

text \<open>\<^verbatim>\<open>meta[idx] if idx < len(meta) else cand\<close>.\<close>

definition meta_at :: "pyval \<Rightarrow> nat \<Rightarrow> pyval \<Rightarrow> pyval res" where
  "meta_at meta idx cand = (case meta of
     VList ms \<Rightarrow> Inr (if idx < length ms then ms ! idx else cand)
   | VStr s \<Rightarrow> Inr (if idx < length (str_chars s) then VStr (str_chars s ! idx) else cand)
   | VDict d \<Rightarrow> if idx < length d then Inl KeyError else Inr cand
   | _ \<Rightarrow> Inl TypeError)"

definition finding_row ::
  "string \<Rightarrow> string \<Rightarrow> string \<Rightarrow> int list \<Rightarrow> int \<Rightarrow> pyval \<Rightarrow> nat \<times> pyval \<Rightarrow> dict res" where
  "finding_row run_id pr_id tool matched golden_count meta ic =
     bindE (meta_at meta (fst ic) (snd ic)) (\<lambda>m. bindE (label_from_meta m) (\<lambda>(conf, sev).
     Inr [(''run_id'', VStr run_id), (''pr_id'', VStr pr_id), (''tool'', VStr tool), (''finding_idx'', VInt (int (fst ic))),
          (''defect_confidence'', conf), (''severity'', sev),
          (''matched'', VInt (if int (fst ic) \<in> set matched then 1 else 0)), (''golden_count'', VInt golden_count)]))"

definition tool_rows ::
  "string \<Rightarrow> string \<Rightarrow> int \<Rightarrow> dict \<Rightarrow> dict \<Rightarrow> string \<times> pyval \<Rightarrow> dict list res" where
  "tool_rows run_id pr_id golden_count in_tools metas tv = (case snd tv of
     VDict v \<Rightarrow>
       if \<not> is_skill_tool (fst tv) v then Inr []
       else bindE (py_iter (dget_or v ''matched'' (VList []))) (\<lambda>ms.
            bindE (mapE py_int ms) (\<lambda>matched.
            bindE (py_iter (dget_or in_tools (fst tv) (VList []))) (\<lambda>candidates.
            mapE (finding_row run_id pr_id (fst tv) matched golden_count (dget_or metas (fst tv) (VList [])))
              (zip [0..<length candidates] candidates))))
   | _ \<Rightarrow> Inr [])"

definition py_len :: "pyval \<Rightarrow> int res" where
  "py_len v = (case v of VList xs \<Rightarrow> Inr (int (length xs)) | VDict d \<Rightarrow> Inr (int (length d))
     | VStr s \<Rightarrow> Inr (int (str_len s)) | _ \<Rightarrow> Inl TypeError)"

definition label_rows :: "string \<Rightarrow> string \<Rightarrow> pyval \<Rightarrow> pyval \<Rightarrow> dict list res" where
  "label_rows run_id pr_id verdict input =
     bindE (parsed_dict input) (\<lambda>inp.
     bindE (py_len (dget_or inp ''golden'' (VList []))) (\<lambda>golden_count.
     bindE (get_dict verdict ''tools'') (\<lambda>tools.
     if list_ex (\<lambda>(name, v). case v of VDict d \<Rightarrow> is_skill_tool name d | _ \<Rightarrow> False) tools
     then bindE (parsed_dict (dget_or inp ''tools'' (VDict []))) (\<lambda>in_tools.
          bindE (parsed_dict (dget_or inp ''skill_meta'' (VDict []))) (\<lambda>metas.
          bindE (mapE (tool_rows run_id pr_id golden_count in_tools metas) tools) (\<lambda>rs. Inr (concat rs))))
     else Inr [])))"

definition rows_for_pr :: "store \<Rightarrow> string \<Rightarrow> string \<Rightarrow> string \<Rightarrow> dict list res" where
  "rows_for_pr files tmp run_id pr_id =
     (case (files (judge_path tmp run_id pr_id), files (judge_input_path tmp run_id pr_id)) of
        (Some v, Some i) \<Rightarrow> bindE (load_json v) (\<lambda>verdict. bindE (load_json i) (\<lambda>inp. label_rows run_id pr_id verdict inp))
      | _ \<Rightarrow> Inr [])"

definition collect_labels ::
  "store \<Rightarrow> string \<Rightarrow> (string \<times> string) list \<Rightarrow> string \<Rightarrow> string list \<Rightarrow> dict list res" where
  "collect_labels files tmp found run_id explicit =
     bindE (mapE (rows_for_pr files tmp run_id) (if explicit \<noteq> [] then explicit else sort (dkeys (judged_of found))))
       (\<lambda>rs. Inr (concat rs))"

definition write_findings :: "dict list \<Rightarrow> tracker \<Rightarrow> tracker res" where
  "write_findings rs t = foldE (\<lambda>t r. upsert_finding r t) t rs"

subsection \<open>The leaderboard\<close>

text \<open>The contents of the verdict of a pull request, where it was judged.\<close>

definition verdict_text :: "store \<Rightarrow> string \<Rightarrow> (string \<times> string) list \<Rightarrow> string \<Rightarrow> string \<Rightarrow> string option" where
  "verdict_text files tmp found run_id pid = files (case map_of (judged_of found) pid of
     None \<Rightarrow> judge_path tmp run_id pid | Some f \<Rightarrow> f)"

record tool_total =
  a_tp :: int
  a_fp :: int
  a_fn :: int
  a_cand :: int
  a_n_prs :: nat
  a_prs :: "string list"

definition no_total :: tool_total where
  "no_total = \<lparr>a_tp = 0, a_fp = 0, a_fn = 0, a_cand = 0, a_n_prs = 0, a_prs = []\<rparr>"

definition int_field :: "dict \<Rightarrow> string \<Rightarrow> int res" where
  "int_field v k = (case int_of (dget_or v k (VInt 0)) of None \<Rightarrow> Inl TypeError | Some i \<Rightarrow> Inr i)"

definition add_verdict ::
  "string \<Rightarrow> (string \<times> tool_total) list \<Rightarrow> string \<times> pyval \<Rightarrow> (string \<times> tool_total) list res" where
  "add_verdict pid agg tv =
     (let a = (case map_of agg (fst tv) of None \<Rightarrow> no_total | Some a \<Rightarrow> a) in
      bindE (parsed_dict (snd tv)) (\<lambda>v.
      bindE (int_field v ''tp'') (\<lambda>tp. bindE (int_field v ''fp'') (\<lambda>fp. bindE (int_field v ''fn'') (\<lambda>fn.
      bindE (int_field v ''n_candidates'') (\<lambda>n.
      Inr (dset (fst tv) \<lparr>a_tp = a_tp a + tp, a_fp = a_fp a + fp, a_fn = a_fn a + fn, a_cand = a_cand a + n,
                            a_n_prs = a_n_prs a + 1, a_prs = a_prs a @ [pid]\<rparr> agg)))))))"

definition add_pr ::
  "(string \<Rightarrow> string option) \<Rightarrow> (string \<times> tool_total) list \<Rightarrow> string \<Rightarrow> (string \<times> tool_total) list res" where
  "add_pr verdicts agg pid = (case verdicts pid of
     None \<Rightarrow> Inr agg
   | Some s \<Rightarrow> bindE (load_json s) (\<lambda>data. bindE (get_dict data ''tools'') (\<lambda>tools. foldE (add_verdict pid) agg tools)))"

definition aggregate :: "(string \<Rightarrow> string option) \<Rightarrow> string list \<Rightarrow> (string \<times> tool_total) list res" where
  "aggregate verdicts pr_ids = foldE (add_pr verdicts) [] pr_ids"

definition ratio :: "int \<Rightarrow> int \<Rightarrow> rat" where
  "ratio a b = (if b \<noteq> 0 then of_int a / of_int b else 0)"

definition micro_precision :: "tool_total \<Rightarrow> rat" where
  "micro_precision a = ratio (a_tp a) (a_tp a + a_fp a)"

definition micro_recall :: "tool_total \<Rightarrow> rat" where
  "micro_recall a = ratio (a_tp a) (a_tp a + a_fn a)"

definition micro_f1 :: "tool_total \<Rightarrow> rat" where
  "micro_f1 a = (let p = micro_precision a; r = micro_recall a in if p + r \<noteq> 0 then 2 * p * r / (p + r) else 0)"

definition round_to :: "nat \<Rightarrow> rat \<Rightarrow> rat" where
  "round_to n q = of_int (round_even (q * 10 ^ n)) / 10 ^ n"

record score_row =
  r_tool :: string
  r_total :: tool_total
  r_precision :: rat
  r_recall :: rat
  r_f1 :: rat
  r_fp_per_pr :: rat

definition score_row_of :: "string \<times> tool_total \<Rightarrow> score_row" where
  "score_row_of ta = (let a = snd ta in
     \<lparr>r_tool = fst ta, r_total = a, r_precision = round_to 4 (micro_precision a), r_recall = round_to 4 (micro_recall a),
      r_f1 = round_to 4 (micro_f1 a),
      r_fp_per_pr = (if a_n_prs a \<noteq> 0 then round_to 2 (of_int (a_fp a) / of_nat (a_n_prs a)) else 0)\<rparr>)"

definition score_rows :: "(string \<times> tool_total) list \<Rightarrow> score_row list" where
  "score_rows agg = sort_key (\<lambda>r. - r_f1 r) (map score_row_of agg)"

definition row_dict :: "score_row \<Rightarrow> pyval" where
  "row_dict r = (let a = r_total r in VDict
     [(''tool'', VStr (r_tool r)), (''tp'', VInt (a_tp a)), (''fp'', VInt (a_fp a)), (''fn'', VInt (a_fn a)),
      (''golden'', VInt (a_tp a + a_fn a)), (''n_prs'', VInt (int (a_n_prs a))), (''n_cand'', VInt (a_cand a)),
      (''precision'', VFloat (Fin (r_precision r))), (''recall'', VFloat (Fin (r_recall r))), (''f1'', VFloat (Fin (r_f1 r))),
      (''fp_per_pr'', VFloat (Fin (r_fp_per_pr r)))])"

text \<open>The format \<^verbatim>\<open>.2f\<close>, for n places.\<close>

definition fixed :: "nat \<Rightarrow> rat \<Rightarrow> string" where
  "fixed n q = (let ds = pad_left (Suc n) (show_nat (nat \<bar>round_even (q * 10 ^ n)\<bar>)); k = length ds - n in
     (if q < 0 then ''-'' else []) @ take k ds @ ''.'' @ drop k ds)"

definition star_of :: "string \<Rightarrow> string" where
  "star_of tool = (if prefix skill_tool_prefix tool then [CHR '' '', CHR 0xE2, CHR 0xAD, CHR 0x90] else [])"

definition leaderboard_row :: "score_row \<Rightarrow> string" where
  "leaderboard_row r = (let a = r_total r in
     ''| '' @ r_tool r @ star_of (r_tool r) @ '' | '' @ fixed 2 (r_recall r) @ '' | '' @ fixed 2 (r_precision r) @ '' | '' @
     fixed 2 (r_f1 r) @ '' | '' @ show_int (a_tp a) @ '' | '' @ show_int (a_fp a) @ '' | '' @ show_int (a_fn a) @ '' | '' @
     fixed 1 (r_fp_per_pr r) @ '' | '' @ show_nat (a_n_prs a) @ '' |'')"

definition leaderboard_md :: "string \<Rightarrow> string list \<Rightarrow> score_row list \<Rightarrow> string" where
  "leaderboard_md run_id pr_ids rows = join [CHR 0x0A]
     ([''# Leaderboard ['' @ run_id @ ''] '' @ [CHR 0xE2, CHR 0x80, CHR 0x94] @ '' '' @ show_nat (length pr_ids) @
         '' PRs (judge: Opus 4.8, Martian rule)'', [],
       ''| tool | recall | precision | F1 | TP | FP | FN | FP/PR | PRs |'', ''|---|---|---|---|---|---|---|---|---|'']
      @ map leaderboard_row rows) @ [CHR 0x0A]"

subsection \<open>Paired inputs\<close>

type_synonym float_round = "(string \<times> pyfloat \<times> pyfloat \<times> pyfloat) list"

text \<open>The verdict of one tool on one pull request; \<open>None\<close> where there is none.\<close>

definition tool_verdict :: "pyval \<Rightarrow> string \<Rightarrow> dict option res" where
  "tool_verdict data tool = bindE (get_dict data ''tools'') (\<lambda>tools. Inr (dict_of (dget tools tool)))"

definition add_counts ::
  "(string \<Rightarrow> string option) \<Rightarrow> string \<Rightarrow> float_round \<Rightarrow> string \<Rightarrow> float_round res" where
  "add_counts verdicts tool out pid = (case verdicts pid of
     None \<Rightarrow> Inr out
   | Some s \<Rightarrow> bindE (load_json s) (\<lambda>data. bindE (tool_verdict data tool) (\<lambda>tv. case tv of
        None \<Rightarrow> Inr out
      | Some v \<Rightarrow> bindE (py_float (dget_or v ''tp'' (VInt 0))) (\<lambda>tp. bindE (py_float (dget_or v ''fp'' (VInt 0))) (\<lambda>fp.
          bindE (py_float (dget_or v ''fn'' (VInt 0))) (\<lambda>fn. Inr (dset pid (tp, fp, fn) out)))))))"

definition per_pr_counts :: "(string \<Rightarrow> string option) \<Rightarrow> string list \<Rightarrow> string \<Rightarrow> float_round res" where
  "per_pr_counts verdicts pr_ids tool = foldE (add_counts verdicts tool) [] pr_ids"

text \<open>For each pull request the number of goldens and the indices of those that were caught.\<close>

type_synonym golden_map = "(string \<times> nat \<times> int list) list"

definition add_golden ::
  "(string \<Rightarrow> string option) \<Rightarrow> string \<Rightarrow> golden_map \<Rightarrow> string \<Rightarrow> golden_map res" where
  "add_golden verdicts tool out pid = (case verdicts pid of
     None \<Rightarrow> Inr out
   | Some s \<Rightarrow> bindE (load_json s) (\<lambda>data. bindE (parsed_dict data) (\<lambda>d. case int_of (dget d ''n_golden'') of
        None \<Rightarrow> Inr out
      | Some n \<Rightarrow>
          if n \<le> 0 then Inr out
          else bindE (tool_verdict data tool) (\<lambda>tv. case tv of
              None \<Rightarrow> Inr out
            | Some v \<Rightarrow> bindE (py_iter (py_or (dget v ''matched_golden'') (VList []))) (\<lambda>ms.
                bindE (mapE py_int ms) (\<lambda>gs. Inr (dset pid (nat n, filter (\<lambda>g. 0 \<le> g \<and> g < n) gs) out)))))))"

definition per_pr_golden_caught :: "(string \<Rightarrow> string option) \<Rightarrow> string list \<Rightarrow> string \<Rightarrow> golden_map res" where
  "per_pr_golden_caught verdicts pr_ids tool = foldE (add_golden verdicts tool) [] pr_ids"

definition shared_goldens :: "golden_map \<Rightarrow> golden_map \<Rightarrow> string \<Rightarrow> (bool \<times> bool) list" where
  "shared_goldens cand base pid = (case (map_of cand pid, map_of base pid) of
     (Some (cand_n, cand_set), Some (base_n, base_set)) \<Rightarrow>
       map (\<lambda>g. (int g \<in> set base_set, int g \<in> set cand_set)) [0..<min cand_n base_n]
   | _ \<Rightarrow> [])"

definition golden_vectors :: "golden_map \<Rightarrow> golden_map \<Rightarrow> bool list \<times> bool list" where
  "golden_vectors cand base =
     (let ps = concat (map (shared_goldens cand base) (sort (filter (\<lambda>p. p \<in> set (dkeys base)) (dkeys cand)))) in
      (map fst ps, map snd ps))"

definition mcnemar_vectors ::
  "(string \<Rightarrow> string option) \<Rightarrow> (string \<Rightarrow> string option) \<Rightarrow> string list \<Rightarrow> string list \<Rightarrow> string \<Rightarrow> (bool list \<times> bool list) res" where
  "mcnemar_vectors cand_verdicts base_verdicts pr_ids baseline_pr_ids tool =
     bindE (per_pr_golden_caught cand_verdicts pr_ids tool) (\<lambda>cand.
     bindE (per_pr_golden_caught base_verdicts baseline_pr_ids tool) (\<lambda>base. Inr (golden_vectors cand base)))"

subsection \<open>Paired tests\<close>

text \<open>
  \<^verbatim>\<open>mcnemar_recall\<close> builds the table of agreements and hands it to the exact test of statsmodels, the
  argument \<open>test\<close>.
\<close>

definition mcnemar_table :: "bool list \<Rightarrow> bool list \<Rightarrow> nat \<times> nat \<times> nat \<times> nat" where
  "mcnemar_table bs cs = (let ps = zip bs cs in
     (count_if (\<lambda>(b, c). b \<and> c) ps, count_if (\<lambda>(b, c). b \<and> \<not> c) ps,
      count_if (\<lambda>(b, c). \<not> b \<and> c) ps, count_if (\<lambda>(b, c). \<not> b \<and> \<not> c) ps))"

record mcnemar_result =
  m_statistic :: pyfloat
  m_pvalue :: pyfloat
  m_b_only :: nat
  m_c_only :: nat

definition mcnemar_recall ::
  "(nat \<times> nat \<times> nat \<times> nat \<Rightarrow> pyfloat \<times> pyfloat) \<Rightarrow> bool list \<Rightarrow> bool list \<Rightarrow> mcnemar_result res" where
  "mcnemar_recall test bs cs =
     (if length bs \<noteq> length cs then Inl ValueError
      else let t = mcnemar_table bs cs; (both, b_only, c_only, neither) = t; (statistic, pvalue) = test t in
        Inr \<lparr>m_statistic = statistic, m_pvalue = pvalue, m_b_only = b_only, m_c_only = c_only\<rparr>)"

text \<open>\<^verbatim>\<open>paired_permutation_f1\<close>; \<open>test\<close> is \<^verbatim>\<open>scipy.stats.permutation_test\<close> on the paired values.\<close>

definition paired_permutation_f1 ::
  "(real list \<Rightarrow> real list \<Rightarrow> real \<times> real) \<Rightarrow> round_counts list \<Rightarrow> round_counts list \<Rightarrow> real \<times> real" where
  "paired_permutation_f1 test baseline candidate =
     (let shared = shared_prs baseline candidate;
          b_vec = map (metric_of F1) (pool_rounds baseline shared); c_vec = map (metric_of F1) (pool_rounds candidate shared) in
      if length shared < 2 then (if shared \<noteq> [] then mean_of c_vec - mean_of b_vec else 0, 1) else test c_vec b_vec)"

text \<open>\<^verbatim>\<open>bh_fdr\<close> around \<^verbatim>\<open>multipletests\<close>.\<close>

definition bh_fdr :: "(real list \<Rightarrow> (bool \<times> real) list) \<Rightarrow> real list \<Rightarrow> bool list \<times> real list" where
  "bh_fdr test pvalues = (if pvalues = [] then ([], []) else let rs = test pvalues in (map fst rs, map snd rs))"

record test_suite =
  suite_gate :: paired_engine
  suite_ci :: "float_rounds \<Rightarrow> metric \<Rightarrow> pyfloat \<times> pyfloat \<times> pyfloat"
  suite_delta :: "float_rounds \<Rightarrow> float_rounds \<Rightarrow> metric \<Rightarrow> pyfloat \<times> pyfloat \<times> pyfloat"
  suite_permutation :: "float_rounds \<Rightarrow> float_rounds \<Rightarrow> pyfloat \<times> pyfloat"
  suite_mcnemar :: "nat \<times> nat \<times> nat \<times> nat \<Rightarrow> pyfloat \<times> pyfloat"

definition ci_dict :: "pyfloat \<times> pyfloat \<times> pyfloat \<Rightarrow> pyval" where
  "ci_dict t = (case t of (point, lo, hi) \<Rightarrow>
     VDict [(''point'', VFloat point), (''ci_lo'', VFloat lo), (''ci_hi'', VFloat hi)])"

definition ci_block :: "test_suite \<Rightarrow> (string \<Rightarrow> string option) \<Rightarrow> string list \<Rightarrow> string \<Rightarrow> dict res" where
  "ci_block suite verdicts pr_ids tool = bindE (per_pr_counts verdicts pr_ids tool) (\<lambda>r. Inr
     [(''tool'', VStr tool), (''n_prs'', VInt (int (length r))), (''recall'', ci_dict (suite_ci suite [r] Recall)),
      (''precision'', ci_dict (suite_ci suite [r] Precision)), (''f1'', ci_dict (suite_ci suite [r] F1))])"

definition mcnemar_block :: "test_suite \<Rightarrow> bool list \<times> bool list \<Rightarrow> dict res" where
  "mcnemar_block suite v = (if fst v \<noteq> [] then
     bindE (mcnemar_recall (suite_mcnemar suite) (fst v) (snd v)) (\<lambda>mc. Inr
       [(''statistic'', VFloat (m_statistic mc)), (''pvalue'', VFloat (m_pvalue mc)),
        (''baseline_only'', VInt (int (m_b_only mc))), (''candidate_only'', VInt (int (m_c_only mc))),
        (''n_shared_goldens'', VInt (int (length (fst v))))])
   else Inr [(''n_shared_goldens'', VInt 0), (''note'', VStr ''no shared goldens; McNemar skipped'')])"

definition gate_summary :: "gate_result \<Rightarrow> dict" where
  "gate_summary g = [(''verdict'', VStr (upper (verdict_name (g_verdict g)))), (''n_shared_prs'', VInt (int (g_shared g))),
     (''underpowered'', VBool (g_underpowered g))] @ zip gate_keys (map VBool (gate_list (g_gates g)))"

definition baseline_block ::
  "test_suite \<Rightarrow> (string \<Rightarrow> string option) \<Rightarrow> (string \<Rightarrow> string option) \<Rightarrow> string \<Rightarrow> string list \<Rightarrow> string list \<Rightarrow> string \<Rightarrow> dict res" where
  "baseline_block suite verdicts base_verdicts baseline_run pr_ids baseline_pr_ids tool =
     bindE (per_pr_counts verdicts pr_ids tool) (\<lambda>cand.
     bindE (per_pr_counts base_verdicts baseline_pr_ids tool) (\<lambda>base.
     bindE (mcnemar_vectors verdicts base_verdicts pr_ids baseline_pr_ids tool) (\<lambda>v.
     bindE (mcnemar_block suite v) (\<lambda>mc.
     let (gate, notes) = suite_gate suite [base] [cand] None None; (statistic, pvalue) = suite_permutation suite [base] [cand] in
     Inr [(''tool'', VStr tool), (''baseline_run'', VStr baseline_run),
          (''f1_delta'', ci_dict (suite_delta suite [base] [cand] F1)),
          (''recall_delta'', ci_dict (suite_delta suite [base] [cand] Recall)), (''mcnemar_recall'', VDict mc),
          (''permutation_f1'', VDict [(''statistic'', VFloat statistic), (''pvalue'', VFloat pvalue)]),
          (''gate'', VDict (gate_summary gate))]))))"

text \<open>The arguments of \<^verbatim>\<open>score.py\<close>, the baseline empty where it is not given, and the two files it writes.\<close>

record score_args =
  sc_run :: string
  sc_prs :: "string list"
  sc_ci :: bool
  sc_baseline :: string
  sc_tool :: string

definition score_files ::
  "test_suite \<Rightarrow> store \<Rightarrow> string \<Rightarrow> (string \<Rightarrow> (string \<times> string) list) \<Rightarrow> score_args \<Rightarrow> (string \<times> string) list res" where
  "score_files suite files tmp found args =
     (let run = sc_run args; verdicts = verdict_text files tmp (found run) run;
          pr_ids = (if sc_prs args \<noteq> [] then sc_prs args else sort (dkeys (judged_of (found run))));
          results = path_join (path_join tmp ''results'') run in
      bindE (aggregate verdicts pr_ids) (\<lambda>agg.
      bindE (if sc_ci args \<or> sc_baseline args \<noteq> []
             then bindE (ci_block suite verdicts pr_ids (sc_tool args)) (\<lambda>b. Inr [(''ci'', VDict b)]) else Inr []) (\<lambda>ci.
      bindE (if sc_baseline args = [] then Inr [] else let base = sc_baseline args in
               bindE (baseline_block suite verdicts (verdict_text files tmp (found base) base) base pr_ids
                        (sort (dkeys (judged_of (found base)))) (sc_tool args))
                 (\<lambda>b. Inr [(''baseline_comparison'', VDict b)])) (\<lambda>cmp.
      let rows = score_rows agg in
      Inr [(path_join results ''metrics.json'', json_indented (VDict ([(''rows'', VList (map row_dict rows)),
              (''pr_ids'', VList (map VStr pr_ids))] @ ci @ cmp))),
           (path_join results ''leaderboard.md'', leaderboard_md run pr_ids rows)]))))"

subsection \<open>Labels\<close>

lemma add_competitors_other:
  assumes "t \<notin> set competitors"
  shows "map_of (add_competitors cands tools) t = map_of tools t"
proof -
  have "map_of (foldl (\<lambda>ts t. case map_of cands t of None \<Rightarrow> ts | Some cs \<Rightarrow> dset t (competitor_texts cs) ts) ts xs) t = map_of ts t"
    if "t \<notin> set xs" for ts xs
    using that by (induction xs arbitrary: ts) (auto split: option.split)
  then show ?thesis using assms by (simp add: add_competitors_def)
qed

lemma skill_candidates_length: "skill_candidates iss = Inr c \<Longrightarrow> \<exists>ts. c = VList ts \<and> length ts = length iss"
  by (auto simp: skill_candidates_def res_simps dest: mapE_length)

lemma judge_input_tools:
  assumes "judge_input candidates pr e issues = Inr inp" "issue_sets issues = Inr sets" "(name, iss) \<in> set sets"
  obtains ts T M where "dget_or inp ''tools'' d = VDict T" "dget_or T name d' = VList ts" "length ts = length iss"
    "dget_or inp ''skill_meta'' d = VDict M" "dget_or M name d' = skill_meta iss" "dget_or inp ''golden'' d'' = VList (be_golden e)"
proof -
  from assms(1,2) obtain tools where tools: "mapE (\<lambda>(name, iss). bindE (skill_candidates iss) (\<lambda>c. Inr (name, c))) sets = Inr tools"
      and inp: "inp = [(''pr_id'', VStr pr), (''original_key'', VStr (be_key e)), (''lang'', be_lang e),
          (''n_issues_prod'', VInt (int (length issues))), (''golden'', VList (be_golden e)),
          (''tools'', VDict (add_competitors (candidates (be_key e)) tools)),
          (''skill_meta'', VDict (map (\<lambda>(name, iss). (name, skill_meta iss)) sets))]"
    by (auto simp: judge_input_def res_simps)
  from assms(2) obtain sc where sets: "sets = [(''skill-prod'', issues),
      (''skill-prod-primary'', filter (\<lambda>i. truthy (dget i ''primary'')) issues), (''skill-prod-scoped'', sc)]"
    by (auto simp: issue_sets_def res_simps)
  have "name \<notin> set competitors" using assms(3) by (auto simp: sets competitors_def)
  moreover obtain ts where "map_of tools name = Some (VList ts)" "length ts = length iss"
    using tools assms(3) unfolding sets by (auto simp: res_simps dest!: skill_candidates_length)
  moreover have "map_of (map (\<lambda>(name, iss). (name, skill_meta iss)) sets) name = Some (skill_meta iss)"
    using assms(3) by (auto simp: sets)
  ultimately show thesis
    using that [of "add_competitors (candidates (be_key e)) tools" ts "map (\<lambda>(name, iss). (name, skill_meta iss)) sets"]
    by (simp add: inp dget_or_def add_competitors_other)
qed

lemma tool_rows_tool: "tool_rows run pr g in_tools metas tv = Inr rs \<Longrightarrow> r \<in> set rs \<Longrightarrow> dget r ''tool'' = VStr (fst tv)"
proof -
  assume "tool_rows run pr g in_tools metas tv = Inr rs" "r \<in> set rs"
  then obtain matched cs i where "mapE (finding_row run pr (fst tv) matched g (dget_or metas (fst tv) (VList [])))
      (zip [0..<length cs] cs) = Inr rs" "r = rs ! i" "i < length rs"
    by (auto simp: tool_rows_def res_simps in_set_conv_nth split: pyval.splits if_splits)
  then have "finding_row run pr (fst tv) matched g (dget_or metas (fst tv) (VList [])) (zip [0..<length cs] cs ! i) = Inr r"
    using mapE_nth mapE_length by metis
  then show ?thesis by (auto simp: finding_row_def res_simps)
qed

lemma filter_tool_rows:
  assumes "mapE f tools = Inr rss" "\<And>tv rs r. f tv = Inr rs \<Longrightarrow> r \<in> set rs \<Longrightarrow> g r = VStr (fst tv)"
    and "distinct (map fst tools)" "(name, x) \<in> set tools"
  shows "f (name, x) = Inr (filter (\<lambda>r. g r = VStr name) (concat rss))"
  using assms
proof (induction tools arbitrary: rss)
  case (Cons tv tools)
  from Cons.prems(1) obtain rs rss' where rs: "f tv = Inr rs" "mapE f tools = Inr rss'" "rss = rs # rss'"
    by (auto simp: res_simps)
  show ?case
  proof (cases "fst tv = name")
    case True
    with Cons.prems(3) have notin: "name \<notin> fst ` set tools" by simp
    then have "(name, x) \<notin> set tools" by force
    with Cons.prems(4) have tv: "tv = (name, x)" "name \<notin> fst ` set tools" using notin by simp_all
    have "g r \<noteq> VStr name" if "r \<in> set (concat rss')" for r
    proof -
      from that obtain qs where "qs \<in> set rss'" "r \<in> set qs" by auto
      then obtain i where "i < length rss'" "r \<in> set (rss' ! i)" by (metis in_set_conv_nth)
      with rs(2) have "f (tools ! i) = Inr (rss' ! i)" "tools ! i \<in> set tools" by (simp_all add: mapE_nth mapE_length)
      then show ?thesis using Cons.prems(2) \<open>r \<in> set (rss' ! i)\<close> tv(2) by (metis image_eqI pyval.inject(4))
    qed
    then have "filter (\<lambda>r. g r = VStr name) (concat rss') = []" by (auto simp: filter_empty_conv)
    moreover have "filter (\<lambda>r. g r = VStr name) rs = rs" using Cons.prems(2) [OF rs(1)] tv by (auto simp: filter_id_conv)
    ultimately show ?thesis using rs tv by simp
  next
    case False
    then have "filter (\<lambda>r. g r = VStr name) rs = []" using Cons.prems(2) [OF rs(1)] by (auto simp: filter_empty_conv)
    then show ?thesis using Cons.IH [OF rs(2) Cons.prems(2)] Cons.prems(3,4) False rs(3) by auto
  qed
qed simp

lemma label_of_entry:
  "label_from_meta (meta_entry idx i) = Inr (conf, sev) \<Longrightarrow>
     sev = (if dget i ''severity'' = VNone then VNone else VStr (py_str (dget i ''severity'')))
     \<and> (if num_of (dget i ''confidence'') = None then conf = VNone
        else \<exists>f. py_float (dget i ''confidence'') = Inr f \<and> conf = VFloat f)"
  by (auto simp: label_from_meta_def meta_entry_def res_simps Let_def split: if_splits)

lemma dget_or_present: "dget d k = v \<Longrightarrow> v \<noteq> VNone \<Longrightarrow> dget_or d k w = v"
  by (auto simp: dget_def dget_or_def split: option.splits)

lemma label_rows_concat:
  assumes "label_rows run pr (VDict verdict) (VDict inp) = Inr rs" "dget verdict ''tools'' = VDict tools"
    and "dget_or inp ''tools'' (VDict []) = VDict T" "dget_or inp ''skill_meta'' (VDict []) = VDict M"
    and "(name, VDict v) \<in> set tools" "is_skill_tool name v"
  obtains g rss where "mapE (tool_rows run pr g T M) tools = Inr rss" "rs = concat rss"
proof -
  have t: "get_dict (VDict verdict) ''tools'' = Inr tools"
    using dget_or_present [OF assms(2)] by (simp add: get_dict_def parsed_dict_def)
  have "list_ex (\<lambda>(name, v). case v of VDict d \<Rightarrow> is_skill_tool name d | _ \<Rightarrow> False) tools"
    using assms(5,6) by (force simp: list_ex_iff)
  with assms(1,3,4) t that show thesis by (auto simp: label_rows_def parsed_dict_def res_simps)
qed

lemma finding_row_spec:
  assumes "finding_row run pr name matched g (skill_meta iss) (idx, c) = Inr r" "idx < length iss"
  shows "dget r ''finding_idx'' = VInt (int idx) \<and> dget r ''severity'' =
        (if dget (iss ! idx) ''severity'' = VNone then VNone else VStr (py_str (dget (iss ! idx) ''severity'')))
      \<and> (if num_of (dget (iss ! idx) ''confidence'') = None then dget r ''defect_confidence'' = VNone
         else \<exists>f. py_float (dget (iss ! idx) ''confidence'') = Inr f \<and> dget r ''defect_confidence'' = VFloat f)
      \<and> dget r ''matched'' = VInt (if int idx \<in> set matched then 1 else 0)"
proof -
  have "meta_at (skill_meta iss) idx c = Inr (meta_entry idx (iss ! idx))"
    using assms(2) by (simp add: meta_at_def skill_meta_def)
  with assms(1) obtain conf sev where "label_from_meta (meta_entry idx (iss ! idx)) = Inr (conf, sev)"
    and "r = [(''run_id'', VStr run), (''pr_id'', VStr pr), (''tool'', VStr name), (''finding_idx'', VInt (int idx)),
          (''defect_confidence'', conf), (''severity'', sev),
          (''matched'', VInt (if int idx \<in> set matched then 1 else 0)), (''golden_count'', VInt g)]"
    by (auto simp: finding_row_def res_simps)
  with label_of_entry [of idx "iss ! idx" conf sev] show ?thesis by simp
qed

lemma mapE_py_int_ints: "mapE py_int (map VInt is) = Inr is"
  by (induction "is") (simp_all add: py_int_def)

text \<open>
  C27: the labels are joined to the right findings: the judge input that is made of a report is written,
  and read again with the verdict of the judge. For each of the three skill tools the rows of the
  findings table are, one by one and in order, the findings that the tool was made of: row i has index i,
  the severity and the confidence of finding i, null where it has none, and is labelled correct exactly
  when the judge listed i as matched.
\<close>

theorem labels_join_findings:
  assumes "judge_input candidates pr e issues = Inr inp" "json_ok (VDict inp)"
    and "files (judge_input_path tmp run pr) = Some (json_indented (VDict inp))"
    and "files (judge_path tmp run pr) = Some text" "json_loads text = Some (VDict verdict)"
    and "dget verdict ''tools'' = VDict tools" "distinct (dkeys tools)"
    and "issue_sets issues = Inr sets" "(name, iss) \<in> set sets"
    and "(name, VDict v) \<in> set tools" "dget v ''matched'' = VList (map VInt matched)"
    and "rows_for_pr files tmp run pr = Inr rs"
  shows "list_all2 (\<lambda>r (idx, i). dget r ''finding_idx'' = VInt (int idx)
      \<and> dget r ''severity'' = (if dget i ''severity'' = VNone then VNone else VStr (py_str (dget i ''severity'')))
      \<and> (if num_of (dget i ''confidence'') = None then dget r ''defect_confidence'' = VNone
         else \<exists>f. py_float (dget i ''confidence'') = Inr f \<and> dget r ''defect_confidence'' = VFloat f)
      \<and> dget r ''matched'' = VInt (if int idx \<in> set matched then 1 else 0))
    (filter (\<lambda>r. dget r ''tool'' = VStr name) rs) (enumerate 0 iss)"
proof -
  obtain ts T M where T: "dget_or inp ''tools'' (VDict []) = VDict T" "dget_or T name (VList []) = VList ts" "length ts = length iss"
      and M: "dget_or inp ''skill_meta'' (VDict []) = VDict M" "dget_or M name (VList []) = skill_meta iss"
    by (rule judge_input_tools [OF assms(1,8,9), of "VDict []" "VList []"]) blast
  have skill: "is_skill_tool name v"
    using assms(8,9) by (auto simp: issue_sets_def res_simps is_skill_tool_def skill_tool_prefix_def)
  have "json_loads (json_indented (VDict inp)) = Some (VDict inp)"
    using json_loads_printed [OF assms(2), of "[]" True] by (simp add: json_indented_def)
  moreover have "rows_for_pr files tmp run pr = bindE (load_json text) (\<lambda>verdict.
      bindE (load_json (json_indented (VDict inp))) (\<lambda>inp. label_rows run pr verdict inp))"
    by (simp add: rows_for_pr_def assms(3,4))
  ultimately have "label_rows run pr (VDict verdict) (VDict inp) = Inr rs"
    using assms(12) by (simp add: load_json_def assms(5))
  from label_rows_concat [OF this assms(6) T(1) M(1) assms(10) skill] obtain g rss where
    rows: "mapE (tool_rows run pr g T M) tools = Inr rss" "rs = concat rss" .
  have "tool_rows run pr g T M (name, VDict v) = Inr (filter (\<lambda>r. dget r ''tool'' = VStr name) rs)"
    unfolding rows(2) using tool_rows_tool assms(7,10) by (intro filter_tool_rows [OF rows(1)]) auto
  then have mapped: "mapE (finding_row run pr name matched g (skill_meta iss)) (zip [0..<length ts] ts)
      = Inr (filter (\<lambda>r. dget r ''tool'' = VStr name) rs)"
    using skill T(2) M(2) dget_or_present [OF assms(11)] by (simp add: tool_rows_def mapE_py_int_ints)
  let ?rs = "filter (\<lambda>r. dget r ''tool'' = VStr name) rs"
  have len: "length ?rs = length iss" using mapE_length [OF mapped] T(3) by simp
  have "finding_row run pr name matched g (skill_meta iss) (n, ts ! n) = Inr (?rs ! n)" if "n < length iss" for n
    using mapE_nth [OF mapped, of n] that T(3) by simp
  from finding_row_spec [OF this] show ?thesis
    unfolding list_all2_conv_all_nth using len by (simp add: nth_enumerate_eq)
qed

subsection \<open>The leaderboard and the statistics\<close>

text \<open>
  Counts of the judged pull requests of a tool, the float round they are the numbers of, and the
  total they add up to.
\<close>

type_synonym int_counts = "(string \<times> int \<times> int \<times> int) list"

definition floats_of :: "int_counts \<Rightarrow> float_round" where
  "floats_of cs = map (\<lambda>(p, tp, fp, fn). (p, Fin (of_int tp), Fin (of_int fp), Fin (of_int fn))) cs"

definition sum_tp :: "int_counts \<Rightarrow> int" where "sum_tp cs = sum_list (map (\<lambda>(_, tp, _, _). tp) cs)"
definition sum_fp :: "int_counts \<Rightarrow> int" where "sum_fp cs = sum_list (map (\<lambda>(_, _, fp, _). fp) cs)"
definition sum_fn :: "int_counts \<Rightarrow> int" where "sum_fn cs = sum_list (map (\<lambda>(_, _, _, fn). fn) cs)"

definition totals :: "int_counts \<Rightarrow> tool_total \<Rightarrow> bool" where
  "totals cs a \<longleftrightarrow> a_tp a = sum_tp cs \<and> a_fp a = sum_fp cs \<and> a_fn a = sum_fn cs
     \<and> a_prs a = dkeys cs \<and> a_n_prs a = length cs"

definition same_counts :: "string \<Rightarrow> (string \<times> tool_total) list \<Rightarrow> int_counts \<Rightarrow> bool" where
  "same_counts tool agg cs \<longleftrightarrow> totals cs (case map_of agg tool of None \<Rightarrow> no_total | Some a \<Rightarrow> a)"

lemma py_float_int: "int_field v k = Inr i \<Longrightarrow> py_float (dget_or v k (VInt 0)) = Inr f \<Longrightarrow> f = Fin (of_int i)"
  by (auto simp: int_field_def int_of_def py_float_def split: option.splits pyval.splits if_splits)

lemma add_verdict_other: "add_verdict pid agg tv = Inr agg' \<Longrightarrow> fst tv \<noteq> tool \<Longrightarrow> map_of agg' tool = map_of agg tool"
  by (auto simp: add_verdict_def res_simps Let_def)

lemma add_verdicts_other:
  assumes "foldE (add_verdict pid) agg tools = Inr agg'" "tool \<notin> set (dkeys tools)"
  shows "map_of agg' tool = map_of agg tool"
  using assms
proof (induction tools arbitrary: agg)
  case (Cons tv tools)
  then obtain agg1 where "add_verdict pid agg tv = Inr agg1" "foldE (add_verdict pid) agg1 tools = Inr agg'"
    by (auto simp: res_simps)
  with Cons show ?case using add_verdict_other [of pid agg tv agg1 tool] by auto
qed simp

lemma add_verdicts_tool:
  assumes "foldE (add_verdict pid) agg tools = Inr agg'" "distinct (dkeys tools)" "map_of tools tool = Some w"
  obtains agg1 agg2 where "map_of agg1 tool = map_of agg tool" "add_verdict pid agg1 (tool, w) = Inr agg2"
    "map_of agg' tool = map_of agg2 tool"
proof -
  obtain xs ys where split: "tools = xs @ (tool, w) # ys" using assms(3) by (meson map_of_SomeD split_list)
  with assms(2) have "tool \<notin> set (dkeys xs)" "tool \<notin> set (dkeys ys)" by auto
  moreover obtain agg1 agg2 where "foldE (add_verdict pid) agg xs = Inr agg1" "add_verdict pid agg1 (tool, w) = Inr agg2"
      "foldE (add_verdict pid) agg2 ys = Inr agg'"
    using assms(1) unfolding split foldE_append by (auto simp: res_simps)
  ultimately show thesis using that add_verdicts_other by metis
qed

lemma same_counts_verdict:
  assumes "add_verdict pid agg1 (tool, w) = Inr agg2" "same_counts tool agg1 cs"
  obtains v tp fp fn where "w = VDict v" "same_counts tool agg2 (cs @ [(pid, tp, fp, fn)])"
    "int_field v ''tp'' = Inr tp" "int_field v ''fp'' = Inr fp" "int_field v ''fn'' = Inr fn"
proof -
  let ?a = "case map_of agg1 tool of None \<Rightarrow> no_total | Some a \<Rightarrow> a"
  from assms(1) obtain v tp fp fn n where v: "w = VDict v" "int_field v ''tp'' = Inr tp" "int_field v ''fp'' = Inr fp"
      "int_field v ''fn'' = Inr fn" and agg2: "agg2 = dset tool \<lparr>a_tp = a_tp ?a + tp, a_fp = a_fp ?a + fp, a_fn = a_fn ?a + fn,
        a_cand = a_cand ?a + n, a_n_prs = a_n_prs ?a + 1, a_prs = a_prs ?a @ [pid]\<rparr> agg1"
    by (auto simp: add_verdict_def res_simps Let_def parsed_dict_def split: pyval.splits)
  have "same_counts tool agg2 (cs @ [(pid, tp, fp, fn)])"
    using assms(2) by (simp add: same_counts_def totals_def agg2 sum_tp_def sum_fp_def sum_fn_def)
  with that v show thesis by blast
qed

lemma keys_floats_of [simp]: "map fst (floats_of cs) = map fst cs" "length (floats_of cs) = length cs"
  by (simp_all add: floats_of_def comp_def split_beta)

lemma dset_absent: "k \<notin> set (dkeys d) \<Longrightarrow> dset k v d = d @ [(k, v)]"
  by (induction d) auto

definition tools_distinct :: "(string \<Rightarrow> string option) \<Rightarrow> string \<Rightarrow> bool" where
  "tools_distinct verdicts pid \<longleftrightarrow> (\<forall>s data tools. verdicts pid = Some s \<longrightarrow> load_json s = Inr data \<longrightarrow>
     get_dict data ''tools'' = Inr tools \<longrightarrow> distinct (dkeys tools))"

text \<open>The keys of a parsed object are distinct: of a repeated key the last value counts.\<close>

fun keys_distinct :: "pyval \<Rightarrow> bool" where
  "keys_distinct (VList xs) = list_all keys_distinct xs"
| "keys_distinct (VDict d) = (distinct (dkeys d) \<and> (\<forall>(k, v)\<in>set d. keys_distinct v))"
| "keys_distinct v = True"

lemma keys_distinct_dset:
  assumes "keys_distinct (VDict d)" "keys_distinct v"
  shows "keys_distinct (VDict (dset k v d))"
  using assms set_dset_subset [of k v d] by (auto simp: AList.distinct_update)

lemma json_unsigned_keys: "json_unsigned neg s = Some (v, r) \<Longrightarrow> keys_distinct v"
  by (auto simp: json_unsigned_def Let_def split: option.splits prod.splits if_splits)

lemma json_literal_keys: "json_literal s = Some (v, r) \<Longrightarrow> keys_distinct v"
  by (auto simp: json_literal_def json_number_def split: if_splits list.splits dest: json_unsigned_keys)

lemma json_members_step:
  assumes "json_members (Suc n) acc s = Some (v, r)"
  shows "\<exists>k t w u z. json_value n t = Some (w, u)
     \<and> (v = VDict (dset k w acc) \<or> json_members n (dset k w acc) z = Some (v, r))"
  using assms by (auto split: list.splits if_splits option.splits) blast+

lemma json_elems_step:
  assumes "json_elems (Suc n) acc s = Some (v, r)"
  shows "\<exists>w u z. json_value n s = Some (w, u) \<and> (v = VList (acc @ [w]) \<or> json_elems n (acc @ [w]) z = Some (v, r))"
  using assms by (auto split: list.splits if_splits option.splits)

lemma json_value_step:
  assumes "json_value (Suc n) s = Some (v, r)"
  obtains "\<exists>t. v = VStr t" | "v = VList []" | "v = VDict []" | t where "json_elems n [] t = Some (v, r)"
    | t where "json_members n [] t = Some (v, r)" | t where "json_literal t = Some (v, r)"
  using assms by (auto split: list.splits if_splits option.splits)

lemma json_value_keys:
  "(\<forall>s v r. json_value n s = Some (v, r) \<longrightarrow> keys_distinct v)
   \<and> (\<forall>acc s v r. json_elems n acc s = Some (v, r) \<longrightarrow> list_all keys_distinct acc \<longrightarrow> keys_distinct v)
   \<and> (\<forall>d s v r. json_members n d s = Some (v, r) \<longrightarrow> keys_distinct (VDict d) \<longrightarrow> keys_distinct v)"
proof (induction n)
  case (Suc n)
  then have V: "keys_distinct v" if "json_value n s = Some (v, r)" for s v r using that by blast
  have E: "keys_distinct v" if "json_elems n acc s = Some (v, r)" "list_all keys_distinct acc" for acc s v r
    using Suc that by blast
  have M: "keys_distinct v" if "json_members n d s = Some (v, r)" "keys_distinct (VDict d)" for d s v r
    using Suc that by blast
  have "keys_distinct v" if "json_value (Suc n) s = Some (v, r)" for s v r
    using that by (rule json_value_step) (auto intro: E M json_literal_keys)
  moreover have "keys_distinct v" if "json_elems (Suc n) acc s = Some (v, r)" "list_all keys_distinct acc" for acc s v r
    using json_elems_step [OF that(1)] that(2) V E by fastforce
  moreover have "keys_distinct v" if "json_members (Suc n) d s = Some (v, r)" "keys_distinct (VDict d)" for d s v r
    using json_members_step [OF that(1)] keys_distinct_dset [OF that(2) V] M by metis
  ultimately show ?case by blast
qed simp

lemma json_loads_keys: "json_loads s = Some v \<Longrightarrow> keys_distinct v"
  using json_value_keys [THEN conjunct1, rule_format, of "Suc (2 * length s)" "json_skip s"]
  by (simp add: json_loads_def del: json_value.simps split: option.splits prod.splits if_splits)

lemma tools_distinct: "tools_distinct verdicts pid"
proof -
  have "distinct (dkeys tools)" if data: "load_json s = Inr data" "get_dict data ''tools'' = Inr tools" for s data tools
  proof -
    have kd: "keys_distinct data" using data(1) by (auto simp: load_json_def split: option.splits dest: json_loads_keys)
    from data(2) obtain d where d: "data = VDict d" "dget_or d ''tools'' (VDict []) = VDict tools"
      by (auto simp: get_dict_def parsed_dict_def res_simps split: pyval.splits)
    then consider "tools = []" | "(''tools'', VDict tools) \<in> set d"
      by (cases "map_of d ''tools''") (auto simp: dget_or_def dest: map_of_SomeD)
    then have "keys_distinct (VDict tools)"
    proof cases
      case 2
      have "\<forall>(k, v)\<in>set d. keys_distinct v" using kd unfolding d(1) by simp
      from bspec [OF this 2] show ?thesis by (simp only: prod.case)
    qed simp
    then show ?thesis by simp
  qed
  then show ?thesis by (simp add: tools_distinct_def)
qed

lemma same_counts_pr:
  assumes "add_pr verdicts agg pid = Inr agg'" "add_counts verdicts tool (floats_of cs) pid = Inr out"
    and "same_counts tool agg cs" "pid \<notin> set (dkeys cs)"
  obtains cs' where "same_counts tool agg' cs'" "out = floats_of cs'" "set (dkeys cs') \<subseteq> insert pid (set (dkeys cs))"
    "distinct (dkeys cs) \<longrightarrow> distinct (dkeys cs')"
proof (cases "verdicts pid")
  case None
  with assms(1,2,3) show thesis by (intro that [of cs]) (auto simp: add_pr_def add_counts_def)
next
  case (Some s)
  with assms(1) obtain data tools where data: "load_json s = Inr data" "get_dict data ''tools'' = Inr tools"
      and agg': "foldE (add_verdict pid) agg tools = Inr agg'"
    by (auto simp: add_pr_def res_simps)
  have dist: "distinct (dkeys tools)" using tools_distinct [of verdicts pid] Some data by (simp add: tools_distinct_def)
  have tv: "tool_verdict data tool = Inr (dict_of (dget tools tool))" by (simp add: tool_verdict_def data)
  show thesis
  proof (cases "map_of tools tool")
    case None
    then have "tool \<notin> set (dkeys tools)" by (simp add: map_of_eq_None_iff)
    then have "same_counts tool agg' cs" using add_verdicts_other [OF agg'] assms(3) by (simp add: same_counts_def)
    moreover have "out = floats_of cs"
      using assms(2) None by (simp add: add_counts_def Some data tv dget_def dget_or_def dict_of_def)
    ultimately show thesis by (intro that [of cs]) auto
  next
    case w: (Some w)
    from add_verdicts_tool [OF agg' dist this] obtain agg1 agg2 where agg12: "map_of agg1 tool = map_of agg tool"
      "add_verdict pid agg1 (tool, w) = Inr agg2" "map_of agg' tool = map_of agg2 tool" .
    then have "same_counts tool agg1 cs" using assms(3) by (simp add: same_counts_def)
    from same_counts_verdict [OF agg12(2) this] obtain v tp fp fn where v: "w = VDict v"
      "same_counts tool agg2 (cs @ [(pid, tp, fp, fn)])" "int_field v ''tp'' = Inr tp" "int_field v ''fp'' = Inr fp"
      "int_field v ''fn'' = Inr fn" .
    have "dict_of (dget tools tool) = Some v" using w v(1) by (simp add: dget_def dget_or_def dict_of_def)
    with assms(2) obtain ftp ffp ffn where f: "py_float (dget_or v ''tp'' (VInt 0)) = Inr ftp"
        "py_float (dget_or v ''fp'' (VInt 0)) = Inr ffp" "py_float (dget_or v ''fn'' (VInt 0)) = Inr ffn"
        and out: "out = dset pid (ftp, ffp, ffn) (floats_of cs)"
      by (auto simp: add_counts_def Some data tv res_simps)
    have "out = floats_of (cs @ [(pid, tp, fp, fn)])"
    proof -
      have "pid \<notin> set (dkeys (floats_of cs))" using assms(4) by (simp only: keys_floats_of) simp
      then have "out = floats_of cs @ [(pid, ftp, ffp, ffn)]" unfolding out by (rule dset_absent)
      also have "\<dots> = floats_of (cs @ [(pid, tp, fp, fn)])"
        using py_float_int [OF v(3) f(1)] py_float_int [OF v(4) f(2)] py_float_int [OF v(5) f(3)] by (simp add: floats_of_def)
      finally show ?thesis .
    qed
    moreover have "same_counts tool agg' (cs @ [(pid, tp, fp, fn)])" using v(2) agg12(3) by (simp add: same_counts_def)
    ultimately show thesis using assms(4) by (intro that) auto
  qed
qed

lemma same_counts_fold:
  assumes "foldE (add_pr verdicts) agg prs = Inr agg'" "foldE (add_counts verdicts tool) (floats_of cs) prs = Inr out"
    and "same_counts tool agg cs" "distinct prs" "set prs \<inter> set (dkeys cs) = {}"
    and "distinct (dkeys cs)"
  shows "\<exists>cs'. same_counts tool agg' cs' \<and> out = floats_of cs' \<and> distinct (dkeys cs')"
  using assms
proof (induction prs arbitrary: agg cs)
  case (Cons p prs)
  from Cons.prems(1,2) obtain agg1 out1 where 1: "add_pr verdicts agg p = Inr agg1" "foldE (add_pr verdicts) agg1 prs = Inr agg'"
    "add_counts verdicts tool (floats_of cs) p = Inr out1" "foldE (add_counts verdicts tool) out1 prs = Inr out"
    by (auto simp: res_simps)
  have "p \<notin> set (dkeys cs)" using Cons.prems(5) by auto
  from same_counts_pr [OF 1(1,3) Cons.prems(3) this] obtain cs1 where cs1: "same_counts tool agg1 cs1" "out1 = floats_of cs1"
    "set (dkeys cs1) \<subseteq> insert p (set (dkeys cs))" "distinct (dkeys cs) \<longrightarrow> distinct (dkeys cs1)" .
  show ?case
  proof (rule Cons.IH [OF 1(2) _ cs1(1)])
    show "foldE (add_counts verdicts tool) (floats_of cs1) prs = Inr out" using 1(4) cs1(2) by simp
    show "set prs \<inter> set (dkeys cs1) = {}" using Cons.prems(4,5) cs1(3) by auto
  qed (use Cons.prems cs1(4) in auto)
qed auto

definition real_of :: "pyfloat \<Rightarrow> real" where
  "real_of f = (case f of Fin q \<Rightarrow> real_of_rat q | _ \<Rightarrow> 0)"

definition real_round :: "float_round \<Rightarrow> round_counts" where
  "real_round r = map (\<lambda>(p, tp, fp, fn). (p, \<lparr>c_tp = real_of tp, c_fp = real_of fp, c_fn = real_of fn\<rparr>)) r"

lemma sum_list_sort: "sum_list (map h (sort xs)) = sum_list (map h xs)" for h :: "'a :: linorder \<Rightarrow> real"
  by (metis mset_map mset_sort sum_mset_sum_list)

lemma pooled_single: "pooled [r] p = counts_of r p"
  by (simp add: pooled_def mean_of_def)

lemma counts_of_keys: "distinct (dkeys r) \<Longrightarrow> map (counts_of r) (dkeys r) = map snd r"
  by (auto simp: counts_of_def map_of_is_SomeI)

lemma pool_single_sum:
  fixes g :: "counts \<Rightarrow> real"
  assumes "distinct (dkeys r)"
  shows "sum_list (map g (pool_rounds [r] (ordered_prs_union [r]))) = sum_list (map g (map snd r))"
proof -
  have "ordered_prs_union [r] = sort (dkeys r)" using assms by (simp add: ordered_prs_union_def distinct_remdups_id)
  then have "sum_list (map g (pool_rounds [r] (ordered_prs_union [r]))) = sum_list (map (\<lambda>p. g (counts_of r p)) (sort (dkeys r)))"
    by (simp add: pool_rounds_def pooled_single comp_def)
  also have "\<dots> = sum_list (map g (map (counts_of r) (dkeys r)))" by (simp add: sum_list_sort [of "\<lambda>p. g (counts_of r p)"] comp_def)
  finally show ?thesis unfolding counts_of_keys [OF assms] .
qed

lemma real_round_sums:
  "dkeys (real_round (floats_of cs)) = dkeys cs"
  "sum_list (map c_tp (map snd (real_round (floats_of cs)))) = of_int (sum_tp cs)"
  "sum_list (map c_fp (map snd (real_round (floats_of cs)))) = of_int (sum_fp cs)"
  "sum_list (map c_fn (map snd (real_round (floats_of cs)))) = of_int (sum_fn cs)"
  by (induction cs) (auto simp: real_round_def floats_of_def real_of_def sum_tp_def sum_fp_def sum_fn_def)

lemma ratio_safe_div: "real_of_rat (ratio a b) = safe_div (of_int a) (of_int b)"
  by (simp add: ratio_def safe_div_def of_rat_divide)

lemma micro_metrics:
  "real_of_rat (micro_recall a) = recall_from_counts (of_int (a_tp a)) (of_int (a_fp a)) (of_int (a_fn a))"
  "real_of_rat (micro_precision a) = precision_from_counts (of_int (a_tp a)) (of_int (a_fp a)) (of_int (a_fn a))"
  "real_of_rat (micro_f1 a) = f1_from_counts (of_int (a_tp a)) (of_int (a_fp a)) (of_int (a_fn a))"
proof -
  show r: "real_of_rat (micro_recall a) = recall_from_counts (of_int (a_tp a)) (of_int (a_fp a)) (of_int (a_fn a))"
    by (simp add: micro_recall_def recall_from_counts_def ratio_safe_div)
  show p: "real_of_rat (micro_precision a) = precision_from_counts (of_int (a_tp a)) (of_int (a_fp a)) (of_int (a_fn a))"
    by (simp add: micro_precision_def precision_from_counts_def ratio_safe_div)
  have "micro_precision a + micro_recall a = 0 \<longleftrightarrow> real_of_rat (micro_precision a) + real_of_rat (micro_recall a) = 0"
    by (metis of_rat_0 of_rat_add of_rat_eq_iff)
  then show "real_of_rat (micro_f1 a) = f1_from_counts (of_int (a_tp a)) (of_int (a_fp a)) (of_int (a_fn a))"
    unfolding f1_from_counts_def r [symmetric] p [symmetric]
    by (simp add: micro_f1_def safe_div_def of_rat_divide of_rat_mult of_rat_add Let_def)
qed

text \<open>
  C28: the leaderboard and the statistics measure the same thing when no pull request is named twice: when both can
  be computed, for every tool on the leaderboard, its pull requests are those of the counts that go to the
  statistics, and its recall, precision, F1 and false positives per pull request, before rounding, are the point
  estimates that \<^verbatim>\<open>stats.py\<close> computes from these counts. The ids come from the command line or the run's
  directory; one named twice on the command line is counted twice by the leaderboard and once by
  the statistics (lemma \<^verbatim>\<open>repeated_id_counted_twice\<close>).
\<close>

theorem leaderboard_is_point_estimate:
  assumes "aggregate verdicts prs = Inr agg" "per_pr_counts verdicts prs tool = Inr counts" "map_of agg tool = Some a"
    and "distinct prs"
  shows "a_prs a = dkeys counts \<and> a_n_prs a = length counts
    \<and> real_of_rat (micro_recall a) = metric_over Recall (pool_rounds [real_round counts] (ordered_prs_union [real_round counts]))
    \<and> real_of_rat (micro_precision a) = metric_over Precision (pool_rounds [real_round counts] (ordered_prs_union [real_round counts]))
    \<and> real_of_rat (micro_f1 a) = metric_over F1 (pool_rounds [real_round counts] (ordered_prs_union [real_round counts]))
    \<and> real_of_int (a_fp a) / real (a_n_prs a) = fp_per_pr_mean [real_round counts]"
proof -
  have "same_counts tool [] []" by (simp add: same_counts_def totals_def no_total_def sum_tp_def sum_fp_def sum_fn_def)
  from same_counts_fold [OF assms(1) [unfolded aggregate_def], of tool "[]" counts] this assms(2,4)
  obtain cs where cs: "same_counts tool agg cs" "counts = floats_of cs" "distinct (dkeys cs)"
    by (auto simp: per_pr_counts_def floats_of_def)
  have t: "a_tp a = sum_tp cs" "a_fp a = sum_fp cs" "a_fn a = sum_fn cs" "a_prs a = dkeys cs" "a_n_prs a = length cs"
    using cs(1) by (simp_all add: same_counts_def assms(3) totals_def)
  let ?r = "real_round counts" and ?m = "pool_rounds [real_round counts] (ordered_prs_union [real_round counts])"
  have dist: "distinct (dkeys ?r)" using cs(3) by (simp add: cs(2) real_round_sums)
  have sums: "sum_list (map c_tp ?m) = of_int (a_tp a)" "sum_list (map c_fp ?m) = of_int (a_fp a)"
      "sum_list (map c_fn ?m) = of_int (a_fn a)"
    by (simp_all only: pool_single_sum [OF dist] t(1-3)) (simp_all only: cs(2) real_round_sums)
  have len: "length ?m = length cs"
  proof -
    have "length ?m = length (dkeys ?r)" using dist by (simp add: pool_rounds_def ordered_prs_union_def distinct_remdups_id)
    then show ?thesis by (simp only: cs(2) real_round_sums length_map)
  qed
  have keys: "dkeys counts = dkeys cs" "length counts = length cs" by (simp_all add: cs(2))
  have fp: "fp_per_pr_mean [?r] = real_of_int (a_fp a) / real (a_n_prs a)"
    using len sums(2) t(5) by (auto simp: fp_per_pr_mean_def Let_def)
  show ?thesis
    using keys t(4,5) fp sums by (simp add: metric_over_def micro_metrics)
qed

subsection \<open>Examples\<close>

definition tool_json :: "int \<Rightarrow> int \<Rightarrow> int \<Rightarrow> pyval" where
  "tool_json tp fp fn = VDict [(''tp'', VInt tp), (''fp'', VInt fp), (''fn'', VInt fn)]"

definition sample_verdicts :: "string \<Rightarrow> string option" where
  "sample_verdicts p =
     (if p = ''pr1'' then Some (json_compact (VDict [(''tools'', VDict [(''skill-prod'', tool_json 2 1 0), (''bugbot'', tool_json 1 0 1)])]))
      else if p = ''pr2'' then Some (json_compact (VDict [(''tools'', VDict [(''skill-prod'', tool_json 1 1 1)])]))
      else None)"

definition sample_total :: tool_total where
  "sample_total = \<lparr>a_tp = 3, a_fp = 2, a_fn = 1, a_cand = 0, a_n_prs = 2, a_prs = [''pr1'', ''pr2'']\<rparr>"

lemma sample_aggregate: "\<exists>agg. aggregate sample_verdicts [''pr1'', ''pr2'', ''pr3''] = Inr agg \<and> map_of agg ''skill-prod'' = Some sample_total"
proof -
  have "case aggregate sample_verdicts [''pr1'', ''pr2'', ''pr3''] of Inr agg \<Rightarrow> map_of agg ''skill-prod'' = Some sample_total | _ \<Rightarrow> False"
    by code_simp
  then show ?thesis by (auto split: sum.splits)
qed

theorem leaderboard_is_point_estimate_witness:
  "\<exists>counts. per_pr_counts sample_verdicts [''pr1'', ''pr2'', ''pr3''] ''skill-prod'' = Inr counts
     \<and> metric_over Recall (pool_rounds [real_round counts] (ordered_prs_union [real_round counts])) = 3 / 4"
proof -
  obtain agg where agg: "aggregate sample_verdicts [''pr1'', ''pr2'', ''pr3''] = Inr agg" "map_of agg ''skill-prod'' = Some sample_total"
    using sample_aggregate by blast
  obtain counts where counts: "per_pr_counts sample_verdicts [''pr1'', ''pr2'', ''pr3''] ''skill-prod'' = Inr counts"
  proof -
    have "case per_pr_counts sample_verdicts [''pr1'', ''pr2'', ''pr3''] ''skill-prod'' of Inr _ \<Rightarrow> True | _ \<Rightarrow> False" by code_simp
    then show thesis using that by (auto split: sum.splits)
  qed
  have "distinct [''pr1'', ''pr2'', ''pr3'']" by simp
  from leaderboard_is_point_estimate [OF agg(1) counts agg(2) this]
  have "real_of_rat (micro_recall sample_total) = metric_over Recall (pool_rounds [real_round counts] (ordered_prs_union [real_round counts]))"
    by blast
  moreover have "real_of_rat (micro_recall sample_total) = 3 / 4"
    by (simp add: micro_recall_def sample_total_def ratio_safe_div safe_div_def)
  ultimately show ?thesis using counts by auto
qed

text \<open>A pull request that is named twice.\<close>

lemma repeated_id_counted_twice:
  "\<exists>agg a counts. aggregate sample_verdicts [''pr2'', ''pr2''] = Inr agg \<and> map_of agg ''skill-prod'' = Some a
     \<and> a_n_prs a = 2 \<and> a_tp a = 2 \<and> per_pr_counts sample_verdicts [''pr2'', ''pr2''] ''skill-prod'' = Inr counts
     \<and> dkeys counts = [''pr2'']"
proof -
  have "case (aggregate sample_verdicts [''pr2'', ''pr2''], per_pr_counts sample_verdicts [''pr2'', ''pr2''] ''skill-prod'') of
      (Inr agg, Inr counts) \<Rightarrow> dkeys counts = [''pr2'']
        \<and> (case map_of agg ''skill-prod'' of None \<Rightarrow> False | Some a \<Rightarrow> a_n_prs a = 2 \<and> a_tp a = 2)
    | _ \<Rightarrow> False"
    by code_simp
  then show ?thesis by (auto split: sum.splits prod.splits option.splits)
qed

definition sample_issues :: "dict list" where
  "sample_issues = [[(''title'', VStr ''leak''), (''severity'', VStr ''critical''), (''confidence'', VInt 1), (''reviewer_id'', VStr ''sec-x'')],
     [(''title'', VStr ''name''), (''severity'', VStr ''minor'')]]"

definition sample_input :: dict where
  "sample_input = [(''pr_id'', VStr ''pr1''), (''original_key'', VStr ''k''), (''lang'', VNone), (''n_issues_prod'', VInt 2),
     (''golden'', VList [VStr ''leak'']),
     (''tools'', VDict [(''skill-prod'', VList [VStr ''leak.'', VStr ''name.'']), (''skill-prod-primary'', VList []),
        (''skill-prod-scoped'', VList [VStr ''leak.''])]),
     (''skill_meta'', VDict [
        (''skill-prod'', VList [VDict [(''defect_confidence'', VInt 1), (''severity'', VStr ''critical''), (''idx'', VInt 0)],
           VDict [(''defect_confidence'', VNone), (''severity'', VStr ''minor''), (''idx'', VInt 1)]]),
        (''skill-prod-primary'', VList []),
        (''skill-prod-scoped'', VList [VDict [(''defect_confidence'', VInt 1), (''severity'', VStr ''critical''), (''idx'', VInt 0)]])])]"

definition sample_verdict :: dict where
  "sample_verdict = [(''tools'', VDict [(''skill-prod'', VDict [(''matched'', VList [VInt 0])])])]"

definition sample_store :: store where
  "sample_store p = (if suffix ''_input_pr1.json'' p then Some (json_indented (VDict sample_input))
     else Some (json_compact (VDict sample_verdict)))"

lemma sample_paths:
  "sample_store (judge_input_path tmp run ''pr1'') = Some (json_indented (VDict sample_input))"
  "sample_store (judge_path tmp run ''pr1'') = Some (json_compact (VDict sample_verdict))"
  by (simp_all add: sample_store_def judge_input_path_def judge_path_def path_join_def suffix_to_prefix)

lemma sample_input_value:
  "judge_input (\<lambda>_. []) ''pr1'' \<lparr>be_key = ''k'', be_lang = VNone, be_golden = [VStr ''leak'']\<rparr> sample_issues = Inr sample_input"
  by code_simp

lemma sample_json_ok: "json_ok (VDict sample_input)" "json_ok (VDict sample_verdict)"
  by (simp_all add: sample_input_def sample_verdict_def text_ok_ascii)

lemma sample_parsed: "json_loads (json_compact (VDict sample_verdict)) = Some (VDict sample_verdict)"
  "json_loads (json_indented (VDict sample_input)) = Some (VDict sample_input)"
  using json_loads_printed [OF sample_json_ok(2), of "[]" False] json_loads_printed [OF sample_json_ok(1), of "[]" True]
  by (simp_all add: json_compact_def json_indented_def)

theorem labels_join_findings_witness:
  "\<exists>rs. rows_for_pr sample_store ''/tmp'' ''prod'' ''pr1'' = Inr rs \<and> length (filter (\<lambda>r. dget r ''tool'' = VStr ''skill-prod'') rs) = 2"
proof -
  have "case label_rows ''prod'' ''pr1'' (VDict sample_verdict) (VDict sample_input) of Inr rs \<Rightarrow> True | _ \<Rightarrow> False"
    by code_simp
  then obtain rs0 where rs0: "label_rows ''prod'' ''pr1'' (VDict sample_verdict) (VDict sample_input) = Inr rs0" by (auto split: sum.splits)
  have rs: "rows_for_pr sample_store ''/tmp'' ''prod'' ''pr1'' = Inr rs0"
    by (simp add: rows_for_pr_def sample_paths load_json_def sample_parsed rs0)
  have sets: "issue_sets sample_issues = Inr [(''skill-prod'', sample_issues), (''skill-prod-primary'', []), (''skill-prod-scoped'', [hd sample_issues])]"
    by code_simp
  have "list_all2 (\<lambda>r (idx, i). dget r ''finding_idx'' = VInt (int idx)
      \<and> dget r ''severity'' = (if dget i ''severity'' = VNone then VNone else VStr (py_str (dget i ''severity'')))
      \<and> (if num_of (dget i ''confidence'') = None then dget r ''defect_confidence'' = VNone
         else \<exists>f. py_float (dget i ''confidence'') = Inr f \<and> dget r ''defect_confidence'' = VFloat f)
      \<and> dget r ''matched'' = VInt (if int idx \<in> set [0] then 1 else 0))
    (filter (\<lambda>r. dget r ''tool'' = VStr ''skill-prod'') rs0) (enumerate 0 sample_issues)"
    by (rule labels_join_findings [OF sample_input_value sample_json_ok(1) sample_paths sample_parsed(1) _ _ sets _ _ _ rs,
          of "[(''skill-prod'', VDict [(''matched'', VList [VInt 0])])]" _ _ "[(''matched'', VList [VInt 0])]"])
      (simp_all add: sample_verdict_def)
  then have "length (filter (\<lambda>r. dget r ''tool'' = VStr ''skill-prod'') rs0) = length sample_issues"
    by (auto dest: list_all2_lengthD)
  then show ?thesis using rs by (simp add: sample_issues_def)
qed

end
