(* ===== verification/Authoring.thy ===== *)
theory Authoring
  imports Activation JsonRoundtrip
begin

section \<open>The source of the reviewer leaves\<close>

text \<open>
  The scripts that edit the leaves under \<^verbatim>\<open>reviewers.src/\<close>: \<^verbatim>\<open>derive_v2.py\<close>, \<^verbatim>\<open>make_dims_batches.py\<close>,
  \<^verbatim>\<open>apply_dimensions.py\<close> and \<^verbatim>\<open>fix_broad_globs.py\<close>, and \<^verbatim>\<open>reconstruct_src.py\<close> with its check
  \<^verbatim>\<open>roundtrip_diff.py\<close>. A leaf is its path, its frontmatter and its body. The printer of YAML and the
  reader of frontmatter are arguments. The keys of a frontmatter are distinct, as in a dictionary, and
  an id is the name of a file: it holds no slash.
\<close>

subsection \<open>Leaves\<close>

record leaf_doc =
  d_path :: "string list"
  d_meta :: dict
  d_body :: string

definition key_order :: "string list" where
  "key_order = [''id'', ''type'', ''focus'', ''parents'', ''aliases'', ''covers'', ''dimensions'', ''audit_surface'',
     ''languages'', ''tags'', ''activation'', ''tools'']"

definition generated_keys :: "string list" where
  "generated_keys = [''depth_role'', ''source'']"

text \<open>\<^verbatim>\<open>_ordered\<close>: the canonical keys first, then what else was authored.\<close>

definition ordered_meta :: "dict \<Rightarrow> dict" where
  "ordered_meta meta = map (\<lambda>k. (k, dget meta k)) (filter (\<lambda>k. k \<in> set (dkeys meta)) key_order)
     @ filter (\<lambda>(k, v). k \<notin> set key_order \<and> k \<notin> set generated_keys) meta"

text \<open>\<^verbatim>\<open>_dump\<close>; \<open>yaml\<close> is \<^verbatim>\<open>yaml.safe_dump\<close>.\<close>

definition dump_leaf :: "(dict \<Rightarrow> string) \<Rightarrow> dict \<Rightarrow> string \<Rightarrow> string" where
  "dump_leaf yaml meta body = ''---'' @ [newline] @ yaml meta @ ''---'' @ [newline, newline]
     @ dropWhile (\<lambda>c. c = newline) body"

text \<open>\<^verbatim>\<open>sorted(SRC.glob("*.md"))\<close>: the files directly in the directory.\<close>

definition flat_leaves :: "leaf_doc list \<Rightarrow> leaf_doc list" where
  "flat_leaves docs = sort_key d_path (filter (\<lambda>d. length (d_path d) = 1 \<and> suffix ''.md'' (hd (d_path d))) docs)"

definition meta_id :: "dict \<Rightarrow> pyval res" where
  "meta_id meta = (case map_of meta ''id'' of None \<Rightarrow> Inl KeyError | Some v \<Rightarrow> Inr v)"

subsection \<open>The audit surface of a body\<close>

text \<open>The length of the line break a text begins with; those beyond ASCII are in UTF-8.\<close>

definition break_at :: "string \<Rightarrow> nat" where
  "break_at s =
     (if prefix [CHR 0x0D, CHR 0x0A] s then 2
      else if s \<noteq> [] \<and> (let n = (of_char (hd s) :: nat) in (10 \<le> n \<and> n \<le> 13) \<or> (28 \<le> n \<and> n \<le> 30)) then 1
      else if prefix [CHR 0xC2, CHR 0x85] s then 2
      else if prefix [CHR 0xE2, CHR 0x80, CHR 0xA8] s \<or> prefix [CHR 0xE2, CHR 0x80, CHR 0xA9] s then 3
      else 0)"

function lines_from :: "string \<Rightarrow> string \<Rightarrow> string list" where
  "lines_from cur [] = (if cur = [] then [] else [rev cur])"
| "lines_from cur (c # cs) =
     (let n = break_at (c # cs) in
      if 0 < n then rev cur # lines_from [] (drop n (c # cs)) else lines_from (c # cur) cs)"
  by pat_completeness auto
termination
  by (relation "measure (\<lambda>(cur, s). length s)") auto

definition splitlines :: "string \<Rightarrow> string list" where
  "splitlines s = lines_from [] s"

definition after_hashes :: "string \<Rightarrow> string option" where
  "after_hashes row = (if prefix ''##'' row then
     (case drop 2 row of [] \<Rightarrow> None | c # cs \<Rightarrow> if is_space c then Some cs else None) else None)"

definition is_audit_heading :: "string \<Rightarrow> bool" where
  "is_audit_heading row = (case after_hashes row of None \<Rightarrow> False | Some r \<Rightarrow> lower (strip r) = ''audit surface'')"

definition is_section_heading :: "string \<Rightarrow> bool" where
  "is_section_heading row = (case after_hashes row of None \<Rightarrow> False | Some r \<Rightarrow> strip r \<noteq> [])"

text \<open>
  The text of a bullet after an optional check box. Where nothing follows the box but one blank, the box
  itself is the text.
\<close>

definition after_bullet :: "string \<Rightarrow> string option" where
  "after_bullet row = (case lstrip row of
     c # d # cs \<Rightarrow> if c \<in> {CHR ''-'', CHR ''*''} \<and> is_space d then Some (lstrip cs) else None | _ \<Rightarrow> None)"

definition after_box :: "string \<Rightarrow> string option" where
  "after_box t = (case t of
     a # x # b # c # cs \<Rightarrow>
       if a = CHR ''['' \<and> x \<in> {CHR '' '', CHR ''x'', CHR ''X''} \<and> b = CHR '']'' \<and> is_space c then Some cs else None
   | _ \<Rightarrow> None)"

definition bullet_text :: "string \<Rightarrow> string option" where
  "bullet_text row = (case after_bullet row of
     None \<Rightarrow> None
   | Some t \<Rightarrow>
       let u = (case after_box t of
            None \<Rightarrow> strip t | Some r \<Rightarrow> if strip r \<noteq> [] then strip r else if r = [] then strip t else [])
       in if u = [] then None else Some u)"

fun audit_lines :: "bool \<Rightarrow> string list \<Rightarrow> string list" where
  "audit_lines inside [] = []"
| "audit_lines inside (row # lns) =
     (if is_audit_heading row then audit_lines True lns
      else if inside \<and> is_section_heading row then []
      else if inside then (case bullet_text row of None \<Rightarrow> audit_lines True lns | Some t \<Rightarrow> t # audit_lines True lns)
      else audit_lines False lns)"

definition audit_surface :: "string \<Rightarrow> string list" where
  "audit_surface body = audit_lines False (splitlines body)"

subsection \<open>Languages, dimensions and tools\<close>

definition ext_lang :: "(string \<times> string) list" where
  "ext_lang = [
     (''.py'', ''python''), (''.pyi'', ''python''), (''.ts'', ''typescript''), (''.tsx'', ''typescript''),
     (''.js'', ''javascript''), (''.jsx'', ''javascript''), (''.mjs'', ''javascript''), (''.cjs'', ''javascript''),
     (''.go'', ''go''), (''.rs'', ''rust''), (''.java'', ''java''), (''.kt'', ''kotlin''), (''.kts'', ''kotlin''),
     (''.rb'', ''ruby''), (''.swift'', ''swift''), (''.cs'', ''csharp''), (''.php'', ''php''), (''.cpp'', ''cpp''),
     (''.cc'', ''cpp''), (''.cxx'', ''cpp''), (''.h'', ''cpp''), (''.hpp'', ''cpp''), (''.c'', ''c''),
     (''.scala'', ''scala''), (''.sc'', ''scala''), (''.ex'', ''elixir''), (''.exs'', ''elixir''), (''.erl'', ''erlang''),
     (''.clj'', ''clojure''), (''.dart'', ''dart''), (''.lua'', ''lua''), (''.r'', ''r''), (''.m'', ''objective-c''),
     (''.sh'', ''shell''), (''.sql'', ''sql'')]"

definition prefix_dims :: "(string \<times> string list) list" where
  "prefix_dims = [
     (''lang'', [''correctness'']), (''fw'', [''correctness'']), (''sec'', [''security'']), (''crypto'', [''security'']),
     (''cookie'', [''security'']), (''compliance'', [''security'', ''documentation'']), (''pattern'', [''architecture'']),
     (''antipattern'', [''architecture'', ''readability'']), (''smell'', [''readability'']),
     (''principle'', [''architecture'']), (''arch'', [''architecture'']), (''ddd'', [''architecture'']),
     (''domain'', [''correctness'']), (''footgun'', [''correctness'']), (''conc'', [''correctness'']),
     (''reliability'', [''correctness'', ''architecture'']), (''db'', [''correctness'', ''performance'']),
     (''orm'', [''correctness'', ''performance'']), (''migration'', [''correctness'']),
     (''data'', [''architecture'', ''correctness'']), (''cloud'', [''architecture'', ''security'']),
     (''iac'', [''architecture'', ''security'']), (''k8s'', [''architecture'', ''security'']),
     (''container'', [''security'']), (''cicd'', [''architecture'']), (''ci'', [''architecture'']),
     (''build'', [''architecture'']), (''pr'', [''readability'']), (''fe'', [''readability'', ''performance'']),
     (''a11y'', [''readability'']), (''i18n'', [''readability'']), (''xr'', [''readability'']),
     (''browser'', [''correctness'']), (''graphics'', [''performance'']), (''game'', [''performance'']),
     (''mob'', [''correctness'']), (''os'', [''correctness'']), (''embedded'', [''correctness'']),
     (''wasm'', [''performance'']), (''ai'', [''correctness'']), (''test'', [''tests'']), (''qa'', [''tests'']),
     (''obs'', [''architecture'', ''correctness'']), (''analytics'', [''architecture'']),
     (''experimentation'', [''architecture'']), (''incident'', [''architecture'']), (''feature'', [''architecture'']),
     (''perf'', [''performance'']), (''api'', [''architecture'', ''correctness'']),
     (''net'', [''correctness'', ''security'']), (''email'', [''correctness'']), (''notification'', [''correctness'']),
     (''search'', [''correctness'', ''performance'']), (''edge'', [''performance'']),
     (''event'', [''architecture'', ''correctness'']), (''doc'', [''documentation'']),
     (''conventional'', [''documentation'']), (''author'', [''documentation'']), (''tool'', [''architecture'']),
     (''modern'', [''architecture'']), (''glue'', [''correctness'']), (''cli'', [''readability'']),
     (''licensing'', [''documentation'']), (''export'', [''correctness'']), (''jupyter'', [''readability'']),
     (''binary'', [''correctness''])]"

definition tools_by_prefix :: "(string \<times> (string \<times> string) list) list" where
  "tools_by_prefix = [
     (''lang-python'', [(''ruff'', ''Python lint/style''), (''mypy'', ''Python type check'')]),
     (''lang-typescript'', [(''tsc'', ''TypeScript type check''), (''eslint'', ''TS/JS lint'')]),
     (''lang-javascript'', [(''eslint'', ''JS lint'')]),
     (''lang-go'', [(''go vet'', ''Go static checks''), (''golangci-lint'', ''Go linters'')]),
     (''lang-rust'', [(''clippy'', ''Rust lints'')]), (''lang-ruby'', [(''rubocop'', ''Ruby lint'')]),
     (''lang-php'', [(''phpstan'', ''PHP static analysis'')])]"

definition dim_set :: "string list" where
  "dim_set = [''architecture'', ''correctness'', ''documentation'', ''performance'', ''readability'', ''security'', ''tests'']"

definition id_prefix :: "string \<Rightarrow> string" where
  "id_prefix lid = hd (split_on (CHR ''-'') lid)"

definition brace_set :: "string \<Rightarrow> string option" where
  "brace_set g = (case dropWhile (\<lambda>c. c \<noteq> CHR ''{'') g of
     [] \<Rightarrow> None | _ # r \<Rightarrow> if CHR ''}'' \<in> set r then Some (takeWhile (\<lambda>c. c \<noteq> CHR ''}'') r) else None)"

definition glob_exts :: "string \<Rightarrow> string list" where
  "glob_exts g = (case brace_set g of
     Some inner \<Rightarrow> map (\<lambda>part. CHR ''.'' # dropWhile (\<lambda>c. c = CHR ''.'') (strip part)) (split_on (CHR '','') inner)
   | None \<Rightarrow> (let run = rev (takeWhile is_alnum (rev g)); before = dropWhile is_alnum (rev g) in
       if run \<noteq> [] \<and> before \<noteq> [] \<and> hd before = CHR ''.'' then [CHR ''.'' # run] else []))"

definition glob_langs :: "string \<Rightarrow> string list" where
  "glob_langs g = (if strip g \<in> {''**/*'', ''*'', ''**''} then []
     else List.map_filter (\<lambda>e. map_of ext_lang (lower e)) (glob_exts g))"

definition as_str :: "pyval \<Rightarrow> string res" where
  "as_str v = (case v of VStr s \<Rightarrow> Inr s | _ \<Rightarrow> Inl AttributeError)"

definition file_globs_of :: "pyval \<Rightarrow> string list res" where
  "file_globs_of activation = (case py_or activation (VDict []) of
     VDict a \<Rightarrow> bindE (py_iter (py_or (dget a ''file_globs'') (VList []))) (mapE as_str)
   | _ \<Rightarrow> Inl AttributeError)"

definition languages_of :: "string \<Rightarrow> pyval \<Rightarrow> pyval res" where
  "languages_of lid activation =
     (if prefix ''lang-'' lid then Inr (VList [VStr (drop 5 lid)])
      else bindE (file_globs_of activation) (\<lambda>globs.
        let langs = sort (remdups (concat (map glob_langs globs))) in
        Inr (if langs \<noteq> [] then VList (map VStr langs) else VStr ''all'')))"

definition tools_for :: "string \<Rightarrow> pyval option" where
  "tools_for lid = map_option (\<lambda>(_, ts). VList (map (\<lambda>(n, p). VDict [(''name'', VStr n), (''purpose'', VStr p)]) ts))
     (List.find (\<lambda>(k, _). lid = k \<or> prefix (k @ ''-'') lid) tools_by_prefix)"

definition dims_for :: "string \<Rightarrow> string list" where
  "dims_for lid = (case map_of prefix_dims (id_prefix lid) of None \<Rightarrow> [''correctness''] | Some ds \<Rightarrow> ds)"

definition derive_leaf :: "dict \<Rightarrow> string \<Rightarrow> dict res" where
  "derive_leaf meta body =
     bindE (meta_id meta) (\<lambda>i. bindE (as_str i) (\<lambda>lid.
     bindE (languages_of lid (dget meta ''activation'')) (\<lambda>langs.
     let m1 = dset ''audit_surface'' (VList (map VStr (audit_surface body))) meta;
         m2 = dset ''languages'' langs m1;
         m3 = dset ''dimensions'' (VList (map VStr (dims_for lid))) m2;
         m4 = (case tools_for lid of None \<Rightarrow> m3 | Some t \<Rightarrow> dset ''tools'' t m3)
     in Inr (ordered_meta m4))))"

text \<open>The files the script writes.\<close>

definition derive_v2 :: "(dict \<Rightarrow> string) \<Rightarrow> bool \<Rightarrow> leaf_doc list \<Rightarrow> (string list \<times> string) list res" where
  "derive_v2 yaml apply_it docs =
     bindE (mapE (\<lambda>d. bindE (derive_leaf (d_meta d) (d_body d)) (\<lambda>m. Inr (d_path d, dump_leaf yaml m (d_body d)))) (flat_leaves docs))
       (\<lambda>ws. Inr (if apply_it then ws else []))"

subsection \<open>Dimensions from the classification\<close>

definition py_slice :: "nat \<Rightarrow> pyval \<Rightarrow> pyval res" where
  "py_slice n v = (case v of VList xs \<Rightarrow> Inr (VList (take n xs)) | VStr s \<Rightarrow> Inr (VStr (str_take n s)) | _ \<Rightarrow> Inl TypeError)"

definition batch_entry :: "dict \<Rightarrow> pyval res" where
  "batch_entry m = bindE (meta_id m) (\<lambda>i.
     bindE (py_slice 8 (py_or (dget m ''tags'') (VList []))) (\<lambda>tags.
     bindE (py_slice 4 (py_or (dget m ''audit_surface'') (VList []))) (\<lambda>surface.
     Inr (VDict [(''id'', i), (''focus'', dget_or m ''focus'' (VStr [])), (''tags'', tags), (''audit_surface'', surface),
                 (''baseline'', py_or (dget m ''dimensions'') (VList []))]))))"

definition dims_batches :: "leaf_doc list \<Rightarrow> pyval list list res" where
  "dims_batches docs = bindE (mapE (\<lambda>d. batch_entry (d_meta d)) (flat_leaves docs)) (\<lambda>es. Inr (chunks 60 es))"

definition clean_dims :: "pyval \<Rightarrow> string list" where
  "clean_dims dims = (case dims of
     VList ds \<Rightarrow> foldl (\<lambda>out d. let s = lower (strip (py_str d)) in if s \<in> set dim_set \<and> s \<notin> set out then out @ [s] else out) [] ds
   | _ \<Rightarrow> [])"

text \<open>The answers of all batches, a later one replacing an earlier one.\<close>

definition classification :: "dict list \<Rightarrow> (string \<times> string list) list" where
  "classification answers = foldl (\<lambda>m a. foldl (\<lambda>m (k, v). dset k (clean_dims v) m) m a) [] answers"

definition classify_leaf :: "(string \<times> string list) list \<Rightarrow> dict \<Rightarrow> dict option res" where
  "classify_leaf mapping meta = bindE (meta_id meta) (\<lambda>i.
     if \<not> hashable i then Inl TypeError
     else Inr (case i of
         VStr lid \<Rightarrow> (case map_of mapping lid of
            None \<Rightarrow> None | Some new \<Rightarrow> if new = [] then None else Some (dset ''dimensions'' (VList (map VStr new)) meta))
       | _ \<Rightarrow> None))"

definition apply_dimensions ::
  "(dict \<Rightarrow> string) \<Rightarrow> bool \<Rightarrow> dict list \<Rightarrow> leaf_doc list \<Rightarrow> (string list \<times> string) list res" where
  "apply_dimensions yaml apply_it answers docs =
     bindE (mapE (\<lambda>d. bindE (classify_leaf (classification answers) (d_meta d)) (\<lambda>r.
         Inr (case r of None \<Rightarrow> [] | Some m \<Rightarrow> [(d_path d, dump_leaf yaml (ordered_meta m) (d_body d))]))) (flat_leaves docs))
       (\<lambda>ws. Inr (if apply_it then concat ws else []))"

subsection \<open>Broad globs\<close>

definition broad_globs :: "string list" where
  "broad_globs = [''**/*'', ''*'', ''**'', ''**/**'']"

definition code_glob :: string where
  "code_glob = ''**/*.{py,pyi,ts,tsx,js,jsx,mjs,cjs,go,rs,java,kt,rb,swift,cs,php,cpp,cc,c,h,hpp,scala,ex,exs,erl,clj,dart,lua,r,m,sh,sql}''"

definition is_broad :: "string \<Rightarrow> bool" where
  "is_broad g \<longleftrightarrow> strip g \<in> set broad_globs"

text \<open>The new frontmatter of a leaf with a broad glob; \<open>None\<close> where there is none.\<close>

definition narrow_globs :: "string list \<Rightarrow> string list" where
  "narrow_globs fg = (let kept = filter (\<lambda>g. \<not> is_broad g) fg in if code_glob \<in> set kept then kept else kept @ [code_glob])"

definition fix_leaf :: "dict \<Rightarrow> dict option res" where
  "fix_leaf meta = (case py_or (dget meta ''activation'') (VDict []) of
     VDict act \<Rightarrow>
       bindE (file_globs_of (VDict act)) (\<lambda>fg.
       if \<not> list_ex is_broad fg then Inr None
       else bindE (meta_id meta) (\<lambda>i.
         Inr (Some (dset ''activation'' (VDict (dset ''file_globs'' (VList (map VStr (narrow_globs fg))) act)) meta))))
   | _ \<Rightarrow> Inl AttributeError)"

definition fix_broad_globs :: "(dict \<Rightarrow> string) \<Rightarrow> bool \<Rightarrow> leaf_doc list \<Rightarrow> (string list \<times> string) list res" where
  "fix_broad_globs yaml apply_it docs =
     bindE (mapE (\<lambda>d. bindE (fix_leaf (d_meta d)) (\<lambda>r.
         Inr (case r of None \<Rightarrow> [] | Some m \<Rightarrow> [(d_path d, dump_leaf yaml (ordered_meta m) (d_body d))]))) (flat_leaves docs))
       (\<lambda>ws. Inr (if apply_it then concat ws else []))"

subsection \<open>Reconstruction from the wiki\<close>

definition is_leaf_doc :: "leaf_doc \<Rightarrow> bool" where
  "is_leaf_doc d \<longleftrightarrow> d_path d \<noteq> [] \<and> suffix ''.md'' (last (d_path d)) \<and> last (d_path d) \<noteq> ''index.md''"

text \<open>\<^verbatim>\<open>_leaves\<close>: the last file with an id counts.\<close>

definition docs_by_id :: "leaf_doc list \<Rightarrow> (string \<times> leaf_doc) list" where
  "docs_by_id docs = foldl (\<lambda>m d. case dget (d_meta d) ''id'' of VStr i \<Rightarrow> dset i d m | _ \<Rightarrow> m) [] (filter is_leaf_doc docs)"

definition reconstruct_src :: "(dict \<Rightarrow> string) \<Rightarrow> leaf_doc list \<Rightarrow> (string \<times> string) list" where
  "reconstruct_src yaml wiki =
     map (\<lambda>(i, d). (i @ ''.md'', dump_leaf yaml (ordered_meta (d_meta d)) (d_body d))) (sort_key fst (docs_by_id wiki))"

definition ignored_keys :: "string list" where
  "ignored_keys = [''depth_role'', ''source'', ''parents'']"

definition authored :: "dict \<Rightarrow> dict" where
  "authored meta = filter (\<lambda>(k, v). k \<notin> set ignored_keys) meta"

definition same_leaf :: "leaf_doc \<Rightarrow> leaf_doc \<Rightarrow> bool" where
  "same_leaf a b \<longleftrightarrow> strip (d_body a) = strip (d_body b) \<and> py_eq (VDict (authored (d_meta a))) (VDict (authored (d_meta b)))"

definition roundtrip_diff :: "leaf_doc list \<Rightarrow> leaf_doc list \<Rightarrow> bool" where
  "roundtrip_diff wiki other = (let a = docs_by_id wiki; b = docs_by_id other in
     set (dkeys a) = set (dkeys b)
     \<and> list_all (\<lambda>(i, d). case map_of b i of None \<Rightarrow> True | Some e \<Rightarrow> same_leaf d e) a)"

subsection \<open>Order of keys\<close>

lemma key_order_facts: "distinct key_order" "set key_order \<inter> set generated_keys = {}"
  by (simp_all add: key_order_def generated_keys_def)

lemma map_of_select: "map_of (map (\<lambda>k. (k, f k)) ks) k = (if k \<in> set ks then Some (f k) else None)"
  by (induction ks) auto

lemma map_of_ordered: "map_of (ordered_meta d) k = (if k \<in> set generated_keys then None else map_of d k)"
proof -
  have rest: "map_of (filter (\<lambda>(k, v). k \<notin> set key_order \<and> k \<notin> set generated_keys) d) k
      = (if k \<in> set key_order \<or> k \<in> set generated_keys then None else map_of d k)"
    by (induction d) auto
  have "map_of d k = Some (dget d k)" if "k \<in> set (dkeys d)"
    using that by (cases "map_of d k") (auto simp: dget_def dget_or_def map_of_eq_None_iff)
  moreover have "map_of d k = None" if "k \<notin> set (dkeys d)" using that by (simp add: map_of_eq_None_iff)
  ultimately show ?thesis
    using key_order_facts(2) unfolding ordered_meta_def map_of_append map_add_def rest map_of_select
    by (auto split: option.split)
qed

lemma dget_ordered: "k \<notin> set generated_keys \<Longrightarrow> dget (ordered_meta d) k = dget d k"
  by (simp add: dget_def dget_or_def map_of_ordered)

lemma dkeys_ordered: "map fst (ordered_meta d) = filter (\<lambda>k. k \<in> set (dkeys d)) key_order
    @ filter (\<lambda>k. k \<notin> set key_order \<and> k \<notin> set generated_keys) (dkeys d)"
proof -
  have "map fst (filter (\<lambda>(k, v). k \<notin> set key_order \<and> k \<notin> set generated_keys) d)
      = filter (\<lambda>k. k \<notin> set key_order \<and> k \<notin> set generated_keys) (dkeys d)"
    by (induction d) auto
  then show ?thesis by (simp add: ordered_meta_def comp_def)
qed

lemma distinct_ordered: "distinct (dkeys d) \<Longrightarrow> distinct (dkeys (ordered_meta d))"
  using key_order_facts(1) by (auto simp: dkeys_ordered)

lemma keys_ordered: "k \<in> set (dkeys (ordered_meta d)) \<longleftrightarrow> k \<in> set (dkeys d) \<and> k \<notin> set generated_keys"
  using key_order_facts(2) by (auto simp: dkeys_ordered)

lemma ordered_ordered: "ordered_meta (ordered_meta d) = ordered_meta d"
proof -
  let ?first = "map (\<lambda>k. (k, dget d k)) (filter (\<lambda>k. k \<in> set (dkeys d)) key_order)"
  let ?rest = "\<lambda>d. filter (\<lambda>(k, v). k \<notin> set key_order \<and> k \<notin> set generated_keys) d"
  have e: "ordered_meta d = ?first @ ?rest d" by (simp add: ordered_meta_def)
  have "?rest ?first = []" by (auto simp: filter_empty_conv)
  moreover have "?rest (?rest d) = ?rest d" by simp
  ultimately have rest: "?rest (ordered_meta d) = ?rest d" unfolding e filter_append by simp
  have no_gen: "k \<notin> set generated_keys" if "k \<in> set key_order" for k using that key_order_facts(2) by auto
  then have "filter (\<lambda>k. k \<in> set (dkeys (ordered_meta d))) key_order = filter (\<lambda>k. k \<in> set (dkeys d)) key_order"
    by (intro filter_cong refl) (simp add: keys_ordered del: set_map)
  moreover have "dget (ordered_meta d) k = dget d k" if "k \<in> set key_order" for k
    using no_gen [OF that] by (rule dget_ordered)
  ultimately have first: "map (\<lambda>k. (k, dget (ordered_meta d) k)) (filter (\<lambda>k. k \<in> set (dkeys (ordered_meta d))) key_order) = ?first"
    by simp
  have "ordered_meta (ordered_meta d) = ?first @ ?rest d"
    unfolding ordered_meta_def [of "ordered_meta d"] first rest ..
  then show ?thesis unfolding e .
qed

lemma dset_same: "map_of d k = Some v \<Longrightarrow> dset k v d = d"
  by (rule update_triv)

subsection \<open>Derived fields\<close>

lemma prefix_dims_valid: "list_all (\<lambda>(_, ds). list_all (\<lambda>d. d \<in> set dim_set) ds \<and> ds \<noteq> []) prefix_dims"
  by code_simp

lemma dims_in_set: "set (dims_for lid) \<subseteq> set dim_set \<and> dims_for lid \<noteq> []"
proof (cases "map_of prefix_dims (id_prefix lid)")
  case None
  then show ?thesis by (simp add: dims_for_def dim_set_def)
next
  case (Some ds)
  from map_of_SomeD [OF this] prefix_dims_valid have "list_all (\<lambda>d. d \<in> set dim_set) ds \<and> ds \<noteq> []"
    unfolding list_all_iff [of _ prefix_dims] by blast
  then show ?thesis using Some by (auto simp: dims_for_def list_all_iff)
qed

lemma tools_by_prefix_valid: "list_all (\<lambda>(_, ts). list_all (\<lambda>(n, p). n \<noteq> [] \<and> p \<noteq> []) ts) tools_by_prefix"
  by code_simp

lemma tools_valid:
  assumes "tools_for lid = Some t"
  shows "is_tool_array t"
proof -
  from assms obtain k ts where "List.find (\<lambda>(k, _). lid = k \<or> prefix (k @ ''-'') lid) tools_by_prefix = Some (k, ts)"
      and t: "t = VList (map (\<lambda>(n, p). VDict [(''name'', VStr n), (''purpose'', VStr p)]) ts)"
    unfolding tools_for_def map_option_eq_Some by (metis (lifting) case_prod_conv prod.exhaust)
  then have "(k, ts) \<in> set tools_by_prefix" unfolding find_Some_iff by (metis nth_mem)
  with tools_by_prefix_valid have "list_all (\<lambda>(n, p). n \<noteq> [] \<and> p \<noteq> []) ts"
    unfolding list_all_iff [of _ tools_by_prefix] by blast
  then show ?thesis
    unfolding t by (induction ts) (auto simp: is_tool_array_def is_tool_entry_def nonempty_str_def is_str_def)
qed

lemma languages_valid:
  assumes "languages_of lid a = Inr v"
  shows "v = VStr ''all'' \<or> (\<exists>ls. ls \<noteq> [] \<and> v = VList (map VStr ls))"
proof (cases "prefix ''lang-'' lid")
  case True
  with assms have "v = VList (map VStr [drop 5 lid])" by (simp add: languages_of_def)
  then show ?thesis by blast
next
  case False
  with assms show ?thesis by (auto simp: languages_of_def res_simps Let_def split: if_splits)
qed

lemma strs_array: "is_string_array (VList (map VStr xs))"
  by (auto simp: is_string_array_def list_all_iff is_str_def)

text \<open>What \<open>derive_leaf\<close> returns, as a function of what it reads.\<close>

lemma derive_leaf_cases:
  assumes "derive_leaf meta body = Inr m"
  obtains lid langs where "map_of meta ''id'' = Some (VStr lid)" "languages_of lid (dget meta ''activation'') = Inr langs"
    "m = ordered_meta (case tools_for lid of None \<Rightarrow> (dset ''dimensions'' (VList (map VStr (dims_for lid))) (dset ''languages'' langs
           (dset ''audit_surface'' (VList (map VStr (audit_surface body))) meta)))
         | Some t \<Rightarrow> dset ''tools'' t (dset ''dimensions'' (VList (map VStr (dims_for lid))) (dset ''languages'' langs
           (dset ''audit_surface'' (VList (map VStr (audit_surface body))) meta))))"
  using assms
  by (auto simp: derive_leaf_def res_simps meta_id_def as_str_def Let_def split: option.splits pyval.splits)

definition derived_keys :: "string list" where
  "derived_keys = [''audit_surface'', ''languages'', ''dimensions'', ''tools'']"

lemma derived_plain: "k \<in> set derived_keys \<Longrightarrow> k \<notin> set generated_keys" "''id'' \<notin> set derived_keys" "''activation'' \<notin> set derived_keys"
  "''id'' \<notin> set generated_keys" "''activation'' \<notin> set generated_keys"
  by (auto simp: derived_keys_def generated_keys_def)

text \<open>The lookups of the result.\<close>

lemma derived_lookup:
  assumes "m = ordered_meta (case t of None \<Rightarrow> (dset ''dimensions'' ds (dset ''languages'' ls (dset ''audit_surface'' as meta)))
         | Some ts \<Rightarrow> dset ''tools'' ts (dset ''dimensions'' ds (dset ''languages'' ls (dset ''audit_surface'' as meta))))"
  shows "map_of m ''audit_surface'' = Some as" "map_of m ''languages'' = Some ls" "map_of m ''dimensions'' = Some ds"
    "map_of m ''tools'' = (case t of None \<Rightarrow> map_of meta ''tools'' | Some ts \<Rightarrow> Some ts)"
    "k \<notin> set derived_keys \<Longrightarrow> map_of m k = (if k \<in> set generated_keys then None else map_of meta k)"
  unfolding assms map_of_ordered by (auto simp: generated_keys_def derived_keys_def split: option.split)

text \<open>
  A derived leaf is well formed: whatever frontmatter and body a leaf has, deriving its fields gives
  it dimensions from the closed set, at least one, an audit surface and languages in the shape that
  the activation handler accepts, and tools in that shape where the table has any; it keeps every
  other authored field as it was, drops the generated ones, and deriving once more changes nothing.
\<close>

theorem derived_leaf_conforms:
  assumes "derive_leaf meta body = Inr m"
  shows "(\<exists>ds. dget m ''dimensions'' = VList (map VStr ds) \<and> ds \<noteq> [] \<and> set ds \<subseteq> set dim_set)
    \<and> (\<forall>f\<in>{''dimensions'', ''audit_surface'', ''languages''}. dget m f \<noteq> VNone \<and> validate_v2_field f (dget m f) = dget m f)
    \<and> (dget m ''tools'' = dget meta ''tools'' \<or> validate_v2_field ''tools'' (dget m ''tools'') = dget m ''tools'')
    \<and> (\<forall>k. k \<notin> set derived_keys \<longrightarrow> map_of m k = (if k \<in> set generated_keys then None else map_of meta k))
    \<and> derive_leaf m body = Inr m"
proof -
  obtain lid langs where i: "map_of meta ''id'' = Some (VStr lid)" and l: "languages_of lid (dget meta ''activation'') = Inr langs"
    and m: "m = ordered_meta (case tools_for lid of None \<Rightarrow> (dset ''dimensions'' (VList (map VStr (dims_for lid))) (dset ''languages'' langs
           (dset ''audit_surface'' (VList (map VStr (audit_surface body))) meta)))
         | Some t \<Rightarrow> dset ''tools'' t (dset ''dimensions'' (VList (map VStr (dims_for lid))) (dset ''languages'' langs
           (dset ''audit_surface'' (VList (map VStr (audit_surface body))) meta))))"
    by (rule derive_leaf_cases [OF assms])
  note look = derived_lookup [OF m]
  have g: "dget m ''audit_surface'' = VList (map VStr (audit_surface body))" "dget m ''languages'' = langs"
      "dget m ''dimensions'' = VList (map VStr (dims_for lid))"
    by (simp_all add: dget_def dget_or_def look)
  have other: "map_of m ''id'' = Some (VStr lid)" "dget m ''activation'' = dget meta ''activation''"
    using look(5) [OF derived_plain(2)] look(5) [OF derived_plain(3)] i derived_plain(4,5) by (simp_all add: dget_def dget_or_def)
  have tools: "dget m ''tools'' = dget meta ''tools'' \<or> validate_v2_field ''tools'' (dget m ''tools'') = dget m ''tools''"
  proof (cases "tools_for lid")
    case None
    then show ?thesis using look(4) by (simp add: dget_def dget_or_def)
  next
    case (Some t)
    then have "dget m ''tools'' = t" using look(4) by (simp add: dget_def dget_or_def)
    then show ?thesis using tools_valid [OF Some] by (simp add: validate_v2_field_def)
  qed
  have ord: "ordered_meta m = m" unfolding m by (rule ordered_ordered)
  have again: "derive_leaf m body = Inr m"
    by (cases "tools_for lid") (simp_all add: derive_leaf_def meta_id_def as_str_def other l Let_def dset_same look ord)
  have "validate_v2_field ''languages'' langs = langs" "langs \<noteq> VNone"
    using languages_valid [OF l] by (auto simp: validate_v2_field_def strs_array ensure_list_def)
  moreover have "validate_v2_field f (VList (map VStr xs)) = VList (map VStr xs)" if "f \<in> {''dimensions'', ''audit_surface''}" for f xs
    using that by (auto simp: validate_v2_field_def strs_array)
  ultimately have fields: "\<forall>f\<in>{''dimensions'', ''audit_surface'', ''languages''}. dget m f \<noteq> VNone \<and> validate_v2_field f (dget m f) = dget m f"
    by (simp add: g)
  show ?thesis using dims_in_set g(3) fields tools look(5) again by blast
qed

theorem derived_leaf_conforms_witness:
  "\<exists>m. derive_leaf [(''id'', VStr ''db-index''), (''source'', VNone)] (''## Audit Surface'' @ [newline] @ ''- [x] keys'') = Inr m
     \<and> derive_leaf m (''## Audit Surface'' @ [newline] @ ''- [x] keys'') = Inr m"
proof -
  have "case derive_leaf [(''id'', VStr ''db-index''), (''source'', VNone)] (''## Audit Surface'' @ [newline] @ ''- [x] keys'') of
      Inr m \<Rightarrow> True | _ \<Rightarrow> False" by code_simp
  then obtain m where m: "derive_leaf [(''id'', VStr ''db-index''), (''source'', VNone)] (''## Audit Surface'' @ [newline] @ ''- [x] keys'') = Inr m"
    by (auto split: sum.splits)
  from derived_leaf_conforms [OF m] m show ?thesis by blast
qed

subsection \<open>Reconstruction\<close>

text \<open>The entries of \<^verbatim>\<open>_leaves\<close> before later files replace earlier ones.\<close>

definition id_entry :: "leaf_doc \<Rightarrow> (string \<times> leaf_doc) option" where
  "id_entry d = (if is_leaf_doc d then (case dget (d_meta d) ''id'' of VStr i \<Rightarrow> Some (i, d) | _ \<Rightarrow> None) else None)"

lemma docs_by_id_dmerge: "docs_by_id docs = dmerge [] (List.map_filter id_entry docs)"
proof -
  have "foldl (\<lambda>m d. case dget (d_meta d) ''id'' of VStr i \<Rightarrow> dset i d m | _ \<Rightarrow> m) m (filter is_leaf_doc docs)
      = foldl (\<lambda>m (i, d). dset i d m) m (List.map_filter id_entry docs)" for m
    by (induction docs arbitrary: m) (auto simp: List.map_filter_simps id_entry_def split: pyval.splits)
  then show ?thesis by (simp add: docs_by_id_def dmerge_def)
qed

lemma distinct_docs_by_id: "distinct (dkeys (docs_by_id docs))"
  unfolding docs_by_id_dmerge by (rule dkeys_dmerge(1)) simp

lemma keys_docs_by_id: "set (dkeys (docs_by_id docs)) = fst ` set (List.map_filter id_entry docs)"
  unfolding docs_by_id_dmerge using dkeys_dmerge(2) [of "[]"] by simp

lemma map_of_dmerge_in: "map_of (dmerge a kvs) k = Some v \<Longrightarrow> map_of a k = Some v \<or> (k, v) \<in> set kvs"
proof (induction kvs arbitrary: a)
  case (Cons kv kvs)
  obtain k' v' where kv: "kv = (k', v')" by (cases kv)
  have "dmerge a (kv # kvs) = dmerge (dset k' v' a) kvs" by (simp add: dmerge_def kv)
  with Cons.prems Cons.IH [of "dset k' v' a"] show ?case by (auto simp: kv split: if_splits)
qed (simp add: dmerge_def)

lemma docs_by_id_in:
  assumes "map_of (docs_by_id docs) i = Some d"
  shows "d \<in> set docs \<and> is_leaf_doc d \<and> dget (d_meta d) ''id'' = VStr i"
  using map_of_dmerge_in [OF assms [unfolded docs_by_id_dmerge]]
  by (auto simp: List.map_filter_def id_entry_def split: pyval.splits if_splits)

lemma py_eq_dict_iff: "py_eq_dict d e \<longleftrightarrow> (\<forall>(k, v)\<in>set d. \<exists>w. map_of e k = Some w \<and> py_eq v w)"
  by (induction d) (auto split: option.splits)

lemma map_of_authored: "map_of (authored d) k = (if k \<in> set ignored_keys then None else map_of d k)"
  by (induction d) (auto simp: authored_def)

lemma keys_authored: "set (dkeys (authored d)) = set (dkeys d) - set ignored_keys" "distinct (dkeys d) \<Longrightarrow> distinct (dkeys (authored d))"
  by (auto simp: authored_def intro: distinct_dkeys_filter)

lemma authored_ordered:
  assumes "distinct (dkeys m)" "py_eq (VDict m) (VDict m)"
  shows "py_eq (VDict (authored m)) (VDict (authored (ordered_meta m)))"
proof -
  have "set (dkeys (authored m)) = set (dkeys (authored (ordered_meta m)))"
    unfolding keys_authored using keys_ordered by (auto simp: ignored_keys_def generated_keys_def simp del: set_map)
  then have "length (authored m) = length (authored (ordered_meta m))"
    using keys_authored(2) distinct_ordered assms(1) by (metis distinct_card length_map)
  moreover have "\<exists>w. map_of (authored (ordered_meta m)) k = Some w \<and> py_eq v w" if "(k, v) \<in> set (authored m)" for k v
  proof -
    from that have kv: "(k, v) \<in> set m" "k \<notin> set ignored_keys" by (auto simp: authored_def)
    then have "map_of m k = Some v" using assms(1) by simp
    moreover from this have "py_eq v v" using assms(2) kv(1) by (auto simp: py_eq_dict_iff)
    moreover have "k \<notin> set generated_keys" using kv(2) by (auto simp: ignored_keys_def generated_keys_def)
    ultimately show ?thesis using kv(2) by (simp add: map_of_authored map_of_ordered)
  qed
  ultimately show ?thesis by (auto simp: py_eq_dict_iff)
qed

lemma dropWhile_rev_dropWhile:
  "t = [] \<or> \<not> P (hd t) \<Longrightarrow> dropWhile P (rev (dropWhile P (rev t))) = rev (dropWhile P (rev t))"
proof -
  assume t: "t = [] \<or> \<not> P (hd t)"
  have "rev t = takeWhile P (rev t) @ dropWhile P (rev t)" by simp
  then have "t = rev (dropWhile P (rev t)) @ rev (takeWhile P (rev t))" by (metis rev_append rev_rev_ident)
  then obtain u where u: "t = rev (dropWhile P (rev t)) @ u" by blast
  show ?thesis
  proof (cases "rev (dropWhile P (rev t))")
    case (Cons x xs)
    then have "t = x # xs @ u" using u by simp
    with t have "\<not> P x" by simp
    then show ?thesis unfolding Cons by simp
  next
    case Nil
    then show ?thesis unfolding Nil by simp
  qed
qed

lemma strip_strip: "strip (strip s) = strip s"
proof -
  let ?t = "dropWhile is_space s"
  have "?t = [] \<or> \<not> is_space (hd ?t)" using hd_dropWhile by blast
  from dropWhile_rev_dropWhile [of ?t is_space, OF this] show ?thesis
    by (simp add: strip_def lstrip_def rstrip_def dropWhile_idem)
qed

text \<open>The documents that reading the written files gives; \<open>load\<close> is \<^verbatim>\<open>frontmatter.load\<close>.\<close>

definition loaded :: "(string \<Rightarrow> dict \<times> string) \<Rightarrow> string \<times> string \<Rightarrow> leaf_doc" where
  "loaded load f = \<lparr>d_path = [fst f], d_meta = fst (load (snd f)), d_body = snd (load (snd f))\<rparr>"

text \<open>
  \<^verbatim>\<open>python-frontmatter\<close> on a text that begins with a block of YAML between two lines of three hyphens: the
  metadata is the parsed block, the content is the rest, stripped. The block is text that ends its last line
  and has no line that begins with three hyphens.
\<close>

definition yaml_block :: "string \<Rightarrow> bool" where
  "yaml_block fm \<longleftrightarrow> suffix [newline] fm \<and> \<not> is_space (hd fm) \<and> \<not> prefix ''---'' fm \<and> \<not> contains (newline # ''---'') fm"

definition reads_frontmatter :: "(string \<Rightarrow> dict \<times> string) \<Rightarrow> (string \<Rightarrow> dict) \<Rightarrow> bool" where
  "reads_frontmatter load parse \<longleftrightarrow> (\<forall>fm b. yaml_block fm \<longrightarrow>
     load (''---'' @ [newline] @ fm @ ''---'' @ [newline] @ b) = (parse fm, strip b))"

lemma is_space_newline: "is_space newline"
  by code_simp

lemma strip_leading_newlines: "strip (dropWhile (\<lambda>c. c = newline) body) = strip body" "strip (newline # body) = strip body"
proof -
  have "dropWhile is_space (dropWhile (\<lambda>c. c = newline) body) = dropWhile is_space body"
    by (induction body) (auto simp: is_space_newline)
  then show "strip (dropWhile (\<lambda>c. c = newline) body) = strip body" by (simp add: strip_def lstrip_def)
  show "strip (newline # body) = strip body" by (simp add: strip_def lstrip_def is_space_newline)
qed

lemma load_dump:
  assumes "reads_frontmatter load parse" "yaml_block (yaml meta)" "parse (yaml meta) = meta"
  shows "load (dump_leaf yaml meta body) = (meta, strip body)"
proof -
  have "dump_leaf yaml meta body = ''---'' @ [newline] @ yaml meta @ ''---'' @ [newline] @ (newline # dropWhile (\<lambda>c. c = newline) body)"
    by (simp add: dump_leaf_def)
  then show ?thesis using assms strip_leading_newlines by (simp add: reads_frontmatter_def)
qed

text \<open>
  C32: the reconstruction is lossless: the files that are written for the leaves of a wiki, read
  again in whatever order the directory lists them, pass the check against the wiki: the same ids, the
  same bodies and the same authored fields. Asked of the two libraries is what they document: \<^verbatim>\<open>frontmatter.load\<close>
  splits a text at the lines of hyphens, parses the block between them and strips the rest, and
  parsing what \<^verbatim>\<open>yaml.safe_dump\<close> prints of a leaf's fields gives these fields back. No value of a leaf differs
  from itself and no leaf is called index. Bodies are compared stripped, not byte for byte, as the
  docstring has it.
\<close>

theorem reconstruction_is_lossless:
  assumes "reads_frontmatter load parse"
    and "\<forall>d\<in>set wiki. distinct (dkeys (d_meta d)) \<and> py_eq (VDict (d_meta d)) (VDict (d_meta d))
      \<and> dget (d_meta d) ''id'' \<noteq> VStr ''index''
      \<and> yaml_block (yaml (ordered_meta (d_meta d))) \<and> parse (yaml (ordered_meta (d_meta d))) = ordered_meta (d_meta d)"
    and "mset other = mset (map (loaded load) (reconstruct_src yaml wiki))"
  shows "roundtrip_diff wiki other"
proof -
  let ?src = "\<lambda>i d. \<lparr>d_path = [i @ ''.md''], d_meta = ordered_meta (d_meta d), d_body = strip (d_body d)\<rparr>"
  have read: "load (dump_leaf yaml (ordered_meta (d_meta d)) (d_body d)) = (ordered_meta (d_meta d), strip (d_body d))"
    if "d \<in> set wiki" for d
    using assms(2) that by (intro load_dump [OF assms(1)]) auto
  have out: "x \<in> set other \<longleftrightarrow> (\<exists>i d. map_of (docs_by_id wiki) i = Some d \<and> x = ?src i d)" for x
  proof -
    have "set other = set (map (loaded load) (reconstruct_src yaml wiki))" using assms(3) by (metis set_mset_mset)
    then have "x \<in> set other \<longleftrightarrow> (\<exists>(i, d)\<in>set (docs_by_id wiki). x = loaded load (i @ ''.md'', dump_leaf yaml (ordered_meta (d_meta d)) (d_body d)))"
      by (simp add: reconstruct_src_def image_iff split_beta Bex_def)
    also have "\<dots> \<longleftrightarrow> (\<exists>i d. map_of (docs_by_id wiki) i = Some d \<and> x = loaded load (i @ ''.md'', dump_leaf yaml (ordered_meta (d_meta d)) (d_body d)))"
      using distinct_docs_by_id by auto
    also have "\<dots> \<longleftrightarrow> (\<exists>i d. map_of (docs_by_id wiki) i = Some d \<and> x = ?src i d)"
      using docs_by_id_in read by (fastforce simp: loaded_def)
    finally show ?thesis .
  qed
  have entry: "id_entry (?src i d) = Some (i, ?src i d)" if "map_of (docs_by_id wiki) i = Some d" for i d
  proof -
    from docs_by_id_in [OF that] assms(2) have "dget (d_meta d) ''id'' = VStr i" "i \<noteq> ''index''" by auto
    moreover have "i @ ''.md'' \<noteq> ''index.md''" using \<open>i \<noteq> ''index''\<close> append_eq_append_conv [of "''.md''" "''.md''" i "''index''"] by auto
    ultimately show ?thesis
      using suffixI [of "i @ ''.md''" i "''.md''"] by (simp add: id_entry_def is_leaf_doc_def dget_ordered generated_keys_def)
  qed
  have entries: "set (List.map_filter id_entry other) = {(i, ?src i d) |i d. map_of (docs_by_id wiki) i = Some d}"
    by (auto simp: List.map_filter_def out entry image_iff) (metis entry option.sel option.simps(3))+
  have keys: "set (dkeys (docs_by_id wiki)) = set (dkeys (docs_by_id other))"
  proof (rule set_eqI)
    fix i
    have "i \<in> set (dkeys (docs_by_id wiki)) \<longleftrightarrow> (\<exists>d. map_of (docs_by_id wiki) i = Some d)"
      using map_of_eq_None_iff [of "docs_by_id wiki" i] by (cases "map_of (docs_by_id wiki) i") simp_all
    also have "\<dots> \<longleftrightarrow> i \<in> fst ` {(i, ?src i d) |i d. map_of (docs_by_id wiki) i = Some d}" by (auto simp: image_iff)
    finally show "i \<in> set (dkeys (docs_by_id wiki)) \<longleftrightarrow> i \<in> set (dkeys (docs_by_id other))"
      unfolding keys_docs_by_id [of other] entries .
  qed
  have "same_leaf d e" if "map_of (docs_by_id wiki) i = Some d" "map_of (docs_by_id other) i = Some e" for i d e
  proof -
    from that(2) have "(i, e) \<in> set (List.map_filter id_entry other)"
      using map_of_dmerge_in [of "[]" _ i e] by (auto simp: docs_by_id_dmerge)
    with that(1) have e: "e = ?src i d" by (auto simp: entries)
    from docs_by_id_in [OF that(1)] assms(2) have "distinct (dkeys (d_meta d))" "py_eq (VDict (d_meta d)) (VDict (d_meta d))" by auto
    from authored_ordered [OF this] show ?thesis by (simp add: same_leaf_def e strip_strip del: py_eq.simps)
  qed
  then show ?thesis
    using keys distinct_docs_by_id [of wiki] by (auto simp: roundtrip_diff_def list_all_iff Let_def split: option.split)
qed

text \<open>JSON on one line is YAML; the reader cuts the text at the first line of hyphens after the one it begins with.\<close>

definition json_yaml :: "dict \<Rightarrow> string" where
  "json_yaml m = json_compact (VDict m) @ [newline]"

definition parse_json_yaml :: "string \<Rightarrow> dict" where
  "parse_json_yaml fm = (case json_loads fm of Some (VDict d) \<Rightarrow> d | _ \<Rightarrow> [])"

fun until_mark :: "string \<Rightarrow> string \<times> string" where
  "until_mark [] = ([], [])"
| "until_mark (c # cs) =
     (if prefix (newline # ''---'' @ [newline]) (c # cs) then ([newline], drop 4 cs)
      else (let (fm, b) = until_mark cs in (c # fm, b)))"

definition load_front :: "string \<Rightarrow> dict \<times> string" where
  "load_front t = (let (fm, b) = until_mark (drop 4 t) in (parse_json_yaml fm, strip b))"

lemma until_mark_block:
  assumes "suffix [newline] fm" "\<not> contains (newline # ''---'') fm"
  shows "until_mark (fm @ ''---'' @ [newline] @ b) = (fm, b)"
  using assms
proof (induction fm)
  case (Cons c cs)
  show ?case
  proof (cases "cs = []")
    case True
    then show ?thesis using Cons.prems(1) by (simp add: suffix_def)
  next
    case False
    then have cs: "suffix [newline] cs" "\<not> contains (newline # ''---'') cs" "\<not> (c = newline \<and> prefix ''---'' cs)"
      using Cons.prems by (auto simp: suffix_Cons)
    have "\<not> prefix (newline # ''---'' @ [newline]) (c # cs @ ''---'' @ [newline] @ b)"
    proof
      assume "prefix (newline # ''---'' @ [newline]) (c # cs @ ''---'' @ [newline] @ b)"
      then have c: "c = newline" "prefix ''---'' (cs @ ''---'' @ [newline] @ b)"
        by (auto simp: prefix_def)
      obtain x xs where x: "cs = x # xs" using False by (cases cs) auto
      then have "x = CHR ''-''" "xs \<noteq> []" using c(2) cs(1) by (auto simp: suffix_def)
      then obtain y ys where y: "xs = y # ys" by (cases xs) auto
      then have "y = CHR ''-''" "ys \<noteq> []" using c(2) cs(1) x by (auto simp: suffix_def)
      then show False using c cs(3) x y \<open>x = _\<close> by (cases ys) auto
    qed
    then show ?thesis
      using Cons.IH [OF cs(1,2)] unfolding append_Cons until_mark.simps(2) by (simp only: if_False Let_def prod.case append_Cons)
  qed
qed (simp add: suffix_def)

lemma load_front_reads: "reads_frontmatter load_front parse_json_yaml"
  using until_mark_block by (simp add: reads_frontmatter_def load_front_def yaml_block_def)

definition two_leaves :: "leaf_doc list" where
  "two_leaves = [\<lparr>d_path = [''a'', ''one.md''],
        d_meta = [(''source'', VStr ''s''), (''weight'', VInt 2), (''tags'', VList [VStr ''t'']), (''id'', VStr ''one'')],
        d_body = [newline] @ '' first'' @ [newline] @ ''---'' @ [newline] @ ''more''\<rparr>,
     \<lparr>d_path = [''b'', ''two.md''], d_meta = [(''id'', VStr ''two'')], d_body = ''second''\<rparr>]"

theorem reconstruction_is_lossless_witness:
  "roundtrip_diff two_leaves (rev (map (loaded load_front) (reconstruct_src json_yaml two_leaves)))"
proof (rule reconstruction_is_lossless [OF load_front_reads])
  have "list_all (\<lambda>d. distinct (dkeys (d_meta d)) \<and> py_eq (VDict (d_meta d)) (VDict (d_meta d)) \<and> dget (d_meta d) ''id'' \<noteq> VStr ''index''
      \<and> yaml_block (json_yaml (ordered_meta (d_meta d)))
      \<and> parse_json_yaml (json_yaml (ordered_meta (d_meta d))) = ordered_meta (d_meta d)) two_leaves"
    by code_simp
  then show "\<forall>d\<in>set two_leaves. distinct (dkeys (d_meta d)) \<and> py_eq (VDict (d_meta d)) (VDict (d_meta d))
      \<and> dget (d_meta d) ''id'' \<noteq> VStr ''index''
      \<and> yaml_block (json_yaml (ordered_meta (d_meta d)))
      \<and> parse_json_yaml (json_yaml (ordered_meta (d_meta d))) = ordered_meta (d_meta d)"
    unfolding list_all_iff .
qed simp

subsection \<open>Edits\<close>

lemma clean_dims_valid: "set (clean_dims v) \<subseteq> set dim_set \<and> distinct (clean_dims v)"
proof -
  let ?f = "\<lambda>out d. let s = lower (strip (py_str d)) in if s \<in> set dim_set \<and> s \<notin> set out then out @ [s] else out"
  have "set (foldl ?f out ds) \<subseteq> set dim_set \<and> distinct (foldl ?f out ds)" if "set out \<subseteq> set dim_set \<and> distinct out" for out ds
    using that
  proof (induction ds arbitrary: out)
    case (Cons d ds)
    have "set (?f out d) \<subseteq> set dim_set \<and> distinct (?f out d)" using Cons.prems by (auto simp: Let_def)
    from Cons.IH [OF this] show ?case by simp
  qed simp
  then show ?thesis by (auto simp: clean_dims_def split: pyval.split)
qed

lemma code_glob_narrow: "\<not> is_broad code_glob"
  by code_simp

lemma narrow_globs_narrow: "\<not> list_ex is_broad (narrow_globs fg) \<and> code_glob \<in> set (narrow_globs fg)"
  using code_glob_narrow by (auto simp: narrow_globs_def list_ex_iff Let_def)

text \<open>A fixed leaf is not fixed again, and keeps its specific globs.\<close>

lemma mapE_as_str: "mapE as_str (map VStr gs) = Inr gs"
  by (induction gs) (simp_all add: as_str_def)

lemma fix_leaf_once:
  assumes "fix_leaf meta = Inr (Some m)"
  shows "fix_leaf m = Inr None"
proof -
  from assms obtain act fg where m: "m = dset ''activation'' (VDict (dset ''file_globs'' (VList (map VStr (narrow_globs fg))) act)) meta"
    by (auto simp: fix_leaf_def res_simps split: pyval.splits if_splits)
  have ne: "dset ''file_globs'' v act \<noteq> []" for v using map_of_dset [of "''file_globs''" v act "''file_globs''"] by force
  have "narrow_globs fg \<noteq> []" using narrow_globs_narrow [of fg] by force
  then have "file_globs_of (VDict (dset ''file_globs'' (VList (map VStr (narrow_globs fg))) act)) = Inr (narrow_globs fg)"
    using ne by (simp add: file_globs_of_def py_or_def mapE_as_str)
  then show ?thesis using narrow_globs_narrow [of fg] ne by (simp add: fix_leaf_def m py_or_def)
qed

end
