(* ===== verification/Layout.thy ===== *)
theory Layout
  imports Authoring
begin

section \<open>The layout of the reviewer wiki\<close>

text \<open>
  \<^verbatim>\<open>validate_layout.py\<close>, the check of a tree of leaves against the layout contract, \<^verbatim>\<open>shard_src.py\<close>, which
  moves the leaves into a folder for each id prefix, and \<^verbatim>\<open>check_wiki_drift.py\<close>, the comparison of the
  committed wiki with a rebuild. The layout file is read into records; the rebuild, the listing of
  directories and the reader of frontmatter are arguments. Leaf ids are ASCII.
\<close>

subsection \<open>Pins\<close>

type_synonym pin_rule = "(string \<times> string) list"

record category =
  cat_id :: string
  cat_pins :: "pin_rule list"

record finding =
  f_code :: string
  f_target :: string
  f_message :: string

definition pin_matchers :: "string list" where
  "pin_matchers = [''id'', ''id_prefix'', ''id_glob'']"

definition check_pin :: "string \<Rightarrow> nat \<Rightarrow> pin_rule \<Rightarrow> finding list" where
  "check_pin cat j rule =
     (let present = filter (\<lambda>k. k \<in> set (dkeys rule)) pin_matchers; tgt = cat @ '' pin['' @ show_nat j @ '']'' in
      if present = [] then [\<lparr>f_code = ''LAYOUT-CONFIG'', f_target = tgt, f_message = ''needs one of id / id_prefix / id_glob''\<rparr>]
      else if 1 < length present
      then [\<lparr>f_code = ''LAYOUT-CONFIG'', f_target = tgt, f_message = ''has '' @ show_nat (length present) @ '' matchers ('' @
             join '', '' present @ ''); use exactly one''\<rparr>]
      else [])"

definition check_pins :: "category list \<Rightarrow> finding list" where
  "check_pins taxonomy = concat (map (\<lambda>c. concat (map (\<lambda>(j, r). check_pin (cat_id c) j r) (enumerate 0 (cat_pins c)))) taxonomy)"

text \<open>
  \<^verbatim>\<open>fnmatch.fnmatch\<close>: a star, a question mark, and a set in brackets with ranges, negated by an exclamation
  mark; a bracket that is not closed stands for itself. The first character of a set is a member
  even if it is the closing bracket.
\<close>

fun set_ranges :: "string \<Rightarrow> (char \<times> char) list" where
  "set_ranges (c # h # d # cs) =
     (if h = CHR ''-'' then (c, d) # set_ranges cs else (c, c) # set_ranges (h # d # cs))"
| "set_ranges (c # cs) = (c, c) # set_ranges cs"
| "set_ranges [] = []"

definition in_ranges :: "char \<Rightarrow> (char \<times> char) list \<Rightarrow> bool" where
  "in_ranges x rs \<longleftrightarrow> list_ex (\<lambda>(a, b). a \<le> x \<and> x \<le> b) rs"

text \<open>The members of a set and what follows it, after the opening bracket.\<close>

definition split_set :: "string \<Rightarrow> (bool \<times> string \<times> string) option" where
  "split_set p =
     (let (neg, q) = (case p of c # cs \<Rightarrow> if c = CHR ''!'' then (True, cs) else (False, p) | [] \<Rightarrow> (False, []));
          (h, r) = (case q of c # cs \<Rightarrow> if c = CHR '']'' then ([c], cs) else ([], q) | [] \<Rightarrow> ([], []));
          body = takeWhile (\<lambda>c. c \<noteq> CHR '']'') r; rest = dropWhile (\<lambda>c. c \<noteq> CHR '']'') r
      in case rest of [] \<Rightarrow> None | _ # rest' \<Rightarrow> Some (neg, h @ body, rest'))"

lemma split_set_shorter: "split_set p = Some (n, b, r) \<Longrightarrow> length r < length p"
proof -
  have d: "length (dropWhile P xs) \<le> length xs" for P and xs :: string by (rule length_dropWhile_le)
  assume "split_set p = Some (n, b, r)"
  then show ?thesis
    using d [of "\<lambda>c. c \<noteq> CHR '']''"]
    by (auto simp: split_set_def Let_def split: list.splits if_splits prod.splits)
       (metis d le_less_trans length_Cons lessI less_Suc_eq less_trans linorder_not_le not_less_eq)+
qed

function fnmatch :: "string \<Rightarrow> string \<Rightarrow> bool" where
  "fnmatch [] s = (s = [])"
| "fnmatch (c # p) s =
     (if c = CHR ''*'' then fnmatch p s \<or> (case s of [] \<Rightarrow> False | x # s' \<Rightarrow> fnmatch (c # p) s')
      else (case s of
          [] \<Rightarrow> False
        | x # s' \<Rightarrow>
            if c = CHR ''?'' then fnmatch p s'
            else if c = CHR ''['' then
              (case split_set p of
                 None \<Rightarrow> x = c \<and> fnmatch p s'
               | Some (neg, members, r) \<Rightarrow> in_ranges x (set_ranges members) \<noteq> neg \<and> fnmatch r s')
            else x = c \<and> fnmatch p s'))"
  by pat_completeness auto
termination
  by (relation "measure (\<lambda>(p, s). length p + length s)") (auto dest: split_set_shorter)

definition pin_matches :: "string \<Rightarrow> pin_rule \<Rightarrow> bool" where
  "pin_matches lid rule \<longleftrightarrow>
     (case map_of rule ''id'' of None \<Rightarrow> False | Some i \<Rightarrow> lid = i)
   \<or> (case map_of rule ''id_prefix'' of None \<Rightarrow> False | Some p \<Rightarrow> prefix p lid)
   \<or> (case map_of rule ''id_glob'' of None \<Rightarrow> False | Some g \<Rightarrow> fnmatch g lid)"

definition category_for :: "string \<Rightarrow> category list \<Rightarrow> string option" where
  "category_for lid taxonomy = map_option cat_id (List.find (\<lambda>c. list_ex (pin_matches lid) (cat_pins c)) taxonomy)"

subsection \<open>The contract of a frontmatter\<close>

record contract =
  k_required :: "string list"
  k_types :: "pyval list option"
  k_dimensions :: "pyval list"
  k_nonempty :: "string list"
  k_forbid :: "(string \<times> pyval list) list"

definition violation :: "string \<Rightarrow> string \<Rightarrow> finding" where
  "violation lid message = \<lparr>f_code = ''LAYOUT-CONTRACT'', f_target = lid, f_message = message\<rparr>"

definition has_key :: "string \<Rightarrow> dict \<Rightarrow> bool" where
  "has_key k d \<longleftrightarrow> k \<in> set (dkeys d)"

definition quoted :: "string \<Rightarrow> string" where
  "quoted s = [CHR 0x27] @ s @ [CHR 0x27]"

definition check_required :: "string \<Rightarrow> dict \<Rightarrow> contract \<Rightarrow> finding list" where
  "check_required lid meta c =
     map (\<lambda>field. violation lid (''missing required field '' @ quoted field)) (filter (\<lambda>field. \<not> has_key field meta) (k_required c))"

definition check_type :: "string \<Rightarrow> dict \<Rightarrow> contract \<Rightarrow> finding list" where
  "check_type lid meta c = (case k_types c of
     None \<Rightarrow> []
   | Some types \<Rightarrow> if has_key ''type'' meta \<and> \<not> py_in (dget meta ''type'') types
       then [violation lid (''type '' @ quoted (py_str (dget meta ''type'')) @ '' not in '' @ py_repr (VList types))] else [])"

text \<open>A dimension that cannot be hashed raises.\<close>

definition check_dimensions :: "string \<Rightarrow> dict \<Rightarrow> contract \<Rightarrow> finding list res" where
  "check_dimensions lid meta c =
     (let dims = dget meta ''dimensions'' in
      if dims = VNone \<or> k_dimensions c = [] then Inr []
      else let ds = (case dims of VList xs \<Rightarrow> xs | _ \<Rightarrow> [dims]) in
        if list_ex (\<lambda>d. \<not> hashable d) ds then Inl TypeError
        else let bad = filter (\<lambda>d. \<not> py_in d (k_dimensions c)) ds in
          Inr (if bad \<noteq> [] then [violation lid (''dimensions not in closed set: '' @ py_repr (VList bad))] else []))"

definition empty_value :: "pyval \<Rightarrow> bool" where
  "empty_value v \<longleftrightarrow> v = VNone \<or> v = VStr [] \<or> v = VList [] \<or> v = VDict []"

definition check_nonempty :: "string \<Rightarrow> dict \<Rightarrow> contract \<Rightarrow> finding list" where
  "check_nonempty lid meta c =
     map (\<lambda>field. violation lid (quoted field @ '' present but empty''))
       (filter (\<lambda>field. has_key field meta \<and> empty_value (dget meta field)) (k_nonempty c))"

definition check_languages :: "string \<Rightarrow> dict \<Rightarrow> finding list" where
  "check_languages lid meta =
     (let v = dget meta ''languages'' in
      if v \<noteq> VNone \<and> \<not> (v = VStr ''all'' \<or> (is_string_array v \<and> v \<noteq> VList []))
      then [violation lid (''languages must be '' @ quoted ''all'' @ '' or a non-empty string list'')] else [])"

definition tool_shape :: "pyval \<Rightarrow> bool" where
  "tool_shape t = (case t of
     VDict d \<Rightarrow> nonempty_str (dget d ''name'') \<and> nonempty_str (dget d ''purpose'')
       \<and> (dget d ''command'' = VNone \<or> is_str (dget d ''command''))
   | _ \<Rightarrow> False)"

definition check_tools :: "string \<Rightarrow> dict \<Rightarrow> finding list" where
  "check_tools lid meta =
     (let v = dget meta ''tools'' in
      if v = VNone \<or> (case v of VList ts \<Rightarrow> list_all tool_shape ts | _ \<Rightarrow> False) then []
      else [violation lid ''tools must be [{name,purpose,command?}]''])"

fun get_dotted :: "pyval \<Rightarrow> string list \<Rightarrow> pyval" where
  "get_dotted v [] = v"
| "get_dotted v (k # ks) = (case v of
     VDict d \<Rightarrow> (case map_of d k of None \<Rightarrow> VNone | Some w \<Rightarrow> get_dotted w ks) | _ \<Rightarrow> VNone)"

definition check_forbidden :: "string \<Rightarrow> dict \<Rightarrow> string \<times> pyval list \<Rightarrow> finding list" where
  "check_forbidden lid meta rule = (case get_dotted (VDict meta) (split_on (CHR ''.'') (fst rule)) of
     VList xs \<Rightarrow> (let hit = filter (\<lambda>x. py_in x (snd rule)) xs in
       if hit \<noteq> [] then [violation lid (fst rule @ '' contains forbidden '' @ py_repr (VList hit))] else [])
   | _ \<Rightarrow> [])"

definition check_contract :: "string \<Rightarrow> dict \<Rightarrow> contract \<Rightarrow> finding list res" where
  "check_contract lid meta c = bindE (check_dimensions lid meta c) (\<lambda>dims.
     Inr (check_required lid meta c @ check_type lid meta c @ dims @ check_nonempty lid meta c @ check_languages lid meta
       @ check_tools lid meta @ concat (map (check_forbidden lid meta) (k_forbid c))))"

subsection \<open>The tree\<close>

record policy =
  p_reject_unpinned :: bool
  p_max_depth :: nat
  p_fanout_hard_max :: nat

definition stem_of :: "string \<Rightarrow> string" where
  "stem_of name = (if name = ''.md'' then name else take (length name - 3) name)"

definition leaf_files :: "leaf_doc list \<Rightarrow> leaf_doc list" where
  "leaf_files docs = filter (\<lambda>d. is_leaf_doc d \<and> \<not> list_ex (prefix ''.'') (d_path d)) docs"

definition doc_id :: "leaf_doc \<Rightarrow> string" where
  "doc_id d = py_str (py_or (dget (d_meta d) ''id'') (VStr (stem_of (last (d_path d)))))"

definition placement :: "category list \<Rightarrow> policy \<Rightarrow> leaf_doc \<Rightarrow> finding list" where
  "placement taxonomy p d =
     (let lid = doc_id d; depth = length (d_path d) - 1; top = (if 1 < length (d_path d) then hd (d_path d) else ''(root)'') in
      (if p_max_depth p < depth
       then [\<lparr>f_code = ''LAYOUT-DEPTH'', f_target = lid, f_message = ''depth '' @ show_nat depth @ '' > max_depth''\<rparr>] else [])
      @ (case category_for lid taxonomy of
           None \<Rightarrow> []
         | Some cat \<Rightarrow> if cat \<noteq> [] \<and> top \<noteq> cat
             then [\<lparr>f_code = ''LAYOUT-PIN'', f_target = lid, f_message = ''in '' @ quoted top @ '', pinned to '' @ quoted cat\<rparr>] else [])
      @ (if top \<notin> set (map cat_id taxonomy) \<and> top \<noteq> ''(root)''
         then [\<lparr>f_code = ''LAYOUT-TAXONOMY'', f_target = top, f_message = ''top-level dir not in taxonomy''\<rparr>] else []))"

definition leaf_findings :: "category list \<Rightarrow> policy \<Rightarrow> contract \<Rightarrow> bool \<Rightarrow> leaf_doc \<Rightarrow> finding list res" where
  "leaf_findings taxonomy p c wiki d = bindE (check_contract (doc_id d) (d_meta d) c) (\<lambda>fs.
     Inr ((if category_for (doc_id d) taxonomy = None \<and> p_reject_unpinned p
           then [\<lparr>f_code = ''LAYOUT-UNPINNED'', f_target = doc_id d, f_message = ''matches no pin in taxonomy''\<rparr>] else [])
         @ fs @ (if wiki then placement taxonomy p d else [])))"

text \<open>A directory of the wiki, outside of the hidden ones: its path and the names of its children.\<close>

definition fanout :: "policy \<Rightarrow> string \<times> string list \<Rightarrow> finding list" where
  "fanout p dir = (let n = length (filter (\<lambda>c. c \<noteq> ''index.md'' \<and> \<not> prefix ''.'' c) (snd dir)) in
     if p_fanout_hard_max p < n
     then [\<lparr>f_code = ''LAYOUT-FANOUT'', f_target = fst dir, f_message = show_nat n @ '' children > fanout_hard_max''\<rparr>] else [])"

definition layout_findings ::
  "category list \<Rightarrow> policy \<Rightarrow> contract \<Rightarrow> bool \<Rightarrow> (string \<times> string list) list \<Rightarrow> leaf_doc list \<Rightarrow> finding list res" where
  "layout_findings taxonomy p c wiki dirs docs =
     bindE (mapE (leaf_findings taxonomy p c wiki) (leaf_files docs)) (\<lambda>fss.
     Inr (check_pins taxonomy @ concat fss @ (if wiki then concat (map (fanout p) dirs) else [])))"

text \<open>\<^verbatim>\<open>main\<close>: the exit code.\<close>

definition validate_layout ::
  "category list \<Rightarrow> policy \<Rightarrow> contract \<Rightarrow> bool \<Rightarrow> bool \<Rightarrow> (string \<times> string list) list \<Rightarrow> leaf_doc list \<Rightarrow> nat res" where
  "validate_layout taxonomy p c wiki report dirs docs =
     bindE (layout_findings taxonomy p c wiki dirs docs) (\<lambda>fs. Inr (if report then 0 else if fs \<noteq> [] then 1 else 0))"

subsection \<open>Sharding the source\<close>

text \<open>
  The tree of the source: its files by their path below the root. A move replaces what was at its target.
  No directory has the name of a leaf, and the disk has room for the folders.
\<close>

type_synonym file_tree = "(string list \<times> string) list"

definition shardable :: "string list \<Rightarrow> bool" where
  "shardable p \<longleftrightarrow> p \<noteq> [] \<and> suffix ''.md'' (last p) \<and> last p \<noteq> ''index.md'' \<and> \<not> list_ex (prefix ''.'') p"

definition shard_target :: "string list \<Rightarrow> string list" where
  "shard_target p = [id_prefix (stem_of (last p)), last p]"

definition shard_bad :: "string list \<Rightarrow> bool" where
  "shard_bad p \<longleftrightarrow> id_prefix (stem_of (last p)) = []"

definition shard_files :: "file_tree \<Rightarrow> string list list" where
  "shard_files fs = sort (filter shardable (dkeys fs))"

definition shard_moves :: "file_tree \<Rightarrow> (string list \<times> string list) list" where
  "shard_moves fs = map (\<lambda>p. (p, shard_target p)) (filter (\<lambda>p. \<not> shard_bad p \<and> p \<noteq> shard_target p) (shard_files fs))"

definition moved :: "file_tree \<Rightarrow> string list \<times> string list \<Rightarrow> file_tree" where
  "moved fs m = (case map_of fs (fst m) of
     None \<Rightarrow> fs | Some content \<Rightarrow> dset (snd m) content (filter (\<lambda>(q, _). q \<noteq> fst m) fs))"

text \<open>The folder is made first, which fails where a file has its name.\<close>

definition move_file :: "file_tree \<Rightarrow> string list \<times> string list \<Rightarrow> file_tree res" where
  "move_file fs m = (if butlast (snd m) \<in> set (dkeys fs) then Inl (Raised ''FileExistsError'') else Inr (moved fs m))"

fun move_files :: "file_tree \<Rightarrow> (string list \<times> string list) list \<Rightarrow> nat res \<times> file_tree" where
  "move_files fs [] = (Inr 0, fs)"
| "move_files fs (m # ms) = (case move_file fs m of Inl e \<Rightarrow> (Inl e, fs) | Inr fs' \<Rightarrow> move_files fs' ms)"

text \<open>\<^verbatim>\<open>main\<close>: the exit code or what it raises, and the tree after it.\<close>

definition shard_src :: "bool \<Rightarrow> file_tree \<Rightarrow> nat res \<times> file_tree" where
  "shard_src apply_it fs =
     (if list_ex shard_bad (shard_files fs) then (Inr 2, fs)
      else if apply_it then move_files fs (shard_moves fs) else (Inr 0, fs))"

subsection \<open>Drift\<close>

definition content_files :: "file_tree \<Rightarrow> file_tree" where
  "content_files fs = filter (\<lambda>(p, _). p \<noteq> [] \<and> suffix ''.md'' (last p) \<and> \<not> list_ex (prefix ''.'') p) fs"

record drift =
  stale :: "string list list"
  absent :: "string list list"
  changed :: "string list list"

definition drift_of :: "file_tree \<Rightarrow> file_tree \<Rightarrow> drift" where
  "drift_of committed fresh =
     \<lparr>stale = sort (filter (\<lambda>k. k \<notin> set (dkeys fresh)) (dkeys committed)),
      absent = sort (filter (\<lambda>k. k \<notin> set (dkeys committed)) (dkeys fresh)),
      changed = sort (filter (\<lambda>k. k \<in> set (dkeys fresh) \<and> map_of committed k \<noteq> map_of fresh k) (dkeys committed))\<rparr>"

text \<open>\<open>rebuilt\<close> is \<open>None\<close> where the command is missing or the build fails.\<close>

definition check_wiki_drift :: "file_tree \<Rightarrow> file_tree option \<Rightarrow> nat" where
  "check_wiki_drift wiki rebuilt = (case rebuilt of
     None \<Rightarrow> 2
   | Some new \<Rightarrow>
       (let d = drift_of (content_files wiki) (content_files new) in
        if stale d \<noteq> [] \<or> absent d \<noteq> [] \<or> changed d \<noteq> [] then 1 else 0))"

subsection \<open>Derived leaves meet the contract\<close>

text \<open>The contract for leaves in \<^verbatim>\<open>reviewers.layout.yaml\<close>.\<close>

definition leaf_contract :: contract where
  "leaf_contract =
     \<lparr>k_required = [''id'', ''type'', ''focus'', ''covers'', ''dimensions'', ''audit_surface'', ''languages'', ''tags'', ''activation''],
      k_types = Some (map VStr [''primary'', ''overlay'', ''universal'']),
      k_dimensions = map VStr dim_set,
      k_nonempty = [''covers'', ''tags'', ''dimensions'', ''audit_surface'', ''languages''],
      k_forbid = [(''activation.file_globs'', map VStr [''**/*'', ''*'', ''**'', ''**/**''])]\<rparr>"

lemma has_key_map_of: "has_key k d \<longleftrightarrow> map_of d k \<noteq> None"
  by (simp add: has_key_def map_of_None_iff)

lemma dget_of_map: "map_of d k = Some v \<Longrightarrow> dget d k = v"
  by (simp add: dget_def dget_or_def)

text \<open>What a derived leaf holds.\<close>

lemma derived_fields:
  assumes "derive_leaf meta body = Inr m"
  obtains lid ls ds where
    "map_of m ''id'' = Some (VStr lid)"
    "map_of m ''audit_surface'' = Some (VList (map VStr (audit_surface body)))"
    "map_of m ''dimensions'' = Some (VList (map VStr ds))" "ds \<noteq> []" "set ds \<subseteq> set dim_set"
    "map_of m ''languages'' = Some ls" "ls = VStr ''all'' \<or> (\<exists>l. l \<noteq> [] \<and> ls = VList (map VStr l))"
    "dget m ''tools'' = dget meta ''tools'' \<or> is_tool_array (dget m ''tools'')"
    "\<And>k. k \<notin> set derived_keys \<Longrightarrow> k \<notin> set generated_keys \<Longrightarrow> map_of m k = map_of meta k"
proof (rule derive_leaf_cases [OF assms], goal_cases)
  case (1 lid langs)
  note look = derived_lookup [OF 1(4)]
  have i: "map_of m ''id'' = Some (VStr lid)" using look(5) [OF derived_plain(2)] derived_plain(4) 1(2) by simp
  have t: "dget m ''tools'' = dget meta ''tools'' \<or> is_tool_array (dget m ''tools'')"
    using look(4) tools_valid [of lid] by (cases "tools_for lid") (auto simp: dget_def dget_or_def)
  show ?case
    by (rule 1(1) [OF i look(1) look(3) _ _ look(2) languages_valid [OF 1(3)] t])
      (use dims_in_set [of lid] look(5) in auto)
qed

text \<open>What the fix of the globs leaves behind.\<close>

lemma broad_stripped: "g \<in> set [''**/*'', ''*'', ''**'', ''**/**''] \<Longrightarrow> is_broad g"
proof -
  have "list_all is_broad [''**/*'', ''*'', ''**'', ''**/**'']" by code_simp
  then show "g \<in> set [''**/*'', ''*'', ''**'', ''**/**''] \<Longrightarrow> is_broad g" unfolding list_all_iff by blast
qed

lemma mapE_as_str_inv: "mapE as_str vs = Inr gs \<Longrightarrow> vs = map VStr gs"
  by (induction vs arbitrary: gs) (auto simp: res_simps as_str_def split: pyval.splits)

lemma no_broad_hits:
  assumes "\<not> list_ex is_broad gs"
  shows "filter (\<lambda>x. py_in x (map VStr [''**/*'', ''*'', ''**'', ''**/**''])) (map VStr gs) = []"
proof -
  have "g \<notin> set [''**/*'', ''*'', ''**'', ''**/**'']" if "g \<in> set gs" for g
    using assms that broad_stripped [of g] unfolding list_ex_iff by metis
  then show ?thesis by (auto simp: filter_empty_conv py_in_VStr)
qed

definition fixed_leaf :: "dict \<Rightarrow> dict option \<Rightarrow> dict" where
  "fixed_leaf m r = (case r of None \<Rightarrow> m | Some fixed \<Rightarrow> fixed)"

lemma fix_leaf_fields:
  assumes "fix_leaf m = Inr r"
  shows "k \<noteq> ''activation'' \<Longrightarrow> map_of (fixed_leaf m r) k = map_of m k"
    and "map_of m ''activation'' \<noteq> None \<Longrightarrow> map_of (fixed_leaf m r) ''activation'' \<noteq> None"
    and "check_forbidden lid (fixed_leaf m r) (''activation.file_globs'', map VStr [''**/*'', ''*'', ''**'', ''**/**'']) = []"
proof -
  obtain act fg where act: "py_or (dget m ''activation'') (VDict []) = VDict act" "file_globs_of (VDict act) = Inr fg"
      and r: "r = (if \<not> list_ex is_broad fg then None
        else Some (dset ''activation'' (VDict (dset ''file_globs'' (VList (map VStr (narrow_globs fg))) act)) m))"
    using assms by (auto simp: fix_leaf_def res_simps split: pyval.splits if_splits)
  show "k \<noteq> ''activation'' \<Longrightarrow> map_of (fixed_leaf m r) k = map_of m k"
    and "map_of m ''activation'' \<noteq> None \<Longrightarrow> map_of (fixed_leaf m r) ''activation'' \<noteq> None"
    by (auto simp: r fixed_leaf_def)
  have path: "split_on (CHR ''.'') ''activation.file_globs'' = [''activation'', ''file_globs'']" by code_simp
  show "check_forbidden lid (fixed_leaf m r) (''activation.file_globs'', map VStr [''**/*'', ''*'', ''**'', ''**/**'']) = []"
  proof (cases "list_ex is_broad fg")
    case True
    then show ?thesis
      using no_broad_hits [of "narrow_globs fg"] narrow_globs_narrow [of fg]
      by (simp add: check_forbidden_def path r fixed_leaf_def Let_def)
  next
    case False
    have hits: "filter (\<lambda>x. py_in x (map VStr [''**/*'', ''*'', ''**'', ''**/**''])) vs = []"
      if "map_of m ''activation'' = Some (VDict a)" "map_of a ''file_globs'' = Some (VList vs)" for a vs
    proof (cases "vs = []")
      case False
      have "a \<noteq> []" using that(2) by auto
      then have "act = a" using act(1) that(1) by (simp add: dget_of_map py_or_def)
      then have "mapE as_str vs = Inr fg"
        using act(2) \<open>a \<noteq> []\<close> False that(2) by (simp add: file_globs_of_def py_or_def dget_of_map py_iter_def)
      then have "vs = map VStr fg" by (rule mapE_as_str_inv)
      then show ?thesis using no_broad_hits \<open>\<not> list_ex is_broad fg\<close> by simp
    qed simp
    then show ?thesis using False
      by (auto simp: check_forbidden_def path r fixed_leaf_def Let_def split: pyval.splits option.splits)
  qed
qed

text \<open>Dimensions from the closed set and tools in the shape of the handler meet the contract.\<close>

lemma dimensions_ok:
  assumes "map_of m ''dimensions'' = Some (VList (map VStr ds))" "set ds \<subseteq> set dim_set"
  shows "check_dimensions lid m leaf_contract = Inr []"
proof -
  have "\<not> list_ex (\<lambda>d. \<not> hashable d) (map VStr ds)" by (auto simp: list_ex_iff hashable_def is_list_def is_dict_def)
  moreover have "filter (\<lambda>d. \<not> py_in d (map VStr dim_set)) (map VStr ds) = []"
    using assms(2) by (auto simp: filter_empty_conv py_in_VStr)
  ultimately show ?thesis by (simp add: check_dimensions_def leaf_contract_def dget_of_map [OF assms(1)] Let_def)
qed

lemma tool_entry_shape: "is_tool_entry e \<Longrightarrow> tool_shape e"
  by (cases e) (auto simp: is_tool_entry_def tool_shape_def dget_def dget_or_def Let_def is_str_def split: option.splits)

lemma tools_ok: "dget m ''tools'' = VNone \<or> is_tool_array (dget m ''tools'') \<Longrightarrow> check_tools lid m = []"
  using tool_entry_shape by (cases "dget m ''tools''") (auto simp: check_tools_def is_tool_array_def list_all_iff)

text \<open>
  C30: the authoring scripts produce what the contract asks for. A leaf whose authored fields are in
  place (focus, type, covers, tags and activation, and tools in the right shape if any) meets the
  contract of the layout after \<^verbatim>\<open>derive_v2.py\<close> and \<^verbatim>\<open>fix_broad_globs.py\<close>, if and only if its body
  has an audit surface.
\<close>

theorem derived_leaf_meets_contract:
  assumes "derive_leaf meta body = Inr m" "fix_leaf m = Inr r"
    and authored: "\<forall>k\<in>{''focus'', ''covers'', ''tags'', ''activation''}. has_key k meta"
      "\<forall>k\<in>{''covers'', ''tags''}. \<not> empty_value (dget meta k)"
      "map_of meta ''type'' = Some (VStr t)" "t \<in> {''primary'', ''overlay'', ''universal''}"
      "dget meta ''tools'' = VNone \<or> is_tool_array (dget meta ''tools'')"
  shows "check_contract lid (fixed_leaf m r) leaf_contract = Inr [] \<longleftrightarrow> audit_surface body \<noteq> []"
proof (rule derived_fields [OF assms(1)], goal_cases)
  case (1 i ls ds)
  let ?m = "fixed_leaf m r"
  note fixed = fix_leaf_fields [OF assms(2)]
  have m_of: "map_of ?m k = map_of meta k" if "k \<in> {''focus'', ''covers'', ''tags'', ''type''}" for k
    using that fixed(1) 1(9) [of k] by (auto simp: derived_keys_def generated_keys_def)
  have act: "map_of ?m ''activation'' \<noteq> None"
    using fixed(2) 1(9) [of "''activation''"] authored(1) derived_plain by (simp add: has_key_map_of)
  have keys: "map_of ?m ''id'' = Some (VStr i)" "map_of ?m ''audit_surface'' = Some (VList (map VStr (audit_surface body)))"
      "map_of ?m ''dimensions'' = Some (VList (map VStr ds))" "map_of ?m ''languages'' = Some ls"
    using fixed(1) 1(1,2,3,6) by simp_all
  have have_keys: "has_key k ?m" if "k \<in> {''focus'', ''covers'', ''tags'', ''type''}" for k
    using m_of [OF that] authored(1,3) that by (auto simp: has_key_map_of)
  have required: "check_required lid ?m leaf_contract = []"
    using have_keys act keys by (simp add: check_required_def leaf_contract_def has_key_map_of)
  have type_ok: "check_type lid ?m leaf_contract = []"
    using authored(3,4) m_of [of "''type''"] by (auto simp: check_type_def leaf_contract_def py_in_VStr dget_of_map)
  have dims: "check_dimensions lid ?m leaf_contract = Inr []" using keys(3) 1(5) by (rule dimensions_ok)
  have lang: "ls \<noteq> VNone" "\<not> empty_value ls" "ls = VStr ''all'' \<or> (is_string_array ls \<and> ls \<noteq> VList [])"
    using 1(7) strs_array by (auto simp: empty_value_def)
  have languages: "check_languages lid ?m = []"
    using lang by (simp add: check_languages_def dget_of_map [OF keys(4)])
  have shaped: "check_tools lid ?m = []"
  proof -
    have "dget ?m ''tools'' = dget m ''tools''" using fixed(1) [of "''tools''"] by (simp add: dget_def dget_or_def)
    then have "dget ?m ''tools'' = VNone \<or> is_tool_array (dget ?m ''tools'')" using 1(8) authored(5) by auto
    then show ?thesis by (rule tools_ok)
  qed
  have nonempty: "check_nonempty lid ?m leaf_contract = [] \<longleftrightarrow> audit_surface body \<noteq> []"
  proof -
    have "dget ?m ''covers'' = dget meta ''covers''" "dget ?m ''tags'' = dget meta ''tags''"
      using m_of by (simp_all add: dget_def dget_or_def)
    then have "\<not> empty_value (dget ?m ''covers'')" "\<not> empty_value (dget ?m ''tags'')" using authored(2) by simp_all
    moreover have "\<not> empty_value (VList (map VStr ds))" "empty_value (VList (map VStr (audit_surface body))) = (audit_surface body = [])"
      using 1(4) by (auto simp: empty_value_def)
    ultimately show ?thesis
      using lang keys
      by (simp add: check_nonempty_def leaf_contract_def has_key_map_of dget_of_map)
  qed
  have "concat (map (check_forbidden lid ?m) (k_forbid leaf_contract)) = []"
    using fixed(3) by (simp add: leaf_contract_def)
  then show ?case using required type_ok dims languages shaped nonempty by (simp add: check_contract_def)
qed

definition bare_leaf :: dict where
  "bare_leaf = [(''id'', VStr ''sec-tls''), (''type'', VStr ''primary''), (''focus'', VStr ''tls''), (''covers'', VList [VStr ''certs'']),
     (''tags'', VList [VStr ''tls'']), (''activation'', VDict [(''file_globs'', VList [VStr ''**/*''])])]"

theorem derived_leaf_meets_contract_witness:
  "\<exists>m r. derive_leaf bare_leaf (''## Audit Surface'' @ [newline] @ ''- [x] keys'') = Inr m \<and> fix_leaf m = Inr (Some r)
     \<and> check_contract ''sec-tls'' r leaf_contract = Inr []"
proof -
  let ?b = "''## Audit Surface'' @ [newline] @ ''- [x] keys''"
  have "case derive_leaf bare_leaf ?b of Inr m \<Rightarrow> (case fix_leaf m of Inr (Some r) \<Rightarrow> True | _ \<Rightarrow> False) | _ \<Rightarrow> False" by code_simp
  then obtain m r where m: "derive_leaf bare_leaf ?b = Inr m" "fix_leaf m = Inr (Some r)"
    by (auto split: sum.splits option.splits)
  have "audit_surface ?b \<noteq> []" by code_simp
  then have "check_contract ''sec-tls'' (fixed_leaf m (Some r)) leaf_contract = Inr []"
    by (subst derived_leaf_meets_contract [OF m, where t = "''primary''"])
      (simp_all add: bare_leaf_def has_key_def empty_value_def dget_def dget_or_def)
  then show ?thesis using m by (auto simp: fixed_leaf_def)
qed

subsection \<open>Moves\<close>

lemma map_of_move:
  assumes "map_of fs p = Some c"
  shows "map_of (moved fs (p, t)) q = (if q = t then Some c else if q = p then None else map_of fs q)"
proof -
  have "map_of (filter (\<lambda>(q, _). q \<noteq> p) fs) q = (if q = p then None else map_of fs q)"
    by (induction fs) auto
  with assms show ?thesis by (simp add: moved_def)
qed

lemma map_of_moves:
  assumes "distinct (map fst ms)" "distinct (map snd ms)" "\<forall>(p, t)\<in>set ms. map_of fs p \<noteq> None"
    and "\<forall>(p, t)\<in>set ms. map_of fs t = None"
  shows "(\<forall>(p, t)\<in>set ms. map_of (foldl moved fs ms) t = map_of fs p)
    \<and> (\<forall>q. q \<notin> snd ` set ms \<longrightarrow> map_of (foldl moved fs ms) q = (if q \<in> fst ` set ms then None else map_of fs q))"
  using assms
proof (induction ms arbitrary: fs)
  case (Cons m ms)
  obtain p t c where m: "m = (p, t)" "map_of fs p = Some c" using Cons.prems(3) by (cases m) auto
  let ?fs = "moved fs (p, t)"
  note mv = map_of_move [OF m(2), of t]
  have pt: "map_of fs t = None" "p \<noteq> t" using Cons.prems(4) m by auto
  have fresh: "p' \<noteq> p \<and> p' \<noteq> t \<and> t' \<noteq> t \<and> t' \<noteq> p" if "(p', t') \<in> set ms" for p' t'
  proof -
    have "p' \<noteq> p" "t' \<noteq> t" using Cons.prems(1,2) that m(1) by (force simp: image_iff)+
    moreover have "map_of fs p' \<noteq> None" "map_of fs t' = None" using Cons.prems(3,4) that by auto
    ultimately show ?thesis using pt m(2) by auto
  qed
  have src: "map_of ?fs p' \<noteq> None" and tgt: "map_of ?fs t' = None" if in_ms: "(p', t') \<in> set ms" for p' t'
  proof -
    have "map_of fs p' \<noteq> None" "map_of fs t' = None" using Cons.prems(3,4) in_ms by auto
    then show "map_of ?fs p' \<noteq> None" "map_of ?fs t' = None" unfolding mv using fresh [OF in_ms] by simp_all
  qed
  have IH: "(\<forall>(p, t)\<in>set ms. map_of (foldl moved ?fs ms) t = map_of ?fs p)
    \<and> (\<forall>q. q \<notin> snd ` set ms \<longrightarrow> map_of (foldl moved ?fs ms) q = (if q \<in> fst ` set ms then None else map_of ?fs q))"
  proof (rule Cons.IH)
    show "\<forall>(p', t')\<in>set ms. map_of ?fs p' \<noteq> None" "\<forall>(p', t')\<in>set ms. map_of ?fs t' = None" using src tgt by blast+
  qed (use Cons.prems(1,2) in simp_all)
  have t_out: "t \<notin> snd ` set ms" "t \<notin> fst ` set ms" "p \<notin> fst ` set ms" "p \<notin> snd ` set ms" using fresh by force+
  have result: "foldl moved fs (m # ms) = foldl moved ?fs ms" by (simp add: m(1))
  have "map_of (foldl moved ?fs ms) t' = map_of fs p'" if "(p', t') \<in> set (m # ms)" for p' t'
  proof (cases "(p', t') = (p, t)")
    case True
    then show ?thesis using IH t_out m(2) by (simp add: mv)
  next
    case False
    with that m(1) have "(p', t') \<in> set ms" by auto
    then show ?thesis using IH fresh [of p' t'] by (auto simp: mv)
  qed
  moreover have "map_of (foldl moved ?fs ms) q = (if q \<in> fst ` set (m # ms) then None else map_of fs q)"
    if "q \<notin> snd ` set (m # ms)" for q
    using that IH t_out by (auto simp: mv m(1))
  ultimately show ?case unfolding result by blast
qed simp


text \<open>Where no folder that is needed has the name of a file, every move is made.\<close>

lemma moves_made:
  assumes "\<forall>m\<in>set ms. length (snd m) = 2 \<and> butlast (snd m) \<notin> set (dkeys fs)"
  shows "move_files fs ms = (Inr 0, foldl moved fs ms)"
  using assms
proof (induction ms arbitrary: fs)
  case (Cons m ms)
  have keys: "set (dkeys (moved fs m)) \<subseteq> insert (snd m) (set (dkeys fs))"
    by (auto simp: moved_def dkeys_dset simp del: set_map split: option.splits) auto
  have "\<forall>n\<in>set ms. length (snd n) = 2 \<and> butlast (snd n) \<notin> set (dkeys (moved fs m))"
  proof
    fix n assume "n \<in> set ms"
    then have n: "length (snd n) = 2" "length (snd m) = 2" "butlast (snd n) \<notin> set (dkeys fs)" using Cons.prems by simp_all
    then have "length (butlast (snd n)) \<noteq> length (snd m)" by simp
    then have "butlast (snd n) \<noteq> snd m" by metis
    with n keys show "length (snd n) = 2 \<and> butlast (snd n) \<notin> set (dkeys (moved fs m))" by blast
  qed
  then have "move_files (moved fs m) ms = (Inr 0, foldl moved (moved fs m) ms)" by (rule Cons.IH)
  then show ?case using Cons.prems by (simp add: move_file_def)
qed simp

subsection \<open>Sharding keeps the leaves\<close>

lemma hd_split_on_prefix: "prefix (hd (split_on c s)) s"
proof (induction s)
  case (Cons x s)
  then show ?case by (cases "split_on c s") auto
qed simp

lemma last_shard_target [simp]: "last (shard_target p) = last p"
  by (simp add: shard_target_def)

lemma shard_target_twice: "shard_target (shard_target p) = shard_target p"
  by (simp add: shard_target_def)

lemma shardable_target:
  assumes "shardable p" "\<not> shard_bad p"
  shows "shardable (shard_target p)"
proof -
  let ?n = "last p" and ?f = "id_prefix (stem_of (last p))"
  have n: "p \<noteq> []" "suffix ''.md'' ?n" "?n \<noteq> ''index.md''" "\<not> prefix ''.'' ?n"
    using assms(1) by (auto simp: shardable_def list_ex_iff)
  have "prefix ?f (stem_of ?n)" unfolding id_prefix_def by (rule hd_split_on_prefix)
  moreover have "prefix (stem_of ?n) ?n" by (simp add: stem_of_def take_is_prefix)
  ultimately have "prefix ?f ?n" by (rule prefix_order.trans)
  moreover have "?f \<noteq> []" using assms(2) by (simp add: shard_bad_def)
  ultimately have "\<not> prefix ''.'' ?f" using n(4) by (metis prefix_order.trans)
  with n show ?thesis by (simp add: shardable_def shard_target_def)
qed

text \<open>The moves of a tree whose leaves have filenames of their own.\<close>

lemma shard_moves_iff:
  assumes "\<not> list_ex shard_bad (shard_files fs)"
  shows "(p, t) \<in> set (shard_moves fs) \<longleftrightarrow> map_of fs p \<noteq> None \<and> shardable p \<and> t = shard_target p \<and> p \<noteq> t"
    and "map_of fs p \<noteq> None \<Longrightarrow> shardable p \<Longrightarrow> shardable (shard_target p)"
proof -
  have good: "\<not> shard_bad p" if "map_of fs p \<noteq> None" "shardable p" for p
    using assms that by (auto simp: shard_files_def list_ex_iff map_of_None_iff)
  then show "(p, t) \<in> set (shard_moves fs) \<longleftrightarrow> map_of fs p \<noteq> None \<and> shardable p \<and> t = shard_target p \<and> p \<noteq> t"
    by (auto simp: shard_moves_def shard_files_def map_of_None_iff)
  show "map_of fs p \<noteq> None \<Longrightarrow> shardable p \<Longrightarrow> shardable (shard_target p)" using good shardable_target by blast
qed

lemma shard_moves_apart:
  assumes "distinct (dkeys fs)" "inj_on last {p \<in> set (dkeys fs). shardable p}" "\<not> list_ex shard_bad (shard_files fs)"
  shows "distinct (map fst (shard_moves fs))" "distinct (map snd (shard_moves fs))"
    and "(p, t) \<in> set (shard_moves fs) \<Longrightarrow> map_of fs t = None"
proof -
  let ?ms = "shard_moves fs"
  note ms = shard_moves_iff(1) [OF assms(3)]
  have inj: "p = q" if "last p = last q" "map_of fs p \<noteq> None" "map_of fs q \<noteq> None" "shardable p" "shardable q" for p q
    using inj_onD [OF assms(2) that(1)] that(2-5) by (simp add: map_of_None_iff)
  show "(p, t) \<in> set ?ms \<Longrightarrow> map_of fs t = None"
    using inj [of t p] shard_moves_iff(2) [OF assms(3), of p] last_shard_target unfolding ms by metis
  show dist: "distinct (map fst ?ms)"
    using assms(1) by (simp add: shard_moves_def shard_files_def comp_def)
  have "inj_on snd (set ?ms)"
  proof (rule inj_onI)
    fix m n assume mn: "m \<in> set ?ms" "n \<in> set ?ms" "snd m = snd n"
    have m: "map_of fs (fst m) \<noteq> None" "shardable (fst m)" "snd m = shard_target (fst m)" using mn(1) ms [of "fst m" "snd m"] by simp_all
    have n: "map_of fs (fst n) \<noteq> None" "shardable (fst n)" "snd n = shard_target (fst n)" using mn(2) ms [of "fst n" "snd n"] by simp_all
    have "last (fst m) = last (fst n)" using m(3) n(3) mn(3) last_shard_target by metis
    then have "fst m = fst n" by (rule inj) (rule m n)+
    then show "m = n" using mn(3) by (rule prod_eqI)
  qed
  then show "distinct (map snd ?ms)" using dist by (simp add: distinct_map)
qed

text \<open>
  C31: sharding loses no leaf. Where no two leaves of the tree have the same filename, each has
  a prefix, and no file has the name of a folder that a leaf moves to, an applied run exits with 0, every leaf is in
  the folder of its prefix with the content it had, every other file is untouched, no leaf stands anywhere else, and a
  second run has nothing to move.
\<close>

theorem shard_preserves_leaves:
  assumes "distinct (dkeys fs)" "inj_on last {p \<in> set (dkeys fs). shardable p}" "\<not> list_ex shard_bad (shard_files fs)"
    and "\<forall>p\<in>set (dkeys fs). shardable p \<longrightarrow> butlast (shard_target p) \<notin> set (dkeys fs)"
    and "shard_src True fs = (code, fs')"
  shows "code = Inr 0
    \<and> (\<forall>p c. shardable p \<and> map_of fs p = Some c \<longrightarrow> map_of fs' (shard_target p) = Some c)
    \<and> (\<forall>p. \<not> shardable p \<longrightarrow> map_of fs' p = map_of fs p)
    \<and> (\<forall>p. shardable p \<and> map_of fs' p \<noteq> None \<longrightarrow> shard_target p = p)
    \<and> shard_moves fs' = []"
proof -
  let ?ms = "shard_moves fs"
  note ms = shard_moves_iff(1) [OF assms(3)]
  have "move_files fs ?ms = (Inr 0, foldl moved fs ?ms)"
  proof (rule moves_made, rule ballI)
    fix m assume "m \<in> set ?ms"
    then have m: "map_of fs (fst m) \<noteq> None" "shardable (fst m)" "snd m = shard_target (fst m)"
      using ms [of "fst m" "snd m"] by simp_all
    then have "fst m \<in> set (dkeys fs)" using map_of_None_iff [of "fst m" fs] by simp
    from bspec [OF assms(4) this] have "butlast (snd m) \<notin> set (dkeys fs)" using m(2,3) by metis
    moreover have "length (snd m) = 2" by (simp add: m(3) shard_target_def)
    ultimately show "length (snd m) = 2 \<and> butlast (snd m) \<notin> set (dkeys fs)" by (rule conjI [rotated])
  qed
  then have run: "code = Inr 0" "fs' = foldl moved fs ?ms" using assms(3,5) by (auto simp: shard_src_def)
  note target = shard_moves_iff(2) [OF assms(3)]
  note apart = shard_moves_apart [OF assms(1-3)]
  have "\<forall>(p, t)\<in>set ?ms. map_of fs p \<noteq> None" "\<forall>(p, t)\<in>set ?ms. map_of fs t = None" using ms apart(3) by auto
  note moved = map_of_moves [OF apart(1,2) this, folded run(2)]
  have at_target: "map_of fs' t = map_of fs p" if "(p, t) \<in> set ?ms" for p t using moved that by auto
  have else_where: "map_of fs' q = (if q \<in> fst ` set ?ms then None else map_of fs q)" if "q \<notin> snd ` set ?ms" for q
    using moved that by blast
  have kept: "map_of fs' (shard_target p) = Some c" if p: "shardable p" "map_of fs p = Some c" for p c
  proof (cases "shard_target p = p")
    case True
    then have "p \<notin> fst ` set ?ms" "p \<notin> snd ` set ?ms" using p apart(3) by (fastforce simp: ms)+
    then show ?thesis using else_where True p by simp
  next
    case False
    then show ?thesis using at_target [of p "shard_target p"] p by (auto simp: ms)
  qed
  have others: "map_of fs' p = map_of fs p" if "\<not> shardable p" for p
  proof -
    have "p \<notin> fst ` set ?ms" "p \<notin> snd ` set ?ms" using that target by (force simp: ms)+
    then show ?thesis using else_where by simp
  qed
  have home: "shard_target p = p" if p: "shardable p" "map_of fs' p \<noteq> None" for p
  proof (cases "p \<in> snd ` set ?ms")
    case True
    then show ?thesis using shard_target_twice by (auto simp: ms)
  next
    case False
    then have "p \<notin> fst ` set ?ms" "map_of fs p \<noteq> None" using p else_where [OF False] by (auto split: if_splits)
    then show ?thesis using p by (metis ms fst_conv image_eqI)
  qed
  have "shard_moves fs' = []"
    using home by (auto simp: shard_moves_def shard_files_def filter_empty_conv map_of_None_iff)
  then show ?thesis using run(1) kept others home by blast
qed

definition flat_tree :: file_tree where
  "flat_tree = [([''index.md''], ''i''), ([''a11y-aria.md''], ''one''), ([''lang'', ''lang-py.md''], ''two'')]"

theorem shard_preserves_leaves_witness:
  "map_of (snd (shard_src True flat_tree)) [''a11y'', ''a11y-aria.md''] = Some ''one''"
proof -
  have fs: "shardable [''a11y-aria.md'']" "map_of flat_tree [''a11y-aria.md''] = Some ''one''"
    "shard_target [''a11y-aria.md''] = [''a11y'', ''a11y-aria.md'']" by code_simp+
  have "distinct (map last (filter shardable (dkeys flat_tree)))" by code_simp
  then have inj: "inj_on last {p \<in> set (dkeys flat_tree). shardable p}" by (simp add: distinct_map)
  have ok: "distinct (dkeys flat_tree)" "\<not> list_ex shard_bad (shard_files flat_tree)"
    "\<forall>p\<in>set (dkeys flat_tree). shardable p \<longrightarrow> butlast (shard_target p) \<notin> set (dkeys flat_tree)" by code_simp+
  have "shard_src True flat_tree = (fst (shard_src True flat_tree), snd (shard_src True flat_tree))" by simp
  from shard_preserves_leaves [OF ok(1) inj ok(2,3) this]
  have "map_of (snd (shard_src True flat_tree)) (shard_target [''a11y-aria.md'']) = Some ''one''" using fs(1,2) by blast
  then show ?thesis unfolding fs(3) .
qed

text \<open>
  Two leaves with the same filename: the later move replaces the earlier one, and the exit code is 0. And a
  file in the way of a folder.
\<close>

lemma shard_clobbers:
  "shard_src True [([''x'', ''a-b.md''], ''one''), ([''y'', ''a-b.md''], ''two'')] = (Inr 0, [([''a'', ''a-b.md''], ''two'')])"
  by code_simp

lemma shard_obstructed:
  "shard_src True [([''a''], ''note''), ([''a-b.md''], ''one'')]
     = (Inl (Raised ''FileExistsError''), [([''a''], ''note''), ([''a-b.md''], ''one'')])"
  by code_simp

subsection \<open>A layout without findings\<close>

lemma mapE_nil_iff: "mapE f xs = Inr yss \<and> concat yss = [] \<longrightarrow> (\<forall>x\<in>set xs. f x = Inr [])"
proof (induction xs arbitrary: yss)
  case (Cons x xs)
  then show ?case by (auto simp: res_simps)
qed simp

lemma mapE_all_nil: "(\<forall>x\<in>set xs. f x = Inr []) \<Longrightarrow> \<exists>yss. mapE f xs = Inr yss \<and> concat yss = []"
  by (induction xs) (auto simp: res_simps)

lemma layout_findings_nil:
  "layout_findings taxonomy p c True dirs docs = Inr [] \<longleftrightarrow>
     check_pins taxonomy = [] \<and> (\<forall>d\<in>set (leaf_files docs). leaf_findings taxonomy p c True d = Inr [])
     \<and> (\<forall>dir\<in>set dirs. fanout p dir = [])"
proof (cases "mapE (leaf_findings taxonomy p c True) (leaf_files docs)")
  case (Inl e)
  then show ?thesis using mapE_all_nil [of "leaf_files docs" "leaf_findings taxonomy p c True"] by (auto simp: layout_findings_def)
next
  case (Inr fss)
  then show ?thesis
    using mapE_nil_iff [of "leaf_findings taxonomy p c True" "leaf_files docs" fss]
      mapE_all_nil [of "leaf_files docs" "leaf_findings taxonomy p c True"]
    by (auto simp: layout_findings_def concat_eq_Nil_conv)
qed

lemma category_for_member: "category_for lid taxonomy = Some cat \<Longrightarrow> cat \<in> set (map cat_id taxonomy)"
  by (auto simp: category_for_def find_Some_iff)

lemma leaf_findings_nil:
  assumes "p_reject_unpinned p" "[] \<notin> set (map cat_id taxonomy)" "''(root)'' \<notin> set (map cat_id taxonomy)"
  shows "leaf_findings taxonomy p c True d = Inr [] \<longleftrightarrow>
     check_contract (doc_id d) (d_meta d) c = Inr [] \<and> length (d_path d) - 1 \<le> p_max_depth p
     \<and> 1 < length (d_path d) \<and> category_for (doc_id d) taxonomy = Some (hd (d_path d))"
proof (cases "category_for (doc_id d) taxonomy")
  case None
  then show ?thesis using assms(1) by (auto simp: leaf_findings_def res_simps)
next
  case (Some cat)
  have "cat \<in> set (map cat_id taxonomy)" using Some by (rule category_for_member)
  moreover from this have "cat \<noteq> []" "cat \<noteq> ''(root)''" using assms(2,3) by metis+
  ultimately show ?thesis
    using Some by (auto simp: leaf_findings_def placement_def Let_def res_simps not_less split: sum.splits if_splits)
qed

lemma check_pin_nil: "check_pin cat j rule = [] \<longleftrightarrow> length (filter (\<lambda>k. k \<in> set (dkeys rule)) pin_matchers) = 1"
  by (cases "filter (\<lambda>k. k \<in> set (dkeys rule)) pin_matchers") (auto simp: check_pin_def Let_def)

lemma check_pins_nil:
  "check_pins taxonomy = [] \<longleftrightarrow> (\<forall>cat\<in>set taxonomy. \<forall>rule\<in>set (cat_pins cat).
     length (filter (\<lambda>k. k \<in> set (dkeys rule)) pin_matchers) = 1)"
proof -
  have "(\<forall>(j, r)\<in>set (enumerate n rs). check_pin cat j r = []) \<longleftrightarrow>
      (\<forall>r\<in>set rs. length (filter (\<lambda>k. k \<in> set (dkeys r)) pin_matchers) = 1)" for n cat rs
    by (induction rs arbitrary: n) (auto simp: check_pin_nil)
  then show ?thesis by (auto simp: check_pins_def concat_eq_Nil_conv split_beta)
qed

text \<open>
  C29: what exit code 0 of the layout check means. With unpinned leaves rejected, and categories
  named neither by the empty string nor \<open>(root)\<close>, the check of a wiki passes if and only if
  each pin has exactly one matcher, each leaf meets its contract and lies in the top folder of the
  category its id is pinned to, no deeper than the policy allows, and no folder has more children
  than allowed. Two points are not as documented: \<^verbatim>\<open>LAYOUT-TAXONOMY\<close> stands, by the docstring, for a top-level
  directory outside of the taxonomy, but only the directories of leaves are looked at, so one without a leaf
  passes (the witness has one); and the category is that of the first rule that matches in the order of
  the taxonomy, while \<^verbatim>\<open>reviewers.layout.yaml\<close> says that an id goes before a prefix and a prefix before a
  glob (lemma \<^verbatim>\<open>earlier_prefix_wins\<close>).
\<close>

theorem layout_passes_iff:
  assumes "p_reject_unpinned p" "[] \<notin> set (map cat_id taxonomy)" "''(root)'' \<notin> set (map cat_id taxonomy)"
  shows "validate_layout taxonomy p c True False dirs docs = Inr 0 \<longleftrightarrow>
     (\<forall>cat\<in>set taxonomy. \<forall>rule\<in>set (cat_pins cat). length (filter (\<lambda>k. k \<in> set (dkeys rule)) pin_matchers) = 1)
     \<and> (\<forall>d\<in>set (leaf_files docs). check_contract (doc_id d) (d_meta d) c = Inr []
          \<and> length (d_path d) - 1 \<le> p_max_depth p
          \<and> 1 < length (d_path d) \<and> category_for (doc_id d) taxonomy = Some (hd (d_path d)))
     \<and> (\<forall>(name, children)\<in>set dirs.
          length (filter (\<lambda>x. x \<noteq> ''index.md'' \<and> \<not> prefix ''.'' x) children) \<le> p_fanout_hard_max p)"
proof -
  have "validate_layout taxonomy p c True False dirs docs = Inr 0 \<longleftrightarrow> layout_findings taxonomy p c True dirs docs = Inr []"
    by (auto simp: validate_layout_def res_simps split: if_splits)
  moreover have "fanout p dir = [] \<longleftrightarrow> (case dir of (name, children) \<Rightarrow>
      length (filter (\<lambda>x. x \<noteq> ''index.md'' \<and> \<not> prefix ''.'' x) children) \<le> p_fanout_hard_max p)" for dir
    by (cases dir) (simp add: fanout_def Let_def not_less)
  ultimately show ?thesis
    by (simp only: layout_findings_nil check_pins_nil leaf_findings_nil [OF assms])
qed

definition small_taxonomy :: "category list" where
  "small_taxonomy = [\<lparr>cat_id = ''security'', cat_pins = [[(''id_prefix'', ''sec-'')], [(''id'', ''crypto'')]]\<rparr>,
     \<lparr>cat_id = ''languages'', cat_pins = [[(''id_glob'', ''lang-*'')]]\<rparr>]"

definition small_policy :: policy where
  "small_policy = \<lparr>p_reject_unpinned = True, p_max_depth = 2, p_fanout_hard_max = 2\<rparr>"

definition tls_leaf :: leaf_doc where
  "tls_leaf = \<lparr>d_path = [''security'', ''tls'', ''sec-tls.md''],
     d_meta = [(''id'', VStr ''sec-tls''), (''type'', VStr ''primary''), (''focus'', VStr ''tls''), (''covers'', VList [VStr ''certs'']),
       (''dimensions'', VList [VStr ''security'']), (''audit_surface'', VList [VStr ''keys'']), (''languages'', VStr ''all''),
       (''tags'', VList [VStr ''tls'']), (''activation'', VDict [(''file_globs'', VList [VStr ''**/*.pem''])])],
     d_body = ''# TLS''\<rparr>"

text \<open>One leaf at the greatest depth allowed, as many children as allowed, and a directory without a leaf outside of the taxonomy.\<close>

definition small_dirs :: "(string \<times> string list) list" where
  "small_dirs = [(''.'', [''security'', ''misc'', ''index.md'', ''.llmwiki'']), (''security'', [''tls'', ''index.md'']),
     (''security/tls'', [''sec-tls.md'']), (''misc'', [])]"

theorem layout_passes_iff_witness:
  "validate_layout small_taxonomy small_policy leaf_contract True False small_dirs [tls_leaf] = Inr 0
   \<and> leaf_files [tls_leaf] = [tls_leaf] \<and> ''misc'' \<notin> set (map cat_id small_taxonomy)"
proof -
  have pins: "\<forall>cat\<in>set small_taxonomy. \<forall>rule\<in>set (cat_pins cat).
      length (filter (\<lambda>k. k \<in> set (dkeys rule)) pin_matchers) = 1"
    by code_simp
  have leaf: "check_contract (doc_id tls_leaf) (d_meta tls_leaf) leaf_contract = Inr []"
      "category_for (doc_id tls_leaf) small_taxonomy = Some (hd (d_path tls_leaf))"
      "leaf_files [tls_leaf] = [tls_leaf]" "length (d_path tls_leaf) = 3"
    by code_simp+
  have dirs: "\<forall>(name, children)\<in>set small_dirs.
      length (filter (\<lambda>x. x \<noteq> ''index.md'' \<and> \<not> prefix ''.'' x) children) \<le> p_fanout_hard_max small_policy"
    by code_simp
  have "p_reject_unpinned small_policy" "[] \<notin> set (map cat_id small_taxonomy)" "''(root)'' \<notin> set (map cat_id small_taxonomy)"
    by code_simp+
  note passes = layout_passes_iff [OF this, of leaf_contract small_dirs "[tls_leaf]"]
  have "validate_layout small_taxonomy small_policy leaf_contract True False small_dirs [tls_leaf] = Inr 0"
    unfolding passes leaf(3) using pins dirs leaf(1,2,4) by (simp add: small_policy_def)
  moreover have "''misc'' \<notin> set (map cat_id small_taxonomy)" by code_simp
  ultimately show ?thesis using leaf(3) by simp
qed

text \<open>A prefix of an earlier category takes a leaf from the id of a later one.\<close>

lemma earlier_prefix_wins:
  "category_for ''sec-tls'' [\<lparr>cat_id = ''security'', cat_pins = [[(''id_prefix'', ''sec-'')]]\<rparr>,
     \<lparr>cat_id = ''transport'', cat_pins = [[(''id'', ''sec-tls'')]]\<rparr>] = Some ''security''"
  by code_simp

subsection \<open>Drift is the difference of the contents\<close>

text \<open>The names of \<^verbatim>\<open>sorted\<close> are those of the list.\<close>

lemma sort_nil [simp]: "sort xs = [] \<longleftrightarrow> xs = []"
  by (metis set_empty set_sort)

lemma no_drift_iff:
  "check_wiki_drift wiki (Some new) = 0 \<longleftrightarrow> map_of (content_files wiki) = map_of (content_files new)"
proof -
  let ?a = "content_files wiki" and ?b = "content_files new"
  have "check_wiki_drift wiki (Some new) = 0 \<longleftrightarrow>
      stale (drift_of ?a ?b) = [] \<and> absent (drift_of ?a ?b) = [] \<and> changed (drift_of ?a ?b) = []"
    by (simp add: check_wiki_drift_def Let_def)
  also have "\<dots> \<longleftrightarrow> (\<forall>k. map_of ?a k \<noteq> None \<longrightarrow> map_of ?b k \<noteq> None) \<and> (\<forall>k. map_of ?b k \<noteq> None \<longrightarrow> map_of ?a k \<noteq> None)
      \<and> (\<forall>k. map_of ?a k \<noteq> None \<and> map_of ?b k \<noteq> None \<longrightarrow> map_of ?a k = map_of ?b k)"
    unfolding drift_of_def drift.simps sort_nil filter_empty_conv set_map map_of_None_iff Ball_def by blast
  also have "\<dots> \<longleftrightarrow> map_of ?a = map_of ?b" by (metis ext)
  finally show ?thesis .
qed

end
