(* ===== verification/CommandLine.thy ===== *)
theory CommandLine
  imports Review Dispatchers Panel Contracts EmitStdout
begin

section \<open>The command line and the installation\<close>

text \<open>
  \<^verbatim>\<open>cli.py\<close>, the command that runs a review and prints its summary, \<^verbatim>\<open>install.py\<close>, which registers the
  specification and the inline handlers with the engine, and the table \<^verbatim>\<open>INLINE_HANDLERS\<close> of \<^verbatim>\<open>handlers.py\<close>,
  through which the engine finds the handlers of the other theories. The engine, the file system and
  the parser of arguments are arguments.
\<close>

subsection \<open>The table of handlers\<close>

text \<open>What the handlers take from outside of the environment.\<close>

record externals =
  ex_files :: "wiki_file list"
  ex_git :: git_cmd
  ex_skill_root :: string
  ex_embed :: embedder
  ex_load :: frontmatter_reader
  ex_now :: string
  ex_wiki_total :: nat
  ex_cwd :: string
  ex_run_uuid :: string
  ex_read :: "string \<Rightarrow> string option"
  ex_is_tty :: bool

text \<open>The effect of a handler: the files it writes, standard output and error, the outputs.\<close>

type_synonym inline_effect = "(string \<times> string) list \<times> (string \<times> string) \<times> dict res"

definition silent :: "dict res \<Rightarrow> inline_effect" where
  "silent r = ([], ([], []), r)"

definition writing :: "(string \<times> string) list \<times> dict res \<Rightarrow> inline_effect" where
  "writing wr = (fst wr, ([], []), snd wr)"

definition printing :: "(string \<times> string) \<times> dict res \<Rightarrow> inline_effect" where
  "printing pr = ([], fst pr, snd pr)"

type_synonym inline_registry = "(string \<times> (dict \<Rightarrow> inline_effect)) list"

definition inline_handlers :: "externals \<Rightarrow> inline_registry" where
  "inline_handlers ex =
     [(''risk_tier_triage'', silent \<circ> handle_risk_tier_triage),
      (''activate_leaves'', silent \<circ> handle_activate_leaves (ex_files ex) (ex_git ex) (ex_skill_root ex)),
      (''plan_specialist_batches'', silent \<circ> handle_plan_specialist_batches),
      (''merge_specialist_outputs'', writing \<circ> handle_merge_specialist_outputs (ex_skill_root ex)),
      (''collect_findings'', silent \<circ> handle_collect_findings (ex_embed ex)),
      (''verify_coverage'', silent \<circ> handle_verify_coverage (ex_load ex)),
      (''synthesize_release_readiness'', silent \<circ> handle_synthesize_release_readiness),
      (''write_run_directory'',
         writing \<circ> handle_write_run_directory (ex_now ex) (ex_skill_root ex) (ex_wiki_total ex) (ex_cwd ex) (ex_run_uuid ex)),
      (''emit_stdout'', printing \<circ> handle_emit_stdout (ex_read ex) (ex_is_tty ex) (ex_cwd ex)),
      (''short_circuit_exit'', silent \<circ> handle_short_circuit_exit),
      (''stage_a_empty'', silent \<circ> handle_stage_a_empty),
      (''verifier_stuck'', silent \<circ> handle_verifier_stuck)]"

subsection \<open>The review command\<close>

record review_args =
  ra_repo :: string
  ra_base :: string
  ra_head :: string
  ra_run_dir :: string
  ra_backend :: string
  ra_max_workers :: int
  ra_min_workers :: int
  ra_tools :: string
  ra_clean :: bool

text \<open>The options that may be left out, with their defaults.\<close>

definition default_args :: "string \<Rightarrow> string \<Rightarrow> string \<Rightarrow> string \<Rightarrow> review_args" where
  "default_args repo base head run_dir = \<lparr>ra_repo = repo, ra_base = base, ra_head = head, ra_run_dir = run_dir,
     ra_backend = ''claude'', ra_max_workers = 8, ra_min_workers = 1, ra_tools = ''silent'', ra_clean = False\<rparr>"

definition backend_names :: "string list" where
  "backend_names = [''claude'', ''codex'', ''cursor'', ''anthropic'', ''openai'']"

text \<open>\<open>resolve\<close> is \<^verbatim>\<open>Path.resolve\<close>.\<close>

definition artefact_root :: "(string \<Rightarrow> string) \<Rightarrow> review_args \<Rightarrow> string" where
  "artefact_root resolve a = path_join (resolve (ra_run_dir a)) ''.skill-code-review''"

definition review_input :: "(string \<Rightarrow> string) \<Rightarrow> review_args \<Rightarrow> dict" where
  "review_input resolve a =
     [(''project_root'', VStr (resolve (ra_repo a))), (''storage_root'', VStr (artefact_root resolve a)),
      (''base'', VStr (ra_base a)), (''head'', VStr (ra_head a))]
     @ (if ra_tools a \<noteq> [] then [(''tools'', VStr (ra_tools a))] else [])"

definition review_config :: "review_args \<Rightarrow> run_config" where
  "review_config a = \<lparr>cf_max_workers = ra_max_workers a, cf_min_workers = ra_min_workers a, cf_max_retries = 2, cf_base_backoff = 1\<rparr>"

text \<open>
  \<open>agent_of\<close> gives for a repository and a backend what \<^verbatim>\<open>make_dispatchers\<close> closes over; the two hooks
  of the runner are those of theory \<open>Dispatchers\<close>.
\<close>

definition command_agent :: "(string \<Rightarrow> string \<Rightarrow> 'w agent) \<Rightarrow> (string \<Rightarrow> string) \<Rightarrow> review_args \<Rightarrow> 'w agent" where
  "command_agent agent_of resolve a = (agent_of (resolve (ra_repo a)) (ra_backend a))\<lparr>ag_base := ra_base a, ag_head := ra_head a\<rparr>"

definition command_runtime :: "'w runtime \<Rightarrow> 'w agent \<Rightarrow> 'w runtime" where
  "command_runtime engine ag = engine\<lparr>rt_worker := worker_hook ag, rt_specialist := specialist_hook ag\<rparr>"

text \<open>\<^verbatim>\<open>vars(res.stats)\<close>, in the order of the fields.\<close>

definition stats_vars :: "runner_stats \<Rightarrow> int \<Rightarrow> stage_row list \<Rightarrow> dict" where
  "stats_vars st wall stages =
     [(''dispatched'', VInt (int (dispatched st))), (''failed'', VInt (int (failed st))), (''retries'', VInt (int (retries st))),
      (''rate_limit_events'', VInt (int (rate_limit_events st))), (''overflow_splits'', VInt (int (overflow_splits st))),
      (''min_concurrency_seen'', VInt (min_concurrency_seen st)), (''max_concurrency_seen'', VInt (max_concurrency_seen st)),
      (''coverage_floor_used'', VInt (int (coverage_floor_used st))), (''degraded_workers'', VInt (int (degraded_workers st))),
      (''total_wall_ms'', VInt wall), (''stage_timings'', VList (map stage_val stages)),
      (''total_in_tokens'', VInt (total_in_tokens st)), (''total_out_tokens'', VInt (total_out_tokens st)),
      (''total_cost_usd'', VFloat (total_cost_usd st)), (''total_est_cost'', VFloat (total_est_cost st))]"

definition review_summary :: "run_result \<Rightarrow> int \<Rightarrow> 'w review_state \<Rightarrow> dict res" where
  "review_summary r wall s = bindE (py_len (rr_findings r)) (\<lambda>n. Inr
     [(''faulted'', VBool (rr_fault r \<noteq> None)), (''fault'', (case rr_fault r of None \<Rightarrow> VNone | Some f \<Rightarrow> VStr f)),
      (''verdict'', rr_verdict r), (''run_dir_path'', rr_run_dir_path r), (''n_findings'', VInt (int n)),
      (''stats'', VDict (stats_vars (rs_stats (rv_run s)) wall (rv_stages s)))])"

text \<open>\<open>wipe\<close> removes the artefacts of earlier runs. The result: standard output and the exit code.\<close>

definition cmd_review ::
  "(string \<Rightarrow> string) \<Rightarrow> (string \<Rightarrow> 'w \<Rightarrow> 'w) \<Rightarrow> (string \<Rightarrow> string \<Rightarrow> 'w agent) \<Rightarrow> 'w runtime \<Rightarrow> review_args \<Rightarrow> 'w \<Rightarrow> (string \<times> nat) res" where
  "cmd_review resolve wipe agent_of engine a w =
     (let w' = (if ra_clean a then wipe (artefact_root resolve a) w else w);
          rt = command_runtime engine (command_agent agent_of resolve a)
      in bindE (run_review rt (review_config a) (review_input resolve a) w') (\<lambda>(r, wall, s).
         bindE (review_summary r wall s) (\<lambda>summary.
         Inr (json_indented (VDict summary) @ [newline], if rr_fault r \<noteq> None then 2 else 0))))"

text \<open>\<^verbatim>\<open>main\<close>: the parser refuses an unknown backend with exit code 2.\<close>

definition main_review ::
  "(string \<Rightarrow> string) \<Rightarrow> (string \<Rightarrow> 'w \<Rightarrow> 'w) \<Rightarrow> (string \<Rightarrow> string \<Rightarrow> 'w agent) \<Rightarrow> 'w runtime \<Rightarrow> review_args \<Rightarrow> 'w \<Rightarrow> (string \<times> nat) res" where
  "main_review resolve wipe agent_of engine a w =
     (if ra_backend a \<notin> set backend_names then Inr ([], 2) else cmd_review resolve wipe agent_of engine a w)"

subsection \<open>Installation\<close>

text \<open>\<open>resolve\<close> expands the home directory too.\<close>

definition resolve_db_path :: "(string \<Rightarrow> string) \<Rightarrow> string option \<Rightarrow> string option \<Rightarrow> string \<Rightarrow> string" where
  "resolve_db_path resolve project_db env_db cwd = (case project_db of
     Some p \<Rightarrow> resolve p
   | None \<Rightarrow> (case env_db of
       None \<Rightarrow> resolve (path_join (path_join cwd ''.ctxr-fsm'') ''fsm.db'')
     | Some e \<Rightarrow> if e \<noteq> [] then resolve e else resolve (path_join (path_join cwd ''.ctxr-fsm'') ''fsm.db'')))"

definition below :: "string \<Rightarrow> string \<Rightarrow> bool" where
  "below path base_dir \<longleftrightarrow> path = base_dir \<or> (base_dir = ''/'' \<and> prefix ''/'' path) \<or> prefix (base_dir @ ''/'') path"

definition portable_repr :: "string \<Rightarrow> string \<Rightarrow> string \<Rightarrow> string" where
  "portable_repr home base_dir path =
     (if below path base_dir then relative_to base_dir path
      else if below path home then ''~/'' @ relative_to home path else path)"

text \<open>
  The engine's record of a specification, and the state of a process: the database, the registered
  handlers by specification, and the verifier of theory \<open>Panel\<close>. \<open>register_spec\<close> is the engine's, \<open>None\<close>
  where it raises.
\<close>

record spec_row =
  sr_slug :: string
  sr_version :: int
  sr_created :: bool

record 'd process =
  pr_db :: 'd
  pr_handlers :: "(string \<times> inline_registry) list"
  pr_verifier :: install_state

definition spec_id :: string where "spec_id = ''code-reviewer''"

definition register_many :: "string \<Rightarrow> inline_registry \<Rightarrow> (string \<times> inline_registry) list \<Rightarrow> (string \<times> inline_registry) list" where
  "register_many sid hs reg = dset sid (dmerge (case map_of reg sid of None \<Rightarrow> [] | Some old \<Rightarrow> old) hs) reg"

definition envelope :: "spec_row \<Rightarrow> string \<Rightarrow> nat \<Rightarrow> dict" where
  "envelope row db n = [(''spec_id'', VStr (sr_slug row)), (''spec_version'', VInt (sr_version row)),
     (''spec_created'', VBool (sr_created row)), (''handlers_registered'', VInt (int n)), (''db_path'', VStr db)]"

text \<open>\<open>explain\<close> gives the message of an exception.\<close>

definition register ::
  "(pyerr \<Rightarrow> string) \<Rightarrow> (string \<Rightarrow> 'd \<Rightarrow> (string + spec_row \<times> 'd)) \<Rightarrow> 'w dispatcher option res \<Rightarrow> externals \<Rightarrow> (string \<Rightarrow> string) \<Rightarrow> string \<Rightarrow> string
     \<Rightarrow> string option \<Rightarrow> string option \<Rightarrow> 'd process \<Rightarrow> (string + dict) \<times> 'd process" where
  "register explain register_spec found ex resolve home cwd project_db env_db p =
     (let db_path = resolve_db_path resolve project_db env_db cwd in
      case register_spec db_path (pr_db p) of
        Inl message \<Rightarrow> (Inl message, p)
      | Inr (row, db) \<Rightarrow>
          (let p1 = p\<lparr>pr_db := db, pr_handlers := register_many spec_id (inline_handlers ex) (pr_handlers p)\<rparr>;
               (r, v) = install_verifier_handler found (pr_verifier p1); p2 = p1\<lparr>pr_verifier := v\<rparr>
           in case r of
                Inl e \<Rightarrow> (Inl (explain e), p2)
              | Inr _ \<Rightarrow> (Inr (envelope row (portable_repr home cwd db_path) (length (inline_handlers ex))), p2)))"

text \<open>\<^verbatim>\<open>main\<close>: standard output, standard error and the exit code. The envelope is printed with sorted keys.\<close>

definition install_main ::
  "(pyerr \<Rightarrow> string) \<Rightarrow> (string \<Rightarrow> 'd \<Rightarrow> (string + spec_row \<times> 'd)) \<Rightarrow> 'w dispatcher option res \<Rightarrow> externals \<Rightarrow> (string \<Rightarrow> string) \<Rightarrow> string \<Rightarrow> string
     \<Rightarrow> string option \<Rightarrow> 'd process \<Rightarrow> (string \<times> string \<times> nat) \<times> 'd process" where
  "install_main explain register_spec found ex resolve home cwd env_db p =
     (case register explain register_spec found ex resolve home cwd None env_db p of
        (Inl message, p') \<Rightarrow> (([], ''register failed: '' @ message @ [newline], 1), p')
      | (Inr env, p') \<Rightarrow> ((json_dumps (VDict env) @ [newline], [], 0), p'))"

subsection \<open>The table and the specification\<close>

lemma handler_ids: "dkeys (inline_handlers ex) = [''risk_tier_triage'', ''activate_leaves'', ''plan_specialist_batches'',
    ''merge_specialist_outputs'', ''collect_findings'', ''verify_coverage'', ''synthesize_release_readiness'',
    ''write_run_directory'', ''emit_stdout'', ''short_circuit_exit'', ''stage_a_empty'', ''verifier_stuck'']"
  by (simp add: inline_handlers_def)

text \<open>Each handler that a state of the specification names is in the table, once, and no other.\<close>

lemma inline_handlers_complete:
  "distinct (dkeys (inline_handlers ex)) \<and> set (dkeys (inline_handlers ex)) = set get_handler_ids"
proof -
  have "get_handler_ids = dkeys (inline_handlers ex)"
    unfolding handler_ids by (simp add: get_handler_ids_def spec_states_def state_defs List.map_filter_simps)
  moreover have "distinct (dkeys (inline_handlers ex))" unfolding handler_ids by simp
  ultimately show ?thesis by simp
qed

subsection \<open>What the command reports\<close>

lemma engine_ok_command: "engine_ok (command_runtime engine ag) = engine_ok engine"
  by (simp add: engine_ok_def command_runtime_def)

text \<open>
  C33: what the command prints is the run. With an engine that follows the declared transitions and one of the
  known backends, a run that returns makes the command print one JSON object, if its summary can be built (the
  findings have a length) and printed (its text is well formed): read back, it is that summary, and the command
  exits with 0 or 2: with 0 exactly when there was no fault, and then the run stood in the terminal state
  and the verdict and the number of findings printed are those committed there; with 2 otherwise,
  with the fault, which is never a lack of steps.
\<close>

theorem review_command_reports:
  assumes "engine_ok engine" "ra_backend a \<in> set backend_names"
    and "run_review (command_runtime engine (command_agent agent_of resolve a)) (review_config a) (review_input resolve a)
           (if ra_clean a then wipe (artefact_root resolve a) w else w) = Inr (r, wall, s)"
    and "review_summary r wall s = Inr v" "json_ok (VDict v)"
  shows "\<exists>out code. main_review resolve wipe agent_of engine a w = Inr (out, code) \<and> json_loads out = Some (VDict v)
    \<and> (code = 0 \<or> code = 2) \<and> dget v ''faulted'' = VBool (code = 2)
    \<and> (code = 0 \<longrightarrow> rv_state s = ''terminal'' \<and> dget v ''verdict'' = dget (rv_env s) ''verdict''
          \<and> (\<exists>n. py_len (dget_or (rv_env s) ''findings'' (VList [])) = Inr n \<and> dget v ''n_findings'' = VInt (int n)))
    \<and> (code = 2 \<longrightarrow> (\<exists>f. dget v ''fault'' = VStr f \<and> f \<noteq> ''max_steps_exceeded''))"
proof -
  let ?code = "if rr_fault r \<noteq> None then 2 else 0 :: nat" and ?out = "json_indented (VDict v) @ [newline]"
  have run: "main_review resolve wipe agent_of engine a w = Inr (?out, ?code)"
    using assms(2,3,4) by (simp add: main_review_def cmd_review_def Let_def)
  have printed: "json_loads ?out = Some (VDict v)"
    unfolding json_indented_def by (rule json_loads_printed [OF assms(5)]) (simp add: json_ws_def)
  have ends: "\<not> out_of_steps r \<and> (rr_fault r = None \<longrightarrow> rv_state s = ''terminal''
      \<and> rr_verdict r = dget (rv_env s) ''verdict'' \<and> rr_findings r = dget_or (rv_env s) ''findings'' (VList []))"
    using run_review_ends [OF _ assms(3)] assms(1) by (simp add: engine_ok_command)
  obtain n where n: "py_len (rr_findings r) = Inr n" and v: "dget v ''faulted'' = VBool (rr_fault r \<noteq> None)"
      "dget v ''fault'' = (case rr_fault r of None \<Rightarrow> VNone | Some f \<Rightarrow> VStr f)" "dget v ''verdict'' = rr_verdict r"
      "dget v ''n_findings'' = VInt (int n)"
    using assms(4) by (auto simp: review_summary_def res_simps)
  show ?thesis
  proof (cases "rr_fault r")
    case None
    then show ?thesis using run printed ends n v by auto
  next
    case (Some f)
    then show ?thesis using run printed ends v by (auto simp: out_of_steps_def)
  qed
qed

definition busy_agent :: "unit agent" where
  "busy_agent = \<lparr>ag_run = (\<lambda>prompt tier w. (Inl (Signal (SignalRateLimit ''busy'')), w)), ag_prompt = (\<lambda>_. []), ag_leaf = (\<lambda>_. None),
     ag_wall_ms = (\<lambda>_ _. 7), ag_base = ''main'', ag_head = ''HEAD''\<rparr>"

theorem review_command_reports_witness:
  "\<exists>out v. main_review id (\<lambda>_ w. w) (\<lambda>_ _. busy_agent) quick_runtime (default_args ''/r'' ''a'' ''b'' ''/o'') () = Inr (out, 2)
     \<and> json_loads out = Some (VDict v) \<and> dget v ''faulted'' = VBool True"
proof -
  let ?a = "default_args ''/r'' ''a'' ''b'' ''/o''"
  let ?rt = "command_runtime quick_runtime (command_agent (\<lambda>_ _. busy_agent) id ?a)"
  have scan: "state_of ''scan_project'' = Some st_scan_project" by (simp add: state_of_def spec_states_def state_defs)
  have ok: "engine_ok quick_runtime" by (simp add: engine_ok_def quick_runtime_def)
  have hook: "rt_worker ?rt ''scan_project'' inputs w = (RaiseRateLimit, w)" for inputs w
    by (simp add: command_runtime_def worker_hook_def dispatch_worker_def dispatch_plain_worker_def role_by_state_def
        call_agent_def command_agent_def busy_agent_def Let_def answer_of_def)
  have turn: "\<exists>s1. review_turn ?rt (review_config ?a) (review_init ?rt (review_config ?a) (review_input id ?a) ())
      = Inr (Finished (faulted ''worker:scan_project:RateLimitError'') s1)
      \<and> rv_stages s1 = [\<lparr>sg_scope = ''worker'', sg_name = ''scan_project'', sg_iteration = None, sg_wall_ms = 0\<rparr>]
      \<and> rs_stats (rv_run s1) = stats_init\<lparr>rate_limit_events := 3\<rparr>"
  proof -
    have now: "rt_now ?rt = (\<lambda>w. (0, w))" by (simp add: command_runtime_def quick_runtime_def)
    have cf: "cf_max_retries (review_config ?a) = 2" "cf_base_backoff (review_config ?a) = 1" by (simp_all add: review_config_def)
    have degraded: "degradable_worker ''scan_project'' = None" by (simp add: degradable_worker_def)
    show ?thesis
      by (simp add: review_init_def review_turn_def entry_state_def scan st_scan_project_def state_step_def worker_step_def
          call_worker_resilient.simps hook now cf degraded read_clock_def record_stage_def Let_def exception_name_def
          pause_def elapsed_ms_def stats_init_def PyValue.truncate_def)
  qed
  then obtain s1 where s1: "review_turn ?rt (review_config ?a) (review_init ?rt (review_config ?a) (review_input id ?a) ())
      = Inr (Finished (faulted ''worker:scan_project:RateLimitError'') s1)"
      "rv_stages s1 = [\<lparr>sg_scope = ''worker'', sg_name = ''scan_project'', sg_iteration = None, sg_wall_ms = 0\<rparr>]"
      "rs_stats (rv_run s1) = stats_init\<lparr>rate_limit_events := 3\<rparr>" by blast
  have steps: "max_steps = Suc 511" by (simp add: max_steps_def)
  have "review_loop ?rt (review_config ?a) max_steps (review_init ?rt (review_config ?a) (review_input id ?a) ())
      = Inr (faulted ''worker:scan_project:RateLimitError'', s1)"
    unfolding steps review_loop.simps(2) s1(1) by simp
  then obtain wall s where run: "run_review ?rt (review_config ?a) (review_input id ?a) () = Inr (faulted ''worker:scan_project:RateLimitError'', wall, s)"
      and s: "rv_stages s = rv_stages s1" "rs_stats (rv_run s) = rs_stats (rv_run s1)"
    by (auto simp: run_review_def read_clock_def split_beta Let_def)
  obtain v where v: "review_summary (faulted ''worker:scan_project:RateLimitError'') wall s = Inr v" "json_ok (VDict v)"
      "dget v ''faulted'' = VBool True"
    by (simp add: review_summary_def faulted_def py_len_def json_ok_VDict stats_vars_def s s1 stats_init_def stage_val_def opt_int_def
        text_ok_ascii float_ok_def float_limit_def)
  have "ra_backend ?a \<in> set backend_names" by (simp add: default_args_def backend_names_def)
  have run': "run_review ?rt (review_config ?a) (review_input id ?a) (if ra_clean ?a then () else ())
      = Inr (faulted ''worker:scan_project:RateLimitError'', wall, s)" by (simp only: if_cancel run)
  note reports = review_command_reports [of quick_runtime ?a "\<lambda>_ _. busy_agent" id "\<lambda>_ w. w" "()"
      "faulted ''worker:scan_project:RateLimitError''" wall s v]
  from reports [OF ok \<open>ra_backend ?a \<in> _\<close> run' v(1,2)]
  obtain out code where out: "main_review id (\<lambda>_ w. w) (\<lambda>_ _. busy_agent) quick_runtime ?a () = Inr (out, code)"
      "json_loads out = Some (VDict v)" "dget v ''faulted'' = VBool (code = 2)" by blast
  then have "code = 2" using v(3) by simp
  with out v(3) show ?thesis by blast
qed

subsection \<open>Registering twice\<close>

lemma update_same: "map_of d k = Some v \<Longrightarrow> dset k v d = d"
  by (induction d) auto

lemma dmerge_same: "\<forall>(k, v)\<in>set hs. map_of d k = Some v \<Longrightarrow> dmerge d hs = d"
  by (induction hs) (auto simp: dmerge_def update_same)

lemma register_many_twice:
  assumes "distinct (dkeys hs)"
  shows "register_many sid hs (register_many sid hs reg) = register_many sid hs reg"
proof -
  let ?old = "case map_of reg sid of None \<Rightarrow> [] | Some old \<Rightarrow> old"
  have "map_of (dmerge ?old hs) k = Some v" if "(k, v) \<in> set hs" for k v
    using that assms by (simp add: map_of_dmerge)
  then have "dmerge (dmerge ?old hs) hs = dmerge ?old hs" by (intro dmerge_same) auto
  then show ?thesis by (simp add: register_many_def update_same)
qed

text \<open>
  Registration is idempotent: where the engine's record of specifications is addressed by content, a
  second registration leaves the process as the first one left it, and its envelope says that
  nothing was created.
\<close>

lemma register_twice:
  assumes "\<And>d row d'. register_spec (resolve_db_path resolve project_db env_db cwd) d = Inr (row, d') \<Longrightarrow>
      register_spec (resolve_db_path resolve project_db env_db cwd) d' = Inr (row\<lparr>sr_created := False\<rparr>, d')"
    and "register explain register_spec found ex resolve home cwd project_db env_db p = (Inr env, p')"
  shows "register explain register_spec found ex resolve home cwd project_db env_db p'
    = (Inr (dset ''spec_created'' (VBool False) env), p')"
proof -
  let ?db = "resolve_db_path resolve project_db env_db cwd"
  obtain row db where row: "register_spec ?db (pr_db p) = Inr (row, db)"
    using assms(2) by (auto simp: register_def Let_def split: sum.splits)
  obtain b v where v: "install_verifier_handler found (pr_verifier p) = (Inr b, v)"
    and p': "p' = p\<lparr>pr_db := db, pr_handlers := register_many spec_id (inline_handlers ex) (pr_handlers p), pr_verifier := v\<rparr>"
    and env: "env = envelope row (portable_repr home cwd ?db) (length (inline_handlers ex))"
    using assms(2) row by (auto simp: register_def Let_def split: sum.splits prod.splits)
  have again: "install_verifier_handler found v = (Inr b, v)"
    using v by (auto simp: install_verifier_handler_def split: sum.splits option.splits if_splits)
  have "distinct (dkeys (inline_handlers ex))" by (simp add: handler_ids)
  then show ?thesis
    using assms(1) [OF row] again
    by (simp add: register_def Let_def p' env envelope_def register_many_twice)
qed

end
