(* ===== verification/Ledger.thy ===== *)
theory Ledger
  imports Tracker Telemetry Judging
begin

section \<open>The reports of the tracker\<close>

text \<open>
  The read-only half of \<^verbatim>\<open>benchmarks/experiments.py\<close>: the ledger of dead ends and its guard \<^verbatim>\<open>check\<close>, the
  ranking of the slowest stages, the comparison of two runs, and the three Markdown views. The
  tables are lists of rows in the order of their insertion; where SQL leaves the order of rows open the
  model takes this order. The columns hold what their types declare: numbers or null in those of
  numbers. The clock is an argument.
\<close>

subsection \<open>Dead ends\<close>

text \<open>\<^verbatim>\<open>s.split()\<close>: the runs of characters that are not white space.\<close>

fun words_from :: "string \<Rightarrow> string \<Rightarrow> string list" where
  "words_from cur [] = (if cur = [] then [] else [rev cur])"
| "words_from cur (c # cs) =
     (if is_space c then (if cur = [] then [] else [rev cur]) @ words_from [] cs else words_from (c # cur) cs)"

definition words :: "string \<Rightarrow> string list" where
  "words s = words_from [] s"

definition normal_text :: "string \<Rightarrow> string" where
  "normal_text s = join '' '' (words (lower s))"

definition hypothesis_hash :: "string \<Rightarrow> string \<Rightarrow> string" where
  "hypothesis_hash hypothesis lever = sha256_hexdigest (normal_text hypothesis @ [CHR 0x00] @ normal_text lever)"

definition dead_end_columns :: "string list" where
  "dead_end_columns = [''hypothesis_hash'', ''lever'', ''pr_set_id'', ''summary'', ''why_failed'', ''retry_at_pr_set'']"

definition upsert_dead_end :: "dict \<Rightarrow> dict list \<Rightarrow> dict list res" where
  "upsert_dead_end row table = insert_row [''hypothesis_hash''] [] (map (\<lambda>c. (c, dget row c)) dead_end_columns) table"

definition nl :: "string list \<Rightarrow> string" where
  "nl ls = concat (map (\<lambda>l. l @ [newline]) ls)"

text \<open>A value with its stand-in: \<^verbatim>\<open>d.get(k) or 'n/a'\<close>, printed.\<close>

definition shown_or :: "string \<Rightarrow> dict \<Rightarrow> string \<Rightarrow> string" where
  "shown_or other d k = py_str (py_or (dget d k) (VStr other))"

definition known_here :: "nat option \<Rightarrow> nat option \<Rightarrow> bool" where
  "known_here current known = (case (current, known) of (Some c, Some k) \<Rightarrow> k \<le> c | _ \<Rightarrow> True)"

text \<open>What is printed and the exit code.\<close>

definition cmd_check :: "string \<Rightarrow> string \<Rightarrow> pyval \<Rightarrow> dict list \<Rightarrow> (string \<times> nat) res" where
  "cmd_check hypothesis lever pr_set dead_ends =
     (let h = hypothesis_hash hypothesis lever in
      case List.find (\<lambda>r. dget r ''hypothesis_hash'' = VStr h) dead_ends of
        None \<Rightarrow> Inr (nl [''OK: no known dead-end for lever '' @ [CHR 0x27] @ lever @ [CHR 0x27] @ '' (hash '' @ take 12 h @ ''). Proceed.''], 0)
      | Some d \<Rightarrow>
          bindE (pr_set_rung pr_set) (\<lambda>current. bindE (pr_set_rung (dget d ''pr_set_id'')) (\<lambda>known.
          let here = known_here current known in
          Inr (nl ([(if here then ''WARNING'' else ''NOTE'') @ '': known dead-end (hash '' @ take 12 h @ '').'',
                    ''  lever      : '' @ py_str (dget d ''lever''), ''  failed at  : '' @ py_str (dget d ''pr_set_id''),
                    ''  why        : '' @ py_str (dget d ''why_failed''), ''  summary    : '' @ py_str (dget d ''summary''),
                    ''  retry at   : '' @ shown_or ''never'' d ''retry_at_pr_set'']
                 @ (if here then [''  -> This was already a dead-end at this PR set or smaller. '' @
                      ''Pick another hypothesis unless you have a materially different change.''] else [])), 1))))"

subsection \<open>The slowest stages\<close>

record slow_row =
  sl_scope :: pyval
  sl_name :: pyval
  sl_prs :: nat
  sl_calls :: "int option"
  sl_avg :: "int option"
  sl_total :: "int option"

text \<open>An empty scope or run stands for one that is not given.\<close>

definition timing_selected :: "string \<Rightarrow> string \<Rightarrow> bool \<Rightarrow> dict \<Rightarrow> bool" where
  "timing_selected scope run_id measured_only r \<longleftrightarrow>
     (scope = [] \<or> dget r ''scope'' = VStr scope) \<and> (run_id = [] \<or> dget r ''run_id'' = VStr run_id)
   \<and> (measured_only \<longrightarrow> dget r ''status'' = VStr ''measured'')"

text \<open>\<^verbatim>\<open>SUM\<close> and \<^verbatim>\<open>ROUND(AVG(...))\<close> of a column of integers, over the values that are not null.\<close>

definition column :: "string \<Rightarrow> dict list \<Rightarrow> int list" where
  "column c rs = List.map_filter (\<lambda>r. int_of (dget r c)) rs"

definition sum_column :: "string \<Rightarrow> dict list \<Rightarrow> int option" where
  "sum_column c rs = (if column c rs = [] then None else Some (sum_list (column c rs)))"

definition round_half_away :: "rat \<Rightarrow> int" where
  "round_half_away q = (if 0 \<le> q then \<lfloor>q + 1 / 2\<rfloor> else - \<lfloor>- q + 1 / 2\<rfloor>)"

definition avg_column :: "string \<Rightarrow> dict list \<Rightarrow> int option" where
  "avg_column c rs = map_option (\<lambda>s. round_half_away (of_int s / of_nat (length (column c rs)))) (sum_column c rs)"

definition stage_key :: "dict \<Rightarrow> pyval \<times> pyval" where
  "stage_key r = (dget r ''scope'', dget r ''name'')"

definition slow_row_of :: "dict list \<Rightarrow> pyval \<times> pyval \<Rightarrow> slow_row" where
  "slow_row_of rs k = (let g = filter (\<lambda>r. stage_key r = k) rs in
     \<lparr>sl_scope = fst k, sl_name = snd k, sl_prs = card (set (map (\<lambda>r. dget r ''pr_id'') g)),
      sl_calls = sum_column ''n_calls'' g, sl_avg = avg_column ''wall_ms'' g, sl_total = sum_column ''wall_ms'' g\<rparr>)"

definition slow_order :: "slow_row \<Rightarrow> nat \<times> int" where
  "slow_order r = (case sl_total r of Some t \<Rightarrow> (0, - t) | None \<Rightarrow> (1, 0))"

definition ranked_stages :: "dict list \<Rightarrow> slow_row list" where
  "ranked_stages rs = sort_key slow_order (map (slow_row_of rs) (remdups (map stage_key rs)))"

text \<open>A negative limit is no limit.\<close>

definition slowest_timings :: "string \<Rightarrow> string \<Rightarrow> bool \<Rightarrow> int \<Rightarrow> dict list \<Rightarrow> slow_row list" where
  "slowest_timings scope run_id measured_only most timings =
     (let rs = ranked_stages (filter (timing_selected scope run_id measured_only) timings) in
      if most < 0 then rs else take (nat most) rs)"

definition opt_cell :: "int option \<Rightarrow> string" where
  "opt_cell v = (case v of None \<Rightarrow> ''n/a'' | Some i \<Rightarrow> show_int i)"

definition fill_left :: "nat \<Rightarrow> string \<Rightarrow> string" where
  "fill_left n s = replicate (n - length s) (CHR '' '') @ s"

definition fill_right :: "nat \<Rightarrow> string \<Rightarrow> string" where
  "fill_right n s = s @ replicate (n - length s) (CHR '' '')"

definition slow_line :: "slow_row \<Rightarrow> string" where
  "slow_line r = fill_right 11 (py_str (py_or (sl_scope r) (VStr []))) @ fill_right 32 (py_str (py_or (sl_name r) (VStr [])))
     @ fill_left 5 (show_nat (sl_prs r)) @ fill_left 7 (opt_cell (sl_calls r)) @ fill_left 9 (opt_cell (sl_avg r))
     @ fill_left 11 (opt_cell (sl_total r))"

definition slow_header :: string where
  "slow_header = fill_right 11 ''scope'' @ fill_right 32 ''name'' @ fill_left 5 ''prs'' @ fill_left 7 ''calls''
     @ fill_left 9 ''avg_ms'' @ fill_left 11 ''total_ms''"

definition cmd_slowest :: "string \<Rightarrow> string \<Rightarrow> bool \<Rightarrow> int \<Rightarrow> dict list \<Rightarrow> string" where
  "cmd_slowest scope run_id measured_only most timings =
     (let rs = slowest_timings scope run_id measured_only most timings; all = (\<lambda>s. if s = [] then ''all'' else s) in
      nl ([''slowest stages (scope='' @ all scope @ '', run='' @ all run_id @ '', '' @
            (if measured_only then ''measured-only'' else ''all-status'') @ '', top '' @ show_int most @ ''):'']
        @ (if rs = [] then [''  (no timing rows match)'']
           else [slow_header, replicate (length slow_header) (CHR ''-'')] @ map slow_line rs)))"

subsection \<open>Formats\<close>

text \<open>The format \<^verbatim>\<open>.nf\<close> of a float; without places there is no point.\<close>

definition float_places :: "nat \<Rightarrow> pyfloat \<Rightarrow> string" where
  "float_places n f = (case f of
     Fin q \<Rightarrow> if n = 0 then (if q < 0 then ''-'' else []) @ show_nat (nat \<bar>round_even q\<bar>) else fixed n q
   | _ \<Rightarrow> show_float f)"

definition fmt_value :: "nat \<Rightarrow> pyval \<Rightarrow> string" where
  "fmt_value places v = (case v of VNone \<Rightarrow> ''n/a'' | VFloat f \<Rightarrow> float_places places f | _ \<Rightarrow> py_str v)"

definition fmt_ci :: "pyval \<Rightarrow> pyval \<Rightarrow> string res" where
  "fmt_ci lo hi =
     (if lo = VNone \<or> hi = VNone then Inr ''n/a''
      else bindE (py_float lo) (\<lambda>l. bindE (py_float hi) (\<lambda>h. Inr (''['' @ float_places 3 l @ '', '' @ float_places 3 h @ '']''))))"

definition bar_row :: "string list \<Rightarrow> string" where
  "bar_row cells = ''| '' @ join '' | '' cells @ '' |''"

definition rung_cell :: "string \<Rightarrow> nat option \<Rightarrow> string" where
  "rung_cell other r = (case r of None \<Rightarrow> other | Some n \<Rightarrow> show_nat n)"

definition do_not_edit :: string where
  "do_not_edit = ''<!-- GENERATED by benchmarks/experiments.py. DO NOT EDIT BY HAND. -->'' @ [newline] @
     ''<!-- Regenerate with: uv run python benchmarks/experiments.py {state|history|leaderboard} --apply -->'' @ [newline]"

definition cost_proxy_note :: string where
  "cost_proxy_note = ''> $/review is a PROXY for relative lever comparison (GATE-5: candidate cost <= 1.25x baseline), NEVER billed spend. '' @
     ''Under the flat claude -p subscription no per-review dollar is billed; the figure is a list-price imputation from one '' @
     ''identical estimator. Systematic estimator bias cancels in the ratio ONLY when baseline and candidate share the same '' @
     ''telemetry path (both live-usage, or both char-estimate): never mix a retroactive char-estimate baseline with live-usage '' @
     ''candidates. See code_review/cost.py.''"

subsection \<open>The views\<close>

definition all_experiments :: "tracker \<Rightarrow> dict list" where
  "all_experiments t = sort_key (\<lambda>r. (ensure_str (dget r ''ts'') [], ensure_str (dget r ''run_id'') [])) (experiments t)"

definition null_first :: "dict \<Rightarrow> string \<Rightarrow> nat \<times> string" where
  "null_first r c = (case dget r c of VStr s \<Rightarrow> (1, s) | _ \<Rightarrow> (0, []))"

definition dead_end_order :: "dict \<Rightarrow> (nat \<times> string) \<times> nat \<times> string" where
  "dead_end_order r = (null_first r ''pr_set_id'', null_first r ''lever'')"

text \<open>The metrics of the proven run in \<^verbatim>\<open>STATE.md\<close>.\<close>

definition proven_lines :: "dict \<Rightarrow> string list res" where
  "proven_lines p =
     bindE (pr_set_rung (dget p ''pr_set_id'')) (\<lambda>rung.
     bindE (fmt_ci (dget p ''f1_ci_lo'') (dget p ''f1_ci_hi'')) (\<lambda>f1_ci.
     bindE (fmt_ci (dget p ''recall_ci_lo'') (dget p ''recall_ci_hi'')) (\<lambda>recall_ci.
     Inr [''Current PR set: '' @ shown_or ''n/a'' p ''pr_set_id'' @ '' (rung '' @ rung_cell ''n/a'' rung @ '' PRs)'',
          ''Baseline tag: '' @ shown_or ''n/a'' p ''baseline_tag'' @ '' LOCKED  (run_id: '' @ py_str (dget p ''run_id'') @ '', sha: '' @
            shown_or ''n/a'' p ''git_sha'' @ '')'', [],
          ''| metric | value | 95% CI |'', ''|---|---|---|'',
          bar_row [''F1'', fmt_value 3 (dget p ''f1_mean''), f1_ci], bar_row [''recall'', fmt_value 3 (dget p ''recall_mean''), recall_ci],
          bar_row [''precision'', fmt_value 3 (dget p ''precision_mean''), ''n/a''],
          bar_row [''fp/PR'', fmt_value 2 (dget p ''fp_per_pr_mean''), ''n/a''],
          bar_row [''$/review'', fmt_value 4 (dget p ''cost_mean''), ''n/a''],
          bar_row [''F1 stdev'', fmt_value 3 (dget p ''f1_stdev''), ''(over '' @ shown_or ''n/a'' p ''n_rounds'' @ '' rounds)''],
          [], cost_proxy_note, [],
          ''Last proven win: '' @ shown_or ''n/a'' p ''lever'' @ '' ('' @ py_str (dget p ''verdict'') @ '', '' @ py_str (dget p ''ts'') @ '')''])))"

definition unproven_lines :: "string list" where
  "unproven_lines = [''Phase: A0 complete (the proof machine is built and green).'', [], ''Current baseline: NONE locked yet.'', [],
     ''Next step: A1, lock Baseline@pr5. This is expensive (a full product run over the 5 pilot PRs, N=3 rounds) and is awaiting '' @
     ''conductor go-ahead before any benchmark dollar is spent.'']"

definition dead_end_lines :: "dict list \<Rightarrow> string list" where
  "dead_end_lines dead = (if dead = [] then [''None recorded.'']
     else [''| lever | pr_set | why failed | retry at |'', ''|---|---|---|---|'']
       @ map (\<lambda>d. bar_row [shown_or ''n/a'' d ''lever'', shown_or ''n/a'' d ''pr_set_id'', shown_or ''n/a'' d ''why_failed'',
                         shown_or ''never'' d ''retry_at_pr_set'']) (sort_key dead_end_order dead))"

definition next_action :: "dict option \<Rightarrow> string" where
  "next_action proven = (case proven of
     None \<Rightarrow> ''A1: lock Baseline@pr5 (expensive, awaiting conductor go-ahead), then tag it and iterate one lever at a time.''
   | Some p \<Rightarrow>
       if py_or (dget p ''lever'') (VStr []) = VStr ''baseline'' then
         ''Start A2 (calibration): tune workers/finding-ranker.md, the cheapest proven win (ranker-only, low token cost, averaged '' @
         ''over N rounds via rerank.py). Then apply the 5-gate predicate against this locked baseline. Alternative: ramp '' @
         ''consideration, move to a larger PR rung for a more powered signal once a calibration win is proven.''
       else ''Pick the cheapest-proven-win-first hypothesis that is NOT a known dead-end at this PR set or smaller, make ONE change, '' @
         ''green-gate, measure N rounds, then apply the 5-gate predicate.'')"

definition render_state :: "string \<Rightarrow> tracker \<Rightarrow> dict list \<Rightarrow> string res" where
  "render_state now t dead =
     bindE (case latest_proven t of None \<Rightarrow> Inr unproven_lines | Some p \<Rightarrow> proven_lines p) (\<lambda>baseline.
     Inr (join [newline] ([do_not_edit, ''# Benchmark STATE (YOU ARE HERE)'', [], ''Generated: '' @ now, []] @ baseline
       @ [[], ''## Dead-ends ledger''] @ dead_end_lines dead @ [[], ''## Next action'', next_action (latest_proven t), [],
          ''Total recorded experiments: '' @ show_nat (length (all_experiments t)), []])))"

definition history_row :: "dict \<Rightarrow> string res" where
  "history_row e = bindE (fmt_ci (dget e ''f1_ci_lo'') (dget e ''f1_ci_hi'')) (\<lambda>ci. Inr (bar_row
     [py_str (dget e ''ts''), py_str (dget e ''run_id''), shown_or ''n/a'' e ''pr_set_id'', shown_or ''n/a'' e ''lever'',
      shown_or ''n/a'' e ''verdict'', fmt_value 3 (dget e ''f1_mean''), ci, fmt_value 3 (dget e ''recall_mean''),
      fmt_value 2 (dget e ''fp_per_pr_mean''), fmt_value 4 (dget e ''cost_mean''), shown_or ''n/a'' e ''git_sha'']))"

definition render_history :: "string \<Rightarrow> tracker \<Rightarrow> string res" where
  "render_history now t =
     (let title = [do_not_edit, ''# Benchmark HISTORY'', [], ''Generated: '' @ now, []]; es = all_experiments t in
      if es = [] then Inr (join [newline] (title @ [''No experiments recorded yet.'', []]))
      else bindE (mapE history_row es) (\<lambda>rs. Inr (join [newline] (title
        @ [''| ts | run_id | pr_set | lever | verdict | F1 | F1 CI | recall | fp/PR | $/rev | sha |'',
           ''|---|---|---|---|---|---|---|---|---|---|---|''] @ rs @ [[]]))))"

text \<open>\<^verbatim>\<open>ORDER BY f1 DESC NULLS LAST, tool ASC\<close>; a text in the column is above every number.\<close>

definition f1_order :: "dict \<Rightarrow> (nat \<times> rat) \<times> string" where
  "f1_order m = ((case dget m ''f1'' of
       VNone \<Rightarrow> (4, 0)
     | VInt i \<Rightarrow> (2, - of_int i)
     | VFloat (Fin q) \<Rightarrow> (2, - q)
     | VFloat FPosInf \<Rightarrow> (1, 0)
     | VFloat FNegInf \<Rightarrow> (3, 0)
     | _ \<Rightarrow> (0, 0)), ensure_str (dget m ''tool'') [])"

definition metrics_for :: "tracker \<Rightarrow> string \<Rightarrow> dict list" where
  "metrics_for t run_id = sort_key f1_order (filter (\<lambda>m. dget m ''run_id'' = VStr run_id) (metrics t))"

definition board_row :: "tracker \<Rightarrow> dict \<Rightarrow> string" where
  "board_row t m = (let e = List.find (\<lambda>r. dget r ''run_id'' = dget m ''run_id'') (experiments t);
       tool = dget m ''tool''; star = (if prefix skill_tool_prefix (py_str tool) then '' (skill)'' else []) in
     bar_row [py_str tool @ star, py_str (dget m ''run_id''), (case e of None \<Rightarrow> ''n/a'' | Some r \<Rightarrow> shown_or ''n/a'' r ''pr_set_id''),
       fmt_value 2 (dget m ''recall''), fmt_value 2 (dget m ''precision''), fmt_value 2 (dget m ''f1''),
       fmt_value 2 (dget m ''fp_per_pr''), fmt_value 4 (dget m ''usd_per_review'')])"

definition render_leaderboard :: "string \<Rightarrow> tracker \<Rightarrow> string" where
  "render_leaderboard now t =
     (let title = [do_not_edit, ''# Benchmark LEADERBOARD'', [], ''Generated: '' @ now, []]; ms = sort_key f1_order (metrics t) in
      if ms = [] then join [newline] (title @ [''No tool metrics recorded yet.'', []])
      else join [newline] (title @ [''| tool | run_id | pr_set | recall | precision | F1 | FP/PR | $/review |'',
        ''|---|---|---|---|---|---|---|---|''] @ map (board_row t) ms @ [[]]))"

definition status_line :: "tracker \<Rightarrow> string res" where
  "status_line t = (let n = show_nat (length (all_experiments t)) in case latest_proven t of
     None \<Rightarrow> Inr (''no baseline locked yet; '' @ n @ '' experiment(s) recorded; next: lock Baseline@pr5'')
   | Some p \<Rightarrow>
       bindE (pr_set_rung (dget p ''pr_set_id'')) (\<lambda>rung. bindE (fmt_ci (dget p ''f1_ci_lo'') (dget p ''f1_ci_hi'')) (\<lambda>ci.
       Inr (''baseline '' @ py_str (py_or (dget p ''baseline_tag'') (dget p ''run_id'')) @ '' @ '' @ shown_or ''n/a'' p ''pr_set_id'' @
         '' ('' @ rung_cell ''?'' rung @ '' PRs): F1 '' @ fmt_value 3 (dget p ''f1_mean'') @ '' '' @ ci @ '', recall '' @
         fmt_value 3 (dget p ''recall_mean'') @ '', fp/PR '' @ fmt_value 2 (dget p ''fp_per_pr_mean'') @ ''; '' @ n @
         '' experiment(s) recorded''))))"

text \<open>A view is written with \<^verbatim>\<open>--apply\<close> and printed otherwise: the files written and what is printed.\<close>

definition write_if_apply :: "string \<Rightarrow> string \<Rightarrow> string \<Rightarrow> bool \<Rightarrow> (string \<times> string) list \<times> string" where
  "write_if_apply path name text apply_it =
     (if apply_it then ([(path, text)], nl [''wrote '' @ path])
      else ([], nl [''DRY-RUN (use --apply to write '' @ name @ ''):'' @ [newline], text]))"

subsection \<open>The comparison of two runs\<close>

definition compared :: "string list" where
  "compared = [''f1_mean'', ''recall_mean'', ''precision_mean'', ''fp_per_pr_mean'', ''cost_mean'', ''f1_stdev'']"

definition compare_line :: "dict \<Rightarrow> dict \<Rightarrow> string \<Rightarrow> string res" where
  "compare_line a b k =
     bindE (if dget a k = VNone \<or> dget b k = VNone then Inr VNone
            else bindE (py_float (dget b k)) (\<lambda>y. bindE (py_float (dget a k)) (\<lambda>x. Inr (VFloat (round4 (fsub y x)))))) (\<lambda>delta.
     Inr (fill_right 16 k @ fill_right 22 (fmt_value 3 (dget a k)) @ fill_right 22 (fmt_value 3 (dget b k)) @ fill_right 14 (fmt_value 3 delta)))"

definition cmd_compare :: "string \<Rightarrow> string \<Rightarrow> tracker \<Rightarrow> string res" where
  "cmd_compare run_a run_b t = (case (get_experiment t run_a, get_experiment t run_b) of
     (Some a, Some b) \<Rightarrow> bindE (mapE (compare_line a b) compared) (\<lambda>ls.
        Inr (nl ((fill_right 16 ''metric'' @ fill_right 22 run_a @ fill_right 22 run_b @ fill_right 14 ''delta(b-a)'') # ls)))
   | _ \<Rightarrow> Inl (Raised ''SystemExit''))"

subsection \<open>The ranking adds up\<close>

lemma column_Cons: "sum_list (column c (r # rs)) = (case int_of (dget r c) of None \<Rightarrow> 0 | Some i \<Rightarrow> i) + sum_list (column c rs)"
  by (simp add: column_def List.map_filter_simps split: option.split)

lemma sum_column_groups:
  assumes "finite K" "stage_key ` set rs \<subseteq> K"
  shows "(\<Sum>k\<in>K. sum_list (column c (filter (\<lambda>r. stage_key r = k) rs))) = sum_list (column c rs)"
  using assms(2)
proof (induction rs)
  case Nil
  then show ?case by (simp add: column_def List.map_filter_simps)
next
  case (Cons r rs)
  let ?v = "case int_of (dget r c) of None \<Rightarrow> 0 | Some i \<Rightarrow> i" and ?g = "\<lambda>rs k. sum_list (column c (filter (\<lambda>r. stage_key r = k) rs))"
  have "?g (r # rs) k = (if stage_key r = k then ?v else 0) + ?g rs k" for k by (simp add: column_Cons)
  then have "(\<Sum>k\<in>K. ?g (r # rs) k) = (\<Sum>k\<in>K. if stage_key r = k then ?v else 0) + (\<Sum>k\<in>K. ?g rs k)"
    by (simp add: sum.distrib)
  also have "(\<Sum>k\<in>K. if stage_key r = k then ?v else 0) = ?v" using Cons.prems assms(1) by (simp add: sum.delta')
  finally show ?case using Cons by (simp add: column_Cons)
qed

text \<open>What a column of a group counts for, null as nothing.\<close>

definition or_zero :: "int option \<Rightarrow> int" where
  "or_zero v = (case v of None \<Rightarrow> 0 | Some i \<Rightarrow> i)"

lemma or_zero_sum: "or_zero (sum_column c rs) = sum_list (column c rs)"
  by (auto simp: or_zero_def sum_column_def)

lemma sum_sort_key: "sum_list (map f (sort_key g xs)) = sum_list (map f xs)" for f :: "'a \<Rightarrow> int"
  by (metis mset_map mset_sort sum_mset_sum_list)

lemma sum_ranked:
  assumes "\<And>k. f (slow_row_of rs k) = sum_list (column c (filter (\<lambda>r. stage_key r = k) rs))"
  shows "sum_list (map f (ranked_stages rs)) = sum_list (column c rs)"
proof -
  have "sum_list (map f (ranked_stages rs))
      = sum_list (map (\<lambda>k. sum_list (column c (filter (\<lambda>r. stage_key r = k) rs))) (remdups (map stage_key rs)))"
    by (simp add: ranked_stages_def sum_sort_key comp_def assms)
  also have "\<dots> = (\<Sum>k\<in>stage_key ` set rs. sum_list (column c (filter (\<lambda>r. stage_key r = k) rs)))"
    by (simp add: sum_list_distinct_conv_sum_set)
  finally show ?thesis by (simp add: sum_column_groups)
qed

lemma stages_distinct: "distinct (map (\<lambda>r. (sl_scope r, sl_name r)) (ranked_stages rs))"
proof -
  have "map (\<lambda>r. (sl_scope r, sl_name r)) (map (slow_row_of rs) ks) = ks" for ks
    by (induction ks) (simp_all add: slow_row_of_def Let_def)
  then have "distinct (map (\<lambda>r. (sl_scope r, sl_name r)) (map (slow_row_of rs) (remdups (map stage_key rs))))" by simp
  then show ?thesis unfolding ranked_stages_def by (metis distinct_map distinct_sort set_sort)
qed

text \<open>
  The ranking of the slowest stages adds up. Without a limit, each pair of scope and name of the
  selected rows stands in it once, and its totals and its calls sum to those of the selected rows; with
  a limit, what is shown is as many of these, none of them behind one that is left out.
\<close>

theorem slowest_adds_up:
  fixes timings scope run_id measured_only most
  defines "selected \<equiv> filter (timing_selected scope run_id measured_only) timings"
    and "every \<equiv> slowest_timings scope run_id measured_only (- 1) timings"
    and "shown \<equiv> slowest_timings scope run_id measured_only most timings"
  assumes "0 \<le> most"
  shows "distinct (map (\<lambda>r. (sl_scope r, sl_name r)) every)
    \<and> sum_list (map (or_zero \<circ> sl_total) every) = sum_list (column ''wall_ms'' selected)
    \<and> sum_list (map (or_zero \<circ> sl_calls) every) = sum_list (column ''n_calls'' selected)
    \<and> length shown = min (nat most) (length every)
    \<and> (\<forall>r\<in>set shown. \<forall>s\<in>set every - set shown. or_zero (sl_total s) \<le> or_zero (sl_total r) \<or> sl_total s = None)"
proof -
  have every: "every = ranked_stages selected" and shown: "shown = take (nat most) every"
    using assms(4) by (simp_all add: every_def shown_def selected_def slowest_timings_def Let_def)
  have sums: "sum_list (map (or_zero \<circ> sl_total) every) = sum_list (column ''wall_ms'' selected)"
      "sum_list (map (or_zero \<circ> sl_calls) every) = sum_list (column ''n_calls'' selected)"
    unfolding every by (rule sum_ranked; simp add: slow_row_of_def Let_def or_zero_sum)+
  have "sorted (map slow_order every)" unfolding every ranked_stages_def by (rule sorted_sort_key)
  then have "sorted (map slow_order (take (nat most) every) @ map slow_order (drop (nat most) every))"
    by (simp flip: map_append)
  then have ordered: "slow_order r \<le> slow_order s" if "r \<in> set shown" "s \<in> set (drop (nat most) every)" for r s
    using that unfolding sorted_append shown by auto
  have "or_zero (sl_total s) \<le> or_zero (sl_total r) \<or> sl_total s = None" if "r \<in> set shown" "s \<in> set every - set shown" for r s
  proof -
    have "s \<in> set (drop (nat most) every)"
      using that(2) unfolding shown by (metis DiffE UnE append_take_drop_id set_append)
    from ordered [OF that(1) this] show ?thesis
      by (cases "sl_total r"; cases "sl_total s") (auto simp: slow_order_def or_zero_def less_eq_prod_def)
  qed
  then show ?thesis using stages_distinct [of selected] sums by (simp add: every shown)
qed

definition two_timings :: "dict list" where
  "two_timings = map (\<lambda>(n, ms). [(''run_id'', VStr ''r''), (''pr_id'', VStr ''p''), (''scope'', VStr ''stage''), (''name'', VStr n),
     (''wall_ms'', VInt ms), (''n_calls'', VInt 1), (''status'', VStr ''measured'')]) [(''scan'', 5), (''rank'', 9), (''scan'', 2)]"

theorem slowest_adds_up_witness:
  "sum_list (map (or_zero \<circ> sl_total) (slowest_timings [] [] True (- 1) two_timings)) = 16
     \<and> length (slowest_timings [] [] True 1 two_timings) = 1"
proof -
  have "column ''wall_ms'' (filter (timing_selected [] [] True) two_timings) = [5, 9, 2]" by code_simp
  moreover have "length (slowest_timings [] [] True (- 1) two_timings) = 2" by code_simp
  ultimately show ?thesis using slowest_adds_up [of 1 "[]" "[]" True two_timings] by simp
qed

subsection \<open>The guard remembers\<close>

lemma check_known:
  assumes "List.find (\<lambda>r. dget r ''hypothesis_hash'' = VStr (hypothesis_hash h l)) ledger = Some d"
    and "pr_set_rung v = Inr c" "pr_set_rung (dget d ''pr_set_id'') = Inr k"
  shows "\<exists>out. cmd_check h l v ledger = Inr (out, 1) \<and> (prefix ''WARNING'' out \<longleftrightarrow> known_here c k)"
proof (cases "known_here c k")
  case True
  then show ?thesis using assms by (simp add: cmd_check_def Let_def nl_def)
next
  case False
  then show ?thesis using assms by (simp add: cmd_check_def Let_def nl_def)
qed

lemma known_here_iff: "known_here c k \<longleftrightarrow> (\<forall>a b. c = Some a \<and> k = Some b \<longrightarrow> b \<le> a)"
  by (auto simp: known_here_def split: option.splits)

text \<open>
  The guard finds what the ledger was told. Once a dead end is recorded under the hash of a
  hypothesis and a lever, \<^verbatim>\<open>check\<close> of any spelling of the two with the same words, whatever the case
  and the white space, exits with 1, with a warning exactly where the failure was at the current
  set of pull requests or a smaller one, or one of the two is unknown; and the answer for every
  other hash is what it was.
\<close>

theorem guard_remembers:
  assumes "upsert_dead_end row ledger = Inr ledger'"
    and "dget row ''hypothesis_hash'' = VStr (hypothesis_hash h l)" "dget row ''pr_set_id'' = VStr known"
    and "words (lower h') = words (lower h)" "words (lower l') = words (lower l)"
    and "\<forall>r\<in>set ledger. dget r ''hypothesis_hash'' \<noteq> VNone"
  shows "(\<exists>out. cmd_check h' l' (VStr current) ledger' = Inr (out, 1) \<and>
      (prefix ''WARNING'' out \<longleftrightarrow> (\<forall>c k. pr_set_rung (VStr current) = Inr (Some c) \<and> pr_set_rung (VStr known) = Inr (Some k) \<longrightarrow> k \<le> c)))
    \<and> (\<forall>g m v. hypothesis_hash g m \<noteq> hypothesis_hash h l \<longrightarrow> cmd_check g m v ledger' = cmd_check g m v ledger)"
proof -
  let ?new = "stored_row (map (\<lambda>c. (c, dget row c)) dead_end_columns)"
  have new: "dget ?new ''hypothesis_hash'' = VStr (hypothesis_hash h l)" "dget ?new ''pr_set_id'' = VStr known"
    using assms(2,3) by (simp_all add: dead_end_columns_def stored_def)
  have ledger': "ledger' = filter (\<lambda>r. dget r ''hypothesis_hash'' \<noteq> VStr (hypothesis_hash h l)) ledger @ [?new]"
  proof -
    have "ledger' = filter (\<lambda>r. dget r ''hypothesis_hash'' \<noteq> dget ?new ''hypothesis_hash'' \<or> dget r ''hypothesis_hash'' = VNone) ledger @ [?new]"
      using assms(1) by (auto simp: upsert_dead_end_def insert_row_def Let_def split: if_splits)
    also have "\<dots> = filter (\<lambda>r. dget r ''hypothesis_hash'' \<noteq> VStr (hypothesis_hash h l)) ledger @ [?new]"
      unfolding new(1) using assms(6) by (auto intro: filter_cong)
    finally show ?thesis .
  qed
  have same: "hypothesis_hash h' l' = hypothesis_hash h l" by (simp add: hypothesis_hash_def normal_text_def assms(4,5))
  have "List.find (\<lambda>r. dget r ''hypothesis_hash'' = VStr (hypothesis_hash h' l')) ledger' = Some ?new"
    unfolding same ledger' using new(1) by (induction ledger) auto
  moreover obtain c k where rungs: "pr_set_rung (VStr current) = Inr c" "pr_set_rung (VStr known) = Inr k"
    by (simp add: pr_set_rung_def Let_def)
  ultimately have checked: "\<exists>out. cmd_check h' l' (VStr current) ledger' = Inr (out, 1) \<and> (prefix ''WARNING'' out \<longleftrightarrow> known_here c k)"
    using check_known [of h' l' ledger' ?new "VStr current" c k] by (simp only: new(2))
  have "List.find (\<lambda>r. dget r ''hypothesis_hash'' = VStr x) ledger' = List.find (\<lambda>r. dget r ''hypothesis_hash'' = VStr x) ledger"
    if "x \<noteq> hypothesis_hash h l" for x
    unfolding ledger' using new(1) that by (induction ledger) auto
  then show ?thesis using checked by (simp add: cmd_check_def Let_def rungs known_here_iff)
qed

definition dead_row :: dict where
  "dead_row = [(''hypothesis_hash'', VStr (hypothesis_hash ''Trim harder'' ''ranker'')), (''lever'', VStr ''ranker''), (''pr_set_id'', VStr ''pr5'')]"

theorem guard_remembers_witness:
  "\<exists>ledger out. upsert_dead_end dead_row [] = Inr ledger
     \<and> cmd_check ''trim   HARDER'' ''Ranker '' (VStr ''pr10'') ledger = Inr (out, 1) \<and> prefix ''WARNING'' out"
proof -
  have row: "dget dead_row ''hypothesis_hash'' = VStr (hypothesis_hash ''Trim harder'' ''ranker'')" "dget dead_row ''pr_set_id'' = VStr ''pr5''"
    by (simp_all add: dead_row_def)
  obtain ledger where ledger: "upsert_dead_end dead_row [] = Inr ledger"
    by (simp add: upsert_dead_end_def insert_row_def dead_end_columns_def dead_row_def Let_def bind_error_def is_dict_def is_list_def)
  have same: "words (lower ''trim   HARDER'') = words (lower ''Trim harder'')" "words (lower ''Ranker '') = words (lower ''ranker'')" by code_simp+
  have rungs: "pr_set_rung (VStr ''pr10'') = Inr (Some 10)" "pr_set_rung (VStr ''pr5'') = Inr (Some 5)" by code_simp+
  obtain out where "cmd_check ''trim   HARDER'' ''Ranker '' (VStr ''pr10'') ledger = Inr (out, 1)" "prefix ''WARNING'' out"
    using guard_remembers [OF ledger row same, of "''pr10''"] by (auto simp: rungs)
  with ledger show ?thesis by blast
qed

text \<open>
  No command of the tracker writes the ledger of dead ends, so as long as only its commands are used
  the guard lets every hypothesis through.
\<close>

lemma empty_ledger_silent: "\<exists>out. cmd_check h l v [] = Inr (out, 0)"
  by (simp add: cmd_check_def Let_def)

end
