(* ===== verification/Spec2Isabelle.thy ===== *)
theory Spec2Isabelle
  imports RiskTier Activation Planner Merger Coverage Gates Collect Fsm Cost Limiter Review Dispatch
    Dispatch_Refinement Contracts EmitStdout Panel Dispatchers Wiki Telemetry Promotion Tracker
    Judging Authoring Layout CommandLine Ledger
begin

text \<open>
  The code-review skill, \<^verbatim>\<open>code_review/\<close> of the repository, is a pipeline that reviews a change
  with many language-model calls and a deterministic skeleton around them. A state machine
  (\<^verbatim>\<open>spec.py\<close>) runs inline handlers (\<^verbatim>\<open>handlers.py\<close>), model workers and one loop state whose body
  sends a unit of work (a reviewer leaf and some files) to a specialist; the runner (\<^verbatim>\<open>runner.py\<close>)
  drives it, retries and splits failing calls, and paces them with an adaptive limiter. This
  library models that skeleton and shows what it promises: no file and no output is lost on the way
  from the plan to the verdict, every loop ends, and the verdict is what the gates say.

  \<^bold>\<open>How the parts fit.\<close> The environment of a run is a Python dictionary that every state
  extends with its outputs; the theories share it as the type \<open>dict\<close> of theory \<open>PyValue\<close>. The
  handlers are functions from the environment to a result, \<open>pyerr + dict\<close>, an exception of the
  source being a value \<open>Inl\<close>. \<open>Fsm\<close> holds the states that name them, \<open>Review\<close> the loop that calls
  them in turn, \<open>Runner\<close> the dispatch of one batch of units, \<open>Limiter\<close> the threads underneath.

  \<^bold>\<open>The theories, by the code they model.\<close>

  \<^item> \<open>Prelude\<close>: results as sums (\<open>bindE\<close>, \<open>mapE\<close>, \<open>foldE\<close>), association lists with the
    insertion order of a dictionary, strings as UTF-8 bytes, the named collections of simplification
    rules, and the locale \<open>terminating_system\<close>, a step relation with an invariant and a measure,
    whose lemmas bound its runs.
  \<^item> \<open>PyValue\<close>: the JSON-like values of Python, their truth, conversion and comparison, and the
    coercion helpers \<^verbatim>\<open>_ensure_*\<close> at the top of \<^verbatim>\<open>handlers.py\<close>. Floats are exact rationals with NaN
    and the infinities. \<open>Json\<close> is the printer \<^verbatim>\<open>json.dumps\<close> as the handlers use it, \<open>JsonParse\<close> the
    reader \<^verbatim>\<open>json.loads\<close>, and \<open>JsonRoundtrip\<close> shows that what is printed is read back.
  \<^item> \<open>RiskTier\<close>, \<open>Regex\<close> and \<open>Glob\<close> with \<open>Activation\<close>, \<open>Planner\<close>, \<open>Merger\<close> with \<open>Sharding\<close>,
    \<open>UnionFind\<close> with \<open>Collect\<close>, \<open>Coverage\<close>, \<open>Gates\<close>: the handlers of \<^verbatim>\<open>handlers.py\<close> in the order of the
    pipeline: triage, leaf activation, planning of batches, the fold of the specialists' outputs,
    the collection and grouping of findings, the coverage matrix, the gates and the verdict, the short
    exits and the impasse of a verifier. Each theory has the helpers in the order of the file,
    then the handler, then its lemmas and properties.
  \<^item> \<open>Report\<close>, \<open>Markdown\<close> and \<open>RunDirectory\<close>, \<open>EmitStdout\<close>: the last two handlers, which turn the
    environment into the payload of a report, its two texts, the manifest and the timings, write them,
    and print the report again, filtered. What is written is the list of the writes in
    order; what is printed is the pair of standard output and standard error.
  \<^item> \<open>Fsm\<close>: the nineteen states of \<^verbatim>\<open>spec.py\<close> as data (kinds, inputs, transitions, response
    schemas), schema conformance as the function \<open>conforms\<close>, and the runs over the declared transitions.
  \<^item> \<open>Cost\<close>: \<^verbatim>\<open>cost.py\<close>. \<open>Dispatch\<close>: what \<^verbatim>\<open>dispatch.py\<close> computes on either side of a model call,
    \<open>Backends\<close> its command lines, the outcome of a process and the JSON object of an answer, and
    \<open>Dispatchers\<close> the two hooks that \<^verbatim>\<open>make_dispatchers\<close> builds for the runner.
  \<^item> \<open>Panel\<close>: \<^verbatim>\<open>verifier_handler.py\<close>, the votes of a verifier panel.
  \<^item> \<open>Limiter\<close>: \<^verbatim>\<open>_AdaptiveLimiter\<close> and the worker threads of \<^verbatim>\<open>_dispatch_units\<close> as the step relation
    \<open>pool_step\<close>, one step for each critical section under the limiter's lock. \<open>Runner\<close>: the same code as
    functions (\<open>dispatch_one\<close>, \<open>dispatch_units\<close>), with retries, overflow split, cost roll-up and the
    coverage floor. \<open>Dispatch_Refinement\<close> shows that every run of the function is a run of a
    worker of the relation. \<open>Review\<close>: \<^verbatim>\<open>run_review\<close>.
  \<^item> \<open>Wiki\<close>: the walks of \<^verbatim>\<open>handlers.py\<close> over the directory of reviewer leaves, as a loop with a stack and a
    visited set, and the cache of a leaf's globs.
  \<^item> \<open>Telemetry\<close>: \<^verbatim>\<open>scripts/ingest_timings.py\<close>, from the timing files of runs to the rows of the tracker's
    table. \<open>Promotion\<close>: the metrics, intervals and gates of \<^verbatim>\<open>scripts/stats.py\<close>. \<open>Tracker\<close>:
    \<^verbatim>\<open>benchmarks/experiments.py\<close>, its tables, the gate over summary statistics and the commands that
    change the tables, run in sequence by \<open>history\<close>; \<open>Ledger\<close> its read-only half, the guard of dead
    ends, the slowest stages and the Markdown views. \<open>Judging\<close>: the scripts between a report and the tracker,
    \<^verbatim>\<open>build_judge_input_prod.py\<close>, \<^verbatim>\<open>ingest_verdicts.py\<close> and \<^verbatim>\<open>score.py\<close> with the paths of
    \<^verbatim>\<open>scripts/paths.py\<close>, and the paired tests of \<^verbatim>\<open>stats.py\<close>.
  \<^item> \<open>Authoring\<close>: the scripts that edit the frontmatter of the reviewer leaves (\<^verbatim>\<open>derive_v2.py\<close>,
    \<^verbatim>\<open>make_dims_batches.py\<close>, \<^verbatim>\<open>apply_dimensions.py\<close>, \<^verbatim>\<open>fix_broad_globs.py\<close>, \<^verbatim>\<open>reconstruct_src.py\<close>,
    \<^verbatim>\<open>roundtrip_diff.py\<close>). \<open>Layout\<close>: the contract of their tree (\<^verbatim>\<open>validate_layout.py\<close>), the move of the
    leaves into folders (\<^verbatim>\<open>shard_src.py\<close>) and the drift check (\<^verbatim>\<open>check_wiki_drift.py\<close>). Leaves are
    records of path, frontmatter and body; a tree of files is an association list.
  \<^item> \<open>CommandLine\<close>: \<^verbatim>\<open>cli.py\<close>, which puts the hooks of \<open>Dispatchers\<close> into the loop of \<open>Review\<close> and prints the
    summary, \<^verbatim>\<open>install.py\<close>, and the table \<^verbatim>\<open>INLINE_HANDLERS\<close> with all twelve handlers of the model.
  \<^item> \<open>Contracts\<close>: the outputs of the inline handlers against the schemas their states declare.

  \<^bold>\<open>What the lemmas show.\<close> For the data flow: the planner's units partition the files of each
  leaf and its batches partition the units; the pool settles every file it was given exactly once,
  whatever the interleaving; the merger refuses a loop that left a batch or a unit out and accepts
  and keeps every output of one that did not; the coverage floor keeps a leaf for each file where
  one is available; collection groups findings as the connected components of the similarity
  relation. For control: activation reaches the least fixed point, the pool and the retry loops
  end with a bound on the calls, a run over the declared transitions ends and finds each input it
  reads, and \<^verbatim>\<open>run_review\<close> returns with one of its outcomes. For the verdict: it is GO exactly when
  no gate fails and coverage holds. For what leaves the run: every finding is in the report, the report,
  the manifest and the timings are written completely or not at all, what is printed with a filter
  is the report of the run less the findings below the threshold, the summary of the command reads
  back as the result of the run, a panel never passes on an answer that
  it cannot read, and an agent's JSON object is found in the text around it. For the measurements
  beside it: the count of the reviewers returns and counts each directory once, a candidate is
  promoted only with a real progress, and a run is proven only by an applied gate that was green; the
  labels of the judge reach the findings they were given for, and the leaderboard shows the point estimates
  of the statistics. For the reviewer leaves: the authoring scripts produce what the layout contract asks
  for, the reconstruction of the source is lossless, the move into folders keeps every leaf, and
  exit code 0 of the layout check is characterised.

  \<^bold>\<open>Interfaces.\<close> The locale \<open>terminating_system\<close> is interpreted on the pool's steps (\<open>pool\<close>),
  on the transitions of the specification (\<open>pipeline\<close>) and on the turns of the review (\<open>review\<close>); their
  termination and invariant properties rest on its facts.

  \<^bold>\<open>Bounds.\<close> Escalation is given one round more than there are leaves, and each round but the last
  adds one. The trim loop of the merger is structural on what it can still drop. The triage and
  floor loops are folds. Runs of the specification are at most 15 states long without, and 79 with, the
  impasse of the verifiers; \<^verbatim>\<open>run_review\<close> has the 512 turns of \<^verbatim>\<open>_MAX_STEPS\<close>. A unit with n files and R
  retries makes at most (2n - 1)(R + 1) calls. Recursion on a unit is on a measure of its
  files and attempts. The JSON reader has twice the length of its text and one as fuel, and lemma
  \<open>json_loads_fuel\<close> shows that more changes nothing.

  \<^bold>\<open>Parameters.\<close> Code outside the repository is an argument: the workflow engine (\<^verbatim>\<open>ctxr-fsm\<close>), the
  language model and its backends, git, the file system, the embedding command, the clock, the
  working directory, the kind of the terminal, the directory tree of the wiki with its resolved entries, the processes and SDKs
  of the backends, the judge and the benchmark's index, the tests of scipy and statsmodels, the random draws and quantiles of
  numpy, the YAML printer, the rebuild of the wiki, the texts of prompts and leaves, the message of a JSON decoding error and the
  regular-expression and YAML readers of leaf files where a handler is given their result. The
  hypotheses of a property about them state documented behaviour, and its witness runs them on a
  concrete function.

  \<^bold>\<open>Not modelled.\<close> The prompts, workers and reviewer leaves, which are text; the parser of arguments and the
  resolution of hooks from environment variables; opening and migrating the tracker's database;
  \<^verbatim>\<open>migrate_tmp.py\<close>, \<^verbatim>\<open>setup_repo.py\<close> and \<^verbatim>\<open>rerank.py\<close> under \<^verbatim>\<open>scripts/\<close>, and what the scripts there print. Of
  SQLite, the column affinities are not modelled. Python's recursion limit, its limit on the
  digits of an integer, memory and rounding of floats are not modelled, and case mapping is ASCII.
\<close>

end
